(* ===== verification/Prelude.thy ===== *)
theory Prelude
  imports Main
begin

text \<open>
  Shared vocabulary of the development: the result type of fallible Rust code, the
  unsigned integer operations of the Rust standard library, the vector operations the
  sources use, and the generic facts about them.

  A Rust function that can fail is a function into \<open>('e, 'a) result\<close>. An error value
  of the source (\<open>Err e\<close>) is \<open>Inl (Err e)\<close>; a panic (a failed \<open>expect\<close>, an
  overflowing \<open>+\<close>, an index out of range) is \<open>Inl (Panic msg)\<close>, so that ``does not
  panic'' is a statement about the model. Unsigned 64-bit integers are \<open>nat\<close> with the
  bound \<open>u64_max\<close> written out in every operation that can reach it.
\<close>

section \<open>Results\<close>

datatype 'e fault = Err 'e | Panic string

type_synonym ('e, 'a) result = "'e fault + 'a"

definition bind_r :: "('e, 'a) result \<Rightarrow> ('a \<Rightarrow> ('e, 'b) result) \<Rightarrow> ('e, 'b) result" where
  "bind_r m f = (case m of Inl e \<Rightarrow> Inl e | Inr x \<Rightarrow> f x)"

text \<open>\<open>Result::map_err\<close>, also what the \<open>?\<close> operator does through \<open>From\<close>.\<close>

definition map_err :: "('e \<Rightarrow> 'f) \<Rightarrow> ('e, 'a) result \<Rightarrow> ('f, 'a) result" where
  "map_err f m = (case m of
      Inl (Err e) \<Rightarrow> Inl (Err (f e))
    | Inl (Panic s) \<Rightarrow> Inl (Panic s)
    | Inr x \<Rightarrow> Inr x)"

text \<open>\<open>Result::expect\<close>: an error becomes a panic.\<close>

definition expect_r :: "string \<Rightarrow> ('e, 'a) result \<Rightarrow> ('f, 'a) result" where
  "expect_r msg m = (case m of
      Inl (Err e) \<Rightarrow> Inl (Panic msg)
    | Inl (Panic s) \<Rightarrow> Inl (Panic s)
    | Inr x \<Rightarrow> Inr x)"

definition ok_or :: "'e \<Rightarrow> 'a option \<Rightarrow> ('e, 'a) result" where
  "ok_or e v = (case v of None \<Rightarrow> Inl (Err e) | Some x \<Rightarrow> Inr x)"

definition is_ok :: "('e, 'a) result \<Rightarrow> bool" where
  "is_ok m = (case m of Inl _ \<Rightarrow> False | Inr _ \<Rightarrow> True)"

definition panics :: "('e, 'a) result \<Rightarrow> bool" where
  "panics m = (case m of Inl (Panic _) \<Rightarrow> True | _ \<Rightarrow> False)"

text \<open>A loop over a list whose body can fail: it stops at the first fault.\<close>

fun fold_r :: "('x \<Rightarrow> 's \<Rightarrow> ('e, 's) result) \<Rightarrow> 'x list \<Rightarrow> 's \<Rightarrow> ('e, 's) result" where
  "fold_r f [] s = Inr s"
| "fold_r f (x # xs) s = bind_r (f x s) (fold_r f xs)"

text \<open>Collecting an iterator of results: the values, or the first fault.\<close>

fun collect_r :: "('a \<Rightarrow> ('e, 'b) result) \<Rightarrow> 'a list \<Rightarrow> ('e, 'b list) result" where
  "collect_r f [] = Inr []"
| "collect_r f (x # xs) = bind_r (f x) (\<lambda>y. bind_r (collect_r f xs) (\<lambda>ys. Inr (y # ys)))"

named_theorems result_simps \<open>equations of the result combinators\<close>

lemma bind_r_simps [simp, result_simps]:
  "bind_r (Inl e) f = Inl e"
  "bind_r (Inr x) f = f x"
  by (simp_all add: bind_r_def)

lemma map_err_simps [simp, result_simps]:
  "map_err g (Inl (Err e)) = Inl (Err (g e))"
  "map_err g (Inl (Panic s)) = Inl (Panic s)"
  "map_err g (Inr x) = Inr x"
  by (simp_all add: map_err_def)

lemma expect_r_simps [simp, result_simps]:
  "expect_r m (Inl (Err e)) = Inl (Panic m)"
  "expect_r m (Inl (Panic s)) = Inl (Panic s)"
  "expect_r m (Inr x) = Inr x"
  by (simp_all add: expect_r_def)

lemma ok_or_simps [simp, result_simps]:
  "ok_or e None = Inl (Err e)"
  "ok_or e (Some x) = Inr x"
  by (simp_all add: ok_or_def)

lemma is_ok_simps [simp]: "is_ok (Inr x)" "\<not> is_ok (Inl f)"
  by (simp_all add: is_ok_def)

lemma panics_simps [simp]:
  "panics (Inl (Panic s))" "\<not> panics (Inl (Err e))" "\<not> panics (Inr x)"
  by (simp_all add: panics_def)

lemma bind_r_Inr_iff: "bind_r m f = Inr y \<longleftrightarrow> (\<exists>x. m = Inr x \<and> f x = Inr y)"
  by (cases m) auto

lemma bind_r_InrE [elim!]:
  assumes "bind_r m f = Inr y"
  obtains x where "m = Inr x" "f x = Inr y"
  using assms by (auto simp: bind_r_Inr_iff)

lemma map_err_Inr_iff [simp]: "map_err g m = Inr x \<longleftrightarrow> m = Inr x"
  by (cases m) (auto simp: map_err_def split: fault.splits)

lemma expect_r_Inr_iff [simp]: "expect_r s m = Inr x \<longleftrightarrow> m = Inr x"
  by (cases m) (auto simp: expect_r_def split: fault.splits)

lemma ok_or_Inr_iff [simp]: "ok_or e v = Inr x \<longleftrightarrow> v = Some x"
  by (cases v) auto

lemma fold_r_append: "fold_r f (xs @ ys) s = bind_r (fold_r f xs s) (fold_r f ys)"
  by (induction xs arbitrary: s) (auto simp: bind_r_def split: sum.splits)

lemma collect_r_map: "\<forall>x \<in> set xs. f (g x) = Inr x \<Longrightarrow> collect_r f (map g xs) = Inr xs"
  by (induction xs) auto

lemma collect_r_Inr_iff: "collect_r f xs = Inr ys \<longleftrightarrow> list_all2 (\<lambda>x y. f x = Inr y) xs ys"
  by (induction xs arbitrary: ys) (auto simp: bind_r_Inr_iff list_all2_Cons1)

text \<open>The loop rule: an invariant indexed by what has been consumed, kept by every step
  that is taken, holds at the end, and the loop returns.\<close>

lemma fold_r_invariant:
  assumes "P [] s"
    and "\<And>ys x zs t. xs = ys @ x # zs \<Longrightarrow> P ys t \<Longrightarrow> \<exists>u. f x t = Inr u \<and> P (ys @ [x]) u"
  shows "\<exists>t. fold_r f xs s = Inr t \<and> P xs t"
  using assms
proof (induction xs rule: rev_induct)
  case Nil
  then show ?case by simp
next
  case (snoc x xs)
  have "\<exists>t. fold_r f xs s = Inr t \<and> P xs t"
  proof (rule snoc.IH)
    show "P [] s" by (rule snoc.prems(1))
  next
    fix ys y zs t
    assume "xs = ys @ y # zs" and "P ys t"
    then show "\<exists>u. f y t = Inr u \<and> P (ys @ [y]) u"
      by (intro snoc.prems(2) [where zs = "zs @ [x]"]) simp_all
  qed
  then obtain t where t: "fold_r f xs s = Inr t" "P xs t" by blast
  with snoc.prems(2) [of xs x "[]" t] obtain u where "f x t = Inr u" "P (xs @ [x]) u" by auto
  with t show ?case by (simp add: fold_r_append)
qed

section \<open>Unsigned integers\<close>

definition u64_max :: nat where
  "u64_max = 18446744073709551615"

definition add_u64 :: "nat \<Rightarrow> nat \<Rightarrow> ('e, nat) result" where
  "add_u64 a b = (if a + b \<le> u64_max then Inr (a + b)
                  else Inl (Panic ''attempt to add with overflow''))"

definition sub_u64 :: "nat \<Rightarrow> nat \<Rightarrow> ('e, nat) result" where
  "sub_u64 a b = (if b \<le> a then Inr (a - b)
                  else Inl (Panic ''attempt to subtract with overflow''))"

definition saturating_sub :: "nat \<Rightarrow> nat \<Rightarrow> nat" where
  "saturating_sub a b = a - b"

definition saturating_add :: "nat \<Rightarrow> nat \<Rightarrow> nat" where
  "saturating_add a b = min u64_max (a + b)"

definition checked_add :: "nat \<Rightarrow> nat \<Rightarrow> nat option" where
  "checked_add a b = (if a + b \<le> u64_max then Some (a + b) else None)"

definition checked_sub :: "nat \<Rightarrow> nat \<Rightarrow> nat option" where
  "checked_sub a b = (if b \<le> a then Some (a - b) else None)"

lemma u64_max_pos [simp]: "0 < u64_max" "1 \<le> u64_max" "Suc 0 \<le> u64_max"
  by (simp_all add: u64_max_def)

lemma add_u64_ok [simp]: "a + b \<le> u64_max \<Longrightarrow> add_u64 a b = Inr (a + b)"
  by (simp add: add_u64_def)

lemma sub_u64_ok [simp]: "b \<le> a \<Longrightarrow> sub_u64 a b = Inr (a - b)"
  by (simp add: sub_u64_def)

lemma add_u64_Inr_iff: "add_u64 a b = Inr c \<longleftrightarrow> c = a + b \<and> a + b \<le> u64_max"
  by (auto simp: add_u64_def)

section \<open>Vectors\<close>

definition vec_get :: "'a list \<Rightarrow> nat \<Rightarrow> ('e, 'a) result" where
  "vec_get xs i = (if i < length xs then Inr (xs ! i) else Inl (Panic ''index out of bounds''))"

text \<open>\<open>drain(a..=b)\<close>: the vector without the range, and the elements taken out.\<close>

definition vec_drain :: "nat \<Rightarrow> nat \<Rightarrow> 'a list \<Rightarrow> ('e, 'a list \<times> 'a list) result" where
  "vec_drain a b xs = (if a \<le> Suc b \<and> b < length xs
     then Inr (take a xs @ drop (Suc b) xs, drop a (take (Suc b) xs))
     else Inl (Panic ''range out of bounds''))"

definition vec_insert :: "nat \<Rightarrow> 'a \<Rightarrow> 'a list \<Rightarrow> ('e, 'a list) result" where
  "vec_insert i x xs = (if i \<le> length xs then Inr (take i xs @ x # drop i xs)
     else Inl (Panic ''index exceeds length''))"

definition vec_first :: "'a list \<Rightarrow> 'a option" where
  "vec_first xs = (case xs of [] \<Rightarrow> None | x # _ \<Rightarrow> Some x)"

definition vec_last :: "'a list \<Rightarrow> 'a option" where
  "vec_last xs = (if xs = [] then None else Some (last xs))"

lemma vec_first_simps [simp]: "vec_first [] = None" "vec_first (x # xs) = Some x"
  by (simp_all add: vec_first_def)

lemma vec_last_simps [simp]: "vec_last [] = None" "vec_last (xs @ [x]) = Some x"
  by (simp_all add: vec_last_def)

lemma vec_get_append [simp]: "vec_get (xs @ y # ys) (length xs) = Inr y"
  by (simp add: vec_get_def)

lemma vec_get_middle_hd [simp]: "ms \<noteq> [] \<Longrightarrow> vec_get (ls @ ms @ hs) (length ls) = Inr (hd ms)"
  by (cases ms) (auto simp: vec_get_def)

lemma vec_first_nonempty [simp]: "xs \<noteq> [] \<Longrightarrow> vec_first xs = Some (hd xs)"
  by (cases xs) auto

lemma vec_last_nonempty [simp]: "xs \<noteq> [] \<Longrightarrow> vec_last xs = Some (last xs)"
  by (simp add: vec_last_def)

lemma vec_get_middle_last [simp]:
  "ms \<noteq> [] \<Longrightarrow> vec_get (ls @ ms @ hs) (length ls + length ms - Suc 0) = Inr (last ms)"
  by (cases ms rule: rev_cases) (auto simp: vec_get_def nth_append)

lemma vec_drain_middle [simp]:
  "ms \<noteq> [] \<Longrightarrow>
   vec_drain (length ls) (length ls + length ms - Suc 0) (ls @ ms @ hs) = Inr (ls @ hs, ms)"
  by (cases ms) (auto simp: vec_drain_def)

lemma vec_insert_append [simp]: "vec_insert (length ls) x (ls @ hs) = Inr (ls @ x # hs)"
  by (simp add: vec_insert_def)

end
