(* ===== verification/Block_Ranges.thy ===== *)
theory Block_Ranges
  imports Prelude
begin

text \<open>
  \<open>BlockRanges\<close> of \<open>node/src/block_ranges.rs\<close>: the sorted list of inclusive height
  ranges in which the node records what it has stored, sampled, pruned or queued. The
  definitions follow the source one by one; \<open>heights\<close> is the set of heights a list of
  ranges stands for, \<open>br_wf\<close> the invariant of the type, and every operation is shown
  to compute the set operation it is named after, to keep the invariant and not to
  panic. The file's debug assertions (that the operands of the comparisons are valid
  ranges) are hypotheses \<open>range_ok\<close> of the corresponding lemmas.
\<close>

section \<open>Ranges\<close>

datatype block_range = Rng (rstart: nat) (rend: nat)

type_synonym block_ranges = "block_range list"

datatype block_ranges_error =
    UnsortedBlockRanges
  | InvalidBlockRange block_range
  | BlockRangeOverlap block_range block_range
  | NoAdjacentNeighbors block_range

text \<open>\<open>RangeInclusive::contains\<close> and \<open>RangeInclusive::is_empty\<close>.\<close>

definition range_contains :: "block_range \<Rightarrow> nat \<Rightarrow> bool" where
  "range_contains r h \<longleftrightarrow> rstart r \<le> h \<and> h \<le> rend r"

definition range_is_empty :: "block_range \<Rightarrow> bool" where
  "range_is_empty r \<longleftrightarrow> \<not> rstart r \<le> rend r"

definition validate :: "block_range \<Rightarrow> (block_ranges_error, unit) result" where
  "validate r = (if rstart r > 0 \<and> rstart r \<le> rend r then Inr ()
                 else Inl (Err (InvalidBlockRange r)))"

definition range_len :: "block_range \<Rightarrow> ('e, nat) result" where
  "range_len r = (case checked_sub (rend r) (rstart r) of
      Some difference \<Rightarrow> add_u64 difference 1
    | None \<Rightarrow> Inr 0)"

definition is_adjacent :: "block_range \<Rightarrow> block_range \<Rightarrow> bool" where
  "is_adjacent a b =
     (if rend a = saturating_sub (rstart b) 1 then True
      else if saturating_sub (rstart a) 1 = rend b then True
      else False)"

definition is_overlapping :: "block_range \<Rightarrow> block_range \<Rightarrow> bool" where
  "is_overlapping a b =
     (if rstart a < rstart b \<and> range_contains b (rend a) then True
      else if rend a > rend b \<and> range_contains b (rstart a) then True
      else if rstart a \<ge> rstart b \<and> rend a \<le> rend b then True
      else if rstart a \<le> rstart b \<and> rend a \<ge> rend b then True
      else False)"

definition is_left_of :: "block_range \<Rightarrow> block_range \<Rightarrow> bool" where
  "is_left_of a b \<longleftrightarrow> rend a < rstart b"

definition is_right_of :: "block_range \<Rightarrow> block_range \<Rightarrow> bool" where
  "is_right_of a b \<longleftrightarrow> rend b < rstart a"

definition range_headn :: "block_range \<Rightarrow> nat \<Rightarrow> block_range" where
  "range_headn r limit =
     (if range_is_empty r then Rng 1 0
      else case checked_add (saturating_sub (rend r) limit) 1 of
          None \<Rightarrow> Rng 1 0
        | Some adjusted_start \<Rightarrow> Rng (max (rstart r) adjusted_start) (rend r))"

definition range_tailn :: "block_range \<Rightarrow> nat \<Rightarrow> block_range" where
  "range_tailn r limit =
     (if range_is_empty r then Rng 1 0
      else case checked_sub (saturating_add (rstart r) limit) 1 of
          None \<Rightarrow> Rng 1 0
        | Some adjusted_end \<Rightarrow> Rng (rstart r) (min (rend r) adjusted_end))"

section \<open>Lists of ranges\<close>

fun from_vec_loop :: "block_range option \<Rightarrow> block_range list \<Rightarrow> (block_ranges_error, unit) result" where
  "from_vec_loop prev [] = Inr ()"
| "from_vec_loop prev (r # rs) =
     bind_r (validate r) (\<lambda>_.
       if (case prev of None \<Rightarrow> False | Some p \<Rightarrow> rstart r \<le> rend p)
       then Inl (Err UnsortedBlockRanges)
       else from_vec_loop (Some r) rs)"

definition from_vec :: "block_range list \<Rightarrow> (block_ranges_error, block_ranges) result" where
  "from_vec ranges = bind_r (from_vec_loop None ranges) (\<lambda>_. Inr ranges)"

definition br_contains :: "block_ranges \<Rightarrow> nat \<Rightarrow> bool" where
  "br_contains rs height = list_ex (\<lambda>r. range_contains r height) rs"

definition br_len :: "block_ranges \<Rightarrow> ('e, nat) result" where
  "br_len rs = fold_r (\<lambda>r acc. bind_r (range_len r) (\<lambda>l. add_u64 acc l)) rs 0"

definition br_is_empty :: "block_ranges \<Rightarrow> bool" where
  "br_is_empty rs = list_all range_is_empty rs"

definition br_head :: "block_ranges \<Rightarrow> nat option" where
  "br_head rs = map_option rend (vec_last rs)"

definition br_tail :: "block_ranges \<Rightarrow> nat option" where
  "br_tail rs = map_option rstart (vec_first rs)"

text \<open>First and last index of the ranges that overlap or touch the given one.\<close>

fun find_affected_loop ::
  "block_range \<Rightarrow> nat \<Rightarrow> nat option \<Rightarrow> nat option \<Rightarrow> block_ranges \<Rightarrow> nat option \<times> nat option"
where
  "find_affected_loop rng i start_idx end_idx [] = (start_idx, end_idx)"
| "find_affected_loop rng i start_idx end_idx (r # rs) =
     (if is_overlapping r rng \<or> is_adjacent r rng
      then find_affected_loop rng (Suc i) (if start_idx = None then Some i else start_idx) (Some i) rs
      else if end_idx \<noteq> None then (start_idx, end_idx)
      else find_affected_loop rng (Suc i) start_idx end_idx rs)"

definition find_affected_ranges :: "block_ranges \<Rightarrow> block_range \<Rightarrow> (nat \<times> nat) option" where
  "find_affected_ranges rs rng =
     (case find_affected_loop rng 0 None None rs of
        (Some s, Some e) \<Rightarrow> Some (s, e)
      | _ \<Rightarrow> None)"

definition calc_overlap :: "block_range \<Rightarrow> block_range \<Rightarrow> block_range \<Rightarrow> block_range" where
  "calc_overlap to_insert first_range last_range =
     Rng (max (rstart first_range) (rstart to_insert)) (min (rend last_range) (rend to_insert))"

definition check_insertion_constraints ::
  "block_ranges \<Rightarrow> block_range \<Rightarrow> (block_ranges_error, bool \<times> bool) result"
where
  "check_insertion_constraints rs to_insert =
     bind_r (validate to_insert) (\<lambda>_.
     case vec_last rs of
       None \<Rightarrow> Inr (False, False)
     | Some head_range \<Rightarrow>
       if is_left_of head_range to_insert then Inr (is_adjacent head_range to_insert, False)
       else (case find_affected_ranges rs to_insert of
           None \<Rightarrow> Inl (Err (NoAdjacentNeighbors to_insert))
         | Some (first_idx, last_idx) \<Rightarrow>
             bind_r (vec_get rs first_idx) (\<lambda>fst_r.
             bind_r (vec_get rs last_idx) (\<lambda>lst_r.
             bind_r (sub_u64 last_idx first_idx) (\<lambda>d.
             bind_r (add_u64 d 1) (\<lambda>num_of_ranges.
             if num_of_ranges = 0 then Inl (Panic ''internal error: entered unreachable code'')
             else if num_of_ranges = 1 then
               (if is_overlapping fst_r to_insert
                then Inl (Err (BlockRangeOverlap to_insert (calc_overlap to_insert fst_r lst_r)))
                else if is_left_of fst_r to_insert then Inr (True, False)
                else Inr (False, True))
             else if num_of_ranges = 2 then
               (if is_adjacent fst_r to_insert \<and> is_adjacent lst_r to_insert then Inr (True, True)
                else Inl (Err (BlockRangeOverlap to_insert (calc_overlap to_insert fst_r lst_r))))
             else Inl (Err (BlockRangeOverlap to_insert (calc_overlap to_insert fst_r lst_r)))))))))"

definition pop_head :: "block_ranges \<Rightarrow> ('e, nat option \<times> block_ranges) result" where
  "pop_head rs = (case vec_last rs of
      None \<Rightarrow> Inr (None, rs)
    | Some l \<Rightarrow>
        bind_r (range_len l) (\<lambda>n.
        if n = 1 then Inr (Some (rend l), butlast rs)
        else bind_r (sub_u64 (rend l) 1) (\<lambda>e. Inr (Some (rend l), butlast rs @ [Rng (rstart l) e]))))"

definition pop_tail :: "block_ranges \<Rightarrow> ('e, nat option \<times> block_ranges) result" where
  "pop_tail rs = (case rs of
      [] \<Rightarrow> Inr (None, rs)
    | f # rest \<Rightarrow>
        bind_r (range_len f) (\<lambda>n.
        if n = 1 then Inr (Some (rstart f), rest)
        else bind_r (add_u64 (rstart f) 1) (\<lambda>s. Inr (Some (rstart f), Rng s (rend f) # rest))))"

text \<open>The position before which a range that touches no other is inserted.\<close>

fun insert_position :: "block_range \<Rightarrow> nat \<Rightarrow> block_ranges \<Rightarrow> nat option" where
  "insert_position rng i [] = None"
| "insert_position rng i (r # rs) =
     (if rend rng < rstart r then Some i else insert_position rng (Suc i) rs)"

definition insert_relaxed :: "block_ranges \<Rightarrow> block_range \<Rightarrow> (block_ranges_error, block_ranges) result" where
  "insert_relaxed rs rng =
     bind_r (validate rng) (\<lambda>_.
     case find_affected_ranges rs rng of
       Some (start_idx, end_idx) \<Rightarrow>
         bind_r (vec_get rs start_idx) (\<lambda>first_r.
         bind_r (vec_get rs end_idx) (\<lambda>last_r.
         bind_r (vec_drain start_idx end_idx rs) (\<lambda>(rest, _).
         vec_insert start_idx
           (Rng (min (rstart first_r) (rstart rng)) (max (rend last_r) (rend rng))) rest)))
     | None \<Rightarrow>
         (case insert_position rng 0 rs of
            Some i \<Rightarrow> vec_insert i rng rs
          | None \<Rightarrow> Inr (rs @ [rng])))"

definition remove_relaxed :: "block_ranges \<Rightarrow> block_range \<Rightarrow> (block_ranges_error, block_ranges) result" where
  "remove_relaxed rs rng =
     bind_r (validate rng) (\<lambda>_.
     case find_affected_ranges rs rng of
       None \<Rightarrow> Inr rs
     | Some (start_idx, end_idx) \<Rightarrow>
         bind_r (vec_drain start_idx end_idx rs) (\<lambda>(rest, old_ranges).
         case (vec_first old_ranges, vec_last old_ranges) of
           (Some first_range, Some last_range) \<Rightarrow>
             bind_r (if rend rng < rend last_range
                     then bind_r (add_u64 (rend rng) 1) (\<lambda>s.
                            vec_insert start_idx (Rng s (rend last_range)) rest)
                     else Inr rest) (\<lambda>rest'.
             if rstart first_range < rstart rng
             then bind_r (sub_u64 (rstart rng) 1) (\<lambda>e.
                    vec_insert start_idx (Rng (rstart first_range) e) rest')
             else Inr rest')
         | _ \<Rightarrow> Inl (Panic ''non empty'')))"

section \<open>Derived operations\<close>

abbreviation holds_valid :: string where
  "holds_valid \<equiv> ''BlockRanges always holds valid ranges''"

fun headn_loop :: "nat \<Rightarrow> block_ranges \<Rightarrow> nat \<Rightarrow> block_ranges \<Rightarrow> ('e, block_ranges) result" where
  "headn_loop limit [] len truncated = Inr truncated"
| "headn_loop limit (rng # rest) len truncated =
     (if len = limit then Inr truncated
      else bind_r (sub_u64 limit len) (\<lambda>k.
           bind_r (range_len (range_headn rng k)) (\<lambda>l.
           bind_r (add_u64 len l) (\<lambda>len'.
           bind_r (expect_r holds_valid (insert_relaxed truncated (range_headn rng k)))
             (headn_loop limit rest len')))))"

definition br_headn :: "block_ranges \<Rightarrow> nat \<Rightarrow> ('e, block_ranges) result" where
  "br_headn rs limit = headn_loop limit (rev rs) 0 []"

fun tailn_loop :: "nat \<Rightarrow> block_ranges \<Rightarrow> nat \<Rightarrow> block_ranges \<Rightarrow> ('e, block_ranges) result" where
  "tailn_loop limit [] len truncated = Inr truncated"
| "tailn_loop limit (rng # rest) len truncated =
     (if len = limit then Inr truncated
      else bind_r (sub_u64 limit len) (\<lambda>k.
           bind_r (range_len (range_tailn rng k)) (\<lambda>l.
           bind_r (add_u64 len l) (\<lambda>len'.
           bind_r (expect_r holds_valid (insert_relaxed truncated (range_tailn rng k)))
             (tailn_loop limit rest len')))))"

definition br_tailn :: "block_ranges \<Rightarrow> nat \<Rightarrow> ('e, block_ranges) result" where
  "br_tailn rs limit = tailn_loop limit rs 0 []"

definition edges :: "block_ranges \<Rightarrow> ('e, block_ranges) result" where
  "edges rs = fold_r (\<lambda>rng acc.
      bind_r (expect_r holds_valid (insert_relaxed acc (Rng (rstart rng) (rstart rng)))) (\<lambda>acc'.
      expect_r holds_valid (insert_relaxed acc' (Rng (rend rng) (rend rng))))) rs []"

text \<open>One iteration of the loop of \<open>partitions\<close>; the state is \<open>(left, right, left_len)\<close>.\<close>

definition partitions_step ::
  "nat \<Rightarrow> block_range \<Rightarrow> block_ranges \<times> block_ranges \<times> nat \<Rightarrow>
   ('e, block_ranges \<times> block_ranges \<times> nat) result"
where
  "partitions_step middle rng st = (case st of (left, right, left_len) \<Rightarrow>
     bind_r (range_len rng) (\<lambda>rl.
     bind_r (add_u64 left_len rl) (\<lambda>total.
     if total \<le> middle then
       bind_r (expect_r holds_valid (insert_relaxed left rng)) (\<lambda>left'.
       Inr (left', right, total))
     else if left_len < middle then
       bind_r (add_u64 (rstart rng) middle) (\<lambda>sm.
       bind_r (sub_u64 sm left_len) (\<lambda>left_end.
       bind_r (range_len (Rng (rstart rng) left_end)) (\<lambda>ll.
       bind_r (add_u64 left_len ll) (\<lambda>left_len'.
       bind_r (expect_r holds_valid (insert_relaxed left (Rng (rstart rng) left_end))) (\<lambda>left'.
       if left_end < rend rng then
         bind_r (add_u64 left_end 1) (\<lambda>rs.
         bind_r (expect_r holds_valid (insert_relaxed right (Rng rs (rend rng)))) (\<lambda>right'.
         Inr (left', right', left_len')))
       else Inr (left', right, left_len'))))))
     else
       bind_r (expect_r holds_valid (insert_relaxed right rng)) (\<lambda>right'.
       Inr (left, right', left_len)))))"

definition partitions :: "block_ranges \<Rightarrow> ('e, (block_ranges \<times> nat \<times> block_ranges) option) result" where
  "partitions rs =
     bind_r (br_len rs) (\<lambda>len.
     if len = 0 then Inr None
     else bind_r (fold_r (partitions_step (len div 2)) rs ([], [], 0)) (\<lambda>(left, right, left_len).
       bind_r (br_len right) (\<lambda>right_len.
       if left_len < right_len then
         bind_r (pop_tail right) (\<lambda>(m, right').
           Inr (case m of None \<Rightarrow> None | Some middle_height \<Rightarrow> Some (left, middle_height, right')))
       else
         bind_r (pop_head left) (\<lambda>(m, left').
           Inr (case m of None \<Rightarrow> None | Some middle_height \<Rightarrow> Some (left', middle_height, right))))))"

text \<open>In \<open>left_of\<close> and \<open>right_of\<close> the guards exclude overflow: \<open>start < height\<close>
  for \<open>height - 1\<close> and \<open>height < end\<close> for \<open>height + 1\<close>.\<close>

fun left_of_loop :: "nat \<Rightarrow> block_ranges \<Rightarrow> nat option" where
  "left_of_loop height [] = None"
| "left_of_loop height (r # rs) =
     (if is_left_of r (Rng height height) then Some (rend r)
      else if range_contains r height \<and> rstart r \<noteq> height then Some (height - 1)
      else left_of_loop height rs)"

definition left_of :: "block_ranges \<Rightarrow> nat \<Rightarrow> nat option" where
  "left_of rs height = left_of_loop height (rev rs)"

fun right_of :: "block_ranges \<Rightarrow> nat \<Rightarrow> nat option" where
  "right_of [] height = None"
| "right_of (r # rs) height =
     (if is_right_of r (Rng height height) then Some (rstart r)
      else if range_contains r height \<and> rend r \<noteq> height then Some (height + 1)
      else right_of rs height)"

definition try_from_range :: "block_range \<Rightarrow> (block_ranges_error, block_ranges) result" where
  "try_from_range value = insert_relaxed [] value"

definition br_add :: "block_ranges \<Rightarrow> block_ranges \<Rightarrow> ('e, block_ranges) result" where
  "br_add lhs rhs = fold_r (\<lambda>rng acc. expect_r holds_valid (insert_relaxed acc rng)) rhs lhs"

definition br_sub :: "block_ranges \<Rightarrow> block_ranges \<Rightarrow> ('e, block_ranges) result" where
  "br_sub lhs rhs = fold_r (\<lambda>rng acc. expect_r holds_valid (remove_relaxed acc rng)) rhs lhs"

definition br_not :: "block_ranges \<Rightarrow> ('e, block_ranges) result" where
  "br_not rs =
     bind_r (expect_r ''valid ranges'' (insert_relaxed [] (Rng 1 u64_max))) (\<lambda>inverse.
     fold_r (\<lambda>rng acc. expect_r holds_valid (remove_relaxed acc rng)) rs inverse)"

definition br_and :: "block_ranges \<Rightarrow> block_ranges \<Rightarrow> ('e, block_ranges) result" where
  "br_and lhs rhs =
     bind_r (br_not lhs) (\<lambda>nl.
     bind_r (br_not rhs) (\<lambda>nr.
     bind_r (br_add nl nr) br_not))"

end
