(* ===== verification/Block_Ranges_Sets.thy ===== *)
theory Block_Ranges_Sets
  imports Block_Ranges
begin

text \<open>
  What the operations of \<open>Block_Ranges\<close> compute. \<open>heights rs\<close> is the set of heights
  a list of ranges stands for and \<open>br_wf\<close> the invariant of the type: every range is a
  non-empty range of positive 64-bit heights, and the ranges are in increasing order
  without overlap. The central lemma is \<open>find_affected_split\<close>: it splits the list into
  what lies left of a range, what touches it and what lies right of it, and says that
  \<open>find_affected_ranges\<close> returns the bounds of the middle part.
\<close>

section \<open>Meaning and invariant\<close>

definition range_ok :: "block_range \<Rightarrow> bool" where
  "range_ok r \<longleftrightarrow> 0 < rstart r \<and> rstart r \<le> rend r \<and> rend r \<le> u64_max"

definition range_set :: "block_range \<Rightarrow> nat set" where
  "range_set r = {rstart r..rend r}"

definition heights :: "block_ranges \<Rightarrow> nat set" where
  "heights rs = (\<Union>r \<in> set rs. range_set r)"

definition br_wf :: "block_ranges \<Rightarrow> bool" where
  "br_wf rs \<longleftrightarrow> list_all range_ok rs \<and> sorted_wrt is_left_of rs"

definition all_heights :: "nat set" where
  "all_heights = {1..u64_max}"

lemma range_set_Rng [simp]: "range_set (Rng s e) = {s..e}"
  by (simp add: range_set_def)

lemma finite_range_set [simp, intro]: "finite (range_set r)"
  by (simp add: range_set_def)

lemma heights_simps [simp]:
  "heights [] = {}"
  "heights (r # rs) = range_set r \<union> heights rs"
  "heights (rs @ ss) = heights rs \<union> heights ss"
  by (auto simp: heights_def)

lemma heights_rev [simp]: "heights (rev rs) = heights rs"
  by (simp add: heights_def)

lemma in_heights_iff: "h \<in> heights rs \<longleftrightarrow> (\<exists>r \<in> set rs. rstart r \<le> h \<and> h \<le> rend r)"
  by (auto simp: heights_def range_set_def)

lemma finite_heights [simp, intro]: "finite (heights rs)"
  by (auto simp: heights_def range_set_def)

lemma br_wf_Nil [simp]: "br_wf []"
  by (simp add: br_wf_def)

lemma br_wf_Cons [simp]:
  "br_wf (r # rs) \<longleftrightarrow> range_ok r \<and> (\<forall>x \<in> set rs. rend r < rstart x) \<and> br_wf rs"
  by (auto simp: br_wf_def is_left_of_def)

lemma br_wf_append [simp]:
  "br_wf (rs @ ss) \<longleftrightarrow>
     br_wf rs \<and> br_wf ss \<and> (\<forall>x \<in> set rs. \<forall>y \<in> set ss. rend x < rstart y)"
  by (auto simp: br_wf_def is_left_of_def sorted_wrt_append)

lemma heights_append_less:
  "br_wf (rs @ ss) \<Longrightarrow> x \<in> heights rs \<Longrightarrow> y \<in> heights ss \<Longrightarrow> x < y"
  unfolding in_heights_iff br_wf_append by (meson le_less_trans less_le_trans)

lemma br_wf_range_ok: "br_wf rs \<Longrightarrow> r \<in> set rs \<Longrightarrow> range_ok r"
  by (auto simp: br_wf_def list_all_iff)

lemma range_okD:
  assumes "range_ok r"
  shows "0 < rstart r" "rstart r \<le> rend r" "rend r \<le> u64_max" "rstart r \<le> u64_max"
  using assms by (auto simp: range_ok_def)

lemma range_ok_Rng [simp]: "range_ok (Rng s e) \<longleftrightarrow> 0 < s \<and> s \<le> e \<and> e \<le> u64_max"
  by (simp add: range_ok_def)

lemma heights_bounded: "br_wf rs \<Longrightarrow> heights rs \<subseteq> all_heights"
  by (fastforce simp: in_heights_iff all_heights_def dest: br_wf_range_ok range_okD)

lemma range_set_eq_empty [simp]: "range_ok r \<Longrightarrow> range_set r \<noteq> {}"
  by (simp add: range_ok_def range_set_def)

lemma heights_eq_empty: "br_wf rs \<Longrightarrow> heights rs = {} \<longleftrightarrow> rs = []"
  by (cases rs) auto

section \<open>Comparisons\<close>

lemma validate_ok [simp]: "range_ok r \<Longrightarrow> validate r = Inr ()"
  by (simp add: range_ok_def validate_def)

lemma validate_Inr_iff: "validate r = Inr u \<longleftrightarrow> 0 < rstart r \<and> rstart r \<le> rend r"
  by (simp add: validate_def)

lemma validate_no_panic [simp]: "\<not> panics (validate r)"
  by (simp add: validate_def)

lemma is_overlapping_iff:
  "range_ok a \<Longrightarrow> range_ok b \<Longrightarrow> is_overlapping a b \<longleftrightarrow> range_set a \<inter> range_set b \<noteq> {}"
  by (auto simp: is_overlapping_def range_contains_def range_ok_def range_set_def)

definition touches :: "block_range \<Rightarrow> block_range \<Rightarrow> bool" where
  "touches r rng \<longleftrightarrow> rstart r \<le> rend rng + 1 \<and> rstart rng \<le> rend r + 1"

lemma overlapping_or_adjacent_iff:
  "range_ok r \<Longrightarrow> range_ok rng \<Longrightarrow> is_overlapping r rng \<or> is_adjacent r rng \<longleftrightarrow> touches r rng"
  by (auto simp: is_overlapping_def is_adjacent_def range_contains_def range_ok_def touches_def
      saturating_sub_def)

lemma is_adjacent_iff:
  "range_ok a \<Longrightarrow> range_ok b \<Longrightarrow>
     is_adjacent a b \<longleftrightarrow> rend a + 1 = rstart b \<or> rend b + 1 = rstart a"
  by (auto simp: is_adjacent_def range_ok_def saturating_sub_def)

lemma range_len_ok [simp]: "range_ok r \<Longrightarrow> range_len r = Inr (rend r - rstart r + 1)"
  by (auto simp: range_ok_def range_len_def checked_sub_def add_u64_def)

lemma range_len_card: "range_ok r \<Longrightarrow> range_len r = Inr (card (range_set r))"
  by (auto simp: range_set_def range_ok_def range_len_def checked_sub_def add_u64_def)

section \<open>The affected part of a list of ranges\<close>

lemma find_affected_loop_skip:
  "\<forall>r \<in> set ls. \<not> (is_overlapping r rng \<or> is_adjacent r rng) \<Longrightarrow>
   find_affected_loop rng i None None (ls @ rest) = find_affected_loop rng (i + length ls) None None rest"
  by (induction ls arbitrary: i) auto

lemma find_affected_loop_take:
  "\<forall>r \<in> set ms. is_overlapping r rng \<or> is_adjacent r rng \<Longrightarrow>
   find_affected_loop rng i (Some a) (Some b) (ms @ rest) =
   find_affected_loop rng (i + length ms) (Some a)
     (Some (if ms = [] then b else i + length ms - 1)) rest"
  by (induction ms arbitrary: i b) auto

lemma find_affected_loop_stop:
  "\<forall>r \<in> set hs. \<not> (is_overlapping r rng \<or> is_adjacent r rng) \<Longrightarrow>
   find_affected_loop rng i s e hs = (s, e)"
  by (induction hs arbitrary: i) auto

lemma find_affected_ranges_split:
  assumes "\<forall>r \<in> set ls. \<not> (is_overlapping r rng \<or> is_adjacent r rng)"
    and "\<forall>r \<in> set ms. is_overlapping r rng \<or> is_adjacent r rng"
    and "\<forall>r \<in> set hs. \<not> (is_overlapping r rng \<or> is_adjacent r rng)"
  shows "find_affected_ranges (ls @ ms @ hs) rng =
    (if ms = [] then None else Some (length ls, length ls + length ms - 1))"
proof (cases ms)
  case Nil
  with assms show ?thesis
    by (simp add: find_affected_ranges_def find_affected_loop_skip find_affected_loop_stop)
next
  case (Cons m ms')
  with assms show ?thesis
    by (simp add: find_affected_ranges_def find_affected_loop_skip find_affected_loop_take
        find_affected_loop_stop)
qed

definition left_apart :: "block_range \<Rightarrow> block_range \<Rightarrow> bool" where
  "left_apart r rng \<longleftrightarrow> rend r + 1 < rstart rng"

definition right_apart :: "block_range \<Rightarrow> block_range \<Rightarrow> bool" where
  "right_apart r rng \<longleftrightarrow> rend rng + 1 < rstart r"

lemma affected_split:
  assumes "br_wf rs" "range_ok rng"
  obtains ls ms hs where "rs = ls @ ms @ hs"
    "\<forall>r \<in> set ls. left_apart r rng" "\<forall>r \<in> set ms. touches r rng"
    "\<forall>r \<in> set hs. right_apart r rng"
proof -
  have "\<exists>ls ms hs. rs = ls @ ms @ hs \<and> (\<forall>r \<in> set ls. left_apart r rng) \<and>
      (\<forall>r \<in> set ms. touches r rng) \<and> (\<forall>r \<in> set hs. right_apart r rng)"
    using assms
  proof (induction rs)
    case Nil
    then show ?case by simp
  next
    case (Cons r rs)
    then obtain ls ms hs where rs: "rs = ls @ ms @ hs" "\<forall>r \<in> set ls. left_apart r rng"
        "\<forall>r \<in> set ms. touches r rng" "\<forall>r \<in> set hs. right_apart r rng"
      by auto
    consider (l) "left_apart r rng" | (t) "touches r rng" | (h) "right_apart r rng"
      by (metis left_apart_def touches_def right_apart_def not_le)
    then show ?case
    proof cases
      case l
      with rs have "r # rs = (r # ls) @ ms @ hs \<and> (\<forall>x \<in> set (r # ls). left_apart x rng)" by simp
      with rs show ?thesis by blast
    next
      case t
      with Cons.prems rs have "ls = []"
        by (cases ls) (auto simp: touches_def left_apart_def range_ok_def)
      with t rs have "r # rs = [] @ (r # ms) @ hs \<and> (\<forall>x \<in> set (r # ms). touches x rng)" by simp
      with rs show ?thesis by (metis empty_iff empty_set)
    next
      case h
      with Cons.prems have "\<forall>x \<in> set (r # rs). right_apart x rng"
        by (fastforce simp: right_apart_def range_ok_def)
      then show ?thesis by (metis append_Nil empty_iff empty_set)
    qed
  qed
  then show thesis using that by blast
qed

lemma find_affected_split:
  assumes "br_wf rs" "range_ok rng"
  obtains ls ms hs where "rs = ls @ ms @ hs"
    "\<forall>r \<in> set ls. left_apart r rng" "\<forall>r \<in> set ms. touches r rng"
    "\<forall>r \<in> set hs. right_apart r rng"
    "find_affected_ranges rs rng =
       (if ms = [] then None else Some (length ls, length ls + length ms - 1))"
proof -
  from affected_split [OF assms] obtain ls ms hs where *: "rs = ls @ ms @ hs"
    "\<forall>r \<in> set ls. left_apart r rng" "\<forall>r \<in> set ms. touches r rng"
    "\<forall>r \<in> set hs. right_apart r rng" .
  have ok: "r \<in> set rs \<Longrightarrow> range_ok r" for r
    using assms(1) by (rule br_wf_range_ok)
  have "find_affected_ranges (ls @ ms @ hs) rng =
      (if ms = [] then None else Some (length ls, length ls + length ms - 1))"
  proof (rule find_affected_ranges_split)
    show "\<forall>r \<in> set ls. \<not> (is_overlapping r rng \<or> is_adjacent r rng)"
      using * ok assms(2)
      by (simp add: overlapping_or_adjacent_iff left_apart_def touches_def) fastforce
    show "\<forall>r \<in> set ms. is_overlapping r rng \<or> is_adjacent r rng"
      using * ok assms(2) by (simp add: overlapping_or_adjacent_iff)
    show "\<forall>r \<in> set hs. \<not> (is_overlapping r rng \<or> is_adjacent r rng)"
      using * ok assms(2)
      by (simp add: overlapping_or_adjacent_iff right_apart_def touches_def) fastforce
  qed
  with * that show thesis by blast
qed

section \<open>Insertion and removal\<close>

text \<open>In a well-formed block of ranges that all touch \<open>rng\<close>, only the first range can
  reach below \<open>rng\<close> and only the last one above it.\<close>

lemma br_wf_hd_least: "br_wf ms \<Longrightarrow> r \<in> set ms \<Longrightarrow> r = hd ms \<or> rend (hd ms) < rstart r"
  by (cases ms) auto

lemma br_wf_last_greatest: "br_wf ms \<Longrightarrow> r \<in> set ms \<Longrightarrow> r = last ms \<or> rend r < rstart (last ms)"
  by (cases ms rule: rev_cases) auto

lemma touching_below:
  assumes "br_wf ms" "ms \<noteq> []" "\<forall>r \<in> set ms. touches r rng" "h < rstart rng"
  shows "h \<in> heights ms \<longleftrightarrow> rstart (hd ms) \<le> h"
proof
  assume "h \<in> heights ms"
  then obtain r where r: "r \<in> set ms" "rstart r \<le> h" "h \<le> rend r"
    by (auto simp: in_heights_iff)
  have "rstart rng \<le> rend (hd ms) + 1"
    using assms(2,3) by (auto simp: touches_def)
  with br_wf_hd_least [OF assms(1) r(1)] r assms(4) show "rstart (hd ms) \<le> h" by auto
next
  assume "rstart (hd ms) \<le> h"
  moreover have "h \<le> rend (hd ms)"
    using assms(2-4) by (auto simp: touches_def dest!: bspec [where x = "hd ms"])
  ultimately show "h \<in> heights ms"
    using assms(2) hd_in_set by (auto simp: in_heights_iff)
qed

lemma touching_above:
  assumes "br_wf ms" "ms \<noteq> []" "\<forall>r \<in> set ms. touches r rng" "rend rng < h"
  shows "h \<in> heights ms \<longleftrightarrow> h \<le> rend (last ms)"
proof
  assume "h \<in> heights ms"
  then obtain r where r: "r \<in> set ms" "rstart r \<le> h" "h \<le> rend r"
    by (auto simp: in_heights_iff)
  from br_wf_last_greatest [OF assms(1) r(1)] r show "h \<le> rend (last ms)"
    using range_okD(2) [OF br_wf_range_ok [OF assms(1) last_in_set [OF assms(2)]]] by auto
next
  assume "h \<le> rend (last ms)"
  moreover have "rstart (last ms) \<le> h"
    using assms(2-4) by (auto simp: touches_def dest!: bspec [where x = "last ms"])
  ultimately show "h \<in> heights ms"
    using assms(2) last_in_set by (auto simp: in_heights_iff)
qed

lemma insert_position_split:
  "\<forall>r \<in> set ls. \<not> rend rng < rstart r \<Longrightarrow> \<forall>r \<in> set hs. rend rng < rstart r \<Longrightarrow>
   insert_position rng i (ls @ hs) = (if hs = [] then None else Some (i + length ls))"
  by (induction ls arbitrary: i) (cases hs, auto)+

definition merged :: "block_ranges \<Rightarrow> block_range \<Rightarrow> block_range" where
  "merged ms rng = (if ms = [] then rng
     else Rng (min (rstart (hd ms)) (rstart rng)) (max (rend (last ms)) (rend rng)))"

lemma insert_relaxed_split:
  assumes "br_wf rs" "range_ok rng"
  obtains ls ms hs where "rs = ls @ ms @ hs"
    "\<forall>r \<in> set ls. left_apart r rng" "\<forall>r \<in> set ms. touches r rng"
    "\<forall>r \<in> set hs. right_apart r rng"
    "insert_relaxed rs rng = Inr (ls @ merged ms rng # hs)"
proof -
  from find_affected_split [OF assms] obtain ls ms hs where *: "rs = ls @ ms @ hs"
    "\<forall>r \<in> set ls. left_apart r rng" "\<forall>r \<in> set ms. touches r rng"
    "\<forall>r \<in> set hs. right_apart r rng"
    "find_affected_ranges rs rng =
       (if ms = [] then None else Some (length ls, length ls + length ms - 1))" .
  have "insert_relaxed rs rng = Inr (ls @ merged ms rng # hs)"
  proof (cases "ms = []")
    case True
    have "\<forall>r \<in> set ls. \<not> rend rng < rstart r"
      using * assms by (fastforce simp: left_apart_def range_ok_def dest: br_wf_range_ok)
    moreover have "\<forall>r \<in> set hs. rend rng < rstart r"
      using * by (auto simp: right_apart_def)
    ultimately have "insert_position rng 0 (ls @ hs) = (if hs = [] then None else Some (length ls))"
      by (simp add: insert_position_split)
    with True * assms(2) show ?thesis
      by (simp add: insert_relaxed_def merged_def)
  next
    case False
    with * assms(2) show ?thesis
      by (simp add: insert_relaxed_def merged_def)
  qed
  with * that show thesis by blast
qed

lemma merged_set:
  assumes "br_wf ms" "\<forall>r \<in> set ms. touches r rng" "range_ok rng"
  shows "range_set (merged ms rng) = heights ms \<union> range_set rng"
proof (cases "ms = []")
  case False
  show ?thesis
  proof (rule set_eqI)
    fix h
    consider "h < rstart rng" | "rstart rng \<le> h" "h \<le> rend rng" | "rend rng < h" by linarith
    then show "h \<in> range_set (merged ms rng) \<longleftrightarrow> h \<in> heights ms \<union> range_set rng"
      using touching_below [OF assms(1) False assms(2)] touching_above [OF assms(1) False assms(2)]
        range_okD [OF assms(3)] False
      by cases (auto simp: merged_def range_set_def)
  qed
qed (simp add: merged_def)

lemma merged_ok: "br_wf ms \<Longrightarrow> range_ok rng \<Longrightarrow> range_ok (merged ms rng)"
  using br_wf_range_ok [of ms "hd ms"] br_wf_range_ok [of ms "last ms"]
  by (auto simp: merged_def range_ok_def)

lemma insert_relaxed_ok:
  assumes "br_wf rs" "range_ok rng"
  obtains rs' where "insert_relaxed rs rng = Inr rs'" "br_wf rs'"
    "heights rs' = heights rs \<union> range_set rng"
proof -
  from insert_relaxed_split [OF assms] obtain ls ms hs where *: "rs = ls @ ms @ hs"
    "\<forall>r \<in> set ls. left_apart r rng" "\<forall>r \<in> set ms. touches r rng"
    "\<forall>r \<in> set hs. right_apart r rng" "insert_relaxed rs rng = Inr (ls @ merged ms rng # hs)" .
  from * assms(1) have wf: "br_wf ls" "br_wf ms" "br_wf hs" by auto
  have l: "rend r < rstart (merged ms rng)" if "r \<in> set ls" for r
    using that * assms(1) hd_in_set [of ms] by (auto simp: merged_def left_apart_def)
  have h: "rend (merged ms rng) < rstart r" if "r \<in> set hs" for r
    using that * assms(1) last_in_set [of ms] by (auto simp: merged_def right_apart_def)
  have "br_wf (ls @ merged ms rng # hs)"
    using wf l h merged_ok [OF wf(2) assms(2)] * assms(1) by auto
  moreover have "heights (ls @ merged ms rng # hs) = heights rs \<union> range_set rng"
    using merged_set [OF wf(2) *(3) assms(2)] * by auto
  ultimately show thesis using * that by blast
qed

definition remainder :: "block_ranges \<Rightarrow> block_range \<Rightarrow> block_ranges" where
  "remainder ms rng = (if ms = [] then [] else
     (if rstart (hd ms) < rstart rng then [Rng (rstart (hd ms)) (rstart rng - 1)] else []) @
     (if rend rng < rend (last ms) then [Rng (rend rng + 1) (rend (last ms))] else []))"

lemma remove_relaxed_split:
  assumes "br_wf rs" "range_ok rng"
  obtains ls ms hs where "rs = ls @ ms @ hs"
    "\<forall>r \<in> set ls. left_apart r rng" "\<forall>r \<in> set ms. touches r rng"
    "\<forall>r \<in> set hs. right_apart r rng"
    "remove_relaxed rs rng = Inr (ls @ remainder ms rng @ hs)"
proof -
  from find_affected_split [OF assms] obtain ls ms hs where *: "rs = ls @ ms @ hs"
    "\<forall>r \<in> set ls. left_apart r rng" "\<forall>r \<in> set ms. touches r rng"
    "\<forall>r \<in> set hs. right_apart r rng"
    "find_affected_ranges rs rng =
       (if ms = [] then None else Some (length ls, length ls + length ms - 1))" .
  have "rend rng < rend (last ms) \<Longrightarrow> ms \<noteq> [] \<Longrightarrow> rend rng + 1 \<le> u64_max"
    using range_okD(3) [OF br_wf_range_ok [OF assms(1), of "last ms"]] * by auto
  with * range_okD(1) [OF assms(2)] assms(2)
  have "remove_relaxed rs rng = Inr (ls @ remainder ms rng @ hs)"
    by (auto simp: remove_relaxed_def remainder_def)
  with * that show thesis by blast
qed

lemma remainder_set:
  assumes "br_wf ms" "\<forall>r \<in> set ms. touches r rng" "range_ok rng"
  shows "heights (remainder ms rng) = heights ms - range_set rng"
proof (cases "ms = []")
  case False
  show ?thesis
  proof (rule set_eqI)
    fix h
    consider "h < rstart rng" | "rstart rng \<le> h" "h \<le> rend rng" | "rend rng < h" by linarith
    then show "h \<in> heights (remainder ms rng) \<longleftrightarrow> h \<in> heights ms - range_set rng"
      using touching_below [OF assms(1) False assms(2)] touching_above [OF assms(1) False assms(2)]
        range_okD [OF assms(3)] False
      by cases (auto simp: remainder_def range_set_def)
  qed
qed (simp add: remainder_def)

lemma remainder_wf:
  assumes "br_wf ms" "range_ok rng"
  shows "br_wf (remainder ms rng)"
  using br_wf_range_ok [OF assms(1), of "hd ms"] br_wf_range_ok [OF assms(1), of "last ms"] assms(2)
  by (auto simp: remainder_def range_ok_def)

lemma hd_le_last:
  assumes "br_wf ms" "ms \<noteq> []"
  shows "rstart (hd ms) \<le> rstart (last ms)" "rend (hd ms) \<le> rend (last ms)"
  using br_wf_hd_least [OF assms(1) last_in_set [OF assms(2)]]
    range_okD(2) [OF br_wf_range_ok [OF assms(1) hd_in_set [OF assms(2)]]]
    range_okD(2) [OF br_wf_range_ok [OF assms(1) last_in_set [OF assms(2)]]]
  by auto

lemma remainder_bounds:
  assumes "br_wf ms" "\<forall>r \<in> set ms. touches r rng" "r \<in> set (remainder ms rng)"
  shows "rstart (hd ms) \<le> rstart r" "rend r \<le> rend (last ms)"
proof -
  from assms(3) have ne: "ms \<noteq> []" by (auto simp: remainder_def)
  with assms(2) have "touches (hd ms) rng" "touches (last ms) rng" by simp_all
  with hd_le_last [OF assms(1) ne] assms(3)
  show "rstart (hd ms) \<le> rstart r" "rend r \<le> rend (last ms)"
    by (auto simp: remainder_def touches_def split: if_splits)
qed

lemma remove_relaxed_ok:
  assumes "br_wf rs" "range_ok rng"
  obtains rs' where "remove_relaxed rs rng = Inr rs'" "br_wf rs'"
    "heights rs' = heights rs - range_set rng"
proof -
  from remove_relaxed_split [OF assms] obtain ls ms hs where *: "rs = ls @ ms @ hs"
    "\<forall>r \<in> set ls. left_apart r rng" "\<forall>r \<in> set ms. touches r rng"
    "\<forall>r \<in> set hs. right_apart r rng" "remove_relaxed rs rng = Inr (ls @ remainder ms rng @ hs)" .
  from * assms(1) have wf: "br_wf ls" "br_wf ms" "br_wf hs" by auto
  have nonempty: "ms \<noteq> []" if "r \<in> set (remainder ms rng)" for r
    using that by (auto simp: remainder_def)
  have l: "\<forall>x \<in> set ls. \<forall>y \<in> set (remainder ms rng). rend x < rstart y"
    using * assms(1) remainder_bounds(1) [OF wf(2) *(3)] nonempty hd_in_set
    by (metis br_wf_append in_set_conv_decomp less_le_trans set_append Un_iff)
  have h: "\<forall>x \<in> set (remainder ms rng). \<forall>y \<in> set hs. rend x < rstart y"
    using * assms(1) remainder_bounds(2) [OF wf(2) *(3)] nonempty last_in_set
    by (metis br_wf_append le_less_trans)
  have "br_wf (ls @ remainder ms rng @ hs)"
    using wf l h remainder_wf [OF wf(2) assms(2)] * assms(1) by auto
  moreover have "heights (ls @ remainder ms rng @ hs) = heights rs - range_set rng"
  proof -
    have "heights ls \<inter> range_set rng = {}" "heights hs \<inter> range_set rng = {}"
      using * by (fastforce simp: in_heights_iff range_set_def left_apart_def right_apart_def)+
    then show ?thesis using remainder_set [OF wf(2) *(3) assms(2)] * by auto
  qed
  ultimately show thesis using * that by blast
qed

text \<open>The common case of a single height.\<close>

lemma insert_height_ok:
  assumes "br_wf rs" "0 < h" "h \<le> u64_max"
  obtains rs' where "insert_relaxed rs (Rng h h) = Inr rs'" "br_wf rs'"
    "heights rs' = insert h (heights rs)"
  using insert_relaxed_ok [OF assms(1), of "Rng h h"] assms(2,3) by auto

lemma remove_height_ok:
  assumes "br_wf rs" "0 < h" "h \<le> u64_max"
  obtains rs' where "remove_relaxed rs (Rng h h) = Inr rs'" "br_wf rs'"
    "heights rs' = heights rs - {h}"
  using remove_relaxed_ok [OF assms(1), of "Rng h h"] assms(2,3) by auto

end
