(* ===== verification/Block_Ranges_Ops.thy ===== *)
theory Block_Ranges_Ops
  imports Block_Ranges_Sets
begin

text \<open>
  The queries and the derived operations of \<open>BlockRanges\<close> as set operations:
  membership, cardinality, extreme elements, removal of an extreme element, union,
  difference, complement and intersection, conversion from a vector, and the neighbours of a
  height.
\<close>

section \<open>Queries\<close>

lemma br_contains_iff [simp]: "br_contains rs h \<longleftrightarrow> h \<in> heights rs"
  by (auto simp: br_contains_def list_ex_iff in_heights_iff range_contains_def)

lemma br_is_empty_iff: "br_wf rs \<Longrightarrow> br_is_empty rs \<longleftrightarrow> heights rs = {}"
  by (cases rs) (auto simp: br_is_empty_def range_is_empty_def range_ok_def)

lemma card_heights_le: "br_wf rs \<Longrightarrow> card (heights rs) \<le> u64_max"
  using card_mono [OF _ heights_bounded] by (fastforce simp: all_heights_def)

lemma card_heights_snoc:
  assumes "br_wf (rs @ [r])"
  shows "card (heights (rs @ [r])) = card (heights rs) + (rend r - rstart r + 1)"
proof -
  have "heights rs \<inter> range_set r = {}"
    using assms by (fastforce simp: in_heights_iff range_set_def)
  then show ?thesis
    using assms by (auto simp: card_Un_disjoint range_set_def range_ok_def)
qed

lemma br_len_ok [simp]:
  assumes "br_wf rs"
  shows "br_len rs = Inr (card (heights rs))"
proof -
  have "\<exists>n. fold_r (\<lambda>r acc. bind_r (range_len r) (\<lambda>l. add_u64 acc l)) rs 0 = Inr n \<and>
      n = card (heights rs)"
  proof (rule fold_r_invariant)
    fix ys x zs n
    assume rs: "rs = ys @ x # zs" and n: "n = card (heights ys)"
    from rs assms have wf: "br_wf (ys @ [x])" by auto
    with n card_heights_le [OF wf] card_heights_snoc [OF wf]
    show "\<exists>u. bind_r (range_len x) (add_u64 n) = Inr u \<and> u = card (heights (ys @ [x]))"
      by (simp add: add_u64_def)
  qed simp
  then show ?thesis by (simp add: br_len_def)
qed

lemma br_head_Some_iff:
  assumes "br_wf rs"
  shows "br_head rs = Some h \<longleftrightarrow> h \<in> heights rs \<and> (\<forall>x \<in> heights rs. x \<le> h)"
  using assms
proof (cases rs rule: rev_cases)
  case (snoc xs r)
  with assms have top: "\<forall>x \<in> heights rs. x \<le> rend r" "rend r \<in> heights rs"
    by (fastforce simp: in_heights_iff range_ok_def range_set_def)+
  with snoc show ?thesis by (auto simp: br_head_def intro: antisym)
qed (simp add: br_head_def)

lemma br_tail_Some_iff:
  assumes "br_wf rs"
  shows "br_tail rs = Some h \<longleftrightarrow> h \<in> heights rs \<and> (\<forall>x \<in> heights rs. h \<le> x)"
  using assms
proof (cases rs)
  case (Cons r xs)
  with assms have bot: "\<forall>x \<in> heights rs. rstart r \<le> x" "rstart r \<in> heights rs"
    by (fastforce simp: in_heights_iff range_ok_def range_set_def)+
  with Cons show ?thesis by (auto simp: br_tail_def intro: antisym)
qed (simp add: br_tail_def)

lemma br_head_None_iff: "br_wf rs \<Longrightarrow> br_head rs = None \<longleftrightarrow> heights rs = {}"
  by (cases rs rule: rev_cases) (auto simp: br_head_def)

lemma br_tail_None_iff: "br_wf rs \<Longrightarrow> br_tail rs = None \<longleftrightarrow> heights rs = {}"
  by (cases rs) (auto simp: br_tail_def)

lemma br_head_Max: "br_wf rs \<Longrightarrow> br_head rs = (if heights rs = {} then None else Some (Max (heights rs)))"
  using br_head_Some_iff [of rs "Max (heights rs)"] by (auto simp: br_head_None_iff)

lemma br_tail_Min: "br_wf rs \<Longrightarrow> br_tail rs = (if heights rs = {} then None else Some (Min (heights rs)))"
  using br_tail_Some_iff [of rs "Min (heights rs)"] by (auto simp: br_tail_None_iff)

lemma pop_head_ok:
  assumes "br_wf rs"
  obtains rs' where "pop_head rs = Inr (br_head rs, rs')" "br_wf rs'"
    "heights rs' = heights rs - set_option (br_head rs)"
proof (cases rs rule: rev_cases)
  case Nil
  then show thesis using that by (simp add: pop_head_def br_head_def)
next
  case (snoc xs r)
  with assms have top: "\<forall>x \<in> heights xs. x < rend r"
    by (fastforce simp: in_heights_iff range_ok_def)
  define rs' where "rs' = (if rstart r = rend r then xs else xs @ [Rng (rstart r) (rend r - 1)])"
  have "br_wf rs'" using snoc assms by (auto simp: rs'_def range_ok_def)
  moreover have "heights rs' = heights rs - {rend r}"
    using snoc assms top by (auto simp: rs'_def range_ok_def range_set_def)
  moreover have "pop_head rs = Inr (Some (rend r), rs')"
    using snoc assms range_okD [of r] by (auto simp: pop_head_def rs'_def)
  ultimately show thesis using that snoc by (simp add: br_head_def)
qed

lemma pop_tail_ok:
  assumes "br_wf rs"
  obtains rs' where "pop_tail rs = Inr (br_tail rs, rs')" "br_wf rs'"
    "heights rs' = heights rs - set_option (br_tail rs)"
proof (cases rs)
  case Nil
  then show thesis using that by (simp add: pop_tail_def br_tail_def)
next
  case (Cons r xs)
  with assms have bot: "\<forall>x \<in> heights xs. rstart r < x"
    by (fastforce simp: in_heights_iff range_ok_def)
  define rs' where "rs' = (if rstart r = rend r then xs else Rng (rstart r + 1) (rend r) # xs)"
  have "br_wf rs'" using Cons assms by (auto simp: rs'_def range_ok_def)
  moreover have "heights rs' = heights rs - {rstart r}"
    using Cons assms bot by (auto simp: rs'_def range_ok_def range_set_def)
  moreover have "pop_tail rs = Inr (Some (rstart r), rs')"
    using Cons assms range_okD [of r] by (auto simp: pop_tail_def rs'_def)
  ultimately show thesis using that Cons by (simp add: br_tail_def)
qed

section \<open>Set algebra\<close>

lemma br_add_ok:
  assumes "br_wf lhs" "br_wf rhs"
  obtains rs where "br_add lhs rhs = Inr rs" "br_wf rs" "heights rs = heights lhs \<union> heights rhs"
proof -
  have "\<exists>rs. br_add lhs rhs = Inr rs \<and> br_wf rs \<and> heights rs = heights lhs \<union> heights rhs"
    unfolding br_add_def
  proof (rule fold_r_invariant)
    fix ys r zs acc
    assume "rhs = ys @ r # zs" and acc: "br_wf acc \<and> heights acc = heights lhs \<union> heights ys"
    with assms(2) have "range_ok r" by auto
    with acc obtain acc' where "insert_relaxed acc r = Inr acc'" "br_wf acc'"
        "heights acc' = heights acc \<union> range_set r"
      using insert_relaxed_ok by blast
    with acc show "\<exists>u. expect_r holds_valid (insert_relaxed acc r) = Inr u \<and>
        br_wf u \<and> heights u = heights lhs \<union> heights (ys @ [r])"
      by auto
  qed (use assms in simp)
  then show thesis using that by blast
qed

lemma br_sub_ok:
  assumes "br_wf lhs" "br_wf rhs"
  obtains rs where "br_sub lhs rhs = Inr rs" "br_wf rs" "heights rs = heights lhs - heights rhs"
proof -
  have "\<exists>rs. br_sub lhs rhs = Inr rs \<and> br_wf rs \<and> heights rs = heights lhs - heights rhs"
    unfolding br_sub_def
  proof (rule fold_r_invariant)
    fix ys r zs acc
    assume "rhs = ys @ r # zs" and acc: "br_wf acc \<and> heights acc = heights lhs - heights ys"
    with assms(2) have "range_ok r" by auto
    with acc obtain acc' where "remove_relaxed acc r = Inr acc'" "br_wf acc'"
        "heights acc' = heights acc - range_set r"
      using remove_relaxed_ok by blast
    with acc show "\<exists>u. expect_r holds_valid (remove_relaxed acc r) = Inr u \<and>
        br_wf u \<and> heights u = heights lhs - heights (ys @ [r])"
      by auto
  qed (use assms in simp)
  then show thesis using that by blast
qed

lemma br_not_eq: "br_not rs = br_sub [Rng 1 u64_max] rs"
  by (simp add: br_not_def br_sub_def insert_relaxed_def validate_def find_affected_ranges_def)

lemma br_not_ok:
  assumes "br_wf rs"
  obtains rs' where "br_not rs = Inr rs'" "br_wf rs'" "heights rs' = all_heights - heights rs"
  using br_sub_ok [of "[Rng 1 u64_max]" rs] assms by (auto simp: br_not_eq all_heights_def)

lemma br_and_ok:
  assumes "br_wf lhs" "br_wf rhs"
  obtains rs where "br_and lhs rhs = Inr rs" "br_wf rs" "heights rs = heights lhs \<inter> heights rhs"
proof -
  obtain nl where nl: "br_not lhs = (Inr nl :: ('a, block_ranges) result)" "br_wf nl"
    "heights nl = all_heights - heights lhs" using br_not_ok assms by blast
  obtain nr where nr: "br_not rhs = (Inr nr :: ('a, block_ranges) result)" "br_wf nr"
    "heights nr = all_heights - heights rhs" using br_not_ok assms by blast
  obtain u where u: "br_add nl nr = (Inr u :: ('a, block_ranges) result)" "br_wf u"
    "heights u = heights nl \<union> heights nr" using br_add_ok nl nr by blast
  obtain rs where rs: "br_not u = (Inr rs :: ('a, block_ranges) result)" "br_wf rs"
    "heights rs = all_heights - heights u" using br_not_ok u by blast
  have "heights rs = heights lhs \<inter> heights rhs"
    using heights_bounded [OF assms(1)] rs u nl nr by auto
  with nl nr u rs that show thesis by (simp add: br_and_def)
qed

lemma try_from_range_ok [simp]: "range_ok r \<Longrightarrow> try_from_range r = Inr [r]"
  by (simp add: try_from_range_def insert_relaxed_def find_affected_ranges_def)

section \<open>Validation of foreign range lists\<close>

definition u64_range :: "block_range \<Rightarrow> bool" where
  "u64_range r \<longleftrightarrow> rstart r \<le> u64_max \<and> rend r \<le> u64_max"

lemma br_wf_Cons_hd:
  "br_wf (r # rs) \<longleftrightarrow> range_ok r \<and> br_wf rs \<and> (rs \<noteq> [] \<longrightarrow> rend r < rstart (hd rs))"
proof -
  have "rend r < rstart x" if "br_wf rs" "rend r < rstart (hd rs)" "x \<in> set rs" for x
    using br_wf_hd_least [OF that(1,3)] that range_okD(2) [OF br_wf_range_ok [of rs "hd rs"]]
    by (cases rs) auto
  then show ?thesis by (cases rs) (auto simp del: br_wf_Cons simp: br_wf_Cons [of r])
qed

lemma from_vec_loop_iff:
  assumes "\<forall>r \<in> set rs. u64_range r"
  shows "from_vec_loop prev rs = Inr () \<longleftrightarrow>
    br_wf rs \<and> (\<forall>p. prev = Some p \<longrightarrow> rs \<noteq> [] \<longrightarrow> rend p < rstart (hd rs))"
  using assms
proof (induction rs arbitrary: prev)
  case (Cons r rs)
  from Cons.prems have IH: "from_vec_loop (Some r) rs = Inr () \<longleftrightarrow>
      br_wf rs \<and> (rs \<noteq> [] \<longrightarrow> rend r < rstart (hd rs))"
    using Cons.IH [of "Some r"] by simp
  from Cons.prems have "rend r \<le> u64_max" by (simp add: u64_range_def)
  then show ?case
    by (auto simp: IH br_wf_Cons_hd validate_def range_ok_def bind_r_def simp del: br_wf_Cons
        split: option.splits)
qed simp

lemma from_vec_no_panic: "\<not> panics (from_vec rs)"
proof -
  have "\<not> panics (from_vec_loop prev rs)" for prev
    by (induction rs arbitrary: prev) (auto simp: validate_def bind_r_def panics_def
        split: option.splits)
  from this [of None] show ?thesis
    by (auto simp: from_vec_def bind_r_def panics_def split: sum.splits fault.splits)
qed

lemma from_vec_Inr_iff:
  assumes "\<forall>r \<in> set rs. u64_range r"
  shows "from_vec rs = Inr rs' \<longleftrightarrow> rs' = rs \<and> br_wf rs"
  using from_vec_loop_iff [OF assms, of None] by (auto simp: from_vec_def)

lemma br_wf_u64: "br_wf rs \<Longrightarrow> r \<in> set rs \<Longrightarrow> u64_range r"
  by (auto simp: u64_range_def dest: br_wf_range_ok range_okD)

lemma from_vec_wf [simp]: "br_wf rs \<Longrightarrow> from_vec rs = Inr rs"
  by (simp add: from_vec_Inr_iff br_wf_u64)

section \<open>Neighbours of a height\<close>

lemma left_of_loop_eq:
  "br_wf rs \<Longrightarrow> left_of_loop h (rev rs) = (let S = {x \<in> heights rs. x < h} in
     if S = {} then None else Some (Max S))"
proof (induction rs rule: rev_induct)
  case (snoc r rs)
  have ok: "range_ok r" "br_wf rs" "\<forall>x \<in> heights rs. x < rstart r"
    using snoc.prems by (fastforce simp: in_heights_iff)+
  consider "rend r < h" | "rstart r < h" "h \<le> rend r" | "h \<le> rstart r" by linarith
  then show ?case
  proof cases
    case 1
    with ok have "Max {x \<in> heights (rs @ [r]). x < h} = rend r"
      by (intro Max_eqI) (auto simp: range_set_def range_ok_def)
    moreover have "rend r \<in> {x \<in> heights (rs @ [r]). x < h}"
      using 1 ok by (simp add: range_set_def range_ok_def)
    ultimately show ?thesis using 1 by (auto simp: Let_def is_left_of_def)
  next
    case 2
    with ok have "Max {x \<in> heights (rs @ [r]). x < h} = h - 1"
      by (intro Max_eqI) (auto simp: range_set_def range_ok_def)
    moreover have "h - 1 \<in> {x \<in> heights (rs @ [r]). x < h}"
      using 2 ok by (auto simp: range_set_def range_ok_def)
    ultimately show ?thesis using 2 by (auto simp: Let_def is_left_of_def range_contains_def)
  next
    case 3
    then have "{x \<in> heights (rs @ [r]). x < h} = {x \<in> heights rs. x < h}"
      by (auto simp: range_set_def)
    with 3 ok snoc.IH show ?thesis
      by (auto simp: is_left_of_def range_contains_def range_ok_def)
  qed
qed simp

lemma left_of_eq:
  "br_wf rs \<Longrightarrow> left_of rs h =
     (if {x \<in> heights rs. x < h} = {} then None else Some (Max {x \<in> heights rs. x < h}))"
  using left_of_loop_eq [of rs h] by (simp add: left_of_def Let_def)

lemma right_of_eq:
  "br_wf rs \<Longrightarrow> right_of rs h =
     (if {x \<in> heights rs. h < x} = {} then None else Some (Min {x \<in> heights rs. h < x}))"
proof (induction rs)
  case (Cons r rs)
  have ok: "range_ok r" "br_wf rs" "\<forall>x \<in> heights rs. rend r < x"
    using Cons.prems by (fastforce simp: in_heights_iff)+
  consider "h < rstart r" | "rstart r \<le> h" "h < rend r" | "rend r \<le> h" by linarith
  then show ?case
  proof cases
    case 1
    with ok have "Min {x \<in> heights (r # rs). h < x} = rstart r"
      by (intro Min_eqI) (auto simp: range_set_def range_ok_def)
    moreover have "rstart r \<in> {x \<in> heights (r # rs). h < x}"
      using 1 ok by (simp add: range_set_def range_ok_def)
    ultimately show ?thesis using 1 by (auto simp: is_right_of_def)
  next
    case 2
    with ok have "Min {x \<in> heights (r # rs). h < x} = h + 1"
      by (intro Min_eqI) (auto simp: range_set_def range_ok_def)
    moreover have "h + 1 \<in> {x \<in> heights (r # rs). h < x}"
      using 2 ok by (auto simp: range_set_def range_ok_def)
    ultimately show ?thesis using 2 by (auto simp: is_right_of_def range_contains_def)
  next
    case 3
    then have "{x \<in> heights (r # rs). h < x} = {x \<in> heights rs. h < x}"
      by (auto simp: range_set_def)
    with 3 ok Cons.IH show ?thesis
      by (auto simp: is_right_of_def range_contains_def range_ok_def)
  qed
qed simp

end
