(* ===== verification/Block_Ranges_Constraints.thy ===== *)
theory Block_Ranges_Constraints
  imports Block_Ranges_Ops
begin

text \<open>
  When a range of headers may be inserted: \<open>check_insertion_constraints\<close> accepts exactly
  the ranges that overlap nothing and either extend an existing range or lie above all of
  them, and the two flags it returns say which neighbours exist.
\<close>

lemma length_le_card: "br_wf rs \<Longrightarrow> length rs \<le> card (heights rs)"
proof (induction rs rule: rev_induct)
  case (snoc r rs)
  then show ?case using card_heights_snoc [OF snoc.prems] by simp
qed simp

lemma length_le_u64: "br_wf rs \<Longrightarrow> length rs \<le> u64_max"
  using length_le_card card_heights_le le_trans by blast

text \<open>What the constraints say, on the set of heights.\<close>

definition prev_stored :: "block_ranges \<Rightarrow> block_range \<Rightarrow> bool" where
  "prev_stored rs rng \<longleftrightarrow> rstart rng - 1 \<in> heights rs"

definition next_stored :: "block_ranges \<Rightarrow> block_range \<Rightarrow> bool" where
  "next_stored rs rng \<longleftrightarrow> rend rng + 1 \<in> heights rs"

definition insertable :: "block_ranges \<Rightarrow> block_range \<Rightarrow> bool" where
  "insertable rs rng \<longleftrightarrow> heights rs \<inter> range_set rng = {} \<and>
     (prev_stored rs rng \<or> next_stored rs rng \<or> (\<forall>h \<in> heights rs. h < rstart rng))"

text \<open>Around \<open>rng\<close> only the ranges that touch it matter.\<close>

definition splits :: "block_ranges \<Rightarrow> block_ranges \<Rightarrow> block_ranges \<Rightarrow> block_range \<Rightarrow> bool" where
  "splits ls ms hs rng \<longleftrightarrow> br_wf (ls @ ms @ hs) \<and> range_ok rng \<and>
     (\<forall>r \<in> set ls. left_apart r rng) \<and> (\<forall>r \<in> set ms. touches r rng) \<and>
     (\<forall>r \<in> set hs. right_apart r rng)"

lemma near_heights:
  "splits ls ms hs rng \<Longrightarrow> rstart rng \<le> h + 1 \<Longrightarrow> h \<le> rend rng + 1 \<Longrightarrow>
   h \<in> heights (ls @ ms @ hs) \<longleftrightarrow> h \<in> heights ms"
  by (fastforce simp: splits_def in_heights_iff left_apart_def right_apart_def)

lemma splits_reduce:
  assumes "splits ls ms hs rng"
  shows "heights (ls @ ms @ hs) \<inter> range_set rng = heights ms \<inter> range_set rng"
    "prev_stored (ls @ ms @ hs) rng \<longleftrightarrow> prev_stored ms rng"
    "next_stored (ls @ ms @ hs) rng \<longleftrightarrow> next_stored ms rng"
proof -
  have "0 < rstart rng" "rstart rng \<le> rend rng"
    using assms by (auto simp: splits_def range_ok_def)
  then show "prev_stored (ls @ ms @ hs) rng \<longleftrightarrow> prev_stored ms rng"
    "next_stored (ls @ ms @ hs) rng \<longleftrightarrow> next_stored ms rng"
    unfolding prev_stored_def next_stored_def
    by (intro near_heights [OF assms]; simp)+
  show "heights (ls @ ms @ hs) \<inter> range_set rng = heights ms \<inter> range_set rng"
    using near_heights [OF assms] by (auto simp: range_set_def simp del: heights_simps(3))
qed

lemma head_left_of:
  assumes "br_wf rs" "range_ok rng" "rs \<noteq> []"
  shows "is_left_of (last rs) rng \<longleftrightarrow> (\<forall>h \<in> heights rs. h < rstart rng)"
proof -
  have "br_head rs = Some (rend (last rs))" using assms(3) by (simp add: br_head_def)
  with br_head_Some_iff [OF assms(1)] have "rend (last rs) \<in> heights rs"
    "\<forall>x \<in> heights rs. x \<le> rend (last rs)" by blast+
  then show ?thesis by (auto simp: is_left_of_def)
qed

lemma head_adjacent:
  assumes "br_wf rs" "range_ok rng" "rs \<noteq> []" "is_left_of (last rs) rng"
  shows "is_adjacent (last rs) rng \<longleftrightarrow> prev_stored rs rng" "\<not> next_stored rs rng"
    "heights rs \<inter> range_set rng = {}"
proof -
  have "br_head rs = Some (rend (last rs))" using assms(3) by (simp add: br_head_def)
  with br_head_Some_iff [OF assms(1)] have top: "rend (last rs) \<in> heights rs"
    "\<forall>x \<in> heights rs. x \<le> rend (last rs)" by blast+
  have lt: "rend (last rs) < rstart rng" using assms(4) by (simp add: is_left_of_def)
  have lok: "range_ok (last rs)" using assms(1,3) by (simp add: br_wf_range_ok)
  have "is_adjacent (last rs) rng \<longleftrightarrow> rend (last rs) = rstart rng - 1"
    using is_adjacent_iff [OF lok assms(2)] lt range_okD [OF lok] range_okD [OF assms(2)] by auto
  with top lt show "is_adjacent (last rs) rng \<longleftrightarrow> prev_stored rs rng"
    by (auto simp: prev_stored_def)
  from top lt range_okD [OF assms(2)] show "\<not> next_stored rs rng"
    "heights rs \<inter> range_set rng = {}"
    by (fastforce simp: next_stored_def range_set_def)+
qed

text \<open>The verdict on the ranges that touch \<open>rng\<close>: what the \<open>match\<close> on their number
  computes.\<close>

definition touching_verdict ::
  "block_ranges \<Rightarrow> block_range \<Rightarrow> (block_ranges_error, bool \<times> bool) result" where
  "touching_verdict ms rng =
     (if heights ms \<inter> range_set rng = {} then Inr (prev_stored ms rng, next_stored ms rng)
      else Inl (Err (BlockRangeOverlap rng (calc_overlap rng (hd ms) (last ms)))))"

lemma check_one:
  assumes "range_ok m" "range_ok rng" "touches m rng"
  shows "(if is_overlapping m rng
          then Inl (Err (BlockRangeOverlap rng (calc_overlap rng m m)))
          else if is_left_of m rng then Inr (True, False) else Inr (False, True))
        = touching_verdict [m] rng"
  using assms is_overlapping_iff [OF assms(1,2)]
  by (auto simp: touching_verdict_def is_left_of_def touches_def prev_stored_def next_stored_def
      range_ok_def range_set_def)

lemma check_two:
  assumes "br_wf [a, b]" "range_ok rng" "touches a rng" "touches b rng"
  shows "(if is_adjacent a rng \<and> is_adjacent b rng then Inr (True, True)
          else Inl (Err (BlockRangeOverlap rng (calc_overlap rng a b))))
        = touching_verdict [a, b] rng"
proof -
  have ok: "range_ok a" "range_ok b" "rend a < rstart b" using assms(1) by auto
  have "is_adjacent a rng \<and> is_adjacent b rng \<longleftrightarrow> heights [a, b] \<inter> range_set rng = {}"
    using ok assms(2-4) is_adjacent_iff [OF ok(1) assms(2)] is_adjacent_iff [OF ok(2) assms(2)]
    by (auto simp: touches_def range_ok_def range_set_def)
  moreover have "prev_stored [a, b] rng \<and> next_stored [a, b] rng"
    if "is_adjacent a rng \<and> is_adjacent b rng"
    using that ok assms(2-4) is_adjacent_iff [OF ok(1) assms(2)] is_adjacent_iff [OF ok(2) assms(2)]
    by (auto simp: prev_stored_def next_stored_def touches_def range_ok_def range_set_def)
  ultimately show ?thesis by (simp add: touching_verdict_def)
qed

lemma check_many:
  assumes "br_wf ms" "range_ok rng" "\<forall>r \<in> set ms. touches r rng" "3 \<le> length ms"
  shows "touching_verdict ms rng =
    Inl (Err (BlockRangeOverlap rng (calc_overlap rng (hd ms) (last ms))))"
proof -
  from assms(4) obtain a b c ms' where ms: "ms = a # b # c # ms'"
    by (metis Suc_le_length_iff numeral_3_eq_3)
  with assms have "range_ok b" "rend a < rstart b" "rend b < rstart c" "touches a rng" "touches c rng"
    by auto
  then have "rstart b \<in> heights ms \<inter> range_set rng"
    using ms by (auto simp: touches_def range_ok_def range_set_def)
  then show ?thesis by (auto simp: touching_verdict_def)
qed

lemma check_insertion_constraints_eq:
  assumes "br_wf rs" "range_ok rng"
  obtains ls ms hs where "rs = ls @ ms @ hs" "splits ls ms hs rng"
    "check_insertion_constraints rs rng =
       (if rs = [] then Inr (False, False)
        else if is_left_of (last rs) rng then Inr (is_adjacent (last rs) rng, False)
        else if ms = [] then Inl (Err (NoAdjacentNeighbors rng))
        else touching_verdict ms rng)"
proof -
  from find_affected_split [OF assms] obtain ls ms hs where rs: "rs = ls @ ms @ hs"
    and *: "\<forall>r \<in> set ls. left_apart r rng" "\<forall>r \<in> set ms. touches r rng"
    "\<forall>r \<in> set hs. right_apart r rng"
    and find: "find_affected_ranges rs rng =
       (if ms = [] then None else Some (length ls, length ls + length ms - 1))" .
  have sp: "splits ls ms hs rng" using rs * assms by (simp add: splits_def)
  have wf: "br_wf ms" using rs assms(1) by simp
  have n: "length ms \<le> u64_max" using length_le_u64 [OF wf] .
  have "check_insertion_constraints rs rng =
       (if rs = [] then Inr (False, False)
        else if is_left_of (last rs) rng then Inr (is_adjacent (last rs) rng, False)
        else if ms = [] then Inl (Err (NoAdjacentNeighbors rng))
        else touching_verdict ms rng)"
  proof (cases "rs \<noteq> [] \<and> \<not> is_left_of (last rs) rng \<and> ms \<noteq> []")
    case True
    then have ne: "ms \<noteq> []" by simp
    have get: "vec_get rs (length ls) = (Inr (hd ms) :: (block_ranges_error, block_range) result)"
      "vec_get rs (length ls + length ms - Suc 0) = (Inr (last ms) :: (block_ranges_error, block_range) result)"
      using ne rs by simp_all
    have sub: "sub_u64 (length ls + length ms - Suc 0) (length ls) =
        (Inr (length ms - 1) :: (block_ranges_error, nat) result)"
      using ne by (cases ms) (auto simp: sub_u64_def)
    have add: "add_u64 (length ms - 1) 1 = (Inr (length ms) :: (block_ranges_error, nat) result)"
      using ne n by (cases ms) (auto simp: add_u64_def)
    consider m where "ms = [m]" | a b where "ms = [a, b]" | "3 \<le> length ms"
      using ne by (cases ms rule: remdups_adj.cases) (auto simp: numeral_3_eq_3 Suc_le_length_iff,
          metis list.exhaust)
    then show ?thesis
    proof cases
      case 1
      then show ?thesis
        using True find get sub add wf * assms check_one [of m rng]
        by (simp add: check_insertion_constraints_def)
    next
      case 2
      then show ?thesis
        using True find get sub add wf * assms check_two [of a b rng]
        by (simp add: check_insertion_constraints_def)
    next
      case 3
      then show ?thesis
        using True find get sub add assms check_many [OF wf assms(2) *(2) 3]
        by (simp add: check_insertion_constraints_def)
    qed
  next
    case False
    then show ?thesis
      using find assms by (auto simp: check_insertion_constraints_def)
  qed
  with rs sp that show thesis by blast
qed

lemma check_insertion_constraints_cases:
  assumes "br_wf rs" "range_ok rng"
  shows "(insertable rs rng \<and>
            check_insertion_constraints rs rng = Inr (prev_stored rs rng, next_stored rs rng)) \<or>
         (heights rs \<inter> range_set rng = {} \<and> \<not> insertable rs rng \<and>
            check_insertion_constraints rs rng = Inl (Err (NoAdjacentNeighbors rng))) \<or>
         (heights rs \<inter> range_set rng \<noteq> {} \<and>
            (\<exists>ov. check_insertion_constraints rs rng = Inl (Err (BlockRangeOverlap rng ov))))"
proof -
  from check_insertion_constraints_eq [OF assms] obtain ls ms hs where
    rs: "rs = ls @ ms @ hs" and sp: "splits ls ms hs rng" and
    eq: "check_insertion_constraints rs rng =
       (if rs = [] then Inr (False, False)
        else if is_left_of (last rs) rng then Inr (is_adjacent (last rs) rng, False)
        else if ms = [] then Inl (Err (NoAdjacentNeighbors rng))
        else touching_verdict ms rng)" .
  note red = splits_reduce [OF sp, folded rs]
  consider (empty) "rs = []" | (left) "rs \<noteq> []" "is_left_of (last rs) rng"
    | (none) "rs \<noteq> []" "\<not> is_left_of (last rs) rng" "ms = []"
    | (some) "rs \<noteq> []" "\<not> is_left_of (last rs) rng" "ms \<noteq> []" by blast
  then show ?thesis
  proof cases
    case empty
    then show ?thesis using eq by (simp add: insertable_def prev_stored_def next_stored_def)
  next
    case left
    with eq head_adjacent [OF assms left] head_left_of [OF assms left(1)] show ?thesis
      by (simp add: insertable_def)
  next
    case none
    with eq red head_left_of [OF assms none(1)] show ?thesis
      by (auto simp: insertable_def prev_stored_def next_stored_def)
  next
    case some
    have adj: "prev_stored ms rng \<or> next_stored ms rng" if "heights ms \<inter> range_set rng = {}"
    proof -
      have "touches (hd ms) rng" "range_ok (hd ms)" "range_ok rng" "range_set (hd ms) \<subseteq> heights ms"
        using sp some(3) hd_in_set [OF some(3)] br_wf_range_ok [of ms "hd ms"]
        by (auto simp: splits_def heights_def simp del: hd_in_set)
      moreover from calculation that have "\<not> is_overlapping (hd ms) rng"
        by (auto simp: is_overlapping_iff)
      ultimately have "rstart rng - 1 \<in> range_set (hd ms) \<or> rend rng + 1 \<in> range_set (hd ms)"
        by (auto simp: is_overlapping_def range_contains_def touches_def range_ok_def range_set_def
            split: if_splits)
      with \<open>range_set (hd ms) \<subseteq> heights ms\<close> show ?thesis
        by (auto simp: prev_stored_def next_stored_def)
    qed
    with some eq red head_left_of [OF assms some(1)] show ?thesis
      by (auto simp: touching_verdict_def insertable_def)
  qed
qed

lemma check_insertion_ok_iff:
  assumes "br_wf rs" "range_ok rng"
  shows "check_insertion_constraints rs rng = Inr (p, n) \<longleftrightarrow>
    insertable rs rng \<and> p = prev_stored rs rng \<and> n = next_stored rs rng"
  using check_insertion_constraints_cases [OF assms] by (auto simp: insertable_def)

lemma check_insertion_no_panic:
  "br_wf rs \<Longrightarrow> range_ok rng \<Longrightarrow> \<not> panics (check_insertion_constraints rs rng)"
  using check_insertion_constraints_cases [of rs rng] by auto

lemma check_insertion_invalid:
  "\<not> (0 < rstart rng \<and> rstart rng \<le> rend rng) \<Longrightarrow>
   check_insertion_constraints rs rng = Inl (Err (InvalidBlockRange rng))"
  by (auto simp: check_insertion_constraints_def validate_def)

end
