(* ===== verification/Block_Ranges_Search.thy ===== *)
theory Block_Ranges_Search
  imports Block_Ranges_Constraints
begin

text \<open>
  The operations the syncer and the pruner search with: the topmost or lowest heights of
  a set (\<open>headn\<close>, \<open>tailn\<close>) and the edges of its ranges, and the canonical form in which equal
  sets are equal lists.
\<close>

section \<open>Canonical lists\<close>

text \<open>Ranges separated by at least one missing height. Every list the node builds with
  \<open>insert_relaxed\<close> and \<open>remove_relaxed\<close> from the empty one has this form.\<close>

definition br_gap :: "block_ranges \<Rightarrow> bool" where
  "br_gap rs \<longleftrightarrow> sorted_wrt (\<lambda>a b. rend a + 1 < rstart b) rs"

lemma br_gap_simps [simp]:
  "br_gap []"
  "br_gap (r # rs) \<longleftrightarrow> (\<forall>x \<in> set rs. rend r + 1 < rstart x) \<and> br_gap rs"
  "br_gap (rs @ ss) \<longleftrightarrow> br_gap rs \<and> br_gap ss \<and> (\<forall>x \<in> set rs. \<forall>y \<in> set ss. rend x + 1 < rstart y)"
  by (auto simp: br_gap_def sorted_wrt_append)

lemma insert_relaxed_gap:
  assumes "br_wf rs" "br_gap rs" "range_ok rng" "insert_relaxed rs rng = Inr rs'"
  shows "br_gap rs'"
proof -
  from insert_relaxed_split [OF assms(1,3)] obtain ls ms hs where *: "rs = ls @ ms @ hs"
    "\<forall>r \<in> set ls. left_apart r rng" "\<forall>r \<in> set ms. touches r rng"
    "\<forall>r \<in> set hs. right_apart r rng" "insert_relaxed rs rng = Inr (ls @ merged ms rng # hs)" .
  have "\<forall>r \<in> set ls. rend r + 1 < rstart (merged ms rng)"
    using * assms(2) hd_in_set [of ms] by (auto simp: merged_def left_apart_def)
  moreover have "rend (last ms) + 1 < rstart r" if "r \<in> set hs" "ms \<noteq> []" for r
    using that * assms(2) last_in_set [of ms] by auto
  with *(4) have "\<forall>r \<in> set hs. rend (merged ms rng) + 1 < rstart r"
    by (auto simp: merged_def right_apart_def max_def)
  ultimately show ?thesis using * assms by auto
qed

lemma remove_relaxed_gap:
  assumes "br_wf rs" "br_gap rs" "range_ok rng" "remove_relaxed rs rng = Inr rs'"
  shows "br_gap rs'"
proof -
  from remove_relaxed_split [OF assms(1,3)] obtain ls ms hs where *: "rs = ls @ ms @ hs"
    "\<forall>r \<in> set ls. left_apart r rng" "\<forall>r \<in> set ms. touches r rng"
    "\<forall>r \<in> set hs. right_apart r rng" "remove_relaxed rs rng = Inr (ls @ remainder ms rng @ hs)" .
  from * assms(1) have wf: "br_wf ms" by simp
  have nonempty: "ms \<noteq> []" if "r \<in> set (remainder ms rng)" for r
    using that by (auto simp: remainder_def)
  have "\<forall>x \<in> set ls. \<forall>y \<in> set (remainder ms rng). rend x + 1 < rstart y"
    using * assms(2) remainder_bounds(1) [OF wf *(3)] nonempty hd_in_set
    by (metis br_gap_simps(3) Un_iff less_le_trans set_append)
  moreover have "\<forall>x \<in> set (remainder ms rng). \<forall>y \<in> set hs. rend x + 1 < rstart y"
    using * assms(2) remainder_bounds(2) [OF wf *(3)] nonempty last_in_set
    by (metis br_gap_simps(3) add_le_mono1 le_less_trans)
  moreover have "br_gap (remainder ms rng)"
    using assms(3) by (auto simp: remainder_def range_ok_def)
  ultimately show ?thesis using * assms by auto
qed

text \<open>The canonical list of a set of heights is unique, so the derived equality of
  \<open>BlockRanges\<close> is equality of the sets.\<close>

lemma gap_first_end:
  assumes "br_wf (r # rs)" "br_gap (r # rs)"
  shows "rstart r = Min (heights (r # rs))" "rend r + 1 \<notin> heights (r # rs)"
    "{rstart r..rend r} \<subseteq> heights (r # rs)"
proof -
  show "rstart r = Min (heights (r # rs))"
    using br_tail_Min [OF assms(1)] assms(1) by (auto simp: br_tail_def)
  have "\<forall>x \<in> set rs. rend r + 1 < rstart x" using assms(2) by simp
  then show "rend r + 1 \<notin> heights (r # rs)"
    by (force simp: in_heights_iff range_set_def)
qed (auto simp: range_set_def)

lemma heights_tl_disjoint: "br_wf (r # rs) \<Longrightarrow> heights rs \<inter> range_set r = {}"
  by (force simp: in_heights_iff range_set_def)

lemma gap_first_not_shorter:
  assumes "br_wf (r # rs)" "br_gap (r # rs)" "{rstart s..rend s} \<subseteq> heights (r # rs)"
    "rstart s = rstart r"
  shows "rend s \<le> rend r"
proof (rule ccontr)
  assume "\<not> rend s \<le> rend r"
  with assms(1,4) have "rend r + 1 \<in> {rstart s..rend s}" by (auto dest: range_okD)
  with assms(3) gap_first_end(2) [OF assms(1,2)] show False by blast
qed

lemma canonical_unique:
  "br_wf rs \<Longrightarrow> br_gap rs \<Longrightarrow> br_wf ss \<Longrightarrow> br_gap ss \<Longrightarrow> heights rs = heights ss \<Longrightarrow> rs = ss"
proof (induction rs arbitrary: ss)
  case Nil
  then show ?case using heights_eq_empty [of ss] by simp
next
  case (Cons r rs)
  note prems = Cons.prems
  from prems(1,3,5) have "ss \<noteq> []" using heights_eq_empty [of "r # rs"] by auto
  then obtain s ss' where ss: "ss = s # ss'" by (cases ss) auto
  note r = gap_first_end [OF prems(1,2)] and s = gap_first_end [OF prems(3,4) [unfolded ss]]
  have st: "rstart r = rstart s" using r(1) s(1) prems(5) ss by simp
  have "rend r \<le> rend s"
    by (rule gap_first_not_shorter [OF prems(3,4) [unfolded ss]]) (use r(3) prems(5) ss st in auto)
  moreover have "rend s \<le> rend r"
    by (rule gap_first_not_shorter [OF prems(1,2)]) (use s(3) prems(5) ss st in auto)
  ultimately have rs: "r = s" using st by (simp add: block_range.expand)
  have "heights rs = heights (r # rs) - range_set r" "heights ss' = heights (s # ss') - range_set s"
    using heights_tl_disjoint [OF prems(1)] heights_tl_disjoint [OF prems(3) [unfolded ss]] by auto
  then have "heights rs = heights ss'" using prems(5) ss rs by simp
  moreover have "br_wf rs" "br_gap rs" "br_wf ss'" "br_gap ss'" using prems ss by simp_all
  ultimately show ?case using Cons.IH ss rs by blast
qed

section \<open>Edges\<close>

lemma edges_ok:
  assumes "br_wf rs"
  obtains es where "edges rs = Inr es" "br_wf es" "heights es = (\<Union>r \<in> set rs. {rstart r, rend r})"
proof -
  have "\<exists>es. edges rs = Inr es \<and> br_wf es \<and> heights es = (\<Union>r \<in> set rs. {rstart r, rend r})"
    unfolding edges_def
  proof (rule fold_r_invariant)
    fix ys r zs acc
    assume "rs = ys @ r # zs" and acc: "br_wf acc \<and> heights acc = (\<Union>r \<in> set ys. {rstart r, rend r})"
    with assms have "range_ok r" by auto
    note r = range_okD [OF this]
    have "0 < rend r" using r by simp
    obtain a where a: "insert_relaxed acc (Rng (rstart r) (rstart r)) = Inr a" "br_wf a"
      "heights a = insert (rstart r) (heights acc)"
      using insert_height_ok r(1,4) acc by blast
    obtain b where b: "insert_relaxed a (Rng (rend r) (rend r)) = Inr b" "br_wf b"
      "heights b = insert (rend r) (heights a)"
      using insert_height_ok r(3) \<open>0 < rend r\<close> a(2) by blast
    show "\<exists>u. bind_r (expect_r holds_valid (insert_relaxed acc (Rng (rstart r) (rstart r))))
          (\<lambda>acc'. expect_r holds_valid (insert_relaxed acc' (Rng (rend r) (rend r)))) = Inr u \<and>
        br_wf u \<and> heights u = (\<Union>r \<in> set (ys @ [r]). {rstart r, rend r})"
      using a b acc by auto
  qed simp
  then show thesis using that by blast
qed

lemma edge_iff:
  assumes "br_wf rs" "br_gap rs"
  shows "(\<exists>r \<in> set rs. h = rstart r \<or> h = rend r) \<longleftrightarrow>
    h \<in> heights rs \<and> (h - 1 \<notin> heights rs \<or> h + 1 \<notin> heights rs)"
proof
  assume "\<exists>r \<in> set rs. h = rstart r \<or> h = rend r"
  then obtain r where r: "r \<in> set rs" "h = rstart r \<or> h = rend r" by blast
  have ok: "range_ok r" using assms(1) r(1) by (rule br_wf_range_ok)
  obtain ls hs where rs: "rs = ls @ r # hs" using r(1) by (meson split_list)
  have "rstart r - 1 \<notin> heights rs" "rend r + 1 \<notin> heights rs"
    using assms rs range_okD [OF ok] by (fastforce simp: in_heights_iff range_set_def)+
  with r ok rs show "h \<in> heights rs \<and> (h - 1 \<notin> heights rs \<or> h + 1 \<notin> heights rs)"
    by (auto simp: range_set_def range_ok_def)
next
  assume a: "h \<in> heights rs \<and> (h - 1 \<notin> heights rs \<or> h + 1 \<notin> heights rs)"
  then obtain r where r: "r \<in> set rs" "rstart r \<le> h" "h \<le> rend r" by (auto simp: in_heights_iff)
  have ok: "range_ok r" using assms(1) r(1) by (rule br_wf_range_ok)
  from a have "\<not> (rstart r \<le> h - 1 \<and> h - 1 \<le> rend r) \<or> \<not> (rstart r \<le> h + 1 \<and> h + 1 \<le> rend r)"
    using r(1) by (auto simp: in_heights_iff)
  with r ok have "h = rstart r \<or> h = rend r" by auto
  with r show "\<exists>r \<in> set rs. h = rstart r \<or> h = rend r" by blast
qed

section \<open>The highest and the lowest heights\<close>

definition top_n :: "nat set \<Rightarrow> nat \<Rightarrow> nat set \<Rightarrow> bool" where
  "top_n S n T \<longleftrightarrow> T \<subseteq> S \<and> card T = min n (card S) \<and> (\<forall>x \<in> S - T. \<forall>y \<in> T. x < y)"

definition low_n :: "nat set \<Rightarrow> nat \<Rightarrow> nat set \<Rightarrow> bool" where
  "low_n S n T \<longleftrightarrow> T \<subseteq> S \<and> card T = min n (card S) \<and> (\<forall>x \<in> S - T. \<forall>y \<in> T. y < x)"

lemma top_n_whole: "finite S \<Longrightarrow> top_n S n T \<Longrightarrow> card T < n \<Longrightarrow> T = S"
  by (metis card_subset_eq min_def nat_neq_iff top_n_def)

lemma low_n_whole: "finite S \<Longrightarrow> low_n S n T \<Longrightarrow> card T < n \<Longrightarrow> T = S"
  by (metis card_subset_eq min_def nat_neq_iff low_n_def)

lemma range_headn_ok:
  assumes "range_ok r" "0 < k"
  shows "range_ok (range_headn r k)" "range_set (range_headn r k) \<subseteq> range_set r"
    "card (range_set (range_headn r k)) = min k (card (range_set r))"
    "\<forall>x \<in> range_set r - range_set (range_headn r k). \<forall>y \<in> range_set (range_headn r k). x < y"
    "range_len (range_headn r k) = Inr (min k (card (range_set r)))"
proof -
  have eq: "range_headn r k = Rng (max (rstart r) (rend r - k + 1)) (rend r)"
    using assms
    by (auto simp: range_headn_def range_is_empty_def checked_add_def saturating_sub_def range_ok_def)
  show ok: "range_ok (range_headn r k)" using assms by (auto simp: eq range_ok_def)
  show "range_set (range_headn r k) \<subseteq> range_set r" by (auto simp: eq range_set_def)
  show c: "card (range_set (range_headn r k)) = min k (card (range_set r))"
    using assms by (auto simp: eq range_set_def range_ok_def)
  show "\<forall>x \<in> range_set r - range_set (range_headn r k). \<forall>y \<in> range_set (range_headn r k). x < y"
    by (auto simp: eq range_set_def)
  show "range_len (range_headn r k) = Inr (min k (card (range_set r)))"
    using range_len_card [OF ok] c by simp
qed

text \<open>The same for \<open>tailn\<close>, except at the largest 64-bit height: there the saturated end
  is one too small.\<close>

lemma range_tailn_ok:
  assumes "range_ok r" "0 < k" "rend r < u64_max"
  shows "range_ok (range_tailn r k)" "range_set (range_tailn r k) \<subseteq> range_set r"
    "card (range_set (range_tailn r k)) = min k (card (range_set r))"
    "\<forall>x \<in> range_set r - range_set (range_tailn r k). \<forall>y \<in> range_set (range_tailn r k). y < x"
    "range_len (range_tailn r k) = Inr (min k (card (range_set r)))"
proof -
  have eq: "range_tailn r k = Rng (rstart r) (min (rend r) (rstart r + k - 1))"
    using assms by (auto simp: range_tailn_def range_is_empty_def checked_sub_def
        saturating_add_def range_ok_def min_def)
  show ok: "range_ok (range_tailn r k)" using assms by (auto simp: eq range_ok_def)
  show "range_set (range_tailn r k) \<subseteq> range_set r" by (auto simp: eq range_set_def)
  show c: "card (range_set (range_tailn r k)) = min k (card (range_set r))"
    using assms by (auto simp: eq range_set_def range_ok_def)
  show "\<forall>x \<in> range_set r - range_set (range_tailn r k). \<forall>y \<in> range_set (range_tailn r k). y < x"
    by (auto simp: eq range_set_def)
  show "range_len (range_tailn r k) = Inr (min k (card (range_set r)))"
    using range_len_card [OF ok] c by simp
qed

lemma top_n_extend:
  assumes "finite R" "finite S" "\<forall>x \<in> R. \<forall>y \<in> S. x < y" "Q \<subseteq> R"
    "card Q = min (n - card S) (card R)" "\<forall>x \<in> R - Q. \<forall>y \<in> Q. x < y" "card S < n"
  shows "top_n (R \<union> S) n (S \<union> Q)"
proof -
  have d: "S \<inter> Q = {}" "R \<inter> S = {}" using assms(3,4) by auto
  have "finite Q" using assms(1,4) by (rule finite_subset [rotated])
  then have "card (S \<union> Q) = min n (card (R \<union> S))"
    using assms d by (simp add: card_Un_disjoint)
  then show ?thesis using assms(3,4,6) by (auto simp: top_n_def)
qed

lemma top_n_skip:
  assumes "finite R" "finite S" "\<forall>x \<in> R. \<forall>y \<in> S. x < y" "top_n S n T" "card T = n"
  shows "top_n (R \<union> S) n T"
proof -
  have "R \<inter> S = {}" using assms(3) by auto
  then have "n \<le> card (R \<union> S)"
    using assms by (simp add: card_Un_disjoint top_n_def min_def split: if_splits)
  then show ?thesis using assms by (auto simp: top_n_def)
qed

lemma headn_loop_ok:
  assumes "br_wf (ys @ zs)" "br_wf tr" "limit \<le> u64_max" "top_n (heights zs) limit (heights tr)"
  shows "\<exists>t. headn_loop limit (rev ys) (card (heights tr)) tr = (Inr t :: ('e, block_ranges) result) \<and>
    br_wf t \<and> top_n (heights (ys @ zs)) limit (heights t)"
  using assms
proof (induction ys arbitrary: zs tr rule: rev_induct)
  case Nil
  then show ?case by auto
next
  case (snoc r ys)
  have wf: "br_wf (ys @ r # zs)" using snoc.prems(1) by simp
  then have ok: "range_ok r" by simp
  have below: "\<forall>x \<in> heights (ys @ [r]). \<forall>y \<in> heights zs. x < y"
    using heights_append_less [OF snoc.prems(1)] by blast
  have le: "card (heights tr) \<le> limit" using snoc.prems(4) by (simp add: top_n_def)
  show ?case
  proof (cases "card (heights tr) = limit")
    case True
    have "top_n (heights ((ys @ [r]) @ zs)) limit (heights tr)"
      using top_n_skip [OF _ _ below snoc.prems(4) True] by (simp add: Un_assoc)
    with True snoc.prems(2) show ?thesis by simp
  next
    case False
    with le have lt: "card (heights tr) < limit" by simp
    let ?k = "limit - card (heights tr)" and ?q = "range_headn r (limit - card (heights tr))"
    have kpos: "0 < ?k" using lt by simp
    note q = range_headn_ok [OF ok kpos]
    have eq: "heights tr = heights zs" by (rule top_n_whole [OF _ snoc.prems(4) lt]) simp
    from insert_relaxed_ok [OF snoc.prems(2) q(1)] obtain tr' where
      tr': "insert_relaxed tr ?q = Inr tr'" "br_wf tr'" "heights tr' = heights tr \<union> range_set ?q" .
    have "top_n (range_set r \<union> heights zs) limit (heights zs \<union> range_set ?q)"
      by (rule top_n_extend) (use q(2-4) below lt eq in auto)
    then have top: "top_n (heights (r # zs)) limit (heights tr')"
      using tr'(3) eq by simp
    have "heights tr \<inter> range_set ?q = {}" using below q(2) eq by auto
    then have card': "card (heights tr') = card (heights tr) + min ?k (card (range_set r))"
      using tr'(3) q(3) by (simp add: card_Un_disjoint)
    have "card (heights tr') \<le> u64_max" using card_heights_le [OF tr'(2)] .
    with card' tr'(1) False le
    have "headn_loop limit (rev (ys @ [r])) (card (heights tr)) tr =
        (headn_loop limit (rev ys) (card (heights tr')) tr' :: ('e, block_ranges) result)"
      by (simp add: range_headn_ok(5) [OF ok kpos])
    with snoc.IH [OF wf tr'(2) snoc.prems(3) top] show ?thesis by simp
  qed
qed

lemma br_headn_ok:
  assumes "br_wf rs" "limit \<le> u64_max"
  obtains t where "br_headn rs limit = Inr t" "br_wf t" "top_n (heights rs) limit (heights t)"
proof -
  have "top_n (heights []) limit (heights [])" by (simp add: top_n_def)
  from headn_loop_ok [OF _ _ assms(2) this, of rs] assms(1) that show thesis
    by (auto simp: br_headn_def)
qed

lemma low_n_extend:
  assumes "finite R" "finite S" "\<forall>x \<in> R. \<forall>y \<in> S. y < x" "Q \<subseteq> R"
    "card Q = min (n - card S) (card R)" "\<forall>x \<in> R - Q. \<forall>y \<in> Q. y < x" "card S < n"
  shows "low_n (S \<union> R) n (S \<union> Q)"
proof -
  have d: "S \<inter> Q = {}" "S \<inter> R = {}" using assms(3,4) by auto
  have "finite Q" using assms(1,4) by (rule finite_subset [rotated])
  then have "card (S \<union> Q) = min n (card (S \<union> R))"
    using assms d by (simp add: card_Un_disjoint)
  then show ?thesis using assms(3,4,6) by (auto simp: low_n_def)
qed

lemma low_n_skip:
  assumes "finite R" "finite S" "\<forall>x \<in> R. \<forall>y \<in> S. y < x" "low_n S n T" "card T = n"
  shows "low_n (S \<union> R) n T"
proof -
  have "S \<inter> R = {}" using assms(3) by auto
  then have "n \<le> card (S \<union> R)"
    using assms by (simp add: card_Un_disjoint low_n_def min_def split: if_splits)
  then show ?thesis using assms by (auto simp: low_n_def)
qed

lemma tailn_loop_ok:
  assumes "br_wf (ys @ zs)" "br_wf tr" "limit \<le> u64_max" "low_n (heights ys) limit (heights tr)"
    "u64_max \<notin> heights zs"
  shows "\<exists>t. tailn_loop limit zs (card (heights tr)) tr = (Inr t :: ('e, block_ranges) result) \<and>
    br_wf t \<and> low_n (heights (ys @ zs)) limit (heights t)"
  using assms
proof (induction zs arbitrary: ys tr)
  case Nil
  then show ?case by auto
next
  case (Cons r zs)
  have wf: "br_wf ((ys @ [r]) @ zs)" using Cons.prems(1) by simp
  then have ok: "range_ok r" by simp
  have above: "\<forall>x \<in> heights (r # zs). \<forall>y \<in> heights ys. y < x"
    using heights_append_less [OF Cons.prems(1)] by blast
  have le: "card (heights tr) \<le> limit" using Cons.prems(4) by (simp add: low_n_def)
  have "rend r \<noteq> u64_max" using Cons.prems(5) ok by (auto simp: range_set_def range_ok_def)
  then have top: "rend r < u64_max" using range_okD(3) [OF ok] by simp
  show ?case
  proof (cases "card (heights tr) = limit")
    case True
    then show ?thesis
      using low_n_skip [OF _ _ above Cons.prems(4)] Cons.prems(2) by auto
  next
    case False
    with le have lt: "card (heights tr) < limit" by simp
    let ?k = "limit - card (heights tr)" and ?q = "range_tailn r (limit - card (heights tr))"
    have kpos: "0 < ?k" using lt by simp
    note q = range_tailn_ok [OF ok kpos top]
    have eq: "heights tr = heights ys" by (rule low_n_whole [OF _ Cons.prems(4) lt]) simp
    from insert_relaxed_ok [OF Cons.prems(2) q(1)] obtain tr' where
      tr': "insert_relaxed tr ?q = Inr tr'" "br_wf tr'" "heights tr' = heights tr \<union> range_set ?q" .
    have "low_n (heights ys \<union> range_set r) limit (heights ys \<union> range_set ?q)"
      by (rule low_n_extend) (use q(2-4) above lt eq in auto)
    then have low: "low_n (heights (ys @ [r])) limit (heights tr')"
      using tr'(3) eq by simp
    have "heights tr \<inter> range_set ?q = {}" using above q(2) eq by auto
    then have card': "card (heights tr') = card (heights tr) + min ?k (card (range_set r))"
      using tr'(3) q(3) by (simp add: card_Un_disjoint)
    have "card (heights tr') \<le> u64_max" using card_heights_le [OF tr'(2)] .
    with card' tr'(1) False le
    have "tailn_loop limit (r # zs) (card (heights tr)) tr =
        (tailn_loop limit zs (card (heights tr')) tr' :: ('e, block_ranges) result)"
      by (simp add: range_tailn_ok(5) [OF ok kpos top])
    with Cons.IH [OF wf tr'(2) Cons.prems(3) low] Cons.prems(5) show ?thesis by auto
  qed
qed

lemma br_tailn_ok:
  assumes "br_wf rs" "limit \<le> u64_max" "u64_max \<notin> heights rs"
  obtains t where "br_tailn rs limit = Inr t" "br_wf t" "low_n (heights rs) limit (heights t)"
proof -
  have "low_n (heights []) limit (heights [])" by (simp add: low_n_def)
  from tailn_loop_ok [OF _ _ assms(2) this, of rs] assms(1,3) that show thesis
    by (auto simp: br_tailn_def)
qed

end
