(* ===== verification/Block_Ranges_Partition.thy ===== *)
theory Block_Ranges_Partition
  imports Block_Ranges_Search
begin

text \<open>
  \<open>partitions\<close> splits a set of heights into two halves around a middle height; the
  pruner's binary search runs on it. The split is exact, ordered and balanced, and no
  intermediate sum leaves the 64-bit range.
\<close>

section \<open>Partitions\<close>

text \<open>The loop invariant of \<open>partitions\<close>: what has been consumed is split into a left
  part of at most \<open>middle + 1\<close> heights and a right part above it, and the right part
  is only started once the left part holds \<open>middle\<close> heights.\<close>

definition partitions_inv ::
  "nat \<Rightarrow> block_ranges \<Rightarrow> block_ranges \<times> block_ranges \<times> nat \<Rightarrow> bool" where
  "partitions_inv middle ys st = (case st of (left, right, left_len) \<Rightarrow>
     br_wf left \<and> br_wf right \<and> heights left \<union> heights right = heights ys \<and>
     (\<forall>x \<in> heights left. \<forall>y \<in> heights right. x < y) \<and>
     left_len = card (heights left) \<and> left_len \<le> middle + 1 \<and>
     (left_len < middle \<longrightarrow> heights right = {}))"

lemma tail_room:
  assumes "br_wf (r # zs)"
  shows "rstart r + card (heights (r # zs)) \<le> u64_max + 1"
proof -
  have "\<forall>x \<in> heights (r # zs). rstart r \<le> x"
    using assms br_tail_Some_iff [OF assms, of "rstart r"] by (auto simp: br_tail_def)
  then have "heights (r # zs) \<subseteq> {rstart r..u64_max}"
    using heights_bounded [OF assms] by (auto simp: all_heights_def)
  then have "card (heights (r # zs)) \<le> u64_max + 1 - rstart r"
    using card_mono [of "{rstart r..u64_max}" "heights (r # zs)"] by simp
  moreover have "rstart r \<le> u64_max" using assms by (auto dest: range_okD)
  ultimately show ?thesis by simp
qed

lemma card_heights_append: "br_wf (ys @ zs) \<Longrightarrow> card (heights (ys @ zs)) = card (heights ys) + card (heights zs)"
  by (subst heights_simps(3), subst card_Un_disjoint)
    (use heights_append_less [of ys zs] in blast)+

lemma partitions_step_ok:
  assumes wf: "br_wf (ys @ r # zs)" and inv: "partitions_inv middle ys (left, right, left_len)"
    and mid: "2 * middle \<le> card (heights (ys @ r # zs))"
  shows "\<exists>st. partitions_step middle r (left, right, left_len) = (Inr st :: ('e, _) result) \<and>
    partitions_inv middle (ys @ [r]) st"
proof -
  define rl where "rl = rend r - rstart r + 1"
  have ok: "range_ok r" using wf by simp
  have rl: "rstart r + rl = rend r + 1" using range_okD [OF ok] by (simp add: rl_def)
  have rs: "br_wf (r # zs)" using wf by simp
  have I: "br_wf left" "br_wf right" "heights left \<union> heights right = heights ys"
    "\<forall>x \<in> heights left. \<forall>y \<in> heights right. x < y" "left_len = card (heights left)"
    "left_len \<le> middle + 1" "left_len < middle \<longrightarrow> heights right = {}"
    using inv by (auto simp: partitions_inv_def)
  have "rstart r \<in> heights (r # zs)" using ok by (simp add: range_set_def range_ok_def)
  then have above: "\<forall>x \<in> heights ys. x < rstart r"
    using heights_append_less [OF wf] by blast
  have sub: "heights left \<subseteq> heights ys" "heights right \<subseteq> heights ys" using I(3) by blast+
  have left_r: "x < y" if "x \<in> heights left" "y \<in> range_set r" for x y
  proof -
    have "x < rstart r" using that(1) above sub(1) by blast
    with that(2) show ?thesis by (simp add: range_set_def)
  qed
  then have disj: "heights left \<inter> range_set r = {}" by blast
  have cr: "card (range_set r) = rl" using ok by (auto simp: range_set_def range_ok_def rl_def)
  have cys: "left_len \<le> card (heights ys)"
    using I(3,5) card_mono [of "heights ys" "heights left"] by auto
  have cr_le: "rl \<le> card (heights (r # zs))"
    using cr card_mono [of "heights (r # zs)" "range_set r"] by simp
  have total: "left_len + rl \<le> u64_max"
    using card_heights_append [OF wf] card_heights_le [OF wf] cys cr_le by linarith
  note len = range_len_ok [OF ok, folded rl_def]
  consider (fits) "left_len + rl \<le> middle" | (cut) "middle < left_len + rl" "left_len < middle"
    | (full) "middle < left_len + rl" "middle \<le> left_len" by linarith
  then show ?thesis
  proof cases
    case fits
    from insert_relaxed_ok [OF I(1) ok] obtain left' where
      l: "insert_relaxed left r = Inr left'" "br_wf left'" "heights left' = heights left \<union> range_set r" .
    have "left_len < middle" using fits by (simp add: rl_def)
    then have "heights right = {}" using I(7) by simp
    moreover have "card (heights left') = left_len + rl"
      using l(3) I(5) cr disj by (simp add: card_Un_disjoint)
    ultimately have "partitions_inv middle (ys @ [r]) (left', right, left_len + rl)"
      using I(2,3) l(2,3) fits by (auto simp: partitions_inv_def)
    with fits total l(1) show ?thesis by (simp add: partitions_step_def len)
  next
    case full
    from insert_relaxed_ok [OF I(2) ok] obtain right' where
      l: "insert_relaxed right r = Inr right'" "br_wf right'" "heights right' = heights right \<union> range_set r" .
    have "\<forall>x \<in> heights left. \<forall>y \<in> heights right'. x < y"
      using I(4) l(3) left_r by blast
    moreover have "heights left \<union> heights right' = heights (ys @ [r])"
      using I(3) l(3) by auto
    ultimately have "partitions_inv middle (ys @ [r]) (left, right', left_len)"
      using I(1,5,6) l(2) full by (simp add: partitions_inv_def)
    with full total l(1) show ?thesis by (simp add: partitions_step_def len)
  next
    case cut
    let ?e = "rstart r + middle - left_len"
    have right: "heights right = {}" "right = []" using I(2,7) cut(2) heights_eq_empty by auto
    have e: "rstart r \<le> ?e" "?e \<le> rend r" using cut rl by auto
    have "middle \<le> card (heights (r # zs)) - 1"
      using card_heights_append [OF wf] mid cut(2) I(3,5) right(1) by simp
    then have room: "rstart r + middle \<le> u64_max"
      using tail_room [OF rs] cr_le by (simp add: rl_def)
    have okl: "range_ok (Rng (rstart r) ?e)" using e range_okD [OF ok] by simp
    from insert_relaxed_ok [OF I(1) okl] obtain left' where
      l: "insert_relaxed left (Rng (rstart r) ?e) = Inr left'" "br_wf left'"
      "heights left' = heights left \<union> {rstart r..?e}" by auto
    have sub_e: "{rstart r..?e} \<subseteq> range_set r" using e(2) by (auto simp: range_set_def)
    then have "heights left \<inter> {rstart r..?e} = {}" using disj by blast
    then have cl: "card (heights left') = middle + 1"
      using l(3) I(5) e cut by (simp add: card_Un_disjoint)
    have ll: "range_len (Rng (rstart r) ?e) = (Inr (middle - left_len + 1) :: ('e, nat) result)"
      using range_len_ok [OF okl] cut(2) by simp
    have add: "add_u64 left_len (middle - left_len + 1) = (Inr (middle + 1) :: ('e, nat) result)"
      using total cut by (simp add: add_u64_def)
    show ?thesis
    proof (cases "?e < rend r")
      case True
      then have okr: "range_ok (Rng (?e + 1) (rend r))" using range_okD [OF ok] by simp
      have ins: "insert_relaxed right (Rng (?e + 1) (rend r)) = Inr [Rng (?e + 1) (rend r)]"
        using try_from_range_ok [OF okr] right(2) by (simp add: try_from_range_def)
      have "range_set r = {rstart r..?e} \<union> {?e + 1..rend r}"
        using e by (auto simp: range_set_def)
      then have "heights left' \<union> {?e + 1..rend r} = heights (ys @ [r])"
        using l(3) I(3) right(1) by auto
      moreover have "x < y" if "x \<in> heights left'" "y \<in> {?e + 1..rend r}" for x y
        using that l(3) left_r [of x y] e by (auto simp: range_set_def)
      ultimately have "partitions_inv middle (ys @ [r]) (left', [Rng (?e + 1) (rend r)], middle + 1)"
        using l(2) cl okr by (simp add: partitions_inv_def)
      with cut True total room ll add l(1) ins range_okD(3) [OF ok] show ?thesis
        by (simp add: partitions_step_def len)
    next
      case False
      then have "range_set r = {rstart r..?e}" using e by (auto simp: range_set_def)
      then have "partitions_inv middle (ys @ [r]) (left', right, middle + 1)"
        using I(2,3) l(2,3) cl right by (auto simp: partitions_inv_def)
      with cut False total room ll add l(1) show ?thesis
        by (simp add: partitions_step_def len)
    qed
  qed
qed

lemma partitions_loop_ok:
  assumes "br_wf rs" "middle = card (heights rs) div 2"
  shows "\<exists>st. fold_r (partitions_step middle) rs ([], [], 0) = (Inr st :: ('e, _) result) \<and>
    partitions_inv middle rs st"
proof (rule fold_r_invariant)
  show "partitions_inv middle [] ([], [], 0)" by (simp add: partitions_inv_def)
next
  fix ys r zs st
  assume rs: "rs = ys @ r # zs" and inv: "partitions_inv middle ys st"
  obtain left right left_len where st: "st = (left, right, left_len)" by (cases st) auto
  from rs assms have "br_wf (ys @ r # zs)" "2 * middle \<le> card (heights (ys @ r # zs))" by simp_all
  with inv show "\<exists>u. partitions_step middle r st = (Inr u :: ('e, _) result) \<and>
      partitions_inv middle (ys @ [r]) u"
    unfolding st by (intro partitions_step_ok)
qed

definition balanced_split :: "nat set \<Rightarrow> nat set \<Rightarrow> nat \<Rightarrow> nat set \<Rightarrow> bool" where
  "balanced_split S L m R \<longleftrightarrow> S = insert m (L \<union> R) \<and> m \<notin> L \<union> R \<and>
     (\<forall>x \<in> L. x < m) \<and> (\<forall>y \<in> R. m < y) \<and> card L \<le> card R + 1 \<and> card R \<le> card L + 1"

lemma partitions_ok:
  assumes wf: "br_wf rs" and ne: "heights rs \<noteq> {}"
  shows "\<exists>left m right. partitions rs = (Inr (Some (left, m, right)) :: ('e, _) result) \<and>
    br_wf left \<and> br_wf right \<and> balanced_split (heights rs) (heights left) m (heights right)"
proof -
  define n where "n = card (heights rs)"
  have npos: "n \<noteq> 0" using ne by (simp add: n_def)
  from partitions_loop_ok [OF wf refl] obtain left right left_len where
    loop: "fold_r (partitions_step (n div 2)) rs ([], [], 0) =
      (Inr (left, right, left_len) :: ('e, _) result)"
    and inv: "partitions_inv (n div 2) rs (left, right, left_len)"
    unfolding n_def by (metis prod_cases3)
  have I: "br_wf left" "br_wf right" "heights left \<union> heights right = heights rs"
    "\<forall>x \<in> heights left. \<forall>y \<in> heights right. x < y" "left_len = card (heights left)"
    "left_len \<le> n div 2 + 1" "left_len < n div 2 \<longrightarrow> heights right = {}"
    using inv by (auto simp: partitions_inv_def)
  have "heights left \<inter> heights right = {}" using I(4) by blast
  then have sum: "left_len + card (heights right) = n"
    using I(3,5) card_Un_disjoint [of "heights left" "heights right"] by (simp add: n_def)
  have low: "n div 2 \<le> left_len"
  proof (rule ccontr)
    assume "\<not> n div 2 \<le> left_len"
    then have "left_len < n div 2" by simp
    with I(7) sum show False by simp
  qed
  have len: "br_len rs = (Inr n :: ('e, nat) result)" "br_len right = (Inr (card (heights right)) :: ('e, nat) result)"
    using wf I(2) by (simp_all add: n_def)
  show ?thesis
  proof (cases "left_len < card (heights right)")
    case True
    then have "heights right \<noteq> {}" by auto
    then have hd: "br_tail right = Some (Min (heights right))" using I(2) by (simp add: br_tail_Min)
    from pop_tail_ok [OF I(2)] obtain right' where
      r: "pop_tail right = (Inr (Some (Min (heights right)), right') :: ('e, _) result)" "br_wf right'"
      "heights right' = heights right - {Min (heights right)}" unfolding hd by auto
    let ?m = "Min (heights right)"
    have m: "?m \<in> heights right" "\<forall>y \<in> heights right. ?m \<le> y" using \<open>heights right \<noteq> {}\<close> by auto
    have "card (heights right') = card (heights right) - 1" using r(3) m(1) by simp
    then have "balanced_split (heights rs) (heights left) ?m (heights right')"
      using True sum low I(4-6) m r(3)
      unfolding balanced_split_def I(3) [symmetric] by (auto simp: order.strict_iff_order)
    moreover have "partitions rs = (Inr (Some (left, ?m, right')) :: ('e, _) result)"
      using len loop npos True r(1) by (simp add: partitions_def)
    ultimately show ?thesis using I(1) r(2) by blast
  next
    case False
    then have "0 < left_len" using sum npos by simp
    then have ne': "heights left \<noteq> {}" using I(5) by auto
    then have hd: "br_head left = Some (Max (heights left))" using I(1) by (simp add: br_head_Max)
    from pop_head_ok [OF I(1)] obtain left' where
      l: "pop_head left = (Inr (Some (Max (heights left)), left') :: ('e, _) result)" "br_wf left'"
      "heights left' = heights left - {Max (heights left)}" unfolding hd by auto
    let ?m = "Max (heights left)"
    have m: "?m \<in> heights left" "\<forall>y \<in> heights left. y \<le> ?m" using ne' by auto
    have "card (heights left') = left_len - 1" using l(3) m(1) I(5) by simp
    then have "balanced_split (heights rs) (heights left') ?m (heights right)"
      using False sum low I(4-6) m l(3)
      unfolding balanced_split_def I(3) [symmetric] by (auto simp: order.strict_iff_order)
    moreover have "partitions rs = (Inr (Some (left', ?m, right)) :: ('e, _) result)"
      using len loop npos False l(1) by (simp add: partitions_def)
    ultimately show ?thesis using I(2) l(2) by blast
  qed
qed

lemma partitions_empty: "br_wf rs \<Longrightarrow> heights rs = {} \<Longrightarrow> partitions rs = Inr None"
  by (simp add: partitions_def)

end
