(* ===== verification/Block_Ranges_Algebra.thy ===== *)
theory Block_Ranges_Algebra
  imports Block_Ranges_Constraints Block_Ranges_Partition
begin

text \<open>
  The contract of \<open>BlockRanges\<close>: the locale \<open>height_set\<close> names the operators its clients
  use (\<open>+\<close>, \<open>-\<close>, \<open>&\<close>, \<open>!\<close>, \<open>contains\<close>, the insertion and removal of a range) and the
  laws they rely on, proves the clients' lemmas once, and is interpreted on the vector
  representation of \<open>block_ranges.rs\<close>. The properties of the component follow.
\<close>

section \<open>The interface\<close>

locale height_set =
  fixes invar :: "'r \<Rightarrow> bool" and members :: "'r \<Rightarrow> nat set"
    and contains :: "'r \<Rightarrow> nat \<Rightarrow> bool"
    and ins rem :: "'r \<Rightarrow> block_range \<Rightarrow> (block_ranges_error, 'r) result"
    and add sub :: "'r \<Rightarrow> 'r \<Rightarrow> ('e, 'r) result"
  assumes contains_law: "invar a \<Longrightarrow> contains a h \<longleftrightarrow> h \<in> members a"
    and ins_law: "invar a \<Longrightarrow> range_ok r \<Longrightarrow>
      \<exists>c. ins a r = Inr c \<and> invar c \<and> members c = members a \<union> range_set r"
    and rem_law: "invar a \<Longrightarrow> range_ok r \<Longrightarrow>
      \<exists>c. rem a r = Inr c \<and> invar c \<and> members c = members a - range_set r"
    and add_law: "invar a \<Longrightarrow> invar b \<Longrightarrow>
      \<exists>c. add a b = Inr c \<and> invar c \<and> members c = members a \<union> members b"
    and sub_law: "invar a \<Longrightarrow> invar b \<Longrightarrow>
      \<exists>c. sub a b = Inr c \<and> invar c \<and> members c = members a - members b"
begin

text \<open>Chains \<open>a - &b - &c - ...\<close>, as the schedulers of the node write them.\<close>

lemma sub_chain:
  assumes "invar a" "\<forall>b \<in> set bs. invar b"
  shows "\<exists>c. fold_r (\<lambda>b x. sub x b) bs a = Inr c \<and> invar c \<and>
    members c = members a - (\<Union>b \<in> set bs. members b)"
  using assms
proof (induction bs arbitrary: a)
  case (Cons b bs)
  from sub_law [of a b] Cons.prems obtain c where
    c: "sub a b = Inr c" "invar c" "members c = members a - members b" by auto
  from Cons.IH [OF c(2)] Cons.prems obtain d where
    "fold_r (\<lambda>b x. sub x b) bs c = Inr d" "invar d"
    "members d = members c - (\<Union>b \<in> set bs. members b)" by auto
  with c show ?case by auto
qed simp

lemma add_chain:
  assumes "invar a" "\<forall>b \<in> set bs. invar b"
  shows "\<exists>c. fold_r (\<lambda>b x. add x b) bs a = Inr c \<and> invar c \<and>
    members c = members a \<union> (\<Union>b \<in> set bs. members b)"
  using assms
proof (induction bs arbitrary: a)
  case (Cons b bs)
  from add_law [of a b] Cons.prems obtain c where
    c: "add a b = Inr c" "invar c" "members c = members a \<union> members b" by auto
  from Cons.IH [OF c(2)] Cons.prems obtain d where
    "fold_r (\<lambda>b x. add x b) bs c = Inr d" "invar d"
    "members d = members c \<union> (\<Union>b \<in> set bs. members b)" by auto
  with c show ?case by auto
qed simp

text \<open>Moving one range from one set to another keeps the two disjoint.\<close>

lemma move_range:
  assumes "invar a" "invar b" "range_ok r" "members a \<inter> members b = {}"
  shows "\<exists>a' b'. rem a r = Inr a' \<and> ins b r = Inr b' \<and> invar a' \<and> invar b' \<and>
    members a' \<inter> members b' = {} \<and>
    members a' \<union> members b' = members a \<union> members b \<union> range_set r"
proof -
  from rem_law [OF assms(1,3)] obtain a' where
    a: "rem a r = Inr a'" "invar a'" "members a' = members a - range_set r" by auto
  from ins_law [OF assms(2,3)] obtain b' where
    b: "ins b r = Inr b'" "invar b'" "members b' = members b \<union> range_set r" by auto
  from a b assms(4) have "members a' \<inter> members b' = {}" by auto
  moreover from a b have "members a' \<union> members b' = members a \<union> members b \<union> range_set r" by auto
  ultimately show ?thesis using a b by blast
qed

end

interpretation br: height_set br_wf heights br_contains insert_relaxed remove_relaxed br_add br_sub
proof
  show "br_contains a h \<longleftrightarrow> h \<in> heights a" if "br_wf a" for a h by simp
  show "\<exists>c. insert_relaxed a r = Inr c \<and> br_wf c \<and> heights c = heights a \<union> range_set r"
    if "br_wf a" "range_ok r" for a r using insert_relaxed_ok [OF that] by blast
  show "\<exists>c. remove_relaxed a r = Inr c \<and> br_wf c \<and> heights c = heights a - range_set r"
    if "br_wf a" "range_ok r" for a r using remove_relaxed_ok [OF that] by blast
  show "\<exists>c. br_add a b = Inr c \<and> br_wf c \<and> heights c = heights a \<union> heights b"
    if "br_wf a" "br_wf b" for a b using br_add_ok [OF that] by blast
  show "\<exists>c. br_sub a b = Inr c \<and> br_wf c \<and> heights c = heights a - heights b"
    if "br_wf a" "br_wf b" for a b using br_sub_ok [OF that] by blast
qed

section \<open>Sequences of insertions and removals\<close>

datatype br_op = Ins block_range | Rem block_range

definition br_op_ok :: "br_op \<Rightarrow> bool" where
  "br_op_ok x = (case x of Ins r \<Rightarrow> range_ok r | Rem r \<Rightarrow> range_ok r)"

definition br_apply :: "br_op \<Rightarrow> block_ranges \<Rightarrow> (block_ranges_error, block_ranges) result" where
  "br_apply x rs = (case x of Ins r \<Rightarrow> insert_relaxed rs r | Rem r \<Rightarrow> remove_relaxed rs r)"

definition set_apply :: "br_op \<Rightarrow> nat set \<Rightarrow> nat set" where
  "set_apply x S = (case x of Ins r \<Rightarrow> S \<union> range_set r | Rem r \<Rightarrow> S - range_set r)"

lemma br_apply_refines:
  assumes "br_wf rs" "br_gap rs" "br_op_ok x"
  shows "\<exists>rs'. br_apply x rs = Inr rs' \<and> br_wf rs' \<and> br_gap rs' \<and> heights rs' = set_apply x (heights rs)"
proof (cases x)
  case (Ins r)
  with assms have r: "range_ok r" by (simp add: br_op_ok_def)
  from br.ins_law [OF assms(1) r] insert_relaxed_gap [OF assms(1,2) r] Ins show ?thesis
    by (auto simp: br_apply_def set_apply_def)
next
  case (Rem r)
  with assms have r: "range_ok r" by (simp add: br_op_ok_def)
  from br.rem_law [OF assms(1) r] remove_relaxed_gap [OF assms(1,2) r] Rem show ?thesis
    by (auto simp: br_apply_def set_apply_def)
qed

lemma br_run_refines:
  "br_wf rs \<Longrightarrow> br_gap rs \<Longrightarrow> \<forall>x \<in> set xs. br_op_ok x \<Longrightarrow>
   \<exists>rs'. fold_r br_apply xs rs = Inr rs' \<and> br_wf rs' \<and> br_gap rs' \<and>
     heights rs' = fold set_apply xs (heights rs)"
proof (induction xs arbitrary: rs)
  case (Cons x xs)
  from br_apply_refines [of rs x] Cons.prems obtain rs' where
    *: "br_apply x rs = Inr rs'" "br_wf rs'" "br_gap rs'" "heights rs' = set_apply x (heights rs)"
    by auto
  with Cons.IH [of rs'] Cons.prems show ?case by auto
qed simp

section \<open>Properties\<close>

text \<open>The equations that evaluate the comparisons of ranges.\<close>

lemmas br_eval = validate_def find_affected_ranges_def is_overlapping_def is_adjacent_def
  is_left_of_def is_right_of_def range_contains_def saturating_sub_def add_u64_def sub_u64_def
  vec_get_def vec_last_def u64_max_def

text \<open>C29. Inserting a valid range into well-formed block ranges never fails and never
  panics; the result is well formed and holds exactly the old heights and the new ones.\<close>

theorem insert_relaxed_union:
  assumes "br_wf rs" "range_ok rng"
  shows "\<exists>rs'. insert_relaxed rs rng = Inr rs' \<and> br_wf rs' \<and>
    heights rs' = heights rs \<union> range_set rng"
  using assms by (rule br.ins_law)

theorem insert_relaxed_union_witness:
  "insert_relaxed [Rng 1 4, Rng 6 7, Rng 20 30] (Rng 5 10) = Inr [Rng 1 10, Rng 20 30] \<and>
   (\<exists>rs'. insert_relaxed [Rng 1 4, Rng 6 7, Rng 20 30] (Rng 5 10) = Inr rs' \<and> br_wf rs' \<and>
      heights rs' = heights [Rng 1 4, Rng 6 7, Rng 20 30] \<union> range_set (Rng 5 10))"
proof
  show "\<exists>rs'. insert_relaxed [Rng 1 4, Rng 6 7, Rng 20 30] (Rng 5 10) = Inr rs' \<and> br_wf rs' \<and>
      heights rs' = heights [Rng 1 4, Rng 6 7, Rng 20 30] \<union> range_set (Rng 5 10)"
    by (rule insert_relaxed_union) (simp_all add: range_ok_def u64_max_def)
  show "insert_relaxed [Rng 1 4, Rng 6 7, Rng 20 30] (Rng 5 10) = Inr [Rng 1 10, Rng 20 30]"
    by code_simp
qed

text \<open>C30. Removing a valid range from well-formed block ranges never fails and never
  panics; the result is well formed and holds exactly the old heights outside the range.\<close>

theorem remove_relaxed_diff:
  assumes "br_wf rs" "range_ok rng"
  shows "\<exists>rs'. remove_relaxed rs rng = Inr rs' \<and> br_wf rs' \<and>
    heights rs' = heights rs - range_set rng"
  using assms by (rule br.rem_law)

theorem remove_relaxed_diff_witness:
  "remove_relaxed [Rng 1 4, Rng 6 7, Rng 20 30] (Rng 3 24) = Inr [Rng 1 2, Rng 25 30] \<and>
   (\<exists>rs'. remove_relaxed [Rng 1 4, Rng 6 7, Rng 20 30] (Rng 3 24) = Inr rs' \<and> br_wf rs' \<and>
      heights rs' = heights [Rng 1 4, Rng 6 7, Rng 20 30] - range_set (Rng 3 24))"
proof
  show "\<exists>rs'. remove_relaxed [Rng 1 4, Rng 6 7, Rng 20 30] (Rng 3 24) = Inr rs' \<and> br_wf rs' \<and>
      heights rs' = heights [Rng 1 4, Rng 6 7, Rng 20 30] - range_set (Rng 3 24)"
    by (rule remove_relaxed_diff) (simp_all add: range_ok_def u64_max_def)
  show "remove_relaxed [Rng 1 4, Rng 6 7, Rng 20 30] (Rng 3 24) = Inr [Rng 1 2, Rng 25 30]"
    by (simp add: remove_relaxed_def vec_drain_def vec_insert_def br_eval)
qed

text \<open>The intersection operator, computed with complements and a union, never panics on
  well-formed operands and returns the well-formed ranges of exactly the common heights.\<close>

theorem br_and_inter:
  assumes "br_wf lhs" "br_wf rhs"
  shows "\<exists>rs. br_and lhs rhs = (Inr rs :: ('e, block_ranges) result) \<and> br_wf rs \<and>
    heights rs = heights lhs \<inter> heights rhs"
  using br_and_ok [OF assms] by blast

theorem br_and_inter_witness:
  "\<exists>rs. br_and [Rng 1 10] [Rng 8 12, Rng 15 15] = (Inr rs :: (unit, block_ranges) result) \<and>
      br_wf rs \<and> heights rs = heights [Rng 1 10] \<inter> heights [Rng 8 12, Rng 15 15]"
  by (rule br_and_inter) (simp_all add: range_ok_def u64_max_def)

text \<open>\<open>check_insertion_constraints\<close> accepts a range exactly when none of its heights is
  stored and it is next to a stored height, or above all of them; on acceptance its two flags
  say whether the heights before and after the range are stored. Otherwise it reports an
  overlap when a height is stored, and missing neighbours when none is.\<close>

theorem check_insertion_verdict:
  assumes "br_wf rs" "range_ok rng"
  shows "case check_insertion_constraints rs rng of
      Inr (p, n) \<Rightarrow> insertable rs rng \<and> p = prev_stored rs rng \<and> n = next_stored rs rng
    | Inl (Err (BlockRangeOverlap r ov)) \<Rightarrow> r = rng \<and> heights rs \<inter> range_set rng \<noteq> {}
    | Inl (Err (NoAdjacentNeighbors r)) \<Rightarrow>
        r = rng \<and> heights rs \<inter> range_set rng = {} \<and> \<not> insertable rs rng
    | Inl (Err _) \<Rightarrow> False
    | Inl (Panic _) \<Rightarrow> False"
  using check_insertion_constraints_cases [OF assms] by auto

theorem check_insertion_verdict_witness:
  "check_insertion_constraints [Rng 1 4, Rng 20 30] (Rng 5 19) = Inr (True, True) \<and>
   insertable [Rng 1 4, Rng 20 30] (Rng 5 19) \<and>
   check_insertion_constraints [Rng 1 4, Rng 20 30] (Rng 8 12) =
     Inl (Err (NoAdjacentNeighbors (Rng 8 12))) \<and>
   \<not> insertable [Rng 1 4, Rng 20 30] (Rng 8 12)"
proof -
  have a: "check_insertion_constraints [Rng 1 4, Rng 20 30] (Rng 5 19) = Inr (True, True)"
    by (simp add: check_insertion_constraints_def br_eval)
  have b: "check_insertion_constraints [Rng 1 4, Rng 20 30] (Rng 8 12) =
     Inl (Err (NoAdjacentNeighbors (Rng 8 12)))" by (simp add: check_insertion_constraints_def br_eval)
  have wf: "br_wf [Rng 1 4, Rng 20 30]" "range_ok (Rng 5 19)" "range_ok (Rng 8 12)"
    by (simp_all add: range_ok_def u64_max_def)
  from check_insertion_verdict [OF wf(1,2)] have "insertable [Rng 1 4, Rng 20 30] (Rng 5 19)"
    unfolding a by simp
  moreover from check_insertion_verdict [OF wf(1,3)] have "\<not> insertable [Rng 1 4, Rng 20 30] (Rng 8 12)"
    unfolding b by simp
  ultimately show ?thesis using a b by blast
qed

text \<open>\<open>partitions\<close> splits a nonempty set of heights into the heights below a middle
  height and the heights above it, without overflow, the two sides differing in size by at
  most one: the halving step of the searches over the stored heights.\<close>

theorem partitions_balanced:
  assumes "br_wf rs" "heights rs \<noteq> {}"
  shows "\<exists>left m right. partitions rs = (Inr (Some (left, m, right)) :: ('e, _) result) \<and>
    br_wf left \<and> br_wf right \<and> balanced_split (heights rs) (heights left) m (heights right)"
  using assms by (rule partitions_ok)

theorem partitions_balanced_witness:
  "\<exists>left m right. partitions [Rng 1 2, Rng 5 9] = (Inr (Some (left, m, right)) :: (unit, _) result) \<and>
      br_wf left \<and> br_wf right \<and>
      balanced_split (heights [Rng 1 2, Rng 5 9]) (heights left) m (heights right)"
  by (rule partitions_balanced) (simp_all add: range_ok_def u64_max_def range_set_def)

text \<open>C31. Any sequence of insertions and removals of valid ranges, starting from the empty
  block ranges, succeeds and refines the same sequence on sets of heights; two sequences that
  give the same set of heights give equal block ranges, so the derived \<open>PartialEq\<close> is
  equality of sets.\<close>

theorem br_run_canonical:
  assumes "\<forall>x \<in> set xs. br_op_ok x" "\<forall>x \<in> set ys. br_op_ok x"
  shows "\<exists>a b. fold_r br_apply xs [] = Inr a \<and> fold_r br_apply ys [] = Inr b \<and>
    heights a = fold set_apply xs {} \<and> heights b = fold set_apply ys {} \<and>
    (a = b \<longleftrightarrow> fold set_apply xs {} = fold set_apply ys {})"
  using br_run_refines [of "[]" xs] br_run_refines [of "[]" ys] canonical_unique assms
  by (auto; metis)

theorem br_run_canonical_witness:
  "fold set_apply [Ins (Rng 1 9), Rem (Rng 4 5)] {} =
   fold set_apply [Ins (Rng 6 9), Ins (Rng 2 3), Ins (Rng 1 1)] {} \<and>
   (\<exists>a b. fold_r br_apply [Ins (Rng 1 9), Rem (Rng 4 5)] [] = Inr a \<and>
      fold_r br_apply [Ins (Rng 6 9), Ins (Rng 2 3), Ins (Rng 1 1)] [] = Inr b \<and>
      heights a = fold set_apply [Ins (Rng 1 9), Rem (Rng 4 5)] {} \<and>
      heights b = fold set_apply [Ins (Rng 6 9), Ins (Rng 2 3), Ins (Rng 1 1)] {} \<and>
      (a = b \<longleftrightarrow> fold set_apply [Ins (Rng 1 9), Rem (Rng 4 5)] {} =
         fold set_apply [Ins (Rng 6 9), Ins (Rng 2 3), Ins (Rng 1 1)] {}))"
  apply (rule conjI)
   apply (simp add: set_apply_def range_set_def set_eq_iff)
   apply presburger
  apply (rule br_run_canonical)
   apply (simp_all add: br_op_ok_def range_ok_def u64_max_def)
  done

text \<open>\<open>headn\<close> returns the given number of topmost heights, or all of them when there
  are fewer.\<close>

theorem br_headn_topmost:
  assumes "br_wf rs" "limit \<le> u64_max"
  shows "\<exists>t. br_headn rs limit = (Inr t :: ('e, block_ranges) result) \<and> br_wf t \<and>
    top_n (heights rs) limit (heights t)"
  using br_headn_ok [OF assms] by blast

theorem br_headn_topmost_witness:
  "\<exists>t. br_headn [Rng 1 3, Rng 6 9] 5 = (Inr t :: (unit, block_ranges) result) \<and> br_wf t \<and>
     top_n (heights [Rng 1 3, Rng 6 9]) 5 (heights t)"
  by (rule br_headn_topmost) (simp_all add: range_ok_def u64_max_def)

text \<open>\<open>from_vec\<close> validates foreign lists of 64-bit ranges exactly: it never panics,
  and it returns the list unchanged when the list is sorted, free of overlaps and made of valid
  ranges, and an error otherwise.\<close>

theorem from_vec_validates:
  assumes "\<forall>r \<in> set rs. u64_range r"
  shows "\<not> panics (from_vec rs) \<and> (from_vec rs = Inr rs' \<longleftrightarrow> rs' = rs \<and> br_wf rs)"
  using from_vec_Inr_iff [OF assms] from_vec_no_panic by auto

theorem from_vec_validates_witness:
  "\<not> panics (from_vec [Rng 4 6, Rng 1 2]) \<and>
   (from_vec [Rng 4 6, Rng 1 2] = Inr [Rng 4 6, Rng 1 2] \<longleftrightarrow>
      [Rng 4 6, Rng 1 2] = [Rng 4 6, Rng 1 2] \<and> br_wf [Rng 4 6, Rng 1 2])"
  by (rule from_vec_validates) (simp add: u64_range_def u64_max_def)

text \<open>The lower end of the ranges is not symmetric to the upper one: when the only stored
  height is the largest 64-bit value, \<open>tailn\<close> computes an empty range and panics.\<close>

lemma tailn_panics_at_max:
  "br_tailn [Rng u64_max u64_max] 1 = Inl (Panic holds_valid)"
  by (simp add: br_tailn_def range_tailn_def range_is_empty_def checked_sub_def
      saturating_add_def u64_max_def range_len_def insert_relaxed_def validate_def)

end
