(* ===== verification/App_Consts.thy ===== *)
theory App_Consts
  imports Prelude
begin

text \<open>
  The versioned constants of \<open>types/src/consts.rs\<close>: the supported application versions,
  the bounds on the data square and on transactions, and the conversion between version
  numbers and versions.
\<close>

datatype app_version = V1 | V2 | V3 | V4 | V5 | V6 | V7

definition app_version_from_u64 :: "nat \<Rightarrow> app_version option" where
  "app_version_from_u64 v =
     (if v = 1 then Some V1 else if v = 2 then Some V2 else if v = 3 then Some V3
      else if v = 4 then Some V4 else if v = 5 then Some V5 else if v = 6 then Some V6
      else if v = 7 then Some V7 else None)"

fun app_version_as_u64 :: "app_version \<Rightarrow> nat" where
  "app_version_as_u64 V1 = 1"
| "app_version_as_u64 V2 = 2"
| "app_version_as_u64 V3 = 3"
| "app_version_as_u64 V4 = 4"
| "app_version_as_u64 V5 = 5"
| "app_version_as_u64 V6 = 6"
| "app_version_as_u64 V7 = 7"

text \<open>The derived order of the versions.\<close>

instantiation app_version :: linorder
begin

definition less_eq_app_version :: "app_version \<Rightarrow> app_version \<Rightarrow> bool" where
  "less_eq_app_version a b \<longleftrightarrow> app_version_as_u64 a \<le> app_version_as_u64 b"

definition less_app_version :: "app_version \<Rightarrow> app_version \<Rightarrow> bool" where
  "less_app_version a b \<longleftrightarrow> app_version_as_u64 a < app_version_as_u64 b"

instance
proof
  fix a b :: app_version
  show "a \<le> b \<Longrightarrow> b \<le> a \<Longrightarrow> a = b"
    by (cases a; cases b) (simp_all add: less_eq_app_version_def)
qed (auto simp: less_eq_app_version_def less_app_version_def)

end

definition LATEST_VERSION :: nat where
  "LATEST_VERSION = 7"

definition app_version_latest :: "('e, app_version) result" where
  "app_version_latest = (case app_version_from_u64 LATEST_VERSION of
      Some v \<Rightarrow> Inr v
    | None \<Rightarrow> Inl (Panic ''Unknown app version''))"

fun square_size_upper_bound :: "app_version \<Rightarrow> nat" where
  "square_size_upper_bound V1 = 128"
| "square_size_upper_bound V2 = 128"
| "square_size_upper_bound V3 = 128"
| "square_size_upper_bound V4 = 128"
| "square_size_upper_bound V5 = 128"
| "square_size_upper_bound V6 = 512"
| "square_size_upper_bound V7 = 512"

fun subtree_root_threshold :: "app_version \<Rightarrow> nat" where
  "subtree_root_threshold V1 = 64"
| "subtree_root_threshold V2 = 64"
| "subtree_root_threshold V3 = 64"
| "subtree_root_threshold V4 = 64"
| "subtree_root_threshold V5 = 64"
| "subtree_root_threshold V6 = 64"
| "subtree_root_threshold V7 = 64"

definition SHARE_SIZE :: nat where
  "SHARE_SIZE = 512"

fun max_tx_size :: "app_version \<Rightarrow> nat" where
  "max_tx_size V1 = square_size_upper_bound V1 * SHARE_SIZE"
| "max_tx_size V2 = square_size_upper_bound V2 * SHARE_SIZE"
| "max_tx_size V3 = 2097152"
| "max_tx_size V4 = 2097152"
| "max_tx_size V5 = 2097152"
| "max_tx_size V6 = 8388608"
| "max_tx_size V7 = 8388608"

definition max_extended_square_width :: "app_version \<Rightarrow> nat" where
  "max_extended_square_width v = square_size_upper_bound v * 2"

definition MIN_SQUARE_SIZE :: nat where
  "MIN_SQUARE_SIZE = 1"

definition MIN_EXTENDED_SQUARE_WIDTH :: nat where
  "MIN_EXTENDED_SQUARE_WIDTH = MIN_SQUARE_SIZE * 2"

definition MAX_CHAIN_ID_LEN :: nat where
  "MAX_CHAIN_ID_LEN = 50"

definition BLOCK_PROTOCOL :: nat where
  "BLOCK_PROTOCOL = 11"

definition GENESIS_HEIGHT :: nat where
  "GENESIS_HEIGHT = 1"

lemma app_version_roundtrip [simp]: "app_version_from_u64 (app_version_as_u64 v) = Some v"
  by (cases v) (simp_all add: app_version_from_u64_def)

lemma app_version_from_u64_iff: "app_version_from_u64 n = Some v \<longleftrightarrow> n = app_version_as_u64 v"
  by (cases v) (auto simp: app_version_from_u64_def)

lemma app_version_latest_ok: "app_version_latest = Inr V7"
  by (simp add: app_version_latest_def LATEST_VERSION_def app_version_from_u64_def)

text \<open>Every width a validated header can have fits into 16 bits.\<close>

lemma max_extended_square_width_u16: "max_extended_square_width v \<le> 1024"
  by (cases v) (simp_all add: max_extended_square_width_def)

text \<open>The limit of versions 1 and 2 is the size of one row of the original square, a 128th
  of the square itself.\<close>

lemma max_tx_size_v1_row:
  "max_tx_size V1 = 65536"
  "square_size_upper_bound V1 * square_size_upper_bound V1 * SHARE_SIZE = 128 * max_tx_size V1"
  by (simp_all add: SHARE_SIZE_def)

end
