(* ===== verification/Headers.thy ===== *)
theory Headers
  imports App_Consts
begin

text \<open>
  Extended headers, \<open>types/src/extended_header.rs\<close>, with what their validation and
  verification use: the block header and commit checks of \<open>types/src/block/\<close>, the
  commit verification of \<open>types/src/validator_set.rs\<close>, the trust levels of
  \<open>types/src/trust_level.rs\<close> and the data availability header.

  The Tendermint crate is not part of the sources. Its types are records with the fields
  the sources read, and its functions are the fields of the record \<open>tendermint\<close>, an
  argument of every definition that calls them: the hash of a header and of a validator
  set, the Merkle root of a list of byte strings, the bytes a vote signs, the check of
  a signature, and the conversion of a position to a validator index. The clock is the
  argument \<open>now\<close>, read once per call. The text of an error message is its format literal.
\<close>

section \<open>Data\<close>

type_synonym bytes = "nat list"

text \<open>Times are nanoseconds since the Unix epoch.\<close>

type_synonym time = int

datatype hash = Sha256 bytes | Hash_None

record part_set_header =
  psh_total :: nat
  psh_hash :: hash

record block_id =
  bid_hash :: hash
  bid_part_set_header :: part_set_header

record header =
  hd_version_block :: nat
  hd_version_app :: nat
  hd_chain_id :: string
  hd_height :: nat
  hd_time :: time
  hd_last_block_id :: "block_id option"
  hd_last_commit_hash :: "hash option"
  hd_data_hash :: "hash option"
  hd_validators_hash :: hash
  hd_next_validators_hash :: hash
  hd_consensus_hash :: hash
  hd_app_hash :: bytes
  hd_last_results_hash :: "hash option"
  hd_evidence_hash :: "hash option"
  hd_proposer_address :: bytes

datatype commit_sig =
    BlockIdFlagAbsent
  | BlockIdFlagCommit bytes time "bytes option"
  | BlockIdFlagNil bytes time "bytes option"

record commit =
  cm_height :: nat
  cm_round :: nat
  cm_block_id :: block_id
  cm_signatures :: "commit_sig list"

record validator =
  val_address :: bytes
  val_pub_key :: bytes
  val_power :: nat

record validator_set =
  vs_validators :: "validator list"
  vs_proposer :: "validator option"
  vs_total_voting_power :: nat

record vote =
  vote_height :: nat
  vote_round :: nat
  vote_block_id :: "block_id option"
  vote_timestamp :: "time option"
  vote_validator_address :: bytes
  vote_validator_index :: nat
  vote_signature :: "bytes option"

record data_availability_header =
  dah_row_roots :: "bytes list"
  dah_column_roots :: "bytes list"

record extended_header =
  eh_header :: header
  eh_commit :: commit
  eh_validator_set :: validator_set
  eh_dah :: data_availability_header

record tendermint =
  tm_header_hash :: "header \<Rightarrow> hash"
  tm_validators_hash :: "validator_set \<Rightarrow> hash"
  tm_merkle_root :: "bytes list \<Rightarrow> bytes"
  tm_signable_bytes :: "vote \<Rightarrow> string \<Rightarrow> bytes"
  tm_verify_signature :: "bytes \<Rightarrow> bytes \<Rightarrow> bytes \<Rightarrow> bool"
  tm_validator_index :: "nat \<Rightarrow> nat option"

datatype validation_error = ValidationNotEnoughVotingPower nat nat | ValidationOther string

datatype verification_error = NotEnoughVotingPower nat nat | VerificationOther string

text \<open>The variants of \<open>Error\<close> in the order of the source. A payload that belongs to another crate is
  kept as its text, or left out where the sources never look at it.\<close>

datatype types_error =
    UnsupportedNamespaceVersion nat
  | UnsupportedAppVersion nat
  | InvalidNamespaceSize
  | Tendermint
  | InvalidLength nat nat
  | Protobuf string
  | LeopardCodec string
  | MissingHeader
  | MissingCommit
  | MissingValidatorSet
  | MissingDataAvailabilityHeader
  | MissingProof
  | MissingShares
  | MissingFee
  | MissingSum
  | MissingModeInfo
  | MissingBitarray
  | BitarrayTooLarge
  | MalformedCompactBitArray
  | WrongProofType
  | UnsupportedShareVersion nat
  | InvalidShareSize nat
  | InvalidNmtLeafSize nat
  | InvalidNmtNodeOrder
  | ShareSequenceLenExceeded nat
  | InvalidNamespaceV0
  | InvalidNamespaceV255
  | InvalidNamespacedHash string
  | InvalidSignatureIndex nat nat
  | InvalidAxis int
  | InvalidShwapProofType int
  | InvalidPublicKey
  | RangeProofError string
  | RootMismatch
  | UnexpectedAbsentSignature
  | Validation validation_error
  | Verification verification_error
  | MaxShareVersionExceeded nat
  | Nmt string
  | InvalidAddressPrefix string
  | InvalidAddressSize nat
  | InvalidAddress string
  | InvalidCoinAmount string
  | InvalidCoinDenomination string
  | InvalidBalance string
  | InvalidPublicKeyType string
  | UnsupportedFraudProofType string
  | IndexOutOfRange nat nat
  | EdsIndexOutOfRange nat nat
  | EdsInvalidDimentions
  | ZeroBlockHeight
  | ExpectedShareWithSequenceStart
  | UnexpectedReservedNamespace
  | UnexpectedSequenceStart
  | BlobSharesMetadataMismatch string
  | BlobTooLarge
  | NamespaceDataTooLarge
  | InvalidComittmentLength
  | MissingSigner
  | SignerNotSupported
  | EmptyBlobList
  | MissingDelegationResponse
  | MissingDelegation
  | MissingBalance
  | MissingUnbond
  | MissingCompletionTime
  | MissingRedelegation
  | MissingRedelegationEntry
  | InvalidCosmosDecimal string

abbreviation bail_validation :: "string \<Rightarrow> (types_error, 'a) result" where
  "bail_validation msg \<equiv> Inl (Err (Validation (ValidationOther msg)))"

abbreviation bail_verification :: "string \<Rightarrow> (types_error, 'a) result" where
  "bail_verification msg \<equiv> Inl (Err (Verification (VerificationOther msg)))"

section \<open>Trust levels\<close>

record trust_level_ratio =
  numerator :: nat
  denominator :: nat

definition voting_power_needed :: "trust_level_ratio \<Rightarrow> nat \<Rightarrow> (types_error, nat) result" where
  "voting_power_needed l total_voting_power =
     (if numerator l * total_voting_power > u64_max
      then bail_verification ''u64 overflow while calculating voting power needed''
      else if denominator l = 0
      then bail_verification ''division error while calculating voting power needed''
      else Inr (numerator l * total_voting_power div denominator l))"

definition DEFAULT_TRUST_LEVEL :: trust_level_ratio where
  "DEFAULT_TRUST_LEVEL = \<lparr>numerator = 1, denominator = 3\<rparr>"

section \<open>Headers and commits\<close>

definition header_validate_basic :: "header \<Rightarrow> (types_error, unit) result" where
  "header_validate_basic h =
     (if hd_version_block h \<noteq> BLOCK_PROTOCOL
      then bail_validation ''version block ({}) != block protocol ({})''
      else if length (hd_chain_id h) > MAX_CHAIN_ID_LEN
      then bail_validation ''chain id ({}) len > maximum ({})''
      else if hd_height h = 0 then bail_validation ''height == 0''
      else if hd_height h = GENESIS_HEIGHT \<and> hd_last_block_id h \<noteq> None
      then bail_validation ''last_block_id == Some() at height {GENESIS_HEIGHT}''
      else if hd_height h \<noteq> GENESIS_HEIGHT \<and> hd_last_block_id h = None
      then bail_validation ''last_block_id == None at height {}''
      else Inr ())"

definition SIGNATURE_LENGTH :: nat where
  "SIGNATURE_LENGTH = 64"

definition signature_validate_basic :: "bytes option \<Rightarrow> (types_error, unit) result" where
  "signature_validate_basic s = (case s of
      Some sg \<Rightarrow>
        if sg = [] then bail_validation ''no signature in commit sig''
        else if length sg \<noteq> SIGNATURE_LENGTH
        then bail_validation ''signature ({:?}) length != required ({})''
        else Inr ()
    | None \<Rightarrow> bail_validation ''no signature in commit sig'')"

definition commit_sig_validate_basic :: "commit_sig \<Rightarrow> (types_error, unit) result" where
  "commit_sig_validate_basic c = (case c of
      BlockIdFlagAbsent \<Rightarrow> Inr ()
    | BlockIdFlagCommit _ _ sg \<Rightarrow> signature_validate_basic sg
    | BlockIdFlagNil _ _ sg \<Rightarrow> signature_validate_basic sg)"

definition block_id_is_zero :: "block_id \<Rightarrow> bool" where
  "block_id_is_zero b \<longleftrightarrow> bid_hash b = Hash_None \<and>
     psh_hash (bid_part_set_header b) = Hash_None \<and> psh_total (bid_part_set_header b) = 0"

definition commit_validate_basic :: "commit \<Rightarrow> (types_error, unit) result" where
  "commit_validate_basic c =
     (if cm_height c \<ge> GENESIS_HEIGHT then
        if block_id_is_zero (cm_block_id c) then bail_validation ''block_id is zero''
        else if cm_signatures c = [] then bail_validation ''no signatures in commit''
        else fold_r (\<lambda>sg _. commit_sig_validate_basic sg) (cm_signatures c) ()
      else Inr ())"

definition vote_sign_bytes ::
  "tendermint \<Rightarrow> commit \<Rightarrow> string \<Rightarrow> nat \<Rightarrow> (types_error, bytes) result"
where
  "vote_sign_bytes tm c chain_id signature_idx =
     (if signature_idx < length (cm_signatures c) then
        bind_r (case cm_signatures c ! signature_idx of
            BlockIdFlagCommit addr ts sg \<Rightarrow> Inr (addr, ts, sg)
          | BlockIdFlagNil addr ts sg \<Rightarrow> Inr (addr, ts, sg)
          | BlockIdFlagAbsent \<Rightarrow> Inl (Err UnexpectedAbsentSignature)) (\<lambda>(addr, ts, sg).
        bind_r (ok_or Tendermint (tm_validator_index tm signature_idx)) (\<lambda>idx.
        Inr (tm_signable_bytes tm
          \<lparr>vote_height = cm_height c, vote_round = cm_round c,
           vote_block_id = Some (cm_block_id c), vote_timestamp = Some ts,
           vote_validator_address = addr, vote_validator_index = idx,
           vote_signature = sg\<rparr> chain_id)))
      else Inl (Err (InvalidSignatureIndex signature_idx (cm_height c))))"

section \<open>Validator sets\<close>

definition validator_set_validate_basic :: "validator_set \<Rightarrow> (types_error, unit) result" where
  "validator_set_validate_basic s =
     (if vs_validators s = [] then bail_validation ''validatiors is empty''
      else if vs_proposer s = None then bail_validation ''proposer is none''
      else Inr ())"

definition verify_signature ::
  "tendermint \<Rightarrow> validator \<Rightarrow> bytes \<Rightarrow> bytes \<Rightarrow> (types_error, unit) result"
where
  "verify_signature tm v msg sg =
     (if tm_verify_signature tm (val_pub_key v) msg sg then Inr () else Inl (Err Tendermint))"

fun verify_commit_light_loop ::
  "tendermint \<Rightarrow> string \<Rightarrow> commit \<Rightarrow> nat \<Rightarrow> nat \<Rightarrow> (validator \<times> commit_sig) list \<Rightarrow> nat \<Rightarrow>
   (types_error, unit) result"
where
  "verify_commit_light_loop tm chain_id c needed idx [] tallied =
     Inl (Err (Verification (NotEnoughVotingPower tallied needed)))"
| "verify_commit_light_loop tm chain_id c needed idx ((v, cs) # rest) tallied =
     (case cs of
        BlockIdFlagCommit _ _ (Some sg) \<Rightarrow>
          bind_r (vote_sign_bytes tm c chain_id idx) (\<lambda>vote_sign.
          bind_r (verify_signature tm v vote_sign sg) (\<lambda>_.
          bind_r (add_u64 tallied (val_power v)) (\<lambda>tallied'.
          if tallied' > needed then Inr ()
          else verify_commit_light_loop tm chain_id c needed (Suc idx) rest tallied')))
      | BlockIdFlagCommit _ _ None \<Rightarrow> bail_verification ''No signature in CommitSig''
      | _ \<Rightarrow> verify_commit_light_loop tm chain_id c needed (Suc idx) rest tallied)"

definition verify_commit_light ::
  "tendermint \<Rightarrow> validator_set \<Rightarrow> string \<Rightarrow> nat \<Rightarrow> commit \<Rightarrow> (types_error, unit) result"
where
  "verify_commit_light tm s chain_id height c =
     (if length (vs_validators s) \<noteq> length (cm_signatures c)
      then bail_verification ''validators signature len ({}) != commit signatures len ({})''
      else if height \<noteq> cm_height c
      then bail_verification ''height ({}) != commit height ({})''
      else bind_r (voting_power_needed \<lparr>numerator = 2, denominator = 3\<rparr> (vs_total_voting_power s))
        (\<lambda>needed. verify_commit_light_loop tm chain_id c needed 0
           (zip (vs_validators s) (cm_signatures c)) 0))"

fun find_validator_from :: "nat \<Rightarrow> validator list \<Rightarrow> bytes \<Rightarrow> (nat \<times> validator) option" where
  "find_validator_from i [] val_id = None"
| "find_validator_from i (v # vs) val_id =
     (if val_address v = val_id then Some (i, v) else find_validator_from (Suc i) vs val_id)"

definition find_validator :: "validator_set \<Rightarrow> bytes \<Rightarrow> (nat \<times> validator) option" where
  "find_validator s val_id = find_validator_from 0 (vs_validators s) val_id"

fun trusting_loop ::
  "tendermint \<Rightarrow> validator_set \<Rightarrow> string \<Rightarrow> commit \<Rightarrow> nat \<Rightarrow> nat \<Rightarrow> commit_sig list \<Rightarrow>
   (nat \<rightharpoonup> nat) \<Rightarrow> nat \<Rightarrow> (types_error, unit) result"
where
  "trusting_loop tm s chain_id c needed idx [] seen_vals tallied =
     Inl (Err (Verification (NotEnoughVotingPower tallied needed)))"
| "trusting_loop tm s chain_id c needed idx (cs # rest) seen_vals tallied =
     (case cs of
        BlockIdFlagCommit val_id _ (Some sg) \<Rightarrow>
          (case find_validator s val_id of
             None \<Rightarrow> trusting_loop tm s chain_id c needed (Suc idx) rest seen_vals tallied
           | Some (val_idx, v) \<Rightarrow>
             if seen_vals val_idx \<noteq> None
             then bail_verification ''Double vote from {val_id} ({prev_idx} and {idx}''
             else
               bind_r (vote_sign_bytes tm c chain_id idx) (\<lambda>vote_sign.
               bind_r (verify_signature tm v vote_sign sg) (\<lambda>_.
               bind_r (add_u64 tallied (val_power v)) (\<lambda>tallied'.
               if tallied' > needed then Inr ()
               else trusting_loop tm s chain_id c needed (Suc idx) rest
                 (seen_vals(val_idx \<mapsto> idx)) tallied'))))
      | BlockIdFlagCommit _ _ None \<Rightarrow> bail_verification ''No signature in CommitSig''
      | _ \<Rightarrow> trusting_loop tm s chain_id c needed (Suc idx) rest seen_vals tallied)"

definition verify_commit_light_trusting ::
  "tendermint \<Rightarrow> validator_set \<Rightarrow> string \<Rightarrow> commit \<Rightarrow> trust_level_ratio \<Rightarrow> (types_error, unit) result"
where
  "verify_commit_light_trusting tm s chain_id c trust_level =
     bind_r (voting_power_needed trust_level (vs_total_voting_power s)) (\<lambda>needed.
     trusting_loop tm s chain_id c needed 0 (cm_signatures c) Map.empty 0)"

section \<open>Data availability headers\<close>

definition dah_validate_basic ::
  "data_availability_header \<Rightarrow> app_version \<Rightarrow> (types_error, unit) result"
where
  "dah_validate_basic d v =
     (if length (dah_column_roots d) \<noteq> length (dah_row_roots d)
      then bail_validation ''column_roots len ({}) != row_roots len ({})''
      else if length (dah_row_roots d) < MIN_EXTENDED_SQUARE_WIDTH
      then bail_validation ''row_roots len ({}) < minimum ({})''
      else if length (dah_row_roots d) > max_extended_square_width v
      then bail_validation ''row_roots len ({}) > maximum ({})''
      else Inr ())"

definition dah_new ::
  "bytes list \<Rightarrow> bytes list \<Rightarrow> app_version \<Rightarrow> (types_error, data_availability_header) result"
where
  "dah_new row_roots column_roots v =
     (let d = \<lparr>dah_row_roots = row_roots, dah_column_roots = column_roots\<rparr>
      in bind_r (dah_validate_basic d v) (\<lambda>_. Inr d))"

definition dah_row_root :: "data_availability_header \<Rightarrow> nat \<Rightarrow> bytes option" where
  "dah_row_root d row =
     (if row < length (dah_row_roots d) then Some (dah_row_roots d ! row) else None)"

definition dah_column_root :: "data_availability_header \<Rightarrow> nat \<Rightarrow> bytes option" where
  "dah_column_root d column =
     (if column < length (dah_column_roots d) then Some (dah_column_roots d ! column) else None)"

datatype axis_type = Row | Col

definition dah_root :: "data_availability_header \<Rightarrow> axis_type \<Rightarrow> nat \<Rightarrow> bytes option" where
  "dah_root d axis index = (case axis of
      Col \<Rightarrow> dah_column_root d index
    | Row \<Rightarrow> dah_row_root d index)"

definition dah_hash :: "tendermint \<Rightarrow> data_availability_header \<Rightarrow> hash" where
  "dah_hash tm d = Sha256 (tm_merkle_root tm (dah_row_roots d @ dah_column_roots d))"

definition dah_square_width :: "data_availability_header \<Rightarrow> ('e, nat) result" where
  "dah_square_width d =
     (if length (dah_row_roots d) \<le> 65535 then Inr (length (dah_row_roots d))
      else Inl (Panic ''len is bigger than u16::MAX''))"

section \<open>Extended headers\<close>

definition eh_app_version :: "extended_header \<Rightarrow> ('e, app_version) result" where
  "eh_app_version x = (case app_version_from_u64 (hd_version_app (eh_header x)) of
      Some v \<Rightarrow> Inr v
    | None \<Rightarrow> Inl (Panic ''header should be validated before calling''))"

definition eh_chain_id :: "extended_header \<Rightarrow> string" where
  "eh_chain_id x = hd_chain_id (eh_header x)"

definition eh_height :: "extended_header \<Rightarrow> nat" where
  "eh_height x = hd_height (eh_header x)"

definition eh_time :: "extended_header \<Rightarrow> time" where
  "eh_time x = hd_time (eh_header x)"

definition eh_hash :: "extended_header \<Rightarrow> hash" where
  "eh_hash x = bid_hash (cm_block_id (eh_commit x))"

definition eh_last_header_hash :: "extended_header \<Rightarrow> hash" where
  "eh_last_header_hash x = (case hd_last_block_id (eh_header x) of
      Some b \<Rightarrow> bid_hash b
    | None \<Rightarrow> Hash_None)"

definition eh_square_width :: "extended_header \<Rightarrow> ('e, nat) result" where
  "eh_square_width x = dah_square_width (eh_dah x)"

definition unwrap_hash :: "hash option \<Rightarrow> hash" where
  "unwrap_hash h = (case h of Some x \<Rightarrow> x | None \<Rightarrow> Hash_None)"

definition eh_validate :: "tendermint \<Rightarrow> extended_header \<Rightarrow> (types_error, unit) result" where
  "eh_validate tm x =
     bind_r (header_validate_basic (eh_header x)) (\<lambda>_.
     bind_r (commit_validate_basic (eh_commit x)) (\<lambda>_.
     bind_r (validator_set_validate_basic (eh_validator_set x)) (\<lambda>_.
     if tm_validators_hash tm (eh_validator_set x) \<noteq> hd_validators_hash (eh_header x)
     then bail_validation ''validator_set hash ({}) != header validators_hash ({})''
     else if dah_hash tm (eh_dah x) \<noteq> unwrap_hash (hd_data_hash (eh_header x))
     then bail_validation ''dah hash ({}) != header dah hash ({})''
     else if cm_height (eh_commit x) \<noteq> eh_height x
     then bail_validation ''commit height ({}) != header height ({})''
     else if bid_hash (cm_block_id (eh_commit x)) \<noteq> tm_header_hash tm (eh_header x)
     then bail_validation ''commit block_id hash ({}) != header hash ({})''
     else
       bind_r (verify_commit_light tm (eh_validator_set x) (hd_chain_id (eh_header x))
         (hd_height (eh_header x)) (eh_commit x)) (\<lambda>_.
       bind_r (ok_or (UnsupportedAppVersion (hd_version_app (eh_header x)))
         (app_version_from_u64 (hd_version_app (eh_header x)))) (\<lambda>v.
       dah_validate_basic (eh_dah x) v)))))"

text \<open>The largest time of the crate, the end of the year 9999.\<close>

definition time_max :: time where
  "time_max = 253402300799999999999"

definition time_checked_add :: "time \<Rightarrow> int \<Rightarrow> time option" where
  "time_checked_add t d = (if t + d \<le> time_max then Some (t + d) else None)"

definition VERIFY_CLOCK_DRIFT :: int where
  "VERIFY_CLOCK_DRIFT = 10 * 10 ^ 9"

definition eh_verify ::
  "tendermint \<Rightarrow> time \<Rightarrow> extended_header \<Rightarrow> extended_header \<Rightarrow> (types_error, unit) result"
where
  "eh_verify tm now trusted untrusted =
     (if eh_height untrusted \<le> eh_height trusted
      then bail_verification ''untrusted header height({}) <= current trusted header({})''
      else if eh_chain_id untrusted \<noteq> eh_chain_id trusted
      then bail_verification ''untrusted header has different chain {}, not {}''
      else if \<not> eh_time untrusted > eh_time trusted
      then bail_verification
        ''untrusted header time ({}) must be after current trusted header ({})''
      else (case time_checked_add now VERIFY_CLOCK_DRIFT of
          None \<Rightarrow> Inl (Panic ''called Option::unwrap on a None value'')
        | Some valid_until \<Rightarrow>
          if \<not> eh_time untrusted < valid_until
          then bail_verification ''new untrusted header has a time from the future {}''
          else bind_r (add_u64 (eh_height trusted) 1) (\<lambda>next_height.
            if next_height = eh_height untrusted then
              if hd_validators_hash (eh_header untrusted) \<noteq> hd_next_validators_hash (eh_header trusted)
              then bail_verification
                ''expected old header next validators ({}) to match those from new header ({})''
              else if eh_last_header_hash untrusted \<noteq> eh_hash trusted
              then bail_verification
                ''expected new header to point to last header hash ({}), but got {}''
              else Inr ()
            else verify_commit_light_trusting tm (eh_validator_set trusted) (eh_chain_id trusted)
              (eh_commit untrusted) DEFAULT_TRUST_LEVEL)))"

definition not_adjacent_msg :: string where
  "not_adjacent_msg = ''untrusted header height ({}) not adjacent to the current trusted ({})''"

definition eh_verify_adjacent ::
  "tendermint \<Rightarrow> time \<Rightarrow> extended_header \<Rightarrow> extended_header \<Rightarrow> (types_error, unit) result"
where
  "eh_verify_adjacent tm now trusted untrusted =
     bind_r (add_u64 (eh_height trusted) 1) (\<lambda>next_height.
     if next_height \<noteq> eh_height untrusted then bail_verification not_adjacent_msg
     else eh_verify tm now trusted untrusted)"

text \<open>The loop of \<open>verify_range\<close>; \<open>first\<close> stands for \<open>i == 0\<close>.\<close>

fun verify_range_loop ::
  "tendermint \<Rightarrow> time \<Rightarrow> bool \<Rightarrow> extended_header \<Rightarrow> extended_header list \<Rightarrow> (types_error, unit) result"
where
  "verify_range_loop tm now first trusted [] = Inr ()"
| "verify_range_loop tm now first trusted (untrusted # rest) =
     bind_r (if first then Inr False
             else bind_r (add_u64 (eh_height trusted) 1) (\<lambda>n. Inr (n \<noteq> eh_height untrusted)))
       (\<lambda>gap. if gap then bail_verification not_adjacent_msg
         else bind_r (eh_verify tm now trusted untrusted) (\<lambda>_.
           verify_range_loop tm now False untrusted rest))"

definition eh_verify_range ::
  "tendermint \<Rightarrow> time \<Rightarrow> extended_header \<Rightarrow> extended_header list \<Rightarrow> (types_error, unit) result"
where
  "eh_verify_range tm now trusted untrusted = verify_range_loop tm now True trusted untrusted"

definition eh_verify_adjacent_range ::
  "tendermint \<Rightarrow> time \<Rightarrow> extended_header \<Rightarrow> extended_header list \<Rightarrow> (types_error, unit) result"
where
  "eh_verify_adjacent_range tm now trusted untrusted = (case untrusted of
      [] \<Rightarrow> Inr ()
    | u # _ \<Rightarrow> bind_r (add_u64 (eh_height trusted) 1) (\<lambda>n.
        if n \<noteq> eh_height u then bail_verification not_adjacent_msg
        else eh_verify_range tm now trusted untrusted))"

end
