(* ===== verification/Commit_Verification.thy ===== *)
theory Commit_Verification
  imports Headers
begin

text \<open>
  What an accepted commit proves. \<open>signed_by\<close> says that the commit carries, at a
  position, a signature of a validator over the vote for the commit's block. An accepted
  commit has such signatures from validators that hold more than the required share of the
  voting power, each counted once; a commit with enough good signatures is accepted; two
  commits accepted by one validator set share more than a third of the power.
\<close>

definition signed_by :: "tendermint \<Rightarrow> string \<Rightarrow> commit \<Rightarrow> validator \<Rightarrow> nat \<Rightarrow> bool" where
  "signed_by tm chain_id c v i \<longleftrightarrow> i < length (cm_signatures c) \<and>
     (\<exists>addr ts sg msg. cm_signatures c ! i = BlockIdFlagCommit addr ts (Some sg) \<and>
        vote_sign_bytes tm c chain_id i = Inr msg \<and>
        tm_verify_signature tm (val_pub_key v) msg sg)"

text \<open>The voting power of the validators at a set of positions.\<close>

definition power_of :: "validator list \<Rightarrow> nat set \<Rightarrow> nat" where
  "power_of vs I = (\<Sum>i \<in> I. val_power (vs ! i))"

lemma power_of_Suc: "power_of (v # vs) (Suc ` I) = power_of vs I"
  by (simp add: power_of_def sum.reindex)

lemma power_of_insert_0:
  "finite I \<Longrightarrow> power_of (v # vs) (insert 0 (Suc ` I)) = val_power v + power_of vs I"
  using power_of_Suc [of v vs I] by (simp add: power_of_def)

lemma verify_signature_Inr_iff [simp]:
  "verify_signature tm v msg sg = Inr u \<longleftrightarrow> tm_verify_signature tm (val_pub_key v) msg sg"
  by (simp add: verify_signature_def)

lemma vote_sign_bytes_index:
  "vote_sign_bytes tm c chain_id i = Inr msg \<Longrightarrow> i < length (cm_signatures c)"
  by (simp add: vote_sign_bytes_def split: if_splits)

lemma voting_power_needed_Inr:
  assumes "voting_power_needed l t = Inr n"
  shows "0 < denominator l" "n = numerator l * t div denominator l" "numerator l * t \<le> u64_max"
  using assms by (auto simp: voting_power_needed_def split: if_splits)

text \<open>Exceeding the rounded-down threshold is exceeding the ratio itself.\<close>

lemma exceeds_ratio:
  assumes "voting_power_needed l t = Inr n" "n < p"
  shows "numerator l * t < denominator l * p"
proof -
  note n = voting_power_needed_Inr [OF assms(1)]
  have "numerator l * t < denominator l * Suc n"
    using n(1,2) by (simp add: dividend_less_times_div)
  also have "\<dots> \<le> denominator l * p" using assms(2) by (intro mult_le_mono2) simp
  finally show ?thesis .
qed

section \<open>Commits of the header's own validators\<close>

lemma verify_commit_light_loop_sound:
  assumes "verify_commit_light_loop tm ch c needed idx (zip vs css) t = Inr ()"
    "length css = length vs" "\<forall>k < length css. css ! k = cm_signatures c ! (idx + k)"
  shows "\<exists>I \<subseteq> {..<length vs}. (\<forall>k \<in> I. signed_by tm ch c (vs ! k) (idx + k)) \<and>
    needed < t + power_of vs I"
  using assms
proof (induction vs arbitrary: css idx t)
  case (Cons v vs)
  from Cons.prems(2) obtain cs css' where css: "css = cs # css'" "length css' = length vs"
    by (cases css) auto
  have here: "cm_signatures c ! idx = cs" using Cons.prems(3) css by fastforce
  have rest: "\<forall>k < length css'. css' ! k = cm_signatures c ! (Suc idx + k)"
    using Cons.prems(3) css by fastforce
  have skip: ?case if "verify_commit_light_loop tm ch c needed (Suc idx) (zip vs css') t = Inr ()"
  proof -
    from Cons.IH [OF that css(2) rest] obtain I where
      I: "I \<subseteq> {..<length vs}" "\<forall>k \<in> I. signed_by tm ch c (vs ! k) (Suc idx + k)"
      "needed < t + power_of vs I" by auto
    then show ?thesis
      by (intro exI [of _ "Suc ` I"]) (auto simp: power_of_Suc)
  qed
  show ?case
  proof (cases "\<exists>addr ts sg. cs = BlockIdFlagCommit addr ts (Some sg)")
    case True
    then obtain addr ts sg where cs: "cs = BlockIdFlagCommit addr ts (Some sg)" by blast
    with Cons.prems(1) css obtain msg t' where
      m: "vote_sign_bytes tm c ch idx = Inr msg" "tm_verify_signature tm (val_pub_key v) msg sg"
      and t': "t' = t + val_power v"
      and go: "needed < t' \<or> verify_commit_light_loop tm ch c needed (Suc idx) (zip vs css') t' = Inr ()"
      by (auto simp: add_u64_Inr_iff split: if_splits)
    from m cs here have signed: "signed_by tm ch c v idx"
      by (auto simp: signed_by_def dest: vote_sign_bytes_index)
    obtain I where I: "I \<subseteq> {..<length vs}" "\<forall>k \<in> I. signed_by tm ch c (vs ! k) (Suc idx + k)"
      "needed < t' + power_of vs I"
    proof (cases "needed < t'")
      case True
      then show thesis using that [of "{}"] by simp
    next
      case False
      with go Cons.IH [OF _ css(2) rest] that show thesis by blast
    qed
    have "finite I" using I(1) finite_subset by blast
    with I signed t' show ?thesis
      by (intro exI [of _ "insert 0 (Suc ` I)"]) (auto simp: power_of_insert_0)
  next
    case False
    with Cons.prems(1) css have
      "verify_commit_light_loop tm ch c needed (Suc idx) (zip vs css') t = Inr ()"
      by (auto split: commit_sig.splits option.splits)
    then show ?thesis by (rule skip)
  qed
qed simp

lemma verify_commit_light_sound:
  assumes "verify_commit_light tm s ch h c = Inr ()"
  shows "h = cm_height c" "length (vs_validators s) = length (cm_signatures c)"
    "\<exists>I \<subseteq> {..<length (vs_validators s)}. (\<forall>i \<in> I. signed_by tm ch c (vs_validators s ! i) i) \<and>
      2 * vs_total_voting_power s < 3 * power_of (vs_validators s) I"
proof -
  from assms obtain needed where
    len: "length (vs_validators s) = length (cm_signatures c)" and h: "h = cm_height c" and
    needed: "voting_power_needed \<lparr>numerator = 2, denominator = 3\<rparr> (vs_total_voting_power s) = Inr needed" and
    loop: "verify_commit_light_loop tm ch c needed 0 (zip (vs_validators s) (cm_signatures c)) 0 = Inr ()"
    by (auto simp: verify_commit_light_def split: if_splits)
  from verify_commit_light_loop_sound [OF loop len [symmetric]] obtain I where
    "I \<subseteq> {..<length (vs_validators s)}" "\<forall>k \<in> I. signed_by tm ch c (vs_validators s ! k) k"
    "needed < power_of (vs_validators s) I" by auto
  with exceeds_ratio [OF needed] show
    "\<exists>I \<subseteq> {..<length (vs_validators s)}. (\<forall>i \<in> I. signed_by tm ch c (vs_validators s ! i) i) \<and>
      2 * vs_total_voting_power s < 3 * power_of (vs_validators s) I" by auto
  from len h show "h = cm_height c" "length (vs_validators s) = length (cm_signatures c)" by auto
qed

text \<open>Conversely, a commit whose committing signatures are all good and carry enough power is
  accepted.\<close>

definition committing :: "commit_sig \<Rightarrow> bool" where
  "committing cs \<longleftrightarrow> (case cs of BlockIdFlagCommit _ _ _ \<Rightarrow> True | _ \<Rightarrow> False)"

definition commit_positions :: "commit_sig list \<Rightarrow> nat set" where
  "commit_positions css = {k. k < length css \<and> committing (css ! k)}"

lemma commit_positions_simps [simp]:
  "commit_positions [] = {}"
  "commit_positions (cs # css) =
     (if committing cs then insert 0 (Suc ` commit_positions css) else Suc ` commit_positions css)"
  unfolding commit_positions_def
  by (auto simp: nth_Cons image_iff split: nat.splits elim: lessE) (metis Suc_less_SucD not0_implies_Suc)+

lemma finite_commit_positions [simp]: "finite (commit_positions css)"
  by (simp add: commit_positions_def)

lemma verify_commit_light_loop_complete:
  assumes "length css = length vs" "\<forall>k < length css. css ! k = cm_signatures c ! (idx + k)"
    "\<forall>k \<in> commit_positions css. signed_by tm ch c (vs ! k) (idx + k)"
    "t \<le> needed" "needed < t + power_of vs (commit_positions css)"
    "t + power_of vs (commit_positions css) \<le> u64_max"
  shows "verify_commit_light_loop tm ch c needed idx (zip vs css) t = Inr ()"
  using assms
proof (induction vs arbitrary: css idx t)
  case Nil
  then show ?case by (simp add: power_of_def)
next
  case (Cons v vs)
  from Cons.prems(1) obtain cs css' where css: "css = cs # css'" "length css' = length vs"
    by (cases css) auto
  have here: "cm_signatures c ! idx = cs" using Cons.prems(2) css by fastforce
  have rest: "\<forall>k < length css'. css' ! k = cm_signatures c ! (Suc idx + k)"
    using Cons.prems(2) css by fastforce
  have rest_signed: "\<forall>k \<in> commit_positions css'. signed_by tm ch c (vs ! k) (Suc idx + k)"
    using Cons.prems(3) css by (auto split: if_splits)
  show ?case
  proof (cases "committing cs")
    case True
    with Cons.prems(3) css have "signed_by tm ch c v idx" by auto
    then obtain addr ts sg msg where cs: "cs = BlockIdFlagCommit addr ts (Some sg)"
      and ok: "vote_sign_bytes tm c ch idx = Inr msg" "tm_verify_signature tm (val_pub_key v) msg sg"
      using here by (auto simp: signed_by_def)
    have bound: "t + val_power v + power_of vs (commit_positions css') \<le> u64_max"
      "needed < t + val_power v + power_of vs (commit_positions css')"
      using Cons.prems(5,6) True css by (simp_all add: power_of_insert_0)
    with Cons.IH [OF css(2) rest rest_signed] cs css ok show ?thesis
      by (auto simp: verify_signature_def add_u64_def)
  next
    case False
    with Cons.IH [OF css(2) rest rest_signed Cons.prems(4)] Cons.prems(5,6) css show ?thesis
      by (cases cs) (auto simp: power_of_Suc committing_def)
  qed
qed

lemma verify_commit_light_complete:
  assumes "length (vs_validators s) = length (cm_signatures c)"
    "\<forall>i \<in> commit_positions (cm_signatures c). signed_by tm ch c (vs_validators s ! i) i"
    "2 * vs_total_voting_power s < 3 * power_of (vs_validators s) (commit_positions (cm_signatures c))"
    "power_of (vs_validators s) (commit_positions (cm_signatures c)) \<le> u64_max"
    "2 * vs_total_voting_power s \<le> u64_max"
  shows "verify_commit_light tm s ch (cm_height c) c = Inr ()"
proof -
  have "2 * vs_total_voting_power s div 3 < power_of (vs_validators s) (commit_positions (cm_signatures c))"
    using assms(3) by linarith
  with verify_commit_light_loop_complete [OF assms(1) [symmetric], of c 0 tm ch 0
      "2 * vs_total_voting_power s div 3"] assms show ?thesis
    by (simp add: verify_commit_light_def voting_power_needed_def)
qed

section \<open>Commits checked against an older validator set\<close>

lemma find_validator_from_Some:
  "find_validator_from i vs a = Some (k, v) \<Longrightarrow>
   i \<le> k \<and> k - i < length vs \<and> vs ! (k - i) = v \<and> val_address v = a"
  by (induction i vs a rule: find_validator_from.induct)
    (auto simp: nth_Cons Suc_diff_le split: if_splits nat.splits,
      metis Suc_diff_Suc Suc_le_lessD nat.inject)

lemma find_validator_Some:
  "find_validator s a = Some (k, v) \<Longrightarrow>
   k < length (vs_validators s) \<and> vs_validators s ! k = v \<and> val_address v = a"
  using find_validator_from_Some [of 0] by (fastforce simp: find_validator_def)

lemma trusting_loop_sound:
  assumes "trusting_loop tm s ch c needed idx css seen t = Inr ()"
    "\<forall>k < length css. css ! k = cm_signatures c ! (idx + k)"
  shows "\<exists>J \<subseteq> {..<length (vs_validators s)} - dom seen.
    (\<forall>j \<in> J. \<exists>i. signed_by tm ch c (vs_validators s ! j) i) \<and>
    needed < t + power_of (vs_validators s) J"
  using assms
proof (induction css arbitrary: idx seen t)
  case (Cons cs css)
  have here: "cm_signatures c ! idx = cs" using Cons.prems(2) by fastforce
  have rest: "\<forall>k < length css. css ! k = cm_signatures c ! (Suc idx + k)"
    using Cons.prems(2) by fastforce
  show ?case
  proof (cases "\<exists>val_id ts sg j v. cs = BlockIdFlagCommit val_id ts (Some sg) \<and>
      find_validator s val_id = Some (j, v)")
    case True
    then obtain val_id ts sg j v where cs: "cs = BlockIdFlagCommit val_id ts (Some sg)"
      and found: "find_validator s val_id = Some (j, v)" by blast
    with Cons.prems(1) obtain msg where fresh: "j \<notin> dom seen"
      and ok: "vote_sign_bytes tm c ch idx = Inr msg" "tm_verify_signature tm (val_pub_key v) msg sg"
      and go: "needed < t + val_power v \<or>
        trusting_loop tm s ch c needed (Suc idx) css (seen(j \<mapsto> idx)) (t + val_power v) = Inr ()"
      by (auto simp: add_u64_Inr_iff domIff split: if_splits)
    note j = find_validator_Some [OF found]
    from ok cs here j have signed: "signed_by tm ch c (vs_validators s ! j) idx"
      by (auto simp: signed_by_def dest: vote_sign_bytes_index)
    obtain J where J: "J \<subseteq> {..<length (vs_validators s)} - insert j (dom seen)"
      "\<forall>j \<in> J. \<exists>i. signed_by tm ch c (vs_validators s ! j) i"
      "needed < t + val_power v + power_of (vs_validators s) J"
    proof (cases "needed < t + val_power v")
      case True
      then show thesis using that [of "{}"] by simp
    next
      case False
      with go have "trusting_loop tm s ch c needed (Suc idx) css (seen(j \<mapsto> idx)) (t + val_power v) = Inr ()"
        by simp
      from Cons.IH [OF this rest] that show thesis by (simp only: dom_fun_upd option.distinct if_False) blast
    qed
    have "finite J" "j \<notin> J" using J(1) finite_subset by blast+
    then have "power_of (vs_validators s) (insert j J) = val_power v + power_of (vs_validators s) J"
      using j by (simp add: power_of_def)
    with J signed fresh j show ?thesis
      by (intro exI [of _ "insert j J"]) auto
  next
    case False
    with Cons.prems(1) have "trusting_loop tm s ch c needed (Suc idx) css seen t = Inr ()"
      by (auto split: commit_sig.splits option.splits)
    then show ?thesis by (rule Cons.IH [OF _ rest])
  qed
qed simp

lemma verify_commit_light_trusting_sound:
  assumes "verify_commit_light_trusting tm s ch c l = Inr ()"
  shows "\<exists>J \<subseteq> {..<length (vs_validators s)}.
    (\<forall>j \<in> J. \<exists>i. signed_by tm ch c (vs_validators s ! j) i) \<and>
    numerator l * vs_total_voting_power s < denominator l * power_of (vs_validators s) J"
proof -
  from assms obtain needed where
    needed: "voting_power_needed l (vs_total_voting_power s) = Inr needed" and
    loop: "trusting_loop tm s ch c needed 0 (cm_signatures c) Map.empty 0 = Inr ()"
    by (auto simp: verify_commit_light_trusting_def)
  from trusting_loop_sound [OF loop] obtain J where
    "J \<subseteq> {..<length (vs_validators s)}"
    "\<forall>j \<in> J. \<exists>i. signed_by tm ch c (vs_validators s ! j) i"
    "needed < power_of (vs_validators s) J" by auto
  with exceeds_ratio [OF needed] show ?thesis by blast
qed

section \<open>Quorum intersection\<close>

lemma power_of_overlap:
  assumes "I \<subseteq> {..<length vs}" "J \<subseteq> {..<length vs}"
  shows "power_of vs I + power_of vs J \<le> power_of vs {..<length vs} + power_of vs (I \<inter> J)"
proof -
  have fin: "finite I" "finite J" using assms finite_subset by blast+
  have "power_of vs I + power_of vs J = power_of vs (I \<union> J) + power_of vs (I \<inter> J)"
    using sum.union_inter [OF fin, of "\<lambda>i. val_power (vs ! i)"] by (simp add: power_of_def)
  moreover have "power_of vs (I \<union> J) \<le> power_of vs {..<length vs}"
    unfolding power_of_def using assms by (intro sum_mono2) auto
  ultimately show ?thesis by simp
qed

end
