(* ===== verification/Header_Chain.thy ===== *)
theory Header_Chain
  imports Commit_Verification
begin

text \<open>
  Validation and verification of extended headers. \<open>eh_valid\<close> is what an accepted header
  is: consistent with its commit, its validator set and its data, and signed by more than
  two thirds of the voting power. \<open>linked\<close> is what an accepted adjacent pair is; the
  verification of ranges is exactly the check that the range is a chain of such links, and
  a chain of valid headers is determined by its last header.
\<close>

section \<open>Single headers\<close>

definition two_thirds_signed :: "tendermint \<Rightarrow> extended_header \<Rightarrow> nat set \<Rightarrow> bool" where
  "two_thirds_signed tm x I \<longleftrightarrow> I \<subseteq> {..<length (vs_validators (eh_validator_set x))} \<and>
     (\<forall>i \<in> I. signed_by tm (eh_chain_id x) (eh_commit x) (vs_validators (eh_validator_set x) ! i) i) \<and>
     2 * vs_total_voting_power (eh_validator_set x) <
     3 * power_of (vs_validators (eh_validator_set x)) I"

lemma header_validate_basic_iff:
  "header_validate_basic h = Inr u \<longleftrightarrow> hd_version_block h = BLOCK_PROTOCOL \<and>
     length (hd_chain_id h) \<le> MAX_CHAIN_ID_LEN \<and> 0 < hd_height h \<and>
     (hd_last_block_id h = None \<longleftrightarrow> hd_height h = GENESIS_HEIGHT)"
  by (auto simp: header_validate_basic_def)

lemma dah_validate_basic_iff:
  "dah_validate_basic d v = Inr u \<longleftrightarrow> length (dah_column_roots d) = length (dah_row_roots d) \<and>
     2 \<le> length (dah_row_roots d) \<and> length (dah_row_roots d) \<le> max_extended_square_width v"
  by (auto simp: dah_validate_basic_def MIN_EXTENDED_SQUARE_WIDTH_def MIN_SQUARE_SIZE_def)

lemma validator_set_validate_basic_iff:
  "validator_set_validate_basic s = Inr u \<longleftrightarrow> vs_validators s \<noteq> [] \<and> vs_proposer s \<noteq> None"
  by (auto simp: validator_set_validate_basic_def)

definition eh_valid :: "tendermint \<Rightarrow> extended_header \<Rightarrow> bool" where
  "eh_valid tm x \<longleftrightarrow> 0 < eh_height x \<and>
     eh_hash x = tm_header_hash tm (eh_header x) \<and>
     cm_height (eh_commit x) = eh_height x \<and>
     tm_validators_hash tm (eh_validator_set x) = hd_validators_hash (eh_header x) \<and>
     hd_data_hash (eh_header x) = Some (dah_hash tm (eh_dah x)) \<and>
     (\<exists>I. two_thirds_signed tm x I) \<and>
     (\<exists>v. eh_app_version x = (Inr v :: (types_error, app_version) result) \<and>
        2 \<le> length (dah_row_roots (eh_dah x)) \<and>
        length (dah_column_roots (eh_dah x)) = length (dah_row_roots (eh_dah x)) \<and>
        length (dah_row_roots (eh_dah x)) \<le> max_extended_square_width v)"

lemma eh_validate_sound:
  assumes "eh_validate tm x = Inr ()"
  shows "eh_valid tm x"
proof -
  from assms obtain v where
    hdr: "header_validate_basic (eh_header x) = Inr ()"
    and vals: "tm_validators_hash tm (eh_validator_set x) = hd_validators_hash (eh_header x)"
    and dah: "dah_hash tm (eh_dah x) = unwrap_hash (hd_data_hash (eh_header x))"
    and height: "cm_height (eh_commit x) = eh_height x"
    and hash: "bid_hash (cm_block_id (eh_commit x)) = tm_header_hash tm (eh_header x)"
    and commit: "verify_commit_light tm (eh_validator_set x) (hd_chain_id (eh_header x))
        (hd_height (eh_header x)) (eh_commit x) = Inr ()"
    and v: "app_version_from_u64 (hd_version_app (eh_header x)) = Some v"
    and d: "dah_validate_basic (eh_dah x) v = Inr ()"
    by (auto simp: eh_validate_def split: if_splits)
  from dah have data: "hd_data_hash (eh_header x) = Some (dah_hash tm (eh_dah x))"
    by (auto simp: dah_hash_def unwrap_hash_def split: option.splits)
  have "\<exists>I. two_thirds_signed tm x I"
    using verify_commit_light_sound(3) [OF commit] by (auto simp: two_thirds_signed_def eh_chain_id_def)
  with hdr vals data height hash v d show ?thesis
    by (auto simp: eh_valid_def header_validate_basic_iff dah_validate_basic_iff eh_hash_def
        eh_app_version_def eh_height_def)
qed

text \<open>The accessors that can panic do not on validated headers.\<close>

lemma eh_valid_square_width:
  assumes "eh_valid tm x"
  shows "eh_square_width x = Inr (length (dah_row_roots (eh_dah x)))"
proof -
  from assms obtain v where "length (dah_row_roots (eh_dah x)) \<le> max_extended_square_width v"
    by (auto simp: eh_valid_def)
  with max_extended_square_width_u16 [of v] show ?thesis
    by (simp add: eh_square_width_def dah_square_width_def)
qed

section \<open>Links between headers\<close>

definition linked :: "extended_header \<Rightarrow> extended_header \<Rightarrow> bool" where
  "linked a b \<longleftrightarrow> eh_height b = eh_height a + 1 \<and> eh_chain_id b = eh_chain_id a \<and>
     eh_time a < eh_time b \<and>
     hd_validators_hash (eh_header b) = hd_next_validators_hash (eh_header a) \<and>
     eh_last_header_hash b = eh_hash a"

definition timely :: "time \<Rightarrow> extended_header \<Rightarrow> bool" where
  "timely now x \<longleftrightarrow> eh_time x < now + VERIFY_CLOCK_DRIFT"

definition clock_ok :: "time \<Rightarrow> bool" where
  "clock_ok now \<longleftrightarrow> now + VERIFY_CLOCK_DRIFT \<le> time_max"

text \<open>What is accepted between headers that are not adjacent.\<close>

definition trusts :: "tendermint \<Rightarrow> extended_header \<Rightarrow> extended_header \<Rightarrow> bool" where
  "trusts tm a b \<longleftrightarrow> eh_height a < eh_height b \<and> eh_chain_id b = eh_chain_id a \<and>
     eh_time a < eh_time b \<and>
     verify_commit_light_trusting tm (eh_validator_set a) (eh_chain_id a) (eh_commit b)
       DEFAULT_TRUST_LEVEL = Inr ()"

lemma eh_verify_iff:
  assumes "clock_ok now" "eh_height a < u64_max"
  shows "eh_verify tm now a b = Inr () \<longleftrightarrow> timely now b \<and>
    (if eh_height b = eh_height a + 1 then linked a b else trusts tm a b)"
  using assms
  by (auto simp: eh_verify_def clock_ok_def time_checked_add_def linked_def timely_def trusts_def
      add_u64_def split: if_splits)

lemma eh_verify_adjacent_iff:
  assumes "clock_ok now" "eh_height a < u64_max"
  shows "eh_verify_adjacent tm now a b = Inr () \<longleftrightarrow> linked a b \<and> timely now b"
  using eh_verify_iff [OF assms, of tm b] assms(2)
  by (auto simp: eh_verify_adjacent_def linked_def split: if_splits)

lemma eh_verify_linked:
  assumes "eh_verify tm now a b = Inr ()" "eh_height b = eh_height a + 1"
  shows "linked a b"
  using assms
  by (auto simp: eh_verify_def linked_def add_u64_def split: if_splits option.splits)

lemma verify_range_loop_iff:
  assumes "clock_ok now" "\<forall>x \<in> set (a # us). eh_height x < u64_max"
  shows "verify_range_loop tm now False a us = Inr () \<longleftrightarrow>
    successively linked (a # us) \<and> (\<forall>u \<in> set us. timely now u)"
  using assms
proof (induction us arbitrary: a)
  case (Cons u us)
  have "verify_range_loop tm now False a (u # us) = Inr () \<longleftrightarrow>
      eh_height u = eh_height a + 1 \<and> eh_verify tm now a u = Inr () \<and>
      verify_range_loop tm now False u us = Inr ()"
    using Cons.prems by (auto simp: bind_r_Inr_iff)
  with Cons.IH [of u] Cons.prems eh_verify_iff [of now a tm u] show ?case
    by (auto simp: linked_def)
qed simp

lemma eh_verify_adjacent_range_iff:
  assumes "clock_ok now" "\<forall>x \<in> set (a # us). eh_height x < u64_max"
  shows "eh_verify_adjacent_range tm now a us = Inr () \<longleftrightarrow>
    successively linked (a # us) \<and> (\<forall>u \<in> set us. timely now u)"
proof (cases us)
  case Nil
  then show ?thesis by (simp add: eh_verify_adjacent_range_def)
next
  case (Cons u us')
  have "eh_verify_adjacent_range tm now a us = Inr () \<longleftrightarrow> verify_range_loop tm now False a us = Inr ()"
    using Cons assms(2)
    by (auto simp: eh_verify_adjacent_range_def eh_verify_range_def bind_r_Inr_iff)
  with verify_range_loop_iff [OF assms] show ?thesis by simp
qed

lemma eh_verify_range_iff:
  assumes "clock_ok now" "\<forall>x \<in> set (a # us). eh_height x < u64_max"
  shows "eh_verify_range tm now a us = Inr () \<longleftrightarrow> us = [] \<or>
    (eh_verify tm now a (hd us) = Inr () \<and> successively linked us \<and> (\<forall>u \<in> set us. timely now u))"
proof (cases us)
  case Nil
  then show ?thesis by (simp add: eh_verify_range_def)
next
  case (Cons u us')
  have "timely now u" if "eh_verify tm now a u = Inr ()"
    using that eh_verify_iff [of now a tm u] assms by simp
  with Cons verify_range_loop_iff [OF assms(1), of u us' tm] assms(2) show ?thesis
    by (auto simp: eh_verify_range_def)
qed

text \<open>Acceptance alone gives the links, whatever the clock says.\<close>

lemma verify_range_loop_linked:
  "verify_range_loop tm now False a us = Inr () \<Longrightarrow> successively linked (a # us)"
proof (induction us arbitrary: a)
  case (Cons u us)
  then have "eh_verify tm now a u = Inr ()" "eh_height u = eh_height a + 1"
    "verify_range_loop tm now False u us = Inr ()"
    by (auto simp: bind_r_Inr_iff add_u64_Inr_iff split: if_splits)
  with Cons.IH eh_verify_linked show ?case by auto
qed simp

lemma verify_adjacent_range_linked:
  assumes "eh_verify_adjacent_range tm now a us = Inr ()"
  shows "successively linked (a # us)"
proof (cases us)
  case (Cons u us')
  with assms have "verify_range_loop tm now False a us = Inr ()"
    by (auto simp: eh_verify_adjacent_range_def eh_verify_range_def bind_r_Inr_iff add_u64_Inr_iff
        split: if_splits)
  then show ?thesis by (rule verify_range_loop_linked)
qed simp

section \<open>Chains\<close>

lemma linked_heights:
  "successively linked (a # us) \<Longrightarrow> k \<le> length us \<Longrightarrow> eh_height ((a # us) ! k) = eh_height a + k"
proof (induction us arbitrary: a k)
  case (Cons u us)
  then show ?case by (cases k) (auto simp: linked_def)
qed simp

lemma chain_unique:
  assumes "successively linked (xs @ [z])" "successively linked (ys @ [z'])" "eh_header z = eh_header z'"
    "length xs = length ys"
    "\<forall>x \<in> set xs \<union> set ys. eh_hash x = tm_header_hash tm (eh_header x)"
    "inj_on (tm_header_hash tm) (eh_header ` (set xs \<union> set ys))"
  shows "map eh_header xs = map eh_header ys"
  using assms(4,1,2,3,5,6)
proof (induction xs arbitrary: ys z z' rule: rev_induct)
  case (snoc x xs)
  from snoc.prems(1) obtain ys' y where ys: "ys = ys' @ [y]" "length xs = length ys'"
    by (cases ys rule: rev_cases) auto
  from snoc.prems(2) have x: "successively linked (xs @ [x])" "linked x z"
    by (simp_all add: successively_append_iff)
  from snoc.prems(3) ys have y: "successively linked (ys' @ [y])" "linked y z'"
    by (simp_all add: successively_append_iff)
  have "eh_hash x = eh_hash y"
    using x(2) y(2) snoc.prems(4) by (simp add: linked_def eh_last_header_hash_def)
  with snoc.prems(5) ys have "tm_header_hash tm (eh_header x) = tm_header_hash tm (eh_header y)" by auto
  then have same: "eh_header x = eh_header y"
    by (rule inj_onD [OF snoc.prems(6)]) (simp_all add: ys)
  have "inj_on (tm_header_hash tm) (eh_header ` (set xs \<union> set ys'))"
    using snoc.prems(6) ys by (auto elim: inj_on_subset)
  with snoc.IH [OF ys(2) x(1) y(1) same] snoc.prems(5) ys same show ?case by simp
qed simp

section \<open>A concrete chain\<close>

text \<open>A Tendermint instance with four validators, three of which sign, and the headers of its
  chain: the inputs at which the properties below are evaluated.\<close>

definition toy_validators :: validator_set where
  "toy_validators = (let vs = map (\<lambda>i. \<lparr>val_address = [i], val_pub_key = [i], val_power = 10\<rparr>) [1, 2, 3, 4]
     in \<lparr>vs_validators = vs, vs_proposer = Some (hd vs), vs_total_voting_power = 40\<rparr>)"

definition toy_tm :: tendermint where
  "toy_tm = \<lparr>tm_header_hash = (\<lambda>h. Sha256 [hd_height h]),
     tm_validators_hash = (\<lambda>s. Sha256 [length (vs_validators s)]),
     tm_merkle_root = (\<lambda>rs. [length rs]),
     tm_signable_bytes = (\<lambda>v _. [vote_height v]),
     tm_verify_signature = (\<lambda>k m sg. hd sg = hd k \<and> sg ! 1 = hd m),
     tm_validator_index = Some\<rparr>"

definition toy_signature :: "nat \<Rightarrow> nat \<Rightarrow> commit_sig" where
  "toy_signature h i = BlockIdFlagCommit [i] 0 (Some (i # replicate 63 h))"

definition toy_block_id :: "nat \<Rightarrow> block_id" where
  "toy_block_id h = \<lparr>bid_hash = Sha256 [h], bid_part_set_header = \<lparr>psh_total = 1, psh_hash = Sha256 [h]\<rparr>\<rparr>"

text \<open>The header of a height, committed in a round.\<close>

definition toy_at :: "nat \<Rightarrow> nat \<Rightarrow> extended_header" where
  "toy_at r h = \<lparr>
     eh_header = \<lparr>hd_version_block = 11, hd_version_app = 3, hd_chain_id = ''private'',
       hd_height = h, hd_time = int h * 1000,
       hd_last_block_id = (if h = 1 then None else Some (toy_block_id (h - 1))),
       hd_last_commit_hash = None, hd_data_hash = Some (Sha256 [4]),
       hd_validators_hash = Sha256 [4], hd_next_validators_hash = Sha256 [4],
       hd_consensus_hash = Hash_None, hd_app_hash = [], hd_last_results_hash = None,
       hd_evidence_hash = None, hd_proposer_address = [1]\<rparr>,
     eh_commit = \<lparr>cm_height = h, cm_round = r, cm_block_id = toy_block_id h,
       cm_signatures = [toy_signature h 1, toy_signature h 2, BlockIdFlagAbsent, toy_signature h 4]\<rparr>,
     eh_validator_set = toy_validators,
     eh_dah = \<lparr>dah_row_roots = [[1], [2]], dah_column_roots = [[3], [4]]\<rparr>\<rparr>"

abbreviation toy_header :: "nat \<Rightarrow> extended_header" where
  "toy_header \<equiv> toy_at 0"

lemmas toy_defs = toy_at_def toy_block_id_def toy_signature_def toy_tm_def toy_validators_def

lemma toy_header_simps [simp]:
  "eh_height (toy_at r h) = h" "eh_time (toy_at r h) = int h * 1000"
  "eh_chain_id (toy_at r h) = ''private''" "eh_hash (toy_at r h) = Sha256 [h]"
  "tm_header_hash toy_tm (eh_header (toy_at r h)) = Sha256 [h]"
  by (simp_all add: toy_defs eh_height_def eh_time_def eh_chain_id_def eh_hash_def)

lemma toy_linked: "0 < h \<Longrightarrow> linked (toy_at r h) (toy_at r' (Suc h))"
  by (simp add: linked_def) (simp add: toy_defs eh_last_header_hash_def)

lemma toy_validate: "0 < h \<Longrightarrow> eh_validate toy_tm (toy_at r h) = Inr ()"
  by (simp add: eh_validate_def toy_defs header_validate_basic_def commit_validate_basic_def
      validator_set_validate_basic_def block_id_is_zero_def commit_sig_validate_basic_def
      signature_validate_basic_def verify_commit_light_def voting_power_needed_def
      vote_sign_bytes_def verify_signature_def add_u64_def u64_max_def dah_hash_def
      dah_validate_basic_def app_version_from_u64_def unwrap_hash_def eh_height_def
      BLOCK_PROTOCOL_def MAX_CHAIN_ID_LEN_def GENESIS_HEIGHT_def SIGNATURE_LENGTH_def
      MIN_EXTENDED_SQUARE_WIDTH_def MIN_SQUARE_SIZE_def max_extended_square_width_def)

lemma toy_valid: "0 < h \<Longrightarrow> eh_valid toy_tm (toy_at r h)"
  by (rule eh_validate_sound [OF toy_validate])

section \<open>Properties\<close>

text \<open>C13. A header that passes \<open>validate\<close> is consistent: its commit is for its own height
  and hash, its validator set and its data square are the ones it commits to, and validators
  holding more than two thirds of the voting power have signed the commit. The accessors for
  the application version and the square width, which panic on bad headers, return.\<close>

theorem validate_accepts_signed:
  assumes "eh_validate tm x = Inr ()"
  shows "eh_valid tm x \<and> (\<exists>v. eh_app_version x = (Inr v :: (types_error, app_version) result)) \<and>
    eh_square_width x = (Inr (length (dah_row_roots (eh_dah x))) :: (types_error, nat) result)"
  using eh_validate_sound [OF assms] eh_valid_square_width by (auto simp: eh_valid_def)

theorem validate_accepts_signed_witness:
  "eh_valid toy_tm (toy_header 7) \<and>
   eh_square_width (toy_header 7) = (Inr 2 :: (types_error, nat) result)"
proof -
  have "length (dah_row_roots (eh_dah (toy_header 7))) = 2" by (simp add: toy_at_def)
  with validate_accepts_signed [OF toy_validate [of 7]] show ?thesis by simp
qed

text \<open>Light verification of a commit is complete: when the lengths agree, every committing
  signature is good and their power is more than two thirds of the total, the commit is
  accepted.\<close>

theorem verify_commit_light_accepts:
  assumes "length (vs_validators s) = length (cm_signatures c)"
    and "\<forall>i \<in> commit_positions (cm_signatures c). signed_by tm chain_id c (vs_validators s ! i) i"
    and "2 * vs_total_voting_power s < 3 * power_of (vs_validators s) (commit_positions (cm_signatures c))"
    and "power_of (vs_validators s) (commit_positions (cm_signatures c)) \<le> u64_max"
    and "2 * vs_total_voting_power s \<le> u64_max"
  shows "verify_commit_light tm s chain_id (cm_height c) c = Inr ()"
  using assms by (rule verify_commit_light_complete)

theorem verify_commit_light_accepts_witness:
  "verify_commit_light toy_tm toy_validators ''private'' 5 (eh_commit (toy_header 5)) = Inr ()"
proof -
  let ?c = "eh_commit (toy_header 5)"
  have pos: "commit_positions (cm_signatures ?c) = {0, 1, 3}"
    by (auto simp: toy_defs committing_def)
  have "verify_commit_light toy_tm toy_validators ''private'' (cm_height ?c) ?c = Inr ()"
  proof (rule verify_commit_light_accepts)
    show "\<forall>i \<in> commit_positions (cm_signatures ?c).
        signed_by toy_tm ''private'' ?c (vs_validators toy_validators ! i) i"
      unfolding pos by (simp add: signed_by_def toy_defs vote_sign_bytes_def numeral_3_eq_3)
  qed (simp_all only: pos, simp_all add: toy_defs power_of_def u64_max_def numeral_3_eq_3)
  then show ?thesis by (simp add: toy_at_def)
qed

text \<open>C14. A header verified against a trusted one that is not its neighbour is newer, of the
  same chain and later in time, and validators of the trusted set holding more than a third of
  its power, each counted once, have signed its commit.\<close>

theorem verify_skipping_third:
  assumes "eh_verify tm now a b = Inr ()" "clock_ok now" "eh_height a < u64_max"
    "eh_height b \<noteq> eh_height a + 1"
  shows "eh_height a < eh_height b \<and> eh_chain_id b = eh_chain_id a \<and> eh_time a < eh_time b \<and>
    timely now b \<and>
    (\<exists>J \<subseteq> {..<length (vs_validators (eh_validator_set a))}.
      (\<forall>j \<in> J. \<exists>i. signed_by tm (eh_chain_id a) (eh_commit b) (vs_validators (eh_validator_set a) ! j) i) \<and>
      vs_total_voting_power (eh_validator_set a) <
        3 * power_of (vs_validators (eh_validator_set a)) J)"
proof -
  from assms eh_verify_iff [OF assms(2,3), of tm b] have t: "trusts tm a b" "timely now b" by auto
  then have "verify_commit_light_trusting tm (eh_validator_set a) (eh_chain_id a) (eh_commit b)
      DEFAULT_TRUST_LEVEL = Inr ()" by (simp add: trusts_def)
  from verify_commit_light_trusting_sound [OF this] t show ?thesis
    by (simp add: trusts_def DEFAULT_TRUST_LEVEL_def)
qed

theorem verify_skipping_third_witness:
  "eh_verify toy_tm 0 (toy_header 3) (toy_header 9) = Inr () \<and>
   (\<exists>J \<subseteq> {..<4}. 40 < 3 * power_of (vs_validators toy_validators) J)"
proof -
  have ok: "eh_verify toy_tm 0 (toy_header 3) (toy_header 9) = Inr ()"
    by (simp add: eh_verify_def time_checked_add_def VERIFY_CLOCK_DRIFT_def time_max_def
        add_u64_def u64_max_def verify_commit_light_trusting_def)
      (simp add: toy_defs DEFAULT_TRUST_LEVEL_def voting_power_needed_def find_validator_def
        vote_sign_bytes_def verify_signature_def add_u64_def u64_max_def)
  have "clock_ok 0" by (simp add: clock_ok_def VERIFY_CLOCK_DRIFT_def time_max_def)
  from verify_skipping_third [OF ok this] obtain J where
    "J \<subseteq> {..<length (vs_validators (eh_validator_set (toy_header 3)))}"
    "vs_total_voting_power (eh_validator_set (toy_header 3)) <
     3 * power_of (vs_validators (eh_validator_set (toy_header 3))) J"
    by (auto simp: u64_max_def)
  moreover have "eh_validator_set (toy_header 3) = toy_validators" by (simp add: toy_at_def)
  moreover have "length (vs_validators toy_validators) = 4" "vs_total_voting_power toy_validators = 40"
    by (simp_all add: toy_validators_def)
  ultimately show ?thesis using ok by auto
qed

text \<open>C12. \<open>verify_adjacent_range\<close> accepts exactly the hash-linked chains: each header
  follows its predecessor by one in height, is of the same chain, later in time, committed by
  the validators its predecessor announced, names its predecessor's hash, and is not from the
  future.\<close>

theorem verify_adjacent_range_chain:
  assumes "clock_ok now" "\<forall>x \<in> set (a # us). eh_height x < u64_max"
  shows "eh_verify_adjacent_range tm now a us = Inr () \<longleftrightarrow>
    successively linked (a # us) \<and> (\<forall>u \<in> set us. timely now u)"
  using assms by (rule eh_verify_adjacent_range_iff)

theorem verify_adjacent_range_chain_witness:
  "eh_verify_adjacent_range toy_tm 0 (toy_header 2) [toy_header 3, toy_header 4] = Inr ()"
proof -
  have chain: "successively linked [toy_header 2, toy_header 3, toy_header 4]"
    using toy_linked [of 2] toy_linked [of 3] by simp
  have "\<forall>u \<in> set [toy_header 3, toy_header 4]. timely 0 u"
    by (simp add: timely_def VERIFY_CLOCK_DRIFT_def)
  with chain verify_adjacent_range_chain [of 0 "toy_header 2" "[toy_header 3, toy_header 4]" toy_tm]
  show ?thesis by (simp add: clock_ok_def VERIFY_CLOCK_DRIFT_def time_max_def u64_max_def)
qed

text \<open>C11. The headers below a header are determined by it: two accepted chains of validated
  headers of one length whose last headers agree consist of the same block headers, as long as
  no two of those headers collide under the header hash.\<close>

theorem validated_chain_unique:
  assumes "eh_verify_adjacent_range tm now a (us @ [z]) = Inr ()"
    and "eh_verify_adjacent_range tm now b (vs @ [z']) = Inr ()"
    and "eh_header z = eh_header z'" "length us = length vs"
    and "\<forall>x \<in> set (a # us @ b # vs). eh_validate tm x = Inr ()"
    and "inj_on (tm_header_hash tm) (eh_header ` set (a # us @ b # vs))"
    and "clock_ok now" "\<forall>x \<in> set (a # us @ [z]) \<union> set (b # vs @ [z']). eh_height x < u64_max"
  shows "map eh_header (a # us) = map eh_header (b # vs)"
proof (rule chain_unique)
  show "successively linked ((a # us) @ [z])"
    using eh_verify_adjacent_range_iff [OF assms(7), of a "us @ [z]" tm] assms(1,8) by simp
  show "successively linked ((b # vs) @ [z'])"
    using eh_verify_adjacent_range_iff [OF assms(7), of b "vs @ [z']" tm] assms(2,8) by simp
  show "\<forall>x \<in> set (a # us) \<union> set (b # vs). eh_hash x = tm_header_hash tm (eh_header x)"
    using assms(5) eh_validate_sound [of tm] by (auto simp: eh_valid_def)
  show "inj_on (tm_header_hash tm) (eh_header ` (set (a # us) \<union> set (b # vs)))"
    using assms(6) by (rule inj_on_subset) auto
qed (use assms(3,4) in auto)

theorem validated_chain_unique_witness:
  "toy_at 0 2 \<noteq> toy_at 1 2 \<and>
   map eh_header [toy_at 0 2, toy_at 0 3] = map eh_header [toy_at 1 2, toy_at 1 3]"
proof
  have range_ok: "eh_verify_adjacent_range toy_tm 0 (toy_at r 2) ([toy_at r 3] @ [toy_at r 4]) = Inr ()" for r
    using eh_verify_adjacent_range_iff [of 0 "toy_at r 2" "[toy_at r 3, toy_at r 4]" toy_tm]
      toy_linked [of 2 r r] toy_linked [of 3 r r]
    by (simp add: clock_ok_def VERIFY_CLOCK_DRIFT_def time_max_def u64_max_def timely_def)
  show "map eh_header [toy_at 0 2, toy_at 0 3] = map eh_header [toy_at 1 2, toy_at 1 3]"
  proof (rule validated_chain_unique [OF range_ok range_ok])
    show "eh_header (toy_at 0 4) = eh_header (toy_at 1 4)" by (simp add: toy_at_def)
    show "\<forall>x \<in> set (toy_at 0 2 # [toy_at 0 3] @ toy_at 1 2 # [toy_at 1 3]). eh_validate toy_tm x = Inr ()"
      by (simp add: toy_validate)
    show "inj_on (tm_header_hash toy_tm) (eh_header ` set (toy_at 0 2 # [toy_at 0 3] @ toy_at 1 2 # [toy_at 1 3]))"
    proof -
      have "eh_header (toy_at 0 h) = eh_header (toy_at 1 h)" for h by (simp add: toy_at_def)
      then show ?thesis by (simp add: inj_on_def)
    qed
  qed (simp_all add: clock_ok_def VERIFY_CLOCK_DRIFT_def time_max_def u64_max_def)
  have "cm_round (eh_commit (toy_at r 2)) = r" for r by (simp add: toy_at_def)
  then show "toy_at 0 2 \<noteq> toy_at 1 2" by (metis zero_neq_one)
qed

text \<open>Quorums intersect: if two validated headers have the same validator set, whose
  recorded total power is the sum of its validators' powers, then validators holding more than
  a third of the power have signed both commits.\<close>

theorem validated_quorums_intersect:
  assumes "eh_validate tm x = Inr ()" "eh_validate tm y = Inr ()"
    "eh_validator_set x = s" "eh_validator_set y = s"
    "vs_total_voting_power s = power_of (vs_validators s) {..<length (vs_validators s)}"
  shows "\<exists>K \<subseteq> {..<length (vs_validators s)}.
    (\<forall>i \<in> K. signed_by tm (eh_chain_id x) (eh_commit x) (vs_validators s ! i) i \<and>
       signed_by tm (eh_chain_id y) (eh_commit y) (vs_validators s ! i) i) \<and>
    vs_total_voting_power s < 3 * power_of (vs_validators s) K"
proof -
  from eh_validate_sound [OF assms(1)] assms(3) obtain I where
    I: "I \<subseteq> {..<length (vs_validators s)}"
    "\<forall>i \<in> I. signed_by tm (eh_chain_id x) (eh_commit x) (vs_validators s ! i) i"
    "2 * vs_total_voting_power s < 3 * power_of (vs_validators s) I"
    by (auto simp: eh_valid_def two_thirds_signed_def)
  from eh_validate_sound [OF assms(2)] assms(4) obtain J where
    J: "J \<subseteq> {..<length (vs_validators s)}"
    "\<forall>i \<in> J. signed_by tm (eh_chain_id y) (eh_commit y) (vs_validators s ! i) i"
    "2 * vs_total_voting_power s < 3 * power_of (vs_validators s) J"
    by (auto simp: eh_valid_def two_thirds_signed_def)
  have "vs_total_voting_power s < 3 * power_of (vs_validators s) (I \<inter> J)"
    using power_of_overlap [OF I(1) J(1)] I(3) J(3) assms(5) by linarith
  with I J show ?thesis by (intro exI [of _ "I \<inter> J"]) auto
qed

theorem validated_quorums_intersect_witness:
  "\<exists>K \<subseteq> {..<length (vs_validators toy_validators)}.
    (\<forall>i \<in> K. signed_by toy_tm (eh_chain_id (toy_header 3)) (eh_commit (toy_header 3))
         (vs_validators toy_validators ! i) i \<and>
       signed_by toy_tm (eh_chain_id (toy_header 4)) (eh_commit (toy_header 4))
         (vs_validators toy_validators ! i) i) \<and>
    vs_total_voting_power toy_validators < 3 * power_of (vs_validators toy_validators) K"
proof (rule validated_quorums_intersect)
  show "eh_validate toy_tm (toy_header 3) = Inr ()" "eh_validate toy_tm (toy_header 4) = Inr ()"
    by (simp_all add: toy_validate)
  show "eh_validator_set (toy_header 3) = toy_validators" "eh_validator_set (toy_header 4) = toy_validators"
    by (simp_all add: toy_at_def)
  show "vs_total_voting_power toy_validators =
      power_of (vs_validators toy_validators) {..<length (vs_validators toy_validators)}"
  proof -
    have "{..<4} = {0, 1, 2, 3 :: nat}" by auto
    then show ?thesis by (simp add: toy_validators_def power_of_def)
  qed
qed

end
