(* ===== verification/Store.thy ===== *)
theory Store
  imports Block_Ranges_Algebra Header_Chain
begin

text \<open>
  The header store interface, \<open>node/src/store.rs\<close> and \<open>node/src/store/utils.rs\<close>. The trait
  \<open>Store\<close> is the record \<open>store_ops\<close> of its methods over a state type; the components that
  are generic over the store take the record as an argument. A method that changes the store
  returns its result together with the new state, since a failing method may have changed it.
  The methods are asynchronous in the source and each runs under one lock or one
  transaction; here each is one function.
\<close>

section \<open>Errors\<close>

text \<open>Where the source keeps the text of a verification error, the model keeps the error.\<close>

datatype store_insertion_error =
    HeadersVerificationFailed types_error
  | NeighborsVerificationFailed types_error
  | ConstraintsNotMet block_ranges_error
  | HashExists hash

datatype store_error =
    NotFound
  | InsertionFailed store_insertion_error
  | StoredDataError string
  | FatalDatabaseError string
  | ExecutorError string
  | OpenFailed string
  | NamedLock string

fun is_fatal :: "store_error \<Rightarrow> bool" where
  "is_fatal (StoredDataError _) = True"
| "is_fatal (FatalDatabaseError _) = True"
| "is_fatal (ExecutorError _) = True"
| "is_fatal (NamedLock _) = True"
| "is_fatal (OpenFailed _) = True"
| "is_fatal NotFound = False"
| "is_fatal (InsertionFailed _) = False"

section \<open>Data\<close>

type_synonym cid = bytes

record sampling_metadata =
  sm_cids :: "cid list"

text \<open>The loop by which an update appends the identifiers that are not there yet.\<close>

fun append_cids :: "cid list \<Rightarrow> cid list \<Rightarrow> cid list" where
  "append_cids old [] = old"
| "append_cids old (c # cs) = append_cids (if c \<in> set old then old else old @ [c]) cs"

type_synonym 'a store_result = "(store_error, 'a) result"

record 's store_ops =
  st_get_head :: "'s \<Rightarrow> extended_header store_result"
  st_get_by_hash :: "hash \<Rightarrow> 's \<Rightarrow> extended_header store_result"
  st_get_by_height :: "nat \<Rightarrow> 's \<Rightarrow> extended_header store_result"
  st_head_height :: "'s \<Rightarrow> nat store_result"
  st_has :: "hash \<Rightarrow> 's \<Rightarrow> bool"
  st_has_at :: "nat \<Rightarrow> 's \<Rightarrow> bool"
  st_update_sampling_metadata :: "nat \<Rightarrow> cid list \<Rightarrow> 's \<Rightarrow> unit store_result \<times> 's"
  st_get_sampling_metadata :: "nat \<Rightarrow> 's \<Rightarrow> sampling_metadata option store_result"
  st_mark_as_sampled :: "nat \<Rightarrow> 's \<Rightarrow> unit store_result \<times> 's"
  st_insert :: "time \<Rightarrow> extended_header list \<Rightarrow> 's \<Rightarrow> unit store_result \<times> 's"
  st_get_stored_header_ranges :: "'s \<Rightarrow> block_ranges store_result"
  st_get_sampled_ranges :: "'s \<Rightarrow> block_ranges store_result"
  st_get_pruned_ranges :: "'s \<Rightarrow> block_ranges store_result"
  st_remove_height :: "nat \<Rightarrow> 's \<Rightarrow> unit store_result \<times> 's"

section \<open>Verified headers\<close>

text \<open>\<open>VerifiedExtendedHeaders::try_from\<close>. A single header converts without a check, which is
  what the check of a list of one amounts to.\<close>

definition verified_headers ::
  "tendermint \<Rightarrow> time \<Rightarrow> extended_header list \<Rightarrow> (types_error, extended_header list) result"
where
  "verified_headers tm now headers = (case headers of
      [] \<Rightarrow> Inr []
    | h # rest \<Rightarrow> bind_r (eh_verify_adjacent_range tm now h rest) (\<lambda>_. Inr headers))"

definition validate_headers :: "tendermint \<Rightarrow> extended_header list \<Rightarrow> (types_error, unit) result" where
  "validate_headers tm headers = fold_r (\<lambda>h _. eh_validate tm h) headers ()"

lemma validate_headers_iff:
  "validate_headers tm hs = Inr () \<longleftrightarrow> (\<forall>h \<in> set hs. eh_validate tm h = Inr ())"
  unfolding validate_headers_def by (induction hs) (auto simp: bind_r_Inr_iff)

section \<open>Ranges of headers\<close>

datatype bound = Included nat | Excluded nat | Unbounded

definition range_start :: "bound \<Rightarrow> nat \<Rightarrow> nat store_result" where
  "range_start b last_index = (case b of
      Unbounded \<Rightarrow> Inr 1
    | Included x \<Rightarrow> if x > last_index \<or> x = 0 then Inl (Err NotFound) else Inr x
    | Excluded x \<Rightarrow> if x \<ge> last_index then Inl (Err NotFound) else add_u64 x 1)"

definition range_end :: "bound \<Rightarrow> nat \<Rightarrow> nat store_result" where
  "range_end b last_index = (case b of
      Unbounded \<Rightarrow> Inr last_index
    | Included x \<Rightarrow> if x > last_index then Inl (Err NotFound) else Inr x
    | Excluded x \<Rightarrow> bind_r (add_u64 last_index 1) (\<lambda>n.
        if x > n then Inl (Err NotFound) else if x = 0 then Inr 0 else Inr (x - 1)))"

definition to_headers_range :: "bound \<Rightarrow> bound \<Rightarrow> nat \<Rightarrow> block_range store_result" where
  "to_headers_range start_bound end_bound last_index =
     bind_r (range_start start_bound last_index) (\<lambda>s.
     bind_r (range_end end_bound last_index) (\<lambda>e. Inr (Rng s e)))"

text \<open>The default method \<open>get_range\<close>, over the methods of a store.\<close>

definition get_range :: "'s store_ops \<Rightarrow> bound \<Rightarrow> bound \<Rightarrow> 's \<Rightarrow> extended_header list store_result" where
  "get_range ops start_bound end_bound s =
     bind_r (st_head_height ops s) (\<lambda>head_height.
     bind_r (to_headers_range start_bound end_bound head_height) (\<lambda>rng.
     bind_r (if range_is_empty rng then Inr 0 else add_u64 (rend rng - rstart rng) 1) (\<lambda>amount.
     fold_r (\<lambda>h headers. bind_r (st_get_by_height ops h s) (\<lambda>header. Inr (headers @ [header])))
       [rstart rng..<Suc (rend rng)] [])))"

text \<open>The waiting methods look at the store when they start and after every notification; the
  list holds the states they find.\<close>

fun wait_new_head_loop :: "'s store_ops \<Rightarrow> nat \<Rightarrow> 's list \<Rightarrow> nat option" where
  "wait_new_head_loop ops hd_h [] = None"
| "wait_new_head_loop ops hd_h (s # ss) =
     (let new_head = (case st_head_height ops s of Inr h \<Rightarrow> h | Inl _ \<Rightarrow> 0) in
      if hd_h \<noteq> new_head then Some new_head else wait_new_head_loop ops hd_h ss)"

definition wait_new_head :: "'s store_ops \<Rightarrow> 's \<Rightarrow> 's list \<Rightarrow> nat option" where
  "wait_new_head ops s ss =
     wait_new_head_loop ops (case st_head_height ops s of Inr h \<Rightarrow> h | Inl _ \<Rightarrow> 0) ss"

fun wait_height :: "'s store_ops \<Rightarrow> nat \<Rightarrow> 's list \<Rightarrow> unit option" where
  "wait_height ops h [] = None"
| "wait_height ops h (s # ss) = (if st_has_at ops h s then Some () else wait_height ops h ss)"

lemma append_cids_set: "set (append_cids old cs) = set old \<union> set cs"
  by (induction old cs rule: append_cids.induct) auto

lemma append_cids_distinct: "distinct old \<Longrightarrow> distinct (append_cids old cs)"
  by (induction old cs rule: append_cids.induct) auto

text \<open>The bounds of a nonempty result lie between the first height and the head.\<close>

lemma to_headers_range_bounds:
  assumes "to_headers_range b b' last_index = Inr rng" "last_index < u64_max"
  shows "0 < rstart rng" "rend rng \<le> last_index"
  using assms
  by (auto simp: to_headers_range_def range_start_def range_end_def add_u64_def
      split: bound.splits if_splits)

lemma to_headers_range_no_panic:
  assumes "last_index < u64_max"
  shows "\<not> panics (to_headers_range b b' last_index)"
  using assms
  by (auto simp: to_headers_range_def range_start_def range_end_def add_u64_def bind_r_def
      split: bound.splits if_splits sum.splits)

text \<open>What \<open>to_headers_range\<close> accepts, height by height.\<close>

lemma to_headers_range_set:
  assumes "to_headers_range b b' last_index = Inr rng" "last_index < u64_max"
  shows "range_set rng = {h. 0 < h \<and> h \<le> last_index \<and>
     (case b of Included x \<Rightarrow> x \<le> h | Excluded x \<Rightarrow> x < h | Unbounded \<Rightarrow> True) \<and>
     (case b' of Included x \<Rightarrow> h \<le> x | Excluded x \<Rightarrow> h < x | Unbounded \<Rightarrow> True)}"
  using assms
  by (auto simp: to_headers_range_def range_start_def range_end_def add_u64_def range_set_def
      split: bound.splits if_splits)

end
