(* ===== verification/Store_Spec.thy ===== *)
theory Store_Spec
  imports Store
begin

text \<open>
  What a header store promises, as a store with one table of headers: the specification
  \<open>store_spec\<close> and its operations, the invariant \<open>sp_ok\<close> and its preservation, and the
  locale \<open>header_store\<close> that says that an implementation simulates the specification. The
  invariant holds the safety of the store: the recorded ranges are the stored heights, sampled
  heights are stored, pruned heights are not, and neighbouring headers are linked.
\<close>

section \<open>The specification\<close>

record store_spec =
  sp_headers :: "nat \<rightharpoonup> extended_header"
  sp_metadata :: "nat \<rightharpoonup> sampling_metadata"
  sp_stored :: block_ranges
  sp_sampled :: block_ranges
  sp_pruned :: block_ranges

definition sp_new :: store_spec where
  "sp_new = \<lparr>sp_headers = Map.empty, sp_metadata = Map.empty, sp_stored = [], sp_sampled = [],
     sp_pruned = []\<rparr>"

text \<open>The table after a list of headers has been entered.\<close>

definition enter_headers :: "extended_header list \<Rightarrow> (nat \<rightharpoonup> extended_header) \<Rightarrow> (nat \<rightharpoonup> extended_header)" where
  "enter_headers hs m = fold (\<lambda>x t. t(eh_height x \<mapsto> x)) hs m"

definition span :: "extended_header list \<Rightarrow> block_range" where
  "span hs = Rng (eh_height (hd hs)) (eh_height (last hs))"

definition verify_err :: "(types_error, unit) result \<Rightarrow> unit store_result" where
  "verify_err = map_err (\<lambda>e. InsertionFailed (NeighborsVerificationFailed e))"

text \<open>The check of the lowest and the highest new header against their stored neighbours.\<close>

definition sp_neighbours ::
  "tendermint \<Rightarrow> time \<Rightarrow> (nat \<rightharpoonup> extended_header) \<Rightarrow> extended_header option \<Rightarrow> extended_header option \<Rightarrow>
   unit store_result"
where
  "sp_neighbours tm now m lowest highest =
     bind_r (case lowest of None \<Rightarrow> Inr ()
             | Some l \<Rightarrow> verify_err (eh_verify tm now (the (m (eh_height l - 1))) l)) (\<lambda>_.
     case highest of None \<Rightarrow> Inr ()
     | Some h \<Rightarrow> verify_err (eh_verify tm now h (the (m (eh_height h + 1)))))"

definition then_some :: "bool \<Rightarrow> 'a \<Rightarrow> 'a option" where
  "then_some b x = (if b then Some x else None)"

definition sp_check :: "tendermint \<Rightarrow> time \<Rightarrow> extended_header list \<Rightarrow> store_spec \<Rightarrow> unit store_result" where
  "sp_check tm now hs a =
     bind_r (map_err (\<lambda>e. InsertionFailed (ConstraintsNotMet e))
       (check_insertion_constraints (sp_stored a) (span hs))) (\<lambda>(prev_exists, next_exists).
     sp_neighbours tm now (sp_headers a) (then_some prev_exists (hd hs)) (then_some next_exists (last hs)))"

definition update_ranges ::
  "block_ranges \<Rightarrow> block_ranges \<Rightarrow> block_ranges \<Rightarrow> block_range \<Rightarrow>
   (store_error, block_ranges \<times> block_ranges \<times> block_ranges) result"
where
  "update_ranges stored sampled pruned rng =
     bind_r (expect_r ''invalid range'' (insert_relaxed stored rng)) (\<lambda>stored'.
     bind_r (expect_r ''invalid range'' (remove_relaxed sampled rng)) (\<lambda>sampled'.
     bind_r (expect_r ''invalid range'' (remove_relaxed pruned rng)) (\<lambda>pruned'.
     Inr (stored', sampled', pruned'))))"

definition sp_insert ::
  "tendermint \<Rightarrow> time \<Rightarrow> extended_header list \<Rightarrow> store_spec \<Rightarrow> unit store_result \<times> store_spec"
where
  "sp_insert tm now headers a =
     (case map_err (\<lambda>e. InsertionFailed (HeadersVerificationFailed e)) (verified_headers tm now headers) of
        Inl e \<Rightarrow> (Inl e, a)
      | Inr hs \<Rightarrow>
        if hs = [] then (Inr (), a)
        else (case sp_check tm now hs a of
            Inl e \<Rightarrow> (Inl e, a)
          | Inr _ \<Rightarrow>
            (case update_ranges (sp_stored a) (sp_sampled a) (sp_pruned a) (span hs) of
               Inl e \<Rightarrow> (Inl e, a)
             | Inr (stored, sampled, pruned) \<Rightarrow>
               (Inr (), a\<lparr>sp_headers := enter_headers hs (sp_headers a), sp_stored := stored,
                  sp_sampled := sampled, sp_pruned := pruned\<rparr>))))"

definition sp_update_sampling_metadata ::
  "nat \<Rightarrow> cid list \<Rightarrow> store_spec \<Rightarrow> unit store_result \<times> store_spec"
where
  "sp_update_sampling_metadata h cids a =
     (if sp_headers a h = None then (Inl (Err NotFound), a)
      else (Inr (), a\<lparr>sp_metadata := (sp_metadata a)(h \<mapsto> (case sp_metadata a h of
          None \<Rightarrow> \<lparr>sm_cids = cids\<rparr>
        | Some md \<Rightarrow> \<lparr>sm_cids = append_cids (sm_cids md) cids\<rparr>))\<rparr>))"

definition sp_mark_as_sampled :: "nat \<Rightarrow> store_spec \<Rightarrow> unit store_result \<times> store_spec" where
  "sp_mark_as_sampled h a =
     (if sp_headers a h = None then (Inl (Err NotFound), a)
      else case expect_r ''invalid height'' (insert_relaxed (sp_sampled a) (Rng h h)) of
          Inl e \<Rightarrow> (Inl e, a)
        | Inr sampled \<Rightarrow> (Inr (), a\<lparr>sp_sampled := sampled\<rparr>))"

definition drop_ranges ::
  "block_ranges \<Rightarrow> block_ranges \<Rightarrow> block_ranges \<Rightarrow> nat \<Rightarrow>
   (store_error, block_ranges \<times> block_ranges \<times> block_ranges) result"
where
  "drop_ranges stored sampled pruned h =
     bind_r (expect_r ''invalid height'' (remove_relaxed stored (Rng h h))) (\<lambda>stored'.
     bind_r (expect_r ''invalid height'' (remove_relaxed sampled (Rng h h))) (\<lambda>sampled'.
     bind_r (expect_r ''invalid height'' (insert_relaxed pruned (Rng h h))) (\<lambda>pruned'.
     Inr (stored', sampled', pruned'))))"

definition sp_remove_height :: "nat \<Rightarrow> store_spec \<Rightarrow> unit store_result \<times> store_spec" where
  "sp_remove_height h a =
     (if sp_headers a h = None then (Inl (Err NotFound), a)
      else case drop_ranges (sp_stored a) (sp_sampled a) (sp_pruned a) h of
          Inl e \<Rightarrow> (Inl e, a)
        | Inr (stored, sampled, pruned) \<Rightarrow>
          (Inr (), a\<lparr>sp_headers := (sp_headers a)(h := None), sp_metadata := (sp_metadata a)(h := None),
             sp_stored := stored, sp_sampled := sampled, sp_pruned := pruned\<rparr>))"

section \<open>The invariant\<close>

text \<open>What the types of the source say of a header: Tendermint heights are at most \<open>2^63 - 1\<close>,
  and a digest is an array of 32 bytes, so never empty.\<close>

definition typed_header :: "extended_header \<Rightarrow> bool" where
  "typed_header x \<longleftrightarrow> eh_height x < u64_max \<and> eh_hash x \<noteq> Sha256 []"

definition canonical :: "block_ranges \<Rightarrow> bool" where
  "canonical rs \<longleftrightarrow> br_wf rs \<and> br_gap rs"

definition chain_ok :: "(nat \<rightharpoonup> extended_header) \<Rightarrow> bool" where
  "chain_ok m \<longleftrightarrow> (\<forall>h a b. m h = Some a \<longrightarrow> m (h + 1) = Some b \<longrightarrow> linked a b)"

definition hash_inj :: "(nat \<rightharpoonup> extended_header) \<Rightarrow> bool" where
  "hash_inj m \<longleftrightarrow> (\<forall>h h' a b. m h = Some a \<longrightarrow> m h' = Some b \<longrightarrow> eh_hash a = eh_hash b \<longrightarrow> h = h')"

definition sp_ok :: "store_spec \<Rightarrow> bool" where
  "sp_ok a \<longleftrightarrow> canonical (sp_stored a) \<and> canonical (sp_sampled a) \<and> canonical (sp_pruned a) \<and>
     heights (sp_stored a) = dom (sp_headers a) \<and>
     heights (sp_sampled a) \<subseteq> heights (sp_stored a) \<and>
     heights (sp_pruned a) \<inter> heights (sp_stored a) = {} \<and>
     dom (sp_metadata a) \<subseteq> dom (sp_headers a) \<and>
     (\<forall>h x. sp_headers a h = Some x \<longrightarrow> eh_height x = h \<and> typed_header x) \<and>
     chain_ok (sp_headers a) \<and> hash_inj (sp_headers a)"

text \<open>No hash is used twice: two headers of one hash are a hash collision.\<close>

definition fresh_hashes :: "extended_header list \<Rightarrow> (nat \<rightharpoonup> extended_header) \<Rightarrow> bool" where
  "fresh_hashes hs m \<longleftrightarrow> distinct (map eh_hash hs) \<and>
     (\<forall>x \<in> set hs. \<forall>h y. m h = Some y \<longrightarrow> eh_hash y \<noteq> eh_hash x)"

definition typed_headers :: "extended_header list \<Rightarrow> bool" where
  "typed_headers hs \<longleftrightarrow> (\<forall>x \<in> set hs. typed_header x)"

lemma canonical_empty [simp]: "canonical []"
  by (simp add: canonical_def)

lemma canonical_wf [simp]: "canonical rs \<Longrightarrow> br_wf rs"
  by (simp add: canonical_def)

lemma canonical_insert:
  assumes "canonical rs" "range_ok r"
  shows "\<exists>rs'. insert_relaxed rs r = Inr rs' \<and> canonical rs' \<and> heights rs' = heights rs \<union> range_set r"
proof -
  from assms(1) have rs: "br_wf rs" "br_gap rs" by (simp_all add: canonical_def)
  from br.ins_law [OF rs(1) assms(2)] insert_relaxed_gap [OF rs assms(2)] show ?thesis
    unfolding canonical_def by blast
qed

lemma canonical_remove:
  assumes "canonical rs" "range_ok r"
  shows "\<exists>rs'. remove_relaxed rs r = Inr rs' \<and> canonical rs' \<and> heights rs' = heights rs - range_set r"
proof -
  from assms(1) have rs: "br_wf rs" "br_gap rs" by (simp_all add: canonical_def)
  from br.rem_law [OF rs(1) assms(2)] remove_relaxed_gap [OF rs assms(2)] show ?thesis
    unfolding canonical_def by blast
qed

lemma canonical_insert_height:
  assumes "canonical rs" "0 < h" "h \<le> u64_max"
  shows "\<exists>rs'. insert_relaxed rs (Rng h h) = Inr rs' \<and> canonical rs' \<and> heights rs' = insert h (heights rs)"
  using canonical_insert [OF assms(1), of "Rng h h"] assms(2,3) by (simp add: range_ok_def)

lemma canonical_remove_height:
  assumes "canonical rs" "0 < h" "h \<le> u64_max"
  shows "\<exists>rs'. remove_relaxed rs (Rng h h) = Inr rs' \<and> canonical rs' \<and> heights rs' = heights rs - {h}"
  using canonical_remove [OF assms(1), of "Rng h h"] assms(2,3) by (simp add: range_ok_def)

lemma canonical_eqI: "canonical rs \<Longrightarrow> canonical rs' \<Longrightarrow> heights rs = heights rs' \<Longrightarrow> rs = rs'"
  using canonical_unique by (auto simp: canonical_def)

lemma update_ranges_ok:
  assumes "canonical stored" "canonical sampled" "canonical pruned" "range_ok r"
  obtains stored' sampled' pruned' where
    "update_ranges stored sampled pruned r = Inr (stored', sampled', pruned')"
    "canonical stored'" "canonical sampled'" "canonical pruned'"
    "heights stored' = heights stored \<union> range_set r"
    "heights sampled' = heights sampled - range_set r"
    "heights pruned' = heights pruned - range_set r"
proof -
  from canonical_insert [OF assms(1,4)] obtain a where
    a: "insert_relaxed stored r = Inr a" "canonical a" "heights a = heights stored \<union> range_set r" by blast
  from canonical_remove [OF assms(2,4)] obtain b where
    b: "remove_relaxed sampled r = Inr b" "canonical b" "heights b = heights sampled - range_set r" by blast
  from canonical_remove [OF assms(3,4)] obtain c where
    c: "remove_relaxed pruned r = Inr c" "canonical c" "heights c = heights pruned - range_set r" by blast
  show thesis by (rule that [OF _ a(2) b(2) c(2) a(3) b(3) c(3)]) (simp add: update_ranges_def a b c)
qed

lemma drop_ranges_ok:
  assumes "canonical stored" "canonical sampled" "canonical pruned" "0 < h" "h \<le> u64_max"
  obtains stored' sampled' pruned' where
    "drop_ranges stored sampled pruned h = Inr (stored', sampled', pruned')"
    "canonical stored'" "canonical sampled'" "canonical pruned'"
    "heights stored' = heights stored - {h}"
    "heights sampled' = heights sampled - {h}"
    "heights pruned' = insert h (heights pruned)"
proof -
  from canonical_remove_height [OF assms(1,4,5)] obtain a where
    a: "remove_relaxed stored (Rng h h) = Inr a" "canonical a" "heights a = heights stored - {h}" by blast
  from canonical_remove_height [OF assms(2,4,5)] obtain b where
    b: "remove_relaxed sampled (Rng h h) = Inr b" "canonical b" "heights b = heights sampled - {h}" by blast
  from canonical_insert_height [OF assms(3,4,5)] obtain c where
    c: "insert_relaxed pruned (Rng h h) = Inr c" "canonical c" "heights c = insert h (heights pruned)" by blast
  show thesis by (rule that [OF _ a(2) b(2) c(2) a(3) b(3) c(3)]) (simp add: drop_ranges_def a b c)
qed

section \<open>Entering a span of linked headers\<close>

lemma verified_headers_Inr:
  assumes "verified_headers tm now hs = Inr hs'"
  shows "hs' = hs" "successively linked hs"
  using assms verify_adjacent_range_linked
  by (auto simp: verified_headers_def split: list.splits)

lemma linked_height_nth:
  "successively linked hs \<Longrightarrow> k < length hs \<Longrightarrow> eh_height (hs ! k) = eh_height (hd hs) + k"
  using linked_heights by (cases hs) auto

lemma linked_last_height:
  "successively linked hs \<Longrightarrow> hs \<noteq> [] \<Longrightarrow> eh_height (last hs) = eh_height (hd hs) + (length hs - 1)"
  by (simp add: last_conv_nth linked_height_nth)

lemma span_set:
  "successively linked hs \<Longrightarrow> hs \<noteq> [] \<Longrightarrow>
   range_set (span hs) = {eh_height (hd hs)..<eh_height (hd hs) + length hs}"
  using linked_last_height [of hs] by (cases "length hs") (auto simp: span_def)

lemma span_heights:
  assumes "successively linked hs" "hs \<noteq> []"
  shows "range_set (span hs) = eh_height ` set hs"
proof -
  have "eh_height ` set hs = (\<lambda>k. eh_height (hd hs) + k) ` {..<length hs}"
    using linked_height_nth [OF assms(1)] by (force simp: set_conv_nth)
  also have "\<dots> = {eh_height (hd hs)..<eh_height (hd hs) + length hs}"
    by (simp add: lessThan_atLeast0 image_add_atLeastLessThan add.commute)
  finally show ?thesis using span_set [OF assms] by simp
qed

lemma linked_distinct_heights:
  "successively linked hs \<Longrightarrow> distinct (map eh_height hs)"
  by (auto simp: distinct_conv_nth linked_height_nth)

lemma enter_headers_simps [simp]:
  "enter_headers [] m = m"
  "enter_headers (x # hs) m = enter_headers hs (m(eh_height x \<mapsto> x))"
  by (simp_all add: enter_headers_def)

lemma enter_headers_other:
  "h \<notin> eh_height ` set hs \<Longrightarrow> enter_headers hs m h = m h"
  by (induction hs arbitrary: m) auto

lemma enter_headers_mem:
  "distinct (map eh_height hs) \<Longrightarrow> x \<in> set hs \<Longrightarrow> enter_headers hs m (eh_height x) = Some x"
proof (induction hs arbitrary: m)
  case (Cons y hs)
  then show ?case
    using enter_headers_other [of "eh_height x" hs "m(eh_height x \<mapsto> x)"] by auto
qed simp

lemma enter_headers_Some:
  assumes "distinct (map eh_height hs)"
  shows "enter_headers hs m h = Some x \<longleftrightarrow>
    (x \<in> set hs \<and> eh_height x = h) \<or> (h \<notin> eh_height ` set hs \<and> m h = Some x)"
proof (cases "h \<in> eh_height ` set hs")
  case True
  then obtain y where "y \<in> set hs" "h = eh_height y" by auto
  moreover have "z = y" if "z \<in> set hs" "eh_height z = h" for z
    using that calculation assms by (auto simp: distinct_map dest: inj_onD)
  ultimately show ?thesis using enter_headers_mem [OF assms, of y m] by auto
next
  case False
  then show ?thesis by (auto simp: enter_headers_other)
qed

lemma enter_headers_dom: "dom (enter_headers hs m) = dom m \<union> eh_height ` set hs"
  by (induction hs arbitrary: m) auto

lemma chain_ok_enter:
  assumes "chain_ok m" "successively linked hs" "hs \<noteq> []"
    "\<And>p. 0 < eh_height (hd hs) \<Longrightarrow> m (eh_height (hd hs) - 1) = Some p \<Longrightarrow> linked p (hd hs)"
    "\<And>n. m (eh_height (last hs) + 1) = Some n \<Longrightarrow> linked (last hs) n"
  shows "chain_ok (enter_headers hs m)"
  unfolding chain_ok_def
proof (intro allI impI)
  fix h a b
  assume a: "enter_headers hs m h = Some a" and b: "enter_headers hs m (h + 1) = Some b"
  note dist = linked_distinct_heights [OF assms(2)]
  have hts: "eh_height ` set hs = {eh_height (hd hs)..<eh_height (hd hs) + length hs}"
    using span_heights [OF assms(2,3)] span_set [OF assms(2,3)] by simp
  have nth: "x = hs ! (eh_height x - eh_height (hd hs)) \<and> eh_height x - eh_height (hd hs) < length hs \<and>
      eh_height (hd hs) \<le> eh_height x" if "x \<in> set hs" for x
    using that linked_height_nth [OF assms(2)] by (auto simp: in_set_conv_nth)
  consider "h \<in> eh_height ` set hs" "h + 1 \<in> eh_height ` set hs"
    | "h \<in> eh_height ` set hs" "h + 1 \<notin> eh_height ` set hs"
    | "h \<notin> eh_height ` set hs" "h + 1 \<in> eh_height ` set hs"
    | "h \<notin> eh_height ` set hs" "h + 1 \<notin> eh_height ` set hs" by blast
  then show "linked a b"
  proof cases
    case 1
    with a b have ab: "a \<in> set hs" "eh_height a = h" "b \<in> set hs" "eh_height b = h + 1"
      by (auto simp: enter_headers_Some [OF dist])
    define k where "k = h - eh_height (hd hs)"
    from nth [OF ab(1)] nth [OF ab(3)] ab have k: "a = hs ! k" "b = hs ! Suc k" "Suc k < length hs"
      by (auto simp: k_def Suc_diff_le)
    with assms(2) show ?thesis by (simp add: successively_conv_nth)
  next
    case 2
    with hts assms(3) have h: "h = eh_height (last hs)"
      by (simp add: linked_last_height [OF assms(2)]) (auto simp: neq_Nil_conv)
    with a 2 have "a \<in> set hs" "eh_height a = eh_height (last hs)"
      by (auto simp: enter_headers_Some [OF dist])
    with dist assms(3) have "a = last hs" by (auto simp: distinct_map dest: inj_onD)
    with b h 2 assms(5) show ?thesis by (simp add: enter_headers_other)
  next
    case 3
    with hts assms(3) have h: "h + 1 = eh_height (hd hs)" by auto
    with b 3 have "b \<in> set hs" "eh_height b = eh_height (hd hs)"
      by (auto simp: enter_headers_Some [OF dist])
    with dist assms(3) have "b = hd hs" by (auto simp: distinct_map dest: inj_onD)
    moreover have "m (eh_height (hd hs) - 1) = Some a"
      using a h 3 by (simp add: enter_headers_other flip: h)
    ultimately show ?thesis using assms(4) [of a] h by simp
  next
    case 4
    with a b assms(1) show ?thesis by (simp add: enter_headers_other chain_ok_def)
  qed
qed

lemma hash_inj_enter:
  assumes "hash_inj m" "fresh_hashes hs m" "distinct (map eh_height hs)"
  shows "hash_inj (enter_headers hs m)"
  unfolding hash_inj_def
proof (intro allI impI)
  fix h h' a b
  assume "enter_headers hs m h = Some a" "enter_headers hs m h' = Some b" "eh_hash a = eh_hash b"
  then show "h = h'"
    using assms unfolding enter_headers_Some [OF assms(3)] fresh_hashes_def hash_inj_def
    by (metis distinct_map inj_onD)
qed

section \<open>Every operation keeps the invariant\<close>

lemma sp_new_ok [simp]: "sp_ok sp_new"
  by (simp add: sp_ok_def sp_new_def chain_ok_def hash_inj_def)

lemma sp_ok_height:
  assumes "sp_ok a" "sp_headers a h = Some x"
  shows "0 < h" "h < u64_max" "h \<in> heights (sp_stored a)" "eh_height x = h"
  using assms heights_bounded [of "sp_stored a"]
  by (auto simp: sp_ok_def canonical_def all_heights_def typed_header_def)

lemma span_ok:
  assumes "successively linked hs" "hs \<noteq> []" "typed_headers hs" "0 < eh_height (hd hs)"
  shows "range_ok (span hs)" "rend (span hs) < u64_max"
proof -
  have "eh_height (last hs) < u64_max" using assms(3) last_in_set [OF assms(2)] by (simp add: typed_headers_def typed_header_def)
  moreover have "eh_height (hd hs) \<le> eh_height (last hs)" using linked_last_height [OF assms(1,2)] by simp
  ultimately show "range_ok (span hs)" "rend (span hs) < u64_max"
    using assms(4) by (simp_all add: span_def range_ok_def)
qed

text \<open>The flags of the insertion check announce stored neighbours.\<close>

lemma check_flags:
  assumes "sp_ok a" "successively linked hs" "hs \<noteq> []" "typed_headers hs"
    "check_insertion_constraints (sp_stored a) (span hs) = Inr (p, n)"
  shows "p \<Longrightarrow> 0 < eh_height (hd hs) \<and> sp_headers a (eh_height (hd hs) - 1) \<noteq> None"
    "n \<Longrightarrow> eh_height (last hs) < u64_max \<and> sp_headers a (eh_height (last hs) + 1) \<noteq> None"
proof -
  have wf: "br_wf (sp_stored a)" "heights (sp_stored a) = dom (sp_headers a)"
    using assms(1) by (auto simp: sp_ok_def)
  from assms(5) have pos: "0 < eh_height (hd hs)"
    using check_insertion_invalid [of "span hs" "sp_stored a"]
    by (cases "eh_height (hd hs)") (auto simp: span_def)
  note ok = span_ok [OF assms(2,3,4) pos]
  from assms(5) check_insertion_ok_iff [OF wf(1) ok(1)] have
    "p = prev_stored (sp_stored a) (span hs)" "n = next_stored (sp_stored a) (span hs)" by auto
  with wf(2) ok(2) pos show
    "p \<Longrightarrow> 0 < eh_height (hd hs) \<and> sp_headers a (eh_height (hd hs) - 1) \<noteq> None"
    "n \<Longrightarrow> eh_height (last hs) < u64_max \<and> sp_headers a (eh_height (last hs) + 1) \<noteq> None"
    by (auto simp: prev_stored_def next_stored_def span_def)
qed

text \<open>What a passed insertion check says.\<close>

lemma sp_check_Inr:
  assumes "sp_ok a" "successively linked hs" "hs \<noteq> []" "typed_headers hs" "sp_check tm now hs a = Inr u"
  shows "range_ok (span hs)" "insertable (sp_stored a) (span hs)"
    "\<And>p. sp_headers a (eh_height (hd hs) - 1) = Some p \<Longrightarrow> linked p (hd hs)"
    "\<And>n. sp_headers a (eh_height (last hs) + 1) = Some n \<Longrightarrow> linked (last hs) n"
proof -
  from assms(5) obtain p n where
    chk: "check_insertion_constraints (sp_stored a) (span hs) = Inr (p, n)" and
    nb: "sp_neighbours tm now (sp_headers a) (then_some p (hd hs)) (then_some n (last hs)) = Inr u"
    by (auto simp: sp_check_def)
  have wf: "br_wf (sp_stored a)" and dom: "heights (sp_stored a) = dom (sp_headers a)"
    using assms(1) by (auto simp: sp_ok_def)
  from chk have pos: "0 < eh_height (hd hs)"
    using check_insertion_invalid [of "span hs" "sp_stored a"]
    by (cases "eh_height (hd hs)") (auto simp: span_def)
  show ok: "range_ok (span hs)" using span_ok [OF assms(2,3,4) pos] by simp
  from chk check_insertion_ok_iff [OF wf ok] have
    ins: "insertable (sp_stored a) (span hs)" and p: "p = prev_stored (sp_stored a) (span hs)"
    and n: "n = next_stored (sp_stored a) (span hs)" by auto
  show "insertable (sp_stored a) (span hs)" by (rule ins)
  show "linked q (hd hs)" if "sp_headers a (eh_height (hd hs) - 1) = Some q" for q
  proof -
    from that dom p have "p" by (auto simp: prev_stored_def span_def)
    with nb that have "eh_verify tm now q (hd hs) = Inr ()"
      by (auto simp: sp_neighbours_def then_some_def verify_err_def)
    moreover have "eh_height (hd hs) = eh_height q + 1"
      using sp_ok_height(4) [OF assms(1) that] pos by simp
    ultimately show ?thesis by (rule eh_verify_linked)
  qed
  show "linked (last hs) q" if "sp_headers a (eh_height (last hs) + 1) = Some q" for q
  proof -
    from that dom n have "n" by (auto simp: next_stored_def span_def)
    with nb that have "eh_verify tm now (last hs) q = Inr ()"
      by (auto simp: sp_neighbours_def then_some_def verify_err_def)
    moreover have "eh_height q = eh_height (last hs) + 1"
      using sp_ok_height(4) [OF assms(1) that] by simp
    ultimately show ?thesis by (rule eh_verify_linked)
  qed
qed

text \<open>The check does not panic: the neighbours are adjacent, so no voting power is counted.\<close>

lemma eh_verify_adjacent_no_panic:
  assumes "clock_ok now" "eh_height b = eh_height a + 1" "eh_height a < u64_max"
  shows "\<not> panics (eh_verify tm now a b)"
  using assms by (simp add: eh_verify_def clock_ok_def time_checked_add_def add_u64_def)

lemma verify_err_panics: "panics (verify_err r) = panics r"
  by (auto simp: verify_err_def map_err_def panics_def split: sum.splits fault.splits)

lemma bind_r_panics: "\<not> panics m \<Longrightarrow> (\<And>x. m = Inr x \<Longrightarrow> \<not> panics (f x)) \<Longrightarrow> \<not> panics (bind_r m f)"
  by (cases m) (auto simp: panics_def split: fault.splits)

lemma sp_check_no_panic:
  assumes "sp_ok a" "successively linked hs" "hs \<noteq> []" "typed_headers hs" "clock_ok now"
  shows "\<not> panics (sp_check tm now hs a)"
  unfolding sp_check_def
proof (rule bind_r_panics)
  have wf: "br_wf (sp_stored a)" and dom: "heights (sp_stored a) = dom (sp_headers a)"
    using assms(1) by (auto simp: sp_ok_def)
  let ?chk = "check_insertion_constraints (sp_stored a) (span hs)"
  have "\<not> panics ?chk"
  proof (cases "0 < eh_height (hd hs)")
    case True
    from span_ok [OF assms(2-4) True] check_insertion_no_panic [OF wf] show ?thesis by simp
  next
    case False
    then show ?thesis using check_insertion_invalid [of "span hs"] by (simp add: span_def)
  qed
  then show "\<not> panics (map_err (\<lambda>e. InsertionFailed (ConstraintsNotMet e)) ?chk)"
    by (cases ?chk) (auto simp: map_err_def panics_def split: fault.splits)
  fix pn
  assume pn: "map_err (\<lambda>e. InsertionFailed (ConstraintsNotMet e)) ?chk = Inr pn"
  obtain p n where [simp]: "pn = (p, n)" by (cases pn)
  from pn have chk: "?chk = Inr (p, n)" by simp
  note flags = check_flags [OF assms(1-4) chk]
  have low: "\<not> panics (eh_verify tm now (the (sp_headers a (eh_height (hd hs) - 1))) (hd hs))" if p
  proof -
    from flags(1) [OF that] obtain x where x: "sp_headers a (eh_height (hd hs) - 1) = Some x" by auto
    with flags(1) [OF that] sp_ok_height [OF assms(1) x] show ?thesis
      by (intro eh_verify_adjacent_no_panic [OF assms(5)]) auto
  qed
  have high: "\<not> panics (eh_verify tm now (last hs) (the (sp_headers a (eh_height (last hs) + 1))))" if n
  proof -
    from flags(2) [OF that] obtain x where x: "sp_headers a (eh_height (last hs) + 1) = Some x" by auto
    with flags(2) [OF that] sp_ok_height [OF assms(1) x] show ?thesis
      by (intro eh_verify_adjacent_no_panic [OF assms(5)]) auto
  qed
  show "\<not> panics (case pn of (prev_exists, next_exists) \<Rightarrow> sp_neighbours tm now (sp_headers a)
      (then_some prev_exists (hd hs)) (then_some next_exists (last hs)))"
    unfolding sp_neighbours_def prod.case \<open>pn = (p, n)\<close>
    by (rule bind_r_panics) (use low high in \<open>auto simp: then_some_def verify_err_panics\<close>)
qed

lemma sp_insert_ok:
  assumes "sp_ok a" "typed_headers hs" "fresh_hashes hs (sp_headers a)"
  shows "sp_ok (snd (sp_insert tm now hs a))"
proof (cases "\<exists>u. verified_headers tm now hs = Inr hs \<and> hs \<noteq> [] \<and> sp_check tm now hs a = Inr u")
  case False
  have "snd (sp_insert tm now hs a) = a"
    using False verified_headers_Inr(1) [of tm now hs]
    by (auto simp: sp_insert_def map_err_def split: sum.splits fault.splits)
  with assms(1) show ?thesis by simp
next
  case True
  then have v: "verified_headers tm now hs = Inr hs" and ne: "hs \<noteq> []" and
    chk: "sp_check tm now hs a = Inr ()" by auto
  note lk = verified_headers_Inr(2) [OF v]
  note c = sp_check_Inr [OF assms(1) lk ne assms(2) chk]
  have inv: "canonical (sp_stored a)" "canonical (sp_sampled a)" "canonical (sp_pruned a)"
    using assms(1) by (auto simp: sp_ok_def)
  from update_ranges_ok [OF inv c(1)] obtain st sm pr where
    u: "update_ranges (sp_stored a) (sp_sampled a) (sp_pruned a) (span hs) = Inr (st, sm, pr)"
    and can: "canonical st" "canonical sm" "canonical pr"
    and h: "heights st = heights (sp_stored a) \<union> range_set (span hs)"
      "heights sm = heights (sp_sampled a) - range_set (span hs)"
      "heights pr = heights (sp_pruned a) - range_set (span hs)" .
  let ?m = "enter_headers hs (sp_headers a)"
  have res: "snd (sp_insert tm now hs a) = a\<lparr>sp_headers := ?m, sp_stored := st, sp_sampled := sm, sp_pruned := pr\<rparr>"
    using v ne chk u by (simp add: sp_insert_def)
  have "chain_ok ?m"
    using assms(1) c(3,4) by (intro chain_ok_enter [OF _ lk ne]) (auto simp: sp_ok_def)
  moreover have "hash_inj ?m"
    using assms(1) by (intro hash_inj_enter [OF _ assms(3) linked_distinct_heights [OF lk]]) (simp add: sp_ok_def)
  moreover have "eh_height x = k \<and> typed_header x" if "?m k = Some x" for k x
    using that assms(1,2) by (auto simp: enter_headers_Some [OF linked_distinct_heights [OF lk]] sp_ok_def typed_headers_def)
  ultimately show ?thesis
    using assms(1) can h unfolding res sp_ok_def
    by (auto simp: enter_headers_dom span_heights [OF lk ne])
qed

lemma sp_update_sampling_metadata_ok:
  assumes "sp_ok a"
  shows "sp_ok (snd (sp_update_sampling_metadata h cids a))"
  using assms by (auto simp: sp_update_sampling_metadata_def sp_ok_def)

lemma sp_mark_as_sampled_ok:
  assumes "sp_ok a"
  shows "sp_ok (snd (sp_mark_as_sampled h a))"
proof (cases "sp_headers a h")
  case None
  with assms show ?thesis by (simp add: sp_mark_as_sampled_def)
next
  case (Some x)
  note h = sp_ok_height [OF assms Some]
  have can: "canonical (sp_sampled a)" using assms by (simp add: sp_ok_def)
  from canonical_insert_height [OF can h(1) less_imp_le [OF h(2)]] obtain rs where
    rs: "insert_relaxed (sp_sampled a) (Rng h h) = Inr rs" "canonical rs"
    "heights rs = insert h (heights (sp_sampled a))" by blast
  with Some h(3) assms show ?thesis by (simp add: sp_mark_as_sampled_def) (auto simp: sp_ok_def)
qed

lemma sp_remove_height_Some:
  assumes "sp_ok a" "sp_headers a h = Some x"
  obtains st sm pr where
    "sp_remove_height h a = (Inr (), a\<lparr>sp_headers := (sp_headers a)(h := None),
       sp_metadata := (sp_metadata a)(h := None), sp_stored := st, sp_sampled := sm, sp_pruned := pr\<rparr>)"
    "drop_ranges (sp_stored a) (sp_sampled a) (sp_pruned a) h = Inr (st, sm, pr)"
    "canonical st" "canonical sm" "canonical pr" "heights st = heights (sp_stored a) - {h}"
    "heights sm = heights (sp_sampled a) - {h}" "heights pr = insert h (heights (sp_pruned a))"
proof -
  note h = sp_ok_height [OF assms]
  have inv: "canonical (sp_stored a)" "canonical (sp_sampled a)" "canonical (sp_pruned a)"
    using assms(1) by (auto simp: sp_ok_def)
  from drop_ranges_ok [OF inv h(1) less_imp_le [OF h(2)]] obtain st sm pr where
    d: "drop_ranges (sp_stored a) (sp_sampled a) (sp_pruned a) h = Inr (st, sm, pr)"
    and *: "canonical st" "canonical sm" "canonical pr" "heights st = heights (sp_stored a) - {h}"
    "heights sm = heights (sp_sampled a) - {h}" "heights pr = insert h (heights (sp_pruned a))" .
  show thesis
    by (rule that [OF _ d *]) (simp add: sp_remove_height_def assms(2) d)
qed

lemma sp_remove_height_ok:
  assumes "sp_ok a"
  shows "sp_ok (snd (sp_remove_height h a))"
proof (cases "sp_headers a h")
  case None
  with assms show ?thesis by (simp add: sp_remove_height_def)
next
  case (Some x)
  from sp_remove_height_Some [OF assms Some] obtain st sm pr where
    res: "sp_remove_height h a = (Inr (), a\<lparr>sp_headers := (sp_headers a)(h := None),
       sp_metadata := (sp_metadata a)(h := None), sp_stored := st, sp_sampled := sm, sp_pruned := pr\<rparr>)"
    and *: "canonical st" "canonical sm" "canonical pr" "heights st = heights (sp_stored a) - {h}"
    "heights sm = heights (sp_sampled a) - {h}" "heights pr = insert h (heights (sp_pruned a))" .
  from assms have "chain_ok ((sp_headers a)(h := None))"
    by (auto simp: sp_ok_def chain_ok_def split: if_splits)
  moreover from assms have "hash_inj (sp_headers a)" by (simp add: sp_ok_def)
  then have "hash_inj ((sp_headers a)(h := None))"
    unfolding hash_inj_def fun_upd_apply by (metis option.distinct(1))
  ultimately show ?thesis using * assms unfolding res sp_ok_def by auto
qed

section \<open>Sequences of commands\<close>

datatype store_cmd =
    Insert time "extended_header list"
  | UpdateSamplingMetadata nat "cid list"
  | MarkAsSampled nat
  | RemoveHeight nat

definition sp_step :: "tendermint \<Rightarrow> store_cmd \<Rightarrow> store_spec \<Rightarrow> unit store_result \<times> store_spec" where
  "sp_step tm c a = (case c of
      Insert now hs \<Rightarrow> sp_insert tm now hs a
    | UpdateSamplingMetadata h cids \<Rightarrow> sp_update_sampling_metadata h cids a
    | MarkAsSampled h \<Rightarrow> sp_mark_as_sampled h a
    | RemoveHeight h \<Rightarrow> sp_remove_height h a)"

definition st_step :: "'s store_ops \<Rightarrow> store_cmd \<Rightarrow> 's \<Rightarrow> unit store_result \<times> 's" where
  "st_step ops c s = (case c of
      Insert now hs \<Rightarrow> st_insert ops now hs s
    | UpdateSamplingMetadata h cids \<Rightarrow> st_update_sampling_metadata ops h cids s
    | MarkAsSampled h \<Rightarrow> st_mark_as_sampled ops h s
    | RemoveHeight h \<Rightarrow> st_remove_height ops h s)"

definition cmd_ok :: "store_cmd \<Rightarrow> store_spec \<Rightarrow> bool" where
  "cmd_ok c a = (case c of
      Insert now hs \<Rightarrow> clock_ok now \<and> typed_headers hs \<and> fresh_hashes hs (sp_headers a)
    | _ \<Rightarrow> True)"

lemma sp_step_ok: "sp_ok a \<Longrightarrow> cmd_ok c a \<Longrightarrow> sp_ok (snd (sp_step tm c a))"
  by (cases c) (simp_all add: sp_step_def cmd_ok_def sp_insert_ok sp_update_sampling_metadata_ok
      sp_mark_as_sampled_ok sp_remove_height_ok)

fun sp_run :: "tendermint \<Rightarrow> store_cmd list \<Rightarrow> store_spec \<Rightarrow> unit store_result list \<times> store_spec" where
  "sp_run tm [] a = ([], a)"
| "sp_run tm (c # cs) a =
     (let (r, a') = sp_step tm c a; (rs, a'') = sp_run tm cs a' in (r # rs, a''))"

fun st_run :: "'s store_ops \<Rightarrow> store_cmd list \<Rightarrow> 's \<Rightarrow> unit store_result list \<times> 's" where
  "st_run ops [] s = ([], s)"
| "st_run ops (c # cs) s =
     (let (r, s') = st_step ops c s; (rs, s'') = st_run ops cs s' in (r # rs, s''))"

fun cmds_ok :: "tendermint \<Rightarrow> store_cmd list \<Rightarrow> store_spec \<Rightarrow> bool" where
  "cmds_ok tm [] a = True"
| "cmds_ok tm (c # cs) a = (cmd_ok c a \<and> cmds_ok tm cs (snd (sp_step tm c a)))"

section \<open>The contract of a store\<close>

locale header_store =
  fixes tm :: tendermint and ops :: "'s store_ops" and invar :: "'s \<Rightarrow> bool"
    and abs_st :: "'s \<Rightarrow> store_spec"
  assumes invar_ok: "invar s \<Longrightarrow> sp_ok (abs_st s)"
    and step_sim: "invar s \<Longrightarrow> cmd_ok c (abs_st s) \<Longrightarrow>
      invar (snd (st_step ops c s)) \<and>
      sp_step tm c (abs_st s) = (fst (st_step ops c s), abs_st (snd (st_step ops c s)))"
    and get_by_height_law: "invar s \<Longrightarrow>
      st_get_by_height ops h s = ok_or NotFound (sp_headers (abs_st s) h)"
    and get_by_hash_law: "invar s \<Longrightarrow> k \<noteq> Sha256 [] \<Longrightarrow>
      (case st_get_by_hash ops k s of
         Inr x \<Rightarrow> \<exists>h. sp_headers (abs_st s) h = Some x \<and> eh_hash x = k
       | Inl e \<Rightarrow> e = Err NotFound \<and> (\<forall>h x. sp_headers (abs_st s) h = Some x \<longrightarrow> eh_hash x \<noteq> k))"
    and has_law: "invar s \<Longrightarrow> k \<noteq> Sha256 [] \<Longrightarrow>
      st_has ops k s \<longleftrightarrow> (\<exists>h x. sp_headers (abs_st s) h = Some x \<and> eh_hash x = k)"
    and has_at_law: "invar s \<Longrightarrow> st_has_at ops h s \<longleftrightarrow> h \<in> dom (sp_headers (abs_st s))"
    and head_height_law: "invar s \<Longrightarrow> st_head_height ops s = ok_or NotFound (br_head (sp_stored (abs_st s)))"
    and get_head_law: "invar s \<Longrightarrow> st_get_head ops s =
      bind_r (ok_or NotFound (br_head (sp_stored (abs_st s)))) (\<lambda>h. ok_or NotFound (sp_headers (abs_st s) h))"
    and metadata_law: "invar s \<Longrightarrow> st_get_sampling_metadata ops h s =
      (if sp_headers (abs_st s) h = None then Inl (Err NotFound) else Inr (sp_metadata (abs_st s) h))"
    and ranges_law: "invar s \<Longrightarrow> st_get_stored_header_ranges ops s = Inr (sp_stored (abs_st s))"
    "invar s \<Longrightarrow> st_get_sampled_ranges ops s = Inr (sp_sampled (abs_st s))"
    "invar s \<Longrightarrow> st_get_pruned_ranges ops s = Inr (sp_pruned (abs_st s))"
begin

lemma run_sim:
  "invar s \<Longrightarrow> cmds_ok tm cs (abs_st s) \<Longrightarrow>
   invar (snd (st_run ops cs s)) \<and>
   sp_run tm cs (abs_st s) = (fst (st_run ops cs s), abs_st (snd (st_run ops cs s)))"
proof (induction cs arbitrary: s)
  case (Cons c cs)
  from step_sim [of s c] Cons.prems have
    c: "invar (snd (st_step ops c s))"
    "sp_step tm c (abs_st s) = (fst (st_step ops c s), abs_st (snd (st_step ops c s)))" by auto
  with Cons.IH [of "snd (st_step ops c s)"] Cons.prems show ?case
    by (simp add: Let_def split_beta)
qed simp

text \<open>A lookup returns what the ranges announce, and only that.\<close>

lemma get_by_height_iff_stored:
  assumes "invar s"
  shows "(\<exists>x. st_get_by_height ops h s = Inr x) \<longleftrightarrow> br_contains (sp_stored (abs_st s)) h"
proof -
  have "br_wf (sp_stored (abs_st s))" "heights (sp_stored (abs_st s)) = dom (sp_headers (abs_st s))"
    using invar_ok [OF assms] by (auto simp: sp_ok_def)
  then show ?thesis using get_by_height_law [OF assms] by auto
qed

lemma get_head_top:
  assumes "invar s" "st_get_head ops s = Inr x"
  shows "sp_headers (abs_st s) (eh_height x) = Some x"
    "\<forall>h \<in> dom (sp_headers (abs_st s)). h \<le> eh_height x"
proof -
  note ok = invar_ok [OF assms(1)]
  have wf: "br_wf (sp_stored (abs_st s))" and dom: "heights (sp_stored (abs_st s)) = dom (sp_headers (abs_st s))"
    using ok by (auto simp: sp_ok_def)
  from assms(2) get_head_law [OF assms(1)] obtain h where
    h: "br_head (sp_stored (abs_st s)) = Some h" "sp_headers (abs_st s) h = Some x" by auto
  with sp_ok_height(4) [OF ok h(2)] show "sp_headers (abs_st s) (eh_height x) = Some x" by simp
  from br_head_Some_iff [OF wf] h(1) dom sp_ok_height(4) [OF ok h(2)]
  show "\<forall>h \<in> dom (sp_headers (abs_st s)). h \<le> eh_height x" by auto
qed

text \<open>A range read from the store is a linked chain of the stored headers.\<close>

lemma read_heights:
  assumes "invar s"
    "fold_r (\<lambda>h headers. bind_r (st_get_by_height ops h s) (\<lambda>header. Inr (headers @ [header]))) hs acc = Inr xs"
  shows "\<exists>ys. xs = acc @ ys \<and> map (\<lambda>h. sp_headers (abs_st s) h) hs = map Some ys"
  using assms(2)
proof (induction hs arbitrary: acc)
  case (Cons h hs)
  from Cons.prems get_by_height_law [OF assms(1)] obtain x where
    x: "sp_headers (abs_st s) h = Some x"
    "fold_r (\<lambda>h headers. bind_r (st_get_by_height ops h s) (\<lambda>header. Inr (headers @ [header]))) hs (acc @ [x]) = Inr xs"
    by auto
  from Cons.IH [OF x(2)] x(1) show ?case by auto
qed simp

lemma get_range_linked:
  assumes "invar s" "get_range ops b b' s = Inr xs"
  shows "successively linked xs" "\<forall>x \<in> set xs. sp_headers (abs_st s) (eh_height x) = Some x"
proof -
  note ok = invar_ok [OF assms(1)]
  from assms(2) obtain rng where
    "fold_r (\<lambda>h headers. bind_r (st_get_by_height ops h s) (\<lambda>header. Inr (headers @ [header])))
       [rstart rng..<Suc (rend rng)] [] = Inr xs" by (auto simp: get_range_def)
  from read_heights [OF assms(1) this] have
    xs: "map (\<lambda>h. sp_headers (abs_st s) h) [rstart rng..<Suc (rend rng)] = map Some xs" by auto
  have len: "length xs = Suc (rend rng) - rstart rng"
    using arg_cong [OF xs, of length] by (simp del: upt_Suc)
  have nth: "sp_headers (abs_st s) (rstart rng + k) = Some (xs ! k)" if "k < length xs" for k
  proof -
    have "map (\<lambda>h. sp_headers (abs_st s) h) [rstart rng..<Suc (rend rng)] ! k = map Some xs ! k"
      using xs by simp
    with that len show ?thesis by (simp del: upt_Suc)
  qed
  show "successively linked xs"
    unfolding successively_conv_nth
  proof (intro allI impI)
    fix k
    assume "Suc k < length xs"
    with nth [of k] nth [of "Suc k"] ok show "linked (xs ! k) (xs ! Suc k)"
      by (auto simp: sp_ok_def chain_ok_def)
  qed
  show "\<forall>x \<in> set xs. sp_headers (abs_st s) (eh_height x) = Some x"
  proof
    fix x
    assume "x \<in> set xs"
    then obtain k where "k < length xs" "x = xs ! k" by (auto simp: in_set_conv_nth)
    with nth [of k] sp_ok_height(4) [OF ok] show "sp_headers (abs_st s) (eh_height x) = Some x" by auto
  qed
qed

end

end
