(* ===== verification/Node_Types.thy ===== *)
theory Node_Types
  imports Store_Spec
begin

text \<open>
  What the workers of the node share: the events they publish (\<open>node/src/events.rs\<close>), the
  errors of the networking component they receive (\<open>node/src/p2p.rs\<close>), and the subtraction
  on times of \<open>node/src/utils.rs\<close>. Durations are nanoseconds. A payload whose type belongs to
  another crate is kept as its text.
\<close>

type_synonym duration = int

datatype node_event =
    ConnectingToBootnodes
  | PeerConnected string bool
  | PeerDisconnected string bool
  | SamplingStarted nat nat "(nat \<times> nat) list"
  | ShareSamplingResult nat nat nat nat bool
  | SamplingResult nat bool duration
  | FatalDaserError string
  | AddedHeaderFromHeaderSub nat
  | FetchingHeadHeaderStarted
  | FetchingHeadHeaderFinished nat duration
  | FetchingHeadersStarted nat nat
  | FetchingHeadersFinished nat nat duration
  | FetchingHeadersFailed nat nat string duration
  | FatalSyncerError string
  | PrunedHeaders nat nat
  | FatalPrunerError string
  | NetworkCompromised
  | NodeStopped

fun is_error :: "node_event \<Rightarrow> bool" where
  "is_error (FatalDaserError _) = True"
| "is_error (FatalSyncerError _) = True"
| "is_error (FatalPrunerError _) = True"
| "is_error (FetchingHeadersFailed _ _ _ _) = True"
| "is_error NetworkCompromised = True"
| "is_error ConnectingToBootnodes = False"
| "is_error (PeerConnected _ _) = False"
| "is_error (PeerDisconnected _ _) = False"
| "is_error (SamplingStarted _ _ _) = False"
| "is_error (ShareSamplingResult _ _ _ _ _) = False"
| "is_error (SamplingResult _ _ _) = False"
| "is_error (AddedHeaderFromHeaderSub _) = False"
| "is_error FetchingHeadHeaderStarted = False"
| "is_error (FetchingHeadHeaderFinished _ _) = False"
| "is_error (FetchingHeadersStarted _ _) = False"
| "is_error (FetchingHeadersFinished _ _ _) = False"
| "is_error (PrunedHeaders _ _) = False"
| "is_error NodeStopped = False"

datatype header_ex_error =
    HeaderNotFound
  | InvalidResponse
  | InvalidRequest
  | InboundFailure string
  | OutboundFailure string
  | RequestCancelled

datatype shrex_error =
    ShrExRequestCancelled
  | ShrExInvalidRequest string
  | MaxTriesReached

datatype p2p_error =
    GossipsubInit string
  | TlsInit string
  | NoiseInit string
  | P2pWorkerDied
  | P2pChannelClosedUnexpectedly
  | HeaderEx header_ex_error
  | ShrEx shrex_error
  | BootnodeAddrsWithoutPeerId "string list"
  | Bitswap string
  | ProtoDecodeFailed string
  | Cid string
  | RequestTimedOut
  | Shwap string
  | CelestiaTypes types_error
  | P2pStore store_error
  | HeaderPruned nat
  | HeaderNotSynced nat

fun p2p_is_fatal :: "p2p_error \<Rightarrow> bool" where
  "p2p_is_fatal (GossipsubInit _) = True"
| "p2p_is_fatal (NoiseInit _) = True"
| "p2p_is_fatal (TlsInit _) = True"
| "p2p_is_fatal P2pWorkerDied = True"
| "p2p_is_fatal P2pChannelClosedUnexpectedly = True"
| "p2p_is_fatal (BootnodeAddrsWithoutPeerId _) = True"
| "p2p_is_fatal (HeaderEx _) = False"
| "p2p_is_fatal (ShrEx _) = False"
| "p2p_is_fatal (Bitswap _) = False"
| "p2p_is_fatal (ProtoDecodeFailed _) = False"
| "p2p_is_fatal (Cid _) = False"
| "p2p_is_fatal RequestTimedOut = False"
| "p2p_is_fatal (Shwap _) = False"
| "p2p_is_fatal (CelestiaTypes _) = False"
| "p2p_is_fatal (HeaderPruned _) = False"
| "p2p_is_fatal (HeaderNotSynced _) = False"
| "p2p_is_fatal (P2pStore e) = is_fatal e"

text \<open>The least time of the Tendermint crate, the start of the year 1; a subtraction that
  leaves the range gives the Unix epoch.\<close>

definition time_min :: time where
  "time_min = - 62135596800000000000"

definition time_saturating_sub :: "time \<Rightarrow> duration \<Rightarrow> time" where
  "time_saturating_sub t d = (if t - d < time_min then 0 else t - d)"

lemma time_saturating_sub_le: "0 \<le> t \<Longrightarrow> 0 \<le> d \<Longrightarrow> time_saturating_sub t d \<le> t"
  by (simp add: time_saturating_sub_def)

section \<open>Handlers\<close>

text \<open>A handler of a worker returns its result together with the worker. Two in sequence: the
  second does not run when the first has failed.\<close>

definition seq_w ::
  "('e, unit) result \<times> 'w \<Rightarrow> ('w \<Rightarrow> ('e, unit) result \<times> 'w) \<Rightarrow> ('e, unit) result \<times> 'w"
where
  "seq_w m f = (case m of (Inl e, w) \<Rightarrow> (Inl e, w) | (Inr _, w) \<Rightarrow> f w)"

lemma seq_w_simps [simp]:
  "seq_w (Inl e, w) f = (Inl e, w)" "seq_w (Inr u, w) f = f w"
  by (simp_all add: seq_w_def)

text \<open>What both handlers keep, their sequence keeps.\<close>

lemma seq_w_keeps: "P (snd m) \<Longrightarrow> (\<And>w. P w \<Longrightarrow> P (snd (f w))) \<Longrightarrow> P (snd (seq_w m f))"
  by (cases m; cases "fst m") auto

end
