(* ===== verification/Namespaces.thy ===== *)
theory Namespaces
  imports Headers "HOL-Library.Word" "HOL-Library.List_Lexorder"
begin

text \<open>
  Namespaces of \<open>types/src/nmt.rs\<close>: the keys under which data is ordered in a block. A namespace
  is 29 bytes, a version and an identifier of 28; the order is the lexicographic one that Rust
  derives on the array. The constructors are shown to accept exactly the two formats of the
  protocol, and \<open>is_reserved\<close> to be the condition on the bytes that the constants stand for.
\<close>

type_synonym byte = "8 word"

definition NS_VER_SIZE :: nat where
  "NS_VER_SIZE = 1"

definition NS_ID_SIZE :: nat where
  "NS_ID_SIZE = 28"

definition NS_SIZE :: nat where
  "NS_SIZE = NS_VER_SIZE + NS_ID_SIZE"

definition NS_ID_V0_SIZE :: nat where
  "NS_ID_V0_SIZE = 10"

lemmas ns_sizes = NS_SIZE_def NS_VER_SIZE_def NS_ID_SIZE_def NS_ID_V0_SIZE_def

datatype namespace = Namespace (as_bytes: "byte list")

instantiation namespace :: linorder
begin

definition less_eq_namespace :: "namespace \<Rightarrow> namespace \<Rightarrow> bool" where
  "less_eq_namespace a b \<longleftrightarrow> as_bytes a \<le> as_bytes b"

definition less_namespace :: "namespace \<Rightarrow> namespace \<Rightarrow> bool" where
  "less_namespace a b \<longleftrightarrow> as_bytes a < as_bytes b"

instance
  by standard (auto simp: less_eq_namespace_def less_namespace_def intro: namespace.expand)

end

definition new_unchecked :: "byte list \<Rightarrow> namespace" where
  "new_unchecked b = Namespace b"

definition const_v0 :: "byte list \<Rightarrow> namespace" where
  "const_v0 i = Namespace (replicate (NS_SIZE - NS_ID_V0_SIZE) 0 @ i)"

definition const_v255 :: "byte \<Rightarrow> namespace" where
  "const_v255 i = Namespace ((replicate NS_SIZE 255)[NS_ID_SIZE := i])"

definition TRANSACTION :: namespace where
  "TRANSACTION = const_v0 [0, 0, 0, 0, 0, 0, 0, 0, 0, 1]"

definition PAY_FOR_BLOB :: namespace where
  "PAY_FOR_BLOB = const_v0 [0, 0, 0, 0, 0, 0, 0, 0, 0, 4]"

definition MAX_PRIMARY_RESERVED :: namespace where
  "MAX_PRIMARY_RESERVED = const_v0 [0, 0, 0, 0, 0, 0, 0, 0, 0, 255]"

definition PRIMARY_RESERVED_PADDING :: namespace where
  "PRIMARY_RESERVED_PADDING = MAX_PRIMARY_RESERVED"

definition MIN_SECONDARY_RESERVED :: namespace where
  "MIN_SECONDARY_RESERVED = const_v255 0"

definition TAIL_PADDING :: namespace where
  "TAIL_PADDING = const_v255 254"

definition PARITY_SHARE :: namespace where
  "PARITY_SHARE = const_v255 255"

definition ns_new_v0 :: "byte list \<Rightarrow> (types_error, namespace) result" where
  "ns_new_v0 i =
     bind_r (if length i = NS_ID_SIZE then Inr (NS_ID_SIZE - NS_ID_V0_SIZE)
             else if length i \<le> NS_ID_V0_SIZE then Inr 0
             else Inl (Err InvalidNamespaceSize)) (\<lambda>id_pos.
     if \<exists>x \<in> set (take id_pos i). x \<noteq> 0 then Inl (Err InvalidNamespaceV0)
     else Inr (Namespace (replicate (NS_SIZE - length (drop id_pos i)) 0 @ drop id_pos i)))"

definition ns_new_v255 :: "byte list \<Rightarrow> (types_error, namespace) result" where
  "ns_new_v255 i =
     (if length i \<noteq> NS_ID_SIZE then Inl (Err InvalidNamespaceSize)
      else if \<forall>x \<in> set (butlast i). x = 255 then Inr (const_v255 (last i))
      else Inl (Err InvalidNamespaceV255))"

definition ns_new :: "byte \<Rightarrow> byte list \<Rightarrow> (types_error, namespace) result" where
  "ns_new version i =
     (if version = 0 then ns_new_v0 i
      else if version = 255 then ns_new_v255 i
      else Inl (Err (UnsupportedNamespaceVersion (unat version))))"

definition ns_from_raw :: "byte list \<Rightarrow> (types_error, namespace) result" where
  "ns_from_raw b =
     (if length b \<noteq> NS_SIZE then Inl (Err InvalidNamespaceSize)
      else ns_new (hd b) (tl b))"

definition ns_version :: "namespace \<Rightarrow> byte" where
  "ns_version n = as_bytes n ! 0"

definition ns_id :: "namespace \<Rightarrow> byte list" where
  "ns_id n = drop 1 (as_bytes n)"

definition ns_id_v0 :: "namespace \<Rightarrow> byte list option" where
  "ns_id_v0 n = (if ns_version n = 0 then Some (drop (NS_SIZE - NS_ID_V0_SIZE) (as_bytes n)) else None)"

definition is_reserved :: "namespace \<Rightarrow> bool" where
  "is_reserved n \<longleftrightarrow> n \<le> MAX_PRIMARY_RESERVED \<or> MIN_SECONDARY_RESERVED \<le> n"

section \<open>The two formats\<close>

definition ns_v0_bytes :: "byte list \<Rightarrow> bool" where
  "ns_v0_bytes b \<longleftrightarrow> (\<exists>i. length i = 10 \<and> b = replicate 19 0 @ i)"

definition ns_v255_bytes :: "byte list \<Rightarrow> bool" where
  "ns_v255_bytes b \<longleftrightarrow> (\<exists>x. b = replicate 28 255 @ [x])"

definition ns_ok :: "namespace \<Rightarrow> bool" where
  "ns_ok n \<longleftrightarrow> ns_v0_bytes (as_bytes n) \<or> ns_v255_bytes (as_bytes n)"

lemma as_bytes_const_v255 [simp]: "as_bytes (const_v255 x) = replicate 28 255 @ [x]"
proof -
  have "replicate 29 (255 :: byte) = replicate 28 255 @ [255]"
    using replicate_add [of 28 1 "255 :: byte"] by simp
  then show ?thesis by (simp add: const_v255_def ns_sizes list_update_append)
qed

lemma ns_ok_const [simp]: "ns_ok (const_v255 x)" "length i = 10 \<Longrightarrow> ns_ok (const_v0 i)"
  by (auto simp: ns_ok_def ns_v255_bytes_def ns_v0_bytes_def const_v0_def ns_sizes)

lemma all_replicate: "\<forall>x \<in> set xs. x = c \<Longrightarrow> xs = replicate (length xs) c"
  by (simp add: replicate_eqI)

lemma ns_new_v0_ok:
  assumes "ns_new_v0 i = Inr n"
  shows "ns_v0_bytes (as_bytes n)" "length i = 28 \<Longrightarrow> as_bytes n = 0 # i"
proof -
  consider "length i = 28" "\<forall>x \<in> set (take 18 i). x = 0" "n = Namespace (replicate 19 0 @ drop 18 i)"
    | "length i \<le> 10" "n = Namespace (replicate (29 - length i) 0 @ i)"
    using assms by (auto simp: ns_new_v0_def ns_sizes split: if_splits)
  then show "ns_v0_bytes (as_bytes n)"
  proof cases
    case 1
    then show ?thesis unfolding ns_v0_bytes_def by (intro exI [of _ "drop 18 i"]) simp
  next
    case 2
    then have "replicate (29 - length i) (0 :: byte) = replicate 19 0 @ replicate (10 - length i) 0"
      by (simp flip: replicate_add)
    with 2 show ?thesis
      unfolding ns_v0_bytes_def by (intro exI [of _ "replicate (10 - length i) 0 @ i"]) simp
  qed
  show "as_bytes n = 0 # i" if len: "length i = 28"
  proof -
    have z: "\<forall>x \<in> set (take 18 i). x = 0" and n: "as_bytes n = replicate 19 0 @ drop 18 i"
      using assms len by (auto simp: ns_new_v0_def ns_sizes split: if_splits)
    from all_replicate [OF z] len have "take 18 i = replicate 18 0" by simp
    then have "replicate 19 0 @ drop 18 i = 0 # take 18 i @ drop 18 i"
      by (simp add: numeral_eq_Suc)
    with n show ?thesis by simp
  qed
qed

lemma ns_new_v255_ok:
  assumes "ns_new_v255 i = Inr n"
  shows "as_bytes n = 255 # i" "ns_v255_bytes (as_bytes n)"
proof -
  from assms have i: "length i = 28" "\<forall>x \<in> set (butlast i). x = 255" "n = const_v255 (last i)"
    by (auto simp: ns_new_v255_def ns_sizes split: if_splits)
  from all_replicate [OF i(2)] i(1) have "butlast i = replicate 27 255" by simp
  with i(1) have "i = replicate 27 255 @ [last i]" by (metis append_butlast_last_id list.size(3) zero_neq_numeral)
  then have "255 # i = replicate 28 255 @ [last i]" by (simp add: numeral_eq_Suc)
  then show "as_bytes n = 255 # i" by (simp add: i(3))
  show "ns_v255_bytes (as_bytes n)" by (auto simp: i(3) ns_v255_bytes_def)
qed

text \<open>\<open>from_raw\<close> keeps the bytes and accepts exactly the two formats.\<close>

lemma ns_from_raw_bytes:
  assumes "ns_from_raw b = Inr n"
  shows "as_bytes n = b" "ns_ok n"
proof -
  from assms obtain x i where b: "b = x # i" "length i = 28"
    by (cases b) (auto simp: ns_from_raw_def ns_sizes split: if_splits)
  with assms have "(x = 0 \<and> ns_new_v0 i = Inr n) \<or> (x = 255 \<and> ns_new_v255 i = Inr n)"
    by (auto simp: ns_from_raw_def ns_new_def ns_sizes split: if_splits)
  then show "as_bytes n = b" "ns_ok n"
    using ns_new_v0_ok [of i n] ns_new_v255_ok [of i n] b by (auto simp: ns_ok_def)
qed

lemma ns_from_raw_accepts:
  assumes "ns_v0_bytes b \<or> ns_v255_bytes b"
  shows "ns_from_raw b = Inr (Namespace b)"
proof (cases "ns_v0_bytes b")
  case True
  then obtain i where i: "length i = 10" "b = replicate 19 0 @ i" by (auto simp: ns_v0_bytes_def)
  then have b: "b = 0 # replicate 18 0 @ i" by (simp add: numeral_eq_Suc)
  have "ns_new_v0 (replicate 18 0 @ i) = Inr (Namespace b)"
    using i(1) by (simp add: ns_new_v0_def ns_sizes) (simp add: i(2))
  then show ?thesis using i(1) by (simp add: ns_from_raw_def ns_new_def ns_sizes) (simp add: b)
next
  case False
  with assms obtain x where x: "b = replicate 28 255 @ [x]" by (auto simp: ns_v255_bytes_def)
  then have b: "b = 255 # replicate 27 255 @ [x]" by (simp add: numeral_eq_Suc)
  have "ns_new_v255 (replicate 27 255 @ [x]) = Inr (Namespace b)"
    by (simp add: ns_new_v255_def ns_sizes butlast_append) (simp add: x namespace.expand)
  then show ?thesis by (simp add: ns_from_raw_def ns_new_def ns_sizes b)
qed

lemma ns_from_raw_iff: "ns_from_raw b = Inr n \<longleftrightarrow> as_bytes n = b \<and> ns_ok n"
  using ns_from_raw_bytes [of b n] ns_from_raw_accepts [of b] by (auto simp: ns_ok_def)

section \<open>Reserved namespaces\<close>

lemma lex_replicate_le:
  fixes x :: "'a::linorder"
  shows "replicate n x @ a \<le> replicate n x @ b \<longleftrightarrow> a \<le> b"
  by (induction n) auto

lemma byte_le_255 [simp]: "x \<le> (255 :: byte)"
proof -
  have "uint x \<le> 255" using uint_lt2p [of x] by simp
  then show ?thesis by (simp add: word_le_def)
qed

lemma byte_less_255 [simp]: "x < (255 :: byte) \<longleftrightarrow> x \<noteq> 255"
  using byte_le_255 [of x] by (auto simp: order_less_le simp del: byte_le_255)

lemma zeros_le:
  fixes a :: "byte list"
  shows "length a = Suc n \<Longrightarrow> a \<le> replicate n 0 @ [255] \<longleftrightarrow> take n a = replicate n 0"
proof (induction n arbitrary: a)
  case 0
  then show ?case by (cases a) auto
next
  case (Suc n)
  then obtain x b where a: "a = x # b" "length b = Suc n" by (cases a) auto
  with Suc.IH [of b] show ?case by auto
qed

text \<open>The reserved namespaces of a version are those the documentation of the constants names.\<close>

lemma is_reserved_v255: "ns_v255_bytes (as_bytes n) \<Longrightarrow> is_reserved n"
  by (auto simp: ns_v255_bytes_def is_reserved_def less_eq_namespace_def MIN_SECONDARY_RESERVED_def
      lex_replicate_le word_gt_0)

lemma is_reserved_v0:
  assumes "length i = 10" "as_bytes n = replicate 19 0 @ i"
  shows "is_reserved n \<longleftrightarrow> take 9 i = replicate 9 0"
proof -
  have nine: "[0, 0, 0, 0, 0, 0, 0, 0, 0, 255] = replicate 9 (0 :: byte) @ [255]" by (simp add: numeral_eq_Suc)
  have "\<not> replicate (Suc k) (255 :: byte) @ a \<le> replicate (Suc l) 0 @ b" for k l a b by simp
  from this [of 27 "[0]" 18 i] have "\<not> MIN_SECONDARY_RESERVED \<le> n"
    by (simp add: less_eq_namespace_def MIN_SECONDARY_RESERVED_def assms(2) del: replicate.simps)
  moreover have "n \<le> MAX_PRIMARY_RESERVED \<longleftrightarrow> i \<le> replicate 9 0 @ [255]"
    by (simp add: less_eq_namespace_def MAX_PRIMARY_RESERVED_def const_v0_def ns_sizes assms lex_replicate_le nine)
  ultimately show ?thesis
    using zeros_le [of i 9] assms by (simp add: is_reserved_def)
qed

lemma ns_new_v0_total:
  assumes "length i \<le> 10"
  shows "\<exists>n. ns_new_v0 i = Inr n \<and> ns_version n = 0 \<and>
    ns_id_v0 n = Some (replicate (10 - length i) 0 @ i)"
proof -
  have "replicate (29 - length i) (0 :: byte) = replicate 19 0 @ replicate (10 - length i) 0"
    using assms by (simp flip: replicate_add)
  with assms show ?thesis
    by (simp add: ns_new_v0_def ns_sizes ns_version_def ns_id_v0_def nth_append)
qed

text \<open>C34. Parsing and printing of namespaces: \<open>from_raw\<close> returns a namespace exactly for the byte
  strings of the two formats (19 zero bytes and an identifier of 10, or 28 bytes 255 and one
  byte), the namespace has the given bytes, and building it again from its version and
  identifier gives the same namespace. It never panics.\<close>

theorem namespace_roundtrip:
  "(ns_from_raw b = Inr n \<longleftrightarrow> as_bytes n = b \<and> (ns_v0_bytes b \<or> ns_v255_bytes b)) \<and>
   (ns_from_raw b = Inr n \<longrightarrow> ns_new (ns_version n) (ns_id n) = Inr n) \<and>
   \<not> panics (ns_from_raw b)"
proof (intro conjI)
  show "ns_from_raw b = Inr n \<longleftrightarrow> as_bytes n = b \<and> (ns_v0_bytes b \<or> ns_v255_bytes b)"
    using ns_from_raw_iff [of b n] by (auto simp: ns_ok_def)
  show "ns_from_raw b = Inr n \<longrightarrow> ns_new (ns_version n) (ns_id n) = Inr n"
  proof
    assume r: "ns_from_raw b = Inr n"
    then obtain x i where "b = x # i" by (cases b) (auto simp: ns_from_raw_def ns_sizes)
    with r ns_from_raw_bytes(1) [OF r] show "ns_new (ns_version n) (ns_id n) = Inr n"
      by (simp add: ns_from_raw_def ns_version_def ns_id_def split: if_splits)
  qed
  show "\<not> panics (ns_from_raw b)"
    by (auto simp: ns_from_raw_def ns_new_def ns_new_v0_def ns_new_v255_def split: if_splits)
qed

theorem namespace_roundtrip_witness:
  "ns_from_raw (replicate 19 0 @ [1, 2, 3, 4, 5, 6, 7, 8, 9, 10]) =
     Inr (Namespace (replicate 19 0 @ [1, 2, 3, 4, 5, 6, 7, 8, 9, 10])) \<and>
   ns_new 0 (replicate 18 0 @ [1, 2, 3, 4, 5, 6, 7, 8, 9, 10]) =
     Inr (Namespace (replicate 19 0 @ [1, 2, 3, 4, 5, 6, 7, 8, 9, 10]))"
proof -
  define b :: "byte list" where "b = replicate 19 0 @ [1, 2, 3, 4, 5, 6, 7, 8, 9, 10]"
  have v: "ns_v0_bytes b" unfolding ns_v0_bytes_def b_def by (intro exI conjI) simp_all
  with namespace_roundtrip [of b "Namespace b"]
  have "ns_from_raw b = Inr (Namespace b)"
    and "ns_new (ns_version (Namespace b)) (ns_id (Namespace b)) = Inr (Namespace b)" by auto
  moreover have "ns_version (Namespace b) = 0" "ns_id (Namespace b) = replicate 18 0 @ [1, 2, 3, 4, 5, 6, 7, 8, 9, 10]"
    by (simp_all add: b_def ns_version_def ns_id_def numeral_eq_Suc)
  ultimately show ?thesis by (simp add: b_def)
qed

text \<open>The reserved namespaces: a valid namespace is reserved exactly when it has version 255,
  or version 0 and an identifier whose first nine bytes are zero.\<close>

theorem is_reserved_exact:
  assumes "ns_from_raw b = Inr n"
  shows "is_reserved n \<longleftrightarrow>
    ns_version n = 255 \<or> (\<exists>i. ns_id_v0 n = Some i \<and> take 9 i = replicate 9 0)"
proof (cases "ns_v255_bytes (as_bytes n)")
  case True
  then have "ns_version n = 255" by (auto simp: ns_v255_bytes_def ns_version_def nth_append)
  with is_reserved_v255 [OF True] show ?thesis by simp
next
  case False
  with ns_from_raw_bytes(2) [OF assms] obtain i where i: "length i = 10" "as_bytes n = replicate 19 0 @ i"
    by (auto simp: ns_ok_def ns_v0_bytes_def)
  then have "ns_version n = 0" "ns_id_v0 n = Some i"
    by (simp_all add: ns_version_def ns_id_v0_def ns_sizes nth_append)
  with is_reserved_v0 [OF i] show ?thesis by simp
qed

theorem is_reserved_exact_witness: "is_reserved TRANSACTION \<and> \<not> is_reserved (const_v0 [1, 2, 3, 4, 5, 6, 7, 8, 9, 10])"
proof -
  have b: "ns_from_raw (as_bytes n) = Inr n" if "ns_ok n" for n using that by (simp add: ns_from_raw_iff)
  have i: "ns_version (const_v0 j) = 0 \<and> ns_id_v0 (const_v0 j) = Some j" if "length j = 10" for j
    using that by (simp add: ns_version_def ns_id_v0_def ns_sizes nth_append const_v0_def)
  have z: "replicate 9 (0 :: byte) = [0, 0, 0, 0, 0, 0, 0, 0, 0]" by (simp add: numeral_eq_Suc)
  show ?thesis
    using is_reserved_exact [OF b, of TRANSACTION] is_reserved_exact [OF b, of "const_v0 [1, 2, 3, 4, 5, 6, 7, 8, 9, 10]"]
    by (simp add: TRANSACTION_def i z)
qed

end
