(* ===== verification/Shwap_Ids.thy ===== *)
theory Shwap_Ids
  imports Namespaces
begin

text \<open>
  The identifiers under which the data of a block is requested: the square of a height
  (\<open>types/src/eds.rs\<close>), a row (\<open>row.rs\<close>), a sample (\<open>sample.rs\<close>) and the data of a namespace in a
  row (\<open>row_namespace_data.rs\<close>), with their byte encodings and the conversions from and to content
  identifiers. The crates that implement content identifiers are the parameter \<open>cid_lib\<close>; what they
  document is \<open>cid_lib_ok\<close>. The four decoders share the shape of a fixed-width format, the locale
  \<open>fixed_width\<close>.
\<close>

section \<open>Big-endian integers\<close>

text \<open>What \<open>put_u16\<close>, \<open>put_u64\<close>, \<open>get_u16\<close> and \<open>get_u64\<close> do: a number in \<open>k\<close> bytes, the highest first.\<close>

fun be_bytes :: "nat \<Rightarrow> nat \<Rightarrow> byte list" where
  "be_bytes 0 n = []"
| "be_bytes (Suc k) n = be_bytes k (n div 256) @ [word_of_nat (n mod 256)]"

lemma be_bytes_numeral:
  "be_bytes (numeral k) n = be_bytes (pred_numeral k) (n div 256) @ [word_of_nat (n mod 256)]"
  by (simp only: numeral_eq_Suc [of k] be_bytes.simps)

definition be_value :: "byte list \<Rightarrow> nat" where
  "be_value = foldl (\<lambda>a b. 256 * a + unat b) 0"

lemma length_be_bytes [simp]: "length (be_bytes k n) = k"
  by (induction k arbitrary: n) auto

lemma be_value_snoc [simp]: "be_value (b @ [x]) = 256 * be_value b + unat x"
  by (simp add: be_value_def)

lemma be_value_Nil [simp]: "be_value [] = 0"
  by (simp add: be_value_def)

lemma unat_byte_less [simp]: "unat (x :: byte) < 256"
  using unsigned_less [of x, where 'a = nat] by simp

lemma be_value_less: "be_value b < 256 ^ length b"
proof (induction b rule: rev_induct)
  case (snoc x b)
  have "256 * be_value b + unat x < 256 * Suc (be_value b)" by simp
  also have "\<dots> \<le> 256 * 256 ^ length b" using snoc by (simp only: mult_le_cancel1) simp
  finally show ?case by simp
qed simp

lemma be_value_be_bytes: "n < 256 ^ k \<Longrightarrow> be_value (be_bytes k n) = n"
proof (induction k arbitrary: n)
  case (Suc k)
  have "unat (word_of_nat (n mod 256) :: byte) = n mod 256" by (simp add: unat_of_nat)
  moreover have "n div 256 < 256 ^ k" using Suc.prems by (simp add: less_mult_imp_div_less mult.commute)
  ultimately show ?case using Suc.IH [of "n div 256"] by simp
qed simp

lemma be_bytes_be_value: "be_bytes (length b) (be_value b) = b"
  by (induction b rule: rev_induct) simp_all

section \<open>Identifiers\<close>

definition EDS_ID_SIZE :: nat where
  "EDS_ID_SIZE = 8"

definition ROW_ID_SIZE :: nat where
  "ROW_ID_SIZE = EDS_ID_SIZE + 2"

definition SAMPLE_ID_SIZE :: nat where
  "SAMPLE_ID_SIZE = 12"

definition ROW_NAMESPACE_DATA_ID_SIZE :: nat where
  "ROW_NAMESPACE_DATA_ID_SIZE = ROW_ID_SIZE + NS_SIZE"

lemmas id_sizes = EDS_ID_SIZE_def ROW_ID_SIZE_def SAMPLE_ID_SIZE_def ROW_NAMESPACE_DATA_ID_SIZE_def ns_sizes

record eds_id =
  eid_height :: nat

record row_id =
  rid_eds_id :: eds_id
  rid_index :: nat

record sample_id =
  sid_row_id :: row_id
  sid_column_index :: nat

record row_namespace_data_id =
  rnid_row_id :: row_id
  rnid_namespace :: namespace

definition eds_id_new :: "nat \<Rightarrow> (types_error, eds_id) result" where
  "eds_id_new height = (if height = 0 then Inl (Err ZeroBlockHeight) else Inr \<lparr>eid_height = height\<rparr>)"

definition eds_id_encode :: "eds_id \<Rightarrow> byte list" where
  "eds_id_encode i = be_bytes 8 (eid_height i)"

definition eds_id_decode :: "byte list \<Rightarrow> (types_error, eds_id) result" where
  "eds_id_decode buffer =
     (if length buffer \<noteq> EDS_ID_SIZE then Inl (Err (InvalidLength (length buffer) EDS_ID_SIZE))
      else eds_id_new (be_value buffer))"

definition row_id_new :: "nat \<Rightarrow> nat \<Rightarrow> (types_error, row_id) result" where
  "row_id_new index height = bind_r (eds_id_new height) (\<lambda>e. Inr \<lparr>rid_eds_id = e, rid_index = index\<rparr>)"

definition row_id_block_height :: "row_id \<Rightarrow> nat" where
  "row_id_block_height i = eid_height (rid_eds_id i)"

definition row_id_encode :: "row_id \<Rightarrow> byte list" where
  "row_id_encode i = eds_id_encode (rid_eds_id i) @ be_bytes 2 (rid_index i)"

definition row_id_decode :: "byte list \<Rightarrow> (types_error, row_id) result" where
  "row_id_decode buffer =
     (if length buffer \<noteq> ROW_ID_SIZE then Inl (Err (InvalidLength (length buffer) ROW_ID_SIZE))
      else bind_r (eds_id_decode (take EDS_ID_SIZE buffer)) (\<lambda>e.
        Inr \<lparr>rid_eds_id = e, rid_index = be_value (take 2 (drop EDS_ID_SIZE buffer))\<rparr>))"

definition sample_id_new :: "nat \<Rightarrow> nat \<Rightarrow> nat \<Rightarrow> (types_error, sample_id) result" where
  "sample_id_new row_index column_index block_height =
     (if block_height = 0 then Inl (Err ZeroBlockHeight)
      else bind_r (row_id_new row_index block_height) (\<lambda>r.
        Inr \<lparr>sid_row_id = r, sid_column_index = column_index\<rparr>))"

definition sample_id_block_height :: "sample_id \<Rightarrow> nat" where
  "sample_id_block_height i = row_id_block_height (sid_row_id i)"

definition sample_id_row_index :: "sample_id \<Rightarrow> nat" where
  "sample_id_row_index i = rid_index (sid_row_id i)"

definition sample_id_encode :: "sample_id \<Rightarrow> byte list" where
  "sample_id_encode i = row_id_encode (sid_row_id i) @ be_bytes 2 (sid_column_index i)"

definition sample_id_decode :: "byte list \<Rightarrow> (types_error, sample_id) result" where
  "sample_id_decode buffer =
     (if length buffer \<noteq> SAMPLE_ID_SIZE then Inl (Err (InvalidLength (length buffer) SAMPLE_ID_SIZE))
      else bind_r (row_id_decode (take ROW_ID_SIZE buffer)) (\<lambda>r.
        Inr \<lparr>sid_row_id = r, sid_column_index = be_value (take 2 (drop ROW_ID_SIZE buffer))\<rparr>))"

definition row_namespace_data_id_new :: "namespace \<Rightarrow> nat \<Rightarrow> nat \<Rightarrow> (types_error, row_namespace_data_id) result" where
  "row_namespace_data_id_new ns row_index block_height =
     bind_r (row_id_new row_index block_height) (\<lambda>r. Inr \<lparr>rnid_row_id = r, rnid_namespace = ns\<rparr>)"

definition row_namespace_data_id_encode :: "row_namespace_data_id \<Rightarrow> byte list" where
  "row_namespace_data_id_encode i = row_id_encode (rnid_row_id i) @ as_bytes (rnid_namespace i)"

definition row_namespace_data_id_decode :: "byte list \<Rightarrow> (types_error, row_namespace_data_id) result" where
  "row_namespace_data_id_decode buffer =
     (if length buffer \<noteq> ROW_NAMESPACE_DATA_ID_SIZE
      then Inl (Err (InvalidLength (length buffer) ROW_NAMESPACE_DATA_ID_SIZE))
      else bind_r (row_id_decode (take ROW_ID_SIZE buffer)) (\<lambda>r.
        bind_r (ns_from_raw (drop ROW_ID_SIZE buffer)) (\<lambda>n.
        Inr \<lparr>rnid_row_id = r, rnid_namespace = n\<rparr>)))"

text \<open>The values of the Rust types: heights are positive 64-bit numbers, indexes have 16 bits, and
  a namespace has one of the two formats.\<close>

definition eds_id_ok :: "eds_id \<Rightarrow> bool" where
  "eds_id_ok i \<longleftrightarrow> 0 < eid_height i \<and> eid_height i \<le> u64_max"

definition row_id_ok :: "row_id \<Rightarrow> bool" where
  "row_id_ok i \<longleftrightarrow> eds_id_ok (rid_eds_id i) \<and> rid_index i < 2 ^ 16"

definition sample_id_ok :: "sample_id \<Rightarrow> bool" where
  "sample_id_ok i \<longleftrightarrow> row_id_ok (sid_row_id i) \<and> sid_column_index i < 2 ^ 16"

definition row_namespace_data_id_ok :: "row_namespace_data_id \<Rightarrow> bool" where
  "row_namespace_data_id_ok i \<longleftrightarrow> row_id_ok (rnid_row_id i) \<and> ns_ok (rnid_namespace i)"

section \<open>Fixed-width formats\<close>

text \<open>The contract of an encoding: encoders write a fixed number of bytes, decoders accept exactly
  the encodings of values of the type, any other length is the error that names it, and nothing
  panics.\<close>

locale fixed_width =
  fixes size :: nat
    and ok :: "'a \<Rightarrow> bool"
    and enc :: "'a \<Rightarrow> byte list"
    and dec :: "byte list \<Rightarrow> (types_error, 'a) result"
  assumes length_enc: "ok x \<Longrightarrow> length (enc x) = size"
    and dec_enc: "ok x \<Longrightarrow> dec (enc x) = Inr x"
    and enc_dec: "dec b = Inr x \<Longrightarrow> enc x = b \<and> ok x"
    and wrong_length: "length b \<noteq> size \<Longrightarrow> dec b = Inl (Err (InvalidLength (length b) size))"
    and no_panic: "\<not> panics (dec b)"
begin

lemma dec_iff: "dec b = Inr x \<longleftrightarrow> ok x \<and> enc x = b"
  using dec_enc enc_dec by blast

lemma enc_inj: "ok x \<Longrightarrow> ok y \<Longrightarrow> enc x = enc y \<Longrightarrow> x = y"
  using dec_enc by (metis sum.inject(2))

lemma dec_length: "dec b = Inr x \<Longrightarrow> length b = size"
  using wrong_length by fastforce

end

lemma u64_max_256: "n \<le> u64_max \<longleftrightarrow> n < 256 ^ 8"
  by (auto simp: u64_max_def)

interpretation eds: fixed_width EDS_ID_SIZE eds_id_ok eds_id_encode eds_id_decode
proof
  fix x b
  show "length (eds_id_encode x) = EDS_ID_SIZE" by (simp add: eds_id_encode_def id_sizes)
  show "eds_id_ok x \<Longrightarrow> eds_id_decode (eds_id_encode x) = Inr x"
    by (simp add: eds_id_ok_def eds_id_encode_def eds_id_decode_def eds_id_new_def id_sizes u64_max_256 be_value_be_bytes)
  show "eds_id_decode b = Inr x \<Longrightarrow> eds_id_encode x = b \<and> eds_id_ok x"
    using be_bytes_be_value [of b] be_value_less [of b]
    by (auto simp: eds_id_ok_def eds_id_encode_def eds_id_decode_def eds_id_new_def id_sizes u64_max_256 split: if_splits)
  show "length b \<noteq> EDS_ID_SIZE \<Longrightarrow> eds_id_decode b = Inl (Err (InvalidLength (length b) EDS_ID_SIZE))"
    by (simp add: eds_id_decode_def)
  show "\<not> panics (eds_id_decode b)" by (simp add: eds_id_decode_def eds_id_new_def)
qed

lemma panics_bind: "panics (bind_r m f) \<longleftrightarrow> panics m \<or> (\<exists>x. m = Inr x \<and> panics (f x))"
  by (cases m) (auto simp: panics_def)

text \<open>A format followed by one more field is a format again; the three remaining identifiers are of
  this kind.\<close>

lemma append_field:
  assumes a: "fixed_width n ok\<^sub>1 enc\<^sub>1 dec\<^sub>1"
    and len: "\<And>y. ok\<^sub>2 y \<Longrightarrow> length (enc\<^sub>2 y) = m"
    and de: "\<And>y. ok\<^sub>2 y \<Longrightarrow> dec\<^sub>2 (enc\<^sub>2 y) = Inr y"
    and ed: "\<And>b y. length b = m \<Longrightarrow> dec\<^sub>2 b = Inr y \<Longrightarrow> enc\<^sub>2 y = b \<and> ok\<^sub>2 y"
    and np: "\<And>b. length b = m \<Longrightarrow> \<not> panics (dec\<^sub>2 b)"
    and mk: "\<And>z. mk (fld\<^sub>1 z) (fld\<^sub>2 z) = z" "\<And>x y. fld\<^sub>1 (mk x y) = x" "\<And>x y. fld\<^sub>2 (mk x y) = y"
  shows "fixed_width (n + m) (\<lambda>z. ok\<^sub>1 (fld\<^sub>1 z) \<and> ok\<^sub>2 (fld\<^sub>2 z)) (\<lambda>z. enc\<^sub>1 (fld\<^sub>1 z) @ enc\<^sub>2 (fld\<^sub>2 z))
    (\<lambda>b. if length b \<noteq> n + m then Inl (Err (InvalidLength (length b) (n + m)))
         else bind_r (dec\<^sub>1 (take n b)) (\<lambda>x. bind_r (dec\<^sub>2 (drop n b)) (\<lambda>y. Inr (mk x y))))"
proof
  note a = a [THEN fixed_width.length_enc] a [THEN fixed_width.dec_enc] a [THEN fixed_width.enc_dec]
    a [THEN fixed_width.no_panic]
  fix z b
  assume ok: "ok\<^sub>1 (fld\<^sub>1 z) \<and> ok\<^sub>2 (fld\<^sub>2 z)"
  then show "length (enc\<^sub>1 (fld\<^sub>1 z) @ enc\<^sub>2 (fld\<^sub>2 z)) = n + m" using a(1) len by simp
  with ok show "(if length (enc\<^sub>1 (fld\<^sub>1 z) @ enc\<^sub>2 (fld\<^sub>2 z)) \<noteq> n + m
      then Inl (Err (InvalidLength (length (enc\<^sub>1 (fld\<^sub>1 z) @ enc\<^sub>2 (fld\<^sub>2 z))) (n + m)))
      else bind_r (dec\<^sub>1 (take n (enc\<^sub>1 (fld\<^sub>1 z) @ enc\<^sub>2 (fld\<^sub>2 z)))) (\<lambda>x.
        bind_r (dec\<^sub>2 (drop n (enc\<^sub>1 (fld\<^sub>1 z) @ enc\<^sub>2 (fld\<^sub>2 z)))) (\<lambda>y. Inr (mk x y)))) = Inr z"
    using a(1,2) de mk(1) by simp
next
  note a = a [THEN fixed_width.enc_dec]
  fix z b
  assume "(if length b \<noteq> n + m then Inl (Err (InvalidLength (length b) (n + m)))
    else bind_r (dec\<^sub>1 (take n b)) (\<lambda>x. bind_r (dec\<^sub>2 (drop n b)) (\<lambda>y. Inr (mk x y)))) = Inr z"
  then obtain x y where b: "length b = n + m" "dec\<^sub>1 (take n b) = Inr x" "dec\<^sub>2 (drop n b) = Inr y" "z = mk x y"
    by (auto simp: bind_r_Inr_iff split: if_splits)
  with a [OF b(2)] ed [OF _ b(3)]
  show "enc\<^sub>1 (fld\<^sub>1 z) @ enc\<^sub>2 (fld\<^sub>2 z) = b \<and> ok\<^sub>1 (fld\<^sub>1 z) \<and> ok\<^sub>2 (fld\<^sub>2 z)" by (simp add: mk)
next
  fix b
  show "\<not> panics (if length b \<noteq> n + m then Inl (Err (InvalidLength (length b) (n + m)))
    else bind_r (dec\<^sub>1 (take n b)) (\<lambda>x. bind_r (dec\<^sub>2 (drop n b)) (\<lambda>y. Inr (mk x y))))"
    using a [THEN fixed_width.no_panic, of "take n b"] np [of "drop n b"]
    by (auto simp: panics_bind)
qed simp_all

lemma u16_field:
  "y < 2 ^ 16 \<Longrightarrow> Inr (be_value (take 2 (be_bytes 2 y))) = (Inr y :: (types_error, nat) result)"
  "length b = 2 \<Longrightarrow> Inr (be_value (take 2 b)) = (Inr y :: (types_error, nat) result) \<Longrightarrow>
     be_bytes 2 y = b \<and> y < 2 ^ 16"
  using be_value_be_bytes [of y 2] be_bytes_be_value [of b] be_value_less [of b] by auto

interpretation row: fixed_width ROW_ID_SIZE row_id_ok row_id_encode row_id_decode
proof -
  have "fixed_width (8 + 2) (\<lambda>z. eds_id_ok (rid_eds_id z) \<and> rid_index z < 2 ^ 16)
    (\<lambda>z. eds_id_encode (rid_eds_id z) @ be_bytes 2 (rid_index z))
    (\<lambda>b. if length b \<noteq> 8 + 2 then Inl (Err (InvalidLength (length b) (8 + 2)))
      else bind_r (eds_id_decode (take 8 b)) (\<lambda>x. bind_r (Inr (be_value (take 2 (drop 8 b)))) (\<lambda>y.
        Inr \<lparr>rid_eds_id = x, rid_index = y\<rparr>)))"
    by (rule append_field [where dec\<^sub>2 = "\<lambda>b. Inr (be_value (take 2 b))"])
      (use eds.fixed_width_axioms u16_field in \<open>simp_all add: id_sizes\<close>)
  then show "fixed_width ROW_ID_SIZE row_id_ok row_id_encode row_id_decode"
    by (simp add: row_id_ok_def [abs_def] row_id_encode_def [abs_def] row_id_decode_def [abs_def] id_sizes cong: if_cong)
qed

interpretation sample: fixed_width SAMPLE_ID_SIZE sample_id_ok sample_id_encode sample_id_decode
proof -
  have "fixed_width (10 + 2) (\<lambda>z. row_id_ok (sid_row_id z) \<and> sid_column_index z < 2 ^ 16)
    (\<lambda>z. row_id_encode (sid_row_id z) @ be_bytes 2 (sid_column_index z))
    (\<lambda>b. if length b \<noteq> 10 + 2 then Inl (Err (InvalidLength (length b) (10 + 2)))
      else bind_r (row_id_decode (take 10 b)) (\<lambda>x. bind_r (Inr (be_value (take 2 (drop 10 b)))) (\<lambda>y.
        Inr \<lparr>sid_row_id = x, sid_column_index = y\<rparr>)))"
    by (rule append_field [where dec\<^sub>2 = "\<lambda>b. Inr (be_value (take 2 b))"])
      (use row.fixed_width_axioms u16_field in \<open>simp_all add: id_sizes\<close>)
  then show "fixed_width SAMPLE_ID_SIZE sample_id_ok sample_id_encode sample_id_decode"
    by (simp add: sample_id_ok_def [abs_def] sample_id_encode_def [abs_def] sample_id_decode_def [abs_def]
        id_sizes cong: if_cong)
qed

lemma ns_ok_length: "ns_ok n \<Longrightarrow> length (as_bytes n) = 29"
  by (auto simp: ns_ok_def ns_v0_bytes_def ns_v255_bytes_def)

lemma ns_from_raw_no_panic: "\<not> panics (ns_from_raw b)"
  by (auto simp: ns_from_raw_def ns_new_def ns_new_v0_def ns_new_v255_def split: if_splits)

interpretation row_ns: fixed_width ROW_NAMESPACE_DATA_ID_SIZE row_namespace_data_id_ok
  row_namespace_data_id_encode row_namespace_data_id_decode
proof -
  have "fixed_width (10 + 29) (\<lambda>z. row_id_ok (rnid_row_id z) \<and> ns_ok (rnid_namespace z))
    (\<lambda>z. row_id_encode (rnid_row_id z) @ as_bytes (rnid_namespace z))
    (\<lambda>b. if length b \<noteq> 10 + 29 then Inl (Err (InvalidLength (length b) (10 + 29)))
      else bind_r (row_id_decode (take 10 b)) (\<lambda>x. bind_r (ns_from_raw (drop 10 b)) (\<lambda>y.
        Inr \<lparr>rnid_row_id = x, rnid_namespace = y\<rparr>)))"
    by (rule append_field [where dec\<^sub>2 = ns_from_raw])
      (use row.fixed_width_axioms in \<open>simp_all add: id_sizes ns_ok_length ns_from_raw_iff ns_from_raw_no_panic\<close>)
  then show "fixed_width ROW_NAMESPACE_DATA_ID_SIZE row_namespace_data_id_ok
      row_namespace_data_id_encode row_namespace_data_id_decode"
    by (simp add: row_namespace_data_id_ok_def [abs_def] row_namespace_data_id_encode_def [abs_def]
        row_namespace_data_id_decode_def [abs_def] id_sizes cong: if_cong)
qed

section \<open>Content identifiers\<close>

text \<open>The crates \<open>multihash\<close> and \<open>cid\<close>: a multihash of a maximal size carries a code and a digest,
  a content identifier of version 1 a codec and a multihash.\<close>

record ('m, 'c) cid_lib =
  mh_wrap :: "nat \<Rightarrow> nat \<Rightarrow> byte list \<Rightarrow> 'm option"
  mh_code :: "'m \<Rightarrow> nat"
  mh_size :: "'m \<Rightarrow> nat"
  mh_digest :: "'m \<Rightarrow> byte list"
  cid_new_v1 :: "nat \<Rightarrow> 'm \<Rightarrow> 'c"
  cid_codec :: "'c \<Rightarrow> nat"
  cid_hash :: "'c \<Rightarrow> 'm"

definition cid_lib_ok :: "('m, 'c) cid_lib \<Rightarrow> bool" where
  "cid_lib_ok L \<longleftrightarrow>
     (\<forall>n code d. length d \<le> n \<longrightarrow> n < 256 \<longrightarrow> (\<exists>m. mh_wrap L n code d = Some m \<and>
        mh_code L m = code \<and> mh_size L m = length d \<and> mh_digest L m = d)) \<and>
     (\<forall>codec m. cid_codec L (cid_new_v1 L codec m) = codec \<and> cid_hash L (cid_new_v1 L codec m) = m)"

datatype cid_error =
    InvalidCidCodec nat
  | InvalidMultihashLength nat
  | InvalidMultihashCode nat nat
  | InvalidCid types_error

definition ROW_ID_MULTIHASH_CODE :: nat where
  "ROW_ID_MULTIHASH_CODE = 0x7801"

definition ROW_ID_CODEC :: nat where
  "ROW_ID_CODEC = 0x7800"

definition SAMPLE_ID_MULTIHASH_CODE :: nat where
  "SAMPLE_ID_MULTIHASH_CODE = 0x7811"

definition SAMPLE_ID_CODEC :: nat where
  "SAMPLE_ID_CODEC = 0x7810"

definition ROW_NAMESPACE_DATA_ID_MULTIHASH_CODE :: nat where
  "ROW_NAMESPACE_DATA_ID_MULTIHASH_CODE = 0x7821"

definition ROW_NAMESPACE_DATA_CODEC :: nat where
  "ROW_NAMESPACE_DATA_CODEC = 0x7820"

text \<open>The error of the decoder, which the code turns into text, is kept as a value.\<close>

definition row_id_try_from :: "('m, 'c) cid_lib \<Rightarrow> 'c \<Rightarrow> (cid_error, row_id) result" where
  "row_id_try_from L c =
     (if cid_codec L c \<noteq> ROW_ID_CODEC then Inl (Err (InvalidCidCodec (cid_codec L c)))
      else let hash = cid_hash L c in
        if mh_size L hash \<noteq> ROW_ID_SIZE then Inl (Err (InvalidMultihashLength (mh_size L hash)))
        else if mh_code L hash \<noteq> ROW_ID_MULTIHASH_CODE
        then Inl (Err (InvalidMultihashCode (mh_code L hash) ROW_ID_MULTIHASH_CODE))
        else map_err InvalidCid (row_id_decode (mh_digest L hash)))"

definition sample_id_try_from :: "('m, 'c) cid_lib \<Rightarrow> 'c \<Rightarrow> (cid_error, sample_id) result" where
  "sample_id_try_from L c =
     (if cid_codec L c \<noteq> SAMPLE_ID_CODEC then Inl (Err (InvalidCidCodec (cid_codec L c)))
      else let hash = cid_hash L c in
        if mh_size L hash \<noteq> SAMPLE_ID_SIZE then Inl (Err (InvalidMultihashLength (mh_size L hash)))
        else if mh_code L hash \<noteq> SAMPLE_ID_MULTIHASH_CODE
        then Inl (Err (InvalidMultihashCode (mh_code L hash) SAMPLE_ID_MULTIHASH_CODE))
        else map_err InvalidCid (sample_id_decode (mh_digest L hash)))"

definition row_namespace_data_id_try_from ::
  "('m, 'c) cid_lib \<Rightarrow> 'c \<Rightarrow> (cid_error, row_namespace_data_id) result"
where
  "row_namespace_data_id_try_from L c =
     (if cid_codec L c \<noteq> ROW_NAMESPACE_DATA_CODEC then Inl (Err (InvalidCidCodec (cid_codec L c)))
      else let hash = cid_hash L c in
        if mh_size L hash \<noteq> ROW_NAMESPACE_DATA_ID_SIZE then Inl (Err (InvalidMultihashLength (mh_size L hash)))
        else if mh_code L hash \<noteq> ROW_NAMESPACE_DATA_ID_MULTIHASH_CODE
        then Inl (Err (InvalidMultihashCode (mh_code L hash) ROW_NAMESPACE_DATA_ID_MULTIHASH_CODE))
        else map_err InvalidCid (row_namespace_data_id_decode (mh_digest L hash)))"

text \<open>The conversions to content identifiers unwrap the multihash; \<open>unwrap_o\<close> is \<open>unwrap\<close>.\<close>

definition unwrap_o :: "'a option \<Rightarrow> ('e, 'a) result" where
  "unwrap_o v = (case v of None \<Rightarrow> Inl (Panic ''called unwrap on an error'') | Some x \<Rightarrow> Inr x)"

definition row_id_into_cid :: "('m, 'c) cid_lib \<Rightarrow> row_id \<Rightarrow> ('e, 'c) result" where
  "row_id_into_cid L i =
     bind_r (unwrap_o (mh_wrap L ROW_ID_SIZE ROW_ID_MULTIHASH_CODE (row_id_encode i))) (\<lambda>mh.
     Inr (cid_new_v1 L ROW_ID_CODEC mh))"

definition sample_id_into_cid :: "('m, 'c) cid_lib \<Rightarrow> sample_id \<Rightarrow> ('e, 'c) result" where
  "sample_id_into_cid L i =
     bind_r (unwrap_o (mh_wrap L SAMPLE_ID_SIZE SAMPLE_ID_MULTIHASH_CODE (sample_id_encode i))) (\<lambda>mh.
     Inr (cid_new_v1 L SAMPLE_ID_CODEC mh))"

definition row_namespace_data_id_into_cid :: "('m, 'c) cid_lib \<Rightarrow> row_namespace_data_id \<Rightarrow> ('e, 'c) result" where
  "row_namespace_data_id_into_cid L i =
     bind_r (unwrap_o (mh_wrap L ROW_NAMESPACE_DATA_ID_SIZE ROW_NAMESPACE_DATA_ID_MULTIHASH_CODE
       (row_namespace_data_id_encode i))) (\<lambda>mh.
     Inr (cid_new_v1 L ROW_NAMESPACE_DATA_CODEC mh))"

text \<open>A library that satisfies the hypothesis: pairs.\<close>

definition pair_cid_lib :: "(nat \<times> byte list, nat \<times> nat \<times> byte list) cid_lib" where
  "pair_cid_lib = \<lparr>mh_wrap = (\<lambda>n code d. if length d \<le> n then Some (code, d) else None),
     mh_code = fst, mh_size = length \<circ> snd, mh_digest = snd,
     cid_new_v1 = Pair, cid_codec = fst, cid_hash = snd\<rparr>"

lemma pair_cid_lib_ok: "cid_lib_ok pair_cid_lib"
  by (simp add: cid_lib_ok_def pair_cid_lib_def)

text \<open>What wrapping gives for each identifier.\<close>

lemma wrapped:
  assumes "cid_lib_ok L" "length d = n" "n < 256"
  obtains m where "mh_wrap L n code d = Some m" "mh_code L m = code" "mh_size L m = n" "mh_digest L m = d"
    "\<And>codec. cid_codec L (cid_new_v1 L codec m) = codec" "\<And>codec. cid_hash L (cid_new_v1 L codec m) = m"
  using assms unfolding cid_lib_ok_def by (metis order_refl)

lemma sample_cid_back:
  assumes "cid_lib_ok L" "sample_id_ok i"
  shows "\<exists>c. sample_id_into_cid L i = Inr c \<and> sample_id_try_from L c = Inr i \<and> cid_codec L c = SAMPLE_ID_CODEC"
proof -
  from wrapped [OF assms(1) sample.length_enc [OF assms(2)], of SAMPLE_ID_MULTIHASH_CODE] obtain m where
    m: "mh_wrap L SAMPLE_ID_SIZE SAMPLE_ID_MULTIHASH_CODE (sample_id_encode i) = Some m" "mh_code L m = SAMPLE_ID_MULTIHASH_CODE"
    "mh_size L m = SAMPLE_ID_SIZE" "mh_digest L m = sample_id_encode i"
    "\<And>codec. cid_codec L (cid_new_v1 L codec m) = codec" "\<And>codec. cid_hash L (cid_new_v1 L codec m) = m"
    by (auto simp: id_sizes)
  then have "sample_id_into_cid L i = Inr (cid_new_v1 L SAMPLE_ID_CODEC m)"
    by (simp add: sample_id_into_cid_def unwrap_o_def)
  moreover have "sample_id_try_from L (cid_new_v1 L SAMPLE_ID_CODEC m) = Inr i"
    by (simp add: sample_id_try_from_def m sample.dec_enc [OF assms(2)] map_err_def)
  ultimately show ?thesis by (auto simp: m)
qed

lemma row_cid_back:
  assumes "cid_lib_ok L" "row_id_ok i"
  shows "\<exists>c. row_id_into_cid L i = Inr c \<and> row_id_try_from L c = Inr i \<and> cid_codec L c = ROW_ID_CODEC"
proof -
  from wrapped [OF assms(1) row.length_enc [OF assms(2)], of ROW_ID_MULTIHASH_CODE] obtain m where
    m: "mh_wrap L ROW_ID_SIZE ROW_ID_MULTIHASH_CODE (row_id_encode i) = Some m" "mh_code L m = ROW_ID_MULTIHASH_CODE"
    "mh_size L m = ROW_ID_SIZE" "mh_digest L m = row_id_encode i"
    "\<And>codec. cid_codec L (cid_new_v1 L codec m) = codec" "\<And>codec. cid_hash L (cid_new_v1 L codec m) = m"
    by (auto simp: id_sizes)
  then have "row_id_into_cid L i = Inr (cid_new_v1 L ROW_ID_CODEC m)"
    by (simp add: row_id_into_cid_def unwrap_o_def)
  moreover have "row_id_try_from L (cid_new_v1 L ROW_ID_CODEC m) = Inr i"
    by (simp add: row_id_try_from_def m row.dec_enc [OF assms(2)] map_err_def)
  ultimately show ?thesis by (auto simp: m)
qed

lemma row_ns_cid_back:
  assumes "cid_lib_ok L" "row_namespace_data_id_ok i"
  shows "\<exists>c. row_namespace_data_id_into_cid L i = Inr c \<and> row_namespace_data_id_try_from L c = Inr i \<and> cid_codec L c = ROW_NAMESPACE_DATA_CODEC"
proof -
  from wrapped [OF assms(1) row_ns.length_enc [OF assms(2)], of ROW_NAMESPACE_DATA_ID_MULTIHASH_CODE] obtain m where
    m: "mh_wrap L ROW_NAMESPACE_DATA_ID_SIZE ROW_NAMESPACE_DATA_ID_MULTIHASH_CODE (row_namespace_data_id_encode i) = Some m" "mh_code L m = ROW_NAMESPACE_DATA_ID_MULTIHASH_CODE"
    "mh_size L m = ROW_NAMESPACE_DATA_ID_SIZE" "mh_digest L m = row_namespace_data_id_encode i"
    "\<And>codec. cid_codec L (cid_new_v1 L codec m) = codec" "\<And>codec. cid_hash L (cid_new_v1 L codec m) = m"
    by (auto simp: id_sizes)
  then have "row_namespace_data_id_into_cid L i = Inr (cid_new_v1 L ROW_NAMESPACE_DATA_CODEC m)"
    by (simp add: row_namespace_data_id_into_cid_def unwrap_o_def)
  moreover have "row_namespace_data_id_try_from L (cid_new_v1 L ROW_NAMESPACE_DATA_CODEC m) = Inr i"
    by (simp add: row_namespace_data_id_try_from_def m row_ns.dec_enc [OF assms(2)] map_err_def)
  ultimately show ?thesis by (auto simp: m)
qed

section \<open>Properties\<close>

text \<open>C36. The encodings of the four identifiers are exact: a buffer decodes to an identifier
  exactly when that identifier is a value of its type and encodes to the buffer; a buffer
  of another length is rejected with both lengths; decoding never panics.\<close>

theorem shwap_id_roundtrip:
  "(sample_id_decode b = Inr i \<longleftrightarrow> sample_id_ok i \<and> sample_id_encode i = b) \<and>
   (row_id_decode b = Inr r \<longleftrightarrow> row_id_ok r \<and> row_id_encode r = b) \<and>
   (eds_id_decode b = Inr e \<longleftrightarrow> eds_id_ok e \<and> eds_id_encode e = b) \<and>
   (row_namespace_data_id_decode b = Inr d \<longleftrightarrow>
      row_namespace_data_id_ok d \<and> row_namespace_data_id_encode d = b) \<and>
   (length b \<noteq> 12 \<longrightarrow> sample_id_decode b = Inl (Err (InvalidLength (length b) 12))) \<and>
   (length b \<noteq> 39 \<longrightarrow> row_namespace_data_id_decode b = Inl (Err (InvalidLength (length b) 39))) \<and>
   \<not> panics (sample_id_decode b) \<and> \<not> panics (row_namespace_data_id_decode b)"
  using sample.wrong_length [of b] row_ns.wrong_length [of b]
  by (simp add: sample.dec_iff row.dec_iff eds.dec_iff row_ns.dec_iff sample.no_panic row_ns.no_panic id_sizes)

theorem shwap_id_roundtrip_witness:
  "sample_id_decode [0, 0, 0, 0, 0, 0, 0, 64, 0, 7, 0, 5] =
     Inr \<lparr>sid_row_id = \<lparr>rid_eds_id = \<lparr>eid_height = 64\<rparr>, rid_index = 7\<rparr>, sid_column_index = 5\<rparr> \<and>
   sample_id_decode [] = Inl (Err (InvalidLength 0 12))"
proof -
  let ?i = "\<lparr>sid_row_id = \<lparr>rid_eds_id = \<lparr>eid_height = 64\<rparr>, rid_index = 7\<rparr>, sid_column_index = 5\<rparr>"
  have "sample_id_ok ?i" by (simp add: sample_id_ok_def row_id_ok_def eds_id_ok_def u64_max_def)
  moreover have "sample_id_encode ?i = [0, 0, 0, 0, 0, 0, 0, 64, 0, 7, 0, 5]"
    by (simp add: sample_id_encode_def row_id_encode_def eds_id_encode_def be_bytes_numeral)
  ultimately have "sample_id_ok ?i \<and> sample_id_encode ?i = [0, 0, 0, 0, 0, 0, 0, 64, 0, 7, 0, 5]" ..
  from shwap_id_roundtrip [THEN conjunct1, THEN iffD2, OF this]
  have a: "sample_id_decode [0, 0, 0, 0, 0, 0, 0, 64, 0, 7, 0, 5] = Inr ?i" .
  have "length ([] :: byte list) \<noteq> 12" by simp
  from shwap_id_roundtrip [THEN conjunct2, THEN conjunct2, THEN conjunct2, THEN conjunct2, THEN conjunct1,
    THEN mp, OF this]
  have "sample_id_decode [] = Inl (Err (InvalidLength 0 12))" by (simp only: list.size)
  with a show ?thesis ..
qed

text \<open>An identifier converts to a content identifier without panic and back to itself, and
  content identifiers of different kinds are not confused: the one of a row is not
  accepted as one of a sample.\<close>

theorem shwap_cid_roundtrip:
  assumes "cid_lib_ok L" "sample_id_ok i" "row_id_ok r" "row_namespace_data_id_ok d"
  shows "(\<exists>c. sample_id_into_cid L i = (Inr c :: ('e, 'c) result) \<and> sample_id_try_from L c = Inr i) \<and>
    (\<exists>c. row_id_into_cid L r = (Inr c :: ('e, 'c) result) \<and> row_id_try_from L c = Inr r \<and>
      sample_id_try_from L c = Inl (Err (InvalidCidCodec 0x7800))) \<and>
    (\<exists>c. row_namespace_data_id_into_cid L d = (Inr c :: ('e, 'c) result) \<and>
      row_namespace_data_id_try_from L c = Inr d)"
proof (intro conjI)
  obtain c where "sample_id_into_cid L i = (Inr c :: ('e, 'c) result)" "sample_id_try_from L c = Inr i"
    using sample_cid_back [OF assms(1,2)] by blast
  then show "\<exists>c. sample_id_into_cid L i = (Inr c :: ('e, 'c) result) \<and> sample_id_try_from L c = Inr i" by blast
  obtain c where c: "row_id_into_cid L r = (Inr c :: ('e, 'c) result)" "row_id_try_from L c = Inr r"
    "cid_codec L c = ROW_ID_CODEC"
    using row_cid_back [OF assms(1,3)] by blast
  then have "sample_id_try_from L c = Inl (Err (InvalidCidCodec 0x7800))"
    by (simp add: sample_id_try_from_def SAMPLE_ID_CODEC_def ROW_ID_CODEC_def)
  with c show "\<exists>c. row_id_into_cid L r = (Inr c :: ('e, 'c) result) \<and> row_id_try_from L c = Inr r \<and>
      sample_id_try_from L c = Inl (Err (InvalidCidCodec 0x7800))" by blast
  obtain c where "row_namespace_data_id_into_cid L d = (Inr c :: ('e, 'c) result)"
    "row_namespace_data_id_try_from L c = Inr d"
    using row_ns_cid_back [OF assms(1,4)] by blast
  then show "\<exists>c. row_namespace_data_id_into_cid L d = (Inr c :: ('e, 'c) result) \<and>
      row_namespace_data_id_try_from L c = Inr d" by blast
qed

theorem shwap_cid_roundtrip_witness:
  "\<exists>c. sample_id_into_cid pair_cid_lib \<lparr>sid_row_id = \<lparr>rid_eds_id = \<lparr>eid_height = 64\<rparr>, rid_index = 7\<rparr>, sid_column_index = 5\<rparr> =
      (Inr c :: (unit, nat \<times> nat \<times> byte list) result) \<and>
    sample_id_try_from pair_cid_lib c =
      Inr \<lparr>sid_row_id = \<lparr>rid_eds_id = \<lparr>eid_height = 64\<rparr>, rid_index = 7\<rparr>, sid_column_index = 5\<rparr>"
proof -
  let ?r = "\<lparr>rid_eds_id = \<lparr>eid_height = 64\<rparr>, rid_index = 7\<rparr>"
  have r: "row_id_ok ?r" by (simp add: row_id_ok_def eds_id_ok_def u64_max_def)
  have "sample_id_ok \<lparr>sid_row_id = ?r, sid_column_index = 5\<rparr>"
    "row_namespace_data_id_ok \<lparr>rnid_row_id = ?r, rnid_namespace = TAIL_PADDING\<rparr>"
    using r by (simp_all add: sample_id_ok_def row_namespace_data_id_ok_def TAIL_PADDING_def)
  from shwap_cid_roundtrip [OF pair_cid_lib_ok this(1) r this(2)] show ?thesis by blast
qed

end
