(* ===== verification/Daser.thy ===== *)
theory Daser
  imports Node_Types Shwap_Ids "HOL-Library.Monad_Syntax"
begin

text \<open>
  The sampler of \<open>node/src/daser.rs\<close>: the worker that requests random shares of the stored blocks
  and records which blocks are sampled. The record \<open>daser\<close> is its state; a running sampling is a
  \<open>sampling_fut\<close>. Random numbers, the clock, the answers of the network and the crates for content
  identifiers are arguments. Two loops of the code have no bound of their own: the search for
  a header to sample and the drawing of random shares. They are partial functions, whose value
  \<open>None\<close> means that they do not return.
\<close>

section \<open>Requests for samples\<close>

text \<open>\<open>sample_cid\<close> and \<open>convert_cid\<close> of \<open>p2p/shwap.rs\<close>; the conversion of the crate \<open>beetswap\<close> is an
  argument.\<close>

definition convert_cid :: "('c \<Rightarrow> cid option) \<Rightarrow> 'c \<Rightarrow> (p2p_error, cid) result" where
  "convert_cid conv c = ok_or (Cid ''InvalidMultihashLength(64)'') (conv c)"

definition sample_cid ::
  "('m, 'c) cid_lib \<Rightarrow> ('c \<Rightarrow> cid option) \<Rightarrow> nat \<Rightarrow> nat \<Rightarrow> nat \<Rightarrow> (p2p_error, cid) result"
where
  "sample_cid L conv row_index column_index block_height =
     bind_r (map_err CelestiaTypes (sample_id_new row_index column_index block_height)) (\<lambda>sample_id.
     bind_r (sample_id_into_cid L sample_id) (convert_cid conv))"

section \<open>State\<close>

definition MAX_SAMPLES_NEEDED :: nat where
  "MAX_SAMPLES_NEEDED = 16"

definition GET_SAMPLE_MIN_TIMEOUT :: duration where
  "GET_SAMPLE_MIN_TIMEOUT = 10 * 10 ^ 9"

definition PRUNER_THRESHOLD :: nat where
  "PRUNER_THRESHOLD = 512"

definition DEFAULT_CONCURENCY_LIMIT :: nat where
  "DEFAULT_CONCURENCY_LIMIT = 3"

definition DEFAULT_ADDITIONAL_HEADER_SUB_CONCURENCY :: nat where
  "DEFAULT_ADDITIONAL_HEADER_SUB_CONCURENCY = 5"

datatype daser_error =
    DaserP2p p2p_error
  | DaserStore store_error
  | DaserWorkerDied
  | DaserChannelClosedUnexpectedly

datatype daser_cmd =
    UpdateHighestPrunableHeight nat
  | UpdateNumberOfPrunableBlocks nat
  | WantToPrune nat

text \<open>A sampling: what its future has captured, whether it has been polled, the timeout it has
  given to its requests, the requests that are still running, and whether one has timed out.\<close>

record sampling_fut =
  sf_height :: nat
  sf_square_width :: nat
  sf_header_time :: time
  sf_indexes :: "(nat \<times> nat) list"
  sf_started :: bool
  sf_timeout :: duration
  sf_pending :: "(nat \<times> nat) list"
  sf_timed_out :: bool

record 's daser =
  da_store :: 's
  da_max_samples_needed :: nat
  da_sampling_futs :: "sampling_fut list"
  da_queue :: block_ranges
  da_timed_out :: block_ranges
  da_ongoing :: block_ranges
  da_will_be_pruned :: block_ranges
  da_sampling_window :: duration
  da_concurrency_limit :: nat
  da_additional_headersub_concurency :: nat
  da_head_height :: "nat option"
  da_highest_prunable_height :: "nat option"
  da_num_of_prunable_blocks :: nat
  da_events :: "node_event list"

definition daser_new :: "'s \<Rightarrow> duration \<Rightarrow> nat \<Rightarrow> nat \<Rightarrow> 's daser" where
  "daser_new store sampling_window concurrency_limit additional_headersub_concurrency =
     \<lparr>da_store = store, da_max_samples_needed = MAX_SAMPLES_NEEDED, da_sampling_futs = [],
      da_queue = [], da_timed_out = [], da_ongoing = [], da_will_be_pruned = [],
      da_sampling_window = sampling_window, da_concurrency_limit = concurrency_limit,
      da_additional_headersub_concurency = additional_headersub_concurrency,
      da_head_height = None, da_highest_prunable_height = None, da_num_of_prunable_blocks = 0,
      da_events = []\<rparr>"

definition da_publish :: "node_event \<Rightarrow> 's daser \<Rightarrow> 's daser" where
  "da_publish e w = w\<lparr>da_events := da_events w @ [e]\<rparr>"

text \<open>What the worker meets during one turn: the crates, the clock and the random numbers of each
  round of scheduling.\<close>

record ('m, 'c) da_env =
  de_lib :: "('m, 'c) cid_lib"
  de_conv :: "'c \<Rightarrow> cid option"
  de_now :: "nat \<Rightarrow> time"
  de_rng :: "nat \<Rightarrow> nat \<Rightarrow> nat"

section \<open>Shares and timeouts\<close>

partial_function (option) random_loop ::
  "(nat \<Rightarrow> nat) \<Rightarrow> nat \<Rightarrow> nat \<Rightarrow> nat \<Rightarrow> (nat \<times> nat) list \<Rightarrow> (nat \<times> nat) list option"
where
  "random_loop rng k square_width max_samples_needed indexes =
     (if length indexes < max_samples_needed then
        let p = (rng (2 * k) mod square_width, rng (2 * k + 1) mod square_width) in
        random_loop rng (k + 1) square_width max_samples_needed
          (if p \<in> set indexes then indexes else indexes @ [p])
      else Some indexes)"

text \<open>The hash set of the code is a list without repetition. A square of width 0 takes the first
  branch, so the remainders are never taken by 0.\<close>

definition random_indexes :: "(nat \<Rightarrow> nat) \<Rightarrow> nat \<Rightarrow> nat \<Rightarrow> (nat \<times> nat) list option" where
  "random_indexes rng square_width max_samples_needed =
     (if square_width ^ 2 \<le> max_samples_needed
      then Some (concat (map (\<lambda>row. map (\<lambda>col. (row, col)) [0..<square_width]) [0..<square_width]))
      else random_loop rng 0 square_width max_samples_needed [])"

definition calc_timeout :: "time \<Rightarrow> time \<Rightarrow> duration \<Rightarrow> duration" where
  "calc_timeout header_time now sampling_window =
     (let sampling_window_end = time_saturating_sub now sampling_window in
      max (if sampling_window_end \<le> header_time then header_time - sampling_window_end
           else GET_SAMPLE_MIN_TIMEOUT) GET_SAMPLE_MIN_TIMEOUT)"

definition da_in_sampling_window :: "time \<Rightarrow> time \<Rightarrow> 's daser \<Rightarrow> bool" where
  "da_in_sampling_window now t w \<longleftrightarrow> now < t \<or> now - t \<le> da_sampling_window w"

section \<open>Commands of the pruner\<close>

definition on_want_to_prune :: "nat \<Rightarrow> 's daser \<Rightarrow> (daser_error, bool) result \<times> 's daser" where
  "on_want_to_prune height w =
     (if br_contains (da_ongoing w) height then (Inr False, w)
      else case expect_r ''invalid height'' (remove_relaxed (da_queue w) (Rng height height)) of
          Inl e \<Rightarrow> (Inl e, w)
        | Inr queue \<Rightarrow>
          let w1 = w\<lparr>da_queue := queue\<rparr> in
          (case expect_r ''invalid height'' (insert_relaxed (da_will_be_pruned w1) (Rng height height)) of
             Inl e \<Rightarrow> (Inl e, w1)
           | Inr will_be_pruned \<Rightarrow> (Inr True, w1\<lparr>da_will_be_pruned := will_be_pruned\<rparr>)))"

text \<open>The answer to a command, for the ones that are answered.\<close>

definition da_on_cmd :: "daser_cmd \<Rightarrow> 's daser \<Rightarrow> (daser_error, bool option) result \<times> 's daser" where
  "da_on_cmd cmd w = (case cmd of
      WantToPrune height \<Rightarrow>
        (case on_want_to_prune height w of (r, w1) \<Rightarrow> (bind_r r (\<lambda>b. Inr (Some b)), w1))
    | UpdateHighestPrunableHeight value \<Rightarrow> (Inr None, w\<lparr>da_highest_prunable_height := Some value\<rparr>)
    | UpdateNumberOfPrunableBlocks value \<Rightarrow> (Inr None, w\<lparr>da_num_of_prunable_blocks := value\<rparr>))"

section \<open>Scheduling\<close>

definition update_queue :: "'s store_ops \<Rightarrow> 's daser \<Rightarrow> (daser_error, unit) result \<times> 's daser" where
  "update_queue ops w =
     (case map_err DaserStore (bind_r (st_get_stored_header_ranges ops (da_store w)) (\<lambda>stored.
        bind_r (st_get_sampled_ranges ops (da_store w)) (\<lambda>sampled. Inr (stored, sampled)))) of
        Inl e \<Rightarrow> (Inl e, w)
      | Inr (stored, sampled) \<Rightarrow>
        let w1 = w\<lparr>da_head_height := br_head stored\<rparr> in
        (case fold_r (\<lambda>b x. br_sub x b) [sampled, da_timed_out w1, da_ongoing w1, da_will_be_pruned w1] stored of
           Inl e \<Rightarrow> (Inl e, w1)
         | Inr queue \<Rightarrow> (Inr (), w1\<lparr>da_queue := queue\<rparr>)))"

definition sampling_limit :: "nat \<Rightarrow> 's daser \<Rightarrow> (daser_error, nat) result" where
  "sampling_limit height w =
     (if height \<le> (case da_highest_prunable_height w of None \<Rightarrow> 0 | Some h \<Rightarrow> h) \<and>
         da_num_of_prunable_blocks w \<ge> PRUNER_THRESHOLD then Inr 0
      else if height = (case da_head_height w of None \<Rightarrow> 0 | Some h \<Rightarrow> h)
      then add_u64 (da_concurrency_limit w) (da_additional_headersub_concurency w)
      else Inr (da_concurrency_limit w))"

definition put_back :: "nat \<Rightarrow> 's daser \<Rightarrow> (daser_error, extended_header option) result \<times> 's daser" where
  "put_back height w =
     (case expect_r ''invalid height'' (insert_relaxed (da_queue w) (Rng height height)) of
        Inl e \<Rightarrow> (Inl e, w)
      | Inr queue \<Rightarrow> (Inr None, w\<lparr>da_queue := queue\<rparr>))"

text \<open>The loop that takes the highest height of the queue, until its header is found, the queue is
  empty or the limit is reached.\<close>

partial_function (option) next_sample_header ::
  "'s store_ops \<Rightarrow> 's daser \<Rightarrow> ((daser_error, extended_header option) result \<times> 's daser) option"
where
  "next_sample_header ops w =
     (case pop_head (da_queue w) of
        Inl e \<Rightarrow> Some (Inl e, w)
      | Inr (None, _) \<Rightarrow> Some (Inr None, w)
      | Inr (Some height, queue) \<Rightarrow>
        let w1 = w\<lparr>da_queue := queue\<rparr> in
        (case sampling_limit height w1 of
           Inl e \<Rightarrow> Some (Inl e, w1)
         | Inr concurrency_limit \<Rightarrow>
           if length (da_sampling_futs w1) \<ge> concurrency_limit then Some (put_back height w1)
           else (case st_get_by_height ops height (da_store w1) of
               Inr header \<Rightarrow> Some (Inr (Some header), w1)
             | Inl (Err e) \<Rightarrow>
               if e = NotFound then
                 (case update_queue ops w1 of
                    (Inl e, w2) \<Rightarrow> Some (Inl e, w2)
                  | (Inr _, w2) \<Rightarrow> next_sample_header ops w2)
               else Some (Inl (Err (DaserStore e)), w1)
             | Inl (Panic m) \<Rightarrow> Some (Inl (Panic m), w1))))"

text \<open>A block outside the sampling window: neither it nor a lower one is sampled again.\<close>

definition skip_below :: "nat \<Rightarrow> 's daser \<Rightarrow> (daser_error, bool) result \<times> 's daser" where
  "skip_below height w =
     (case expect_r ''invalid height'' (remove_relaxed (da_queue w) (Rng 1 height)) of
        Inl e \<Rightarrow> (Inl e, w)
      | Inr queue \<Rightarrow>
        let w1 = w\<lparr>da_queue := queue\<rparr> in
        (case expect_r ''invalid height'' (insert_relaxed (da_timed_out w1) (Rng 1 height)) of
           Inl e \<Rightarrow> (Inl e, w1)
         | Inr timed_out \<Rightarrow> (Inr False, w1\<lparr>da_timed_out := timed_out\<rparr>)))"

definition start_sampling ::
  "('m, 'c) cid_lib \<Rightarrow> ('c \<Rightarrow> cid option) \<Rightarrow> 's store_ops \<Rightarrow> extended_header \<Rightarrow> nat \<Rightarrow> (nat \<times> nat) list \<Rightarrow>
   's daser \<Rightarrow> (daser_error, bool) result \<times> 's daser"
where
  "start_sampling L conv ops header square_width share_indexes w =
     (let height = eh_height header in
      case map_err DaserP2p (fold_r (\<lambda>(row, col) cids.
          bind_r (sample_cid L conv row col height) (\<lambda>c. Inr (cids @ [c]))) share_indexes []) of
        Inl e \<Rightarrow> (Inl e, w)
      | Inr cids \<Rightarrow>
        (case st_update_sampling_metadata ops height cids (da_store w) of (res, store) \<Rightarrow>
          let w1 = w\<lparr>da_store := store\<rparr> in
          case map_err DaserStore res of
            Inl e \<Rightarrow> (Inl e, w1)
          | Inr _ \<Rightarrow>
            let w2 = w1\<lparr>da_sampling_futs := da_sampling_futs w1 @
              [\<lparr>sf_height = height, sf_square_width = square_width, sf_header_time = eh_time header,
                sf_indexes = share_indexes, sf_started = False, sf_timeout = 0,
                sf_pending = share_indexes, sf_timed_out = False\<rparr>]\<rparr> in
            (case expect_r ''invalid height'' (insert_relaxed (da_ongoing w2) (Rng height height)) of
               Inl e \<Rightarrow> (Inl e, w2)
             | Inr ongoing \<Rightarrow> (Inr True, w2\<lparr>da_ongoing := ongoing\<rparr>))))"

definition schedule_next_sample_block ::
  "('m, 'c) da_env \<Rightarrow> 's store_ops \<Rightarrow> nat \<Rightarrow> 's daser \<Rightarrow> ((daser_error, bool) result \<times> 's daser) option"
where
  "schedule_next_sample_block env ops k w =
     Option.bind (next_sample_header ops w) (\<lambda>(r, w1).
     case r of
       Inl e \<Rightarrow> Some (Inl e, w1)
     | Inr None \<Rightarrow> Some (Inr False, w1)
     | Inr (Some header) \<Rightarrow>
       (case eh_square_width header of
          Inl e \<Rightarrow> Some (Inl e, w1)
        | Inr square_width \<Rightarrow>
          if \<not> da_in_sampling_window (de_now env k) (eh_time header) w1
          then Some (skip_below (eh_height header) w1)
          else Option.bind (random_indexes (de_rng env k) square_width (da_max_samples_needed w1)) (\<lambda>share_indexes.
            Some (start_sampling (de_lib env) (de_conv env) ops header square_width share_indexes w1))))"

partial_function (option) schedule_all ::
  "('m, 'c) da_env \<Rightarrow> 's store_ops \<Rightarrow> nat \<Rightarrow> 's daser \<Rightarrow> ((daser_error, unit) result \<times> 's daser) option"
where
  "schedule_all env ops k w =
     Option.bind (schedule_next_sample_block env ops k w) (\<lambda>(r, w1).
     case r of
       Inl e \<Rightarrow> Some (Inl e, w1)
     | Inr b \<Rightarrow> if b then schedule_all env ops (k + 1) w1 else Some (Inr (), w1))"

section \<open>Running samplings\<close>

text \<open>The first poll of a future: it announces the sampling and starts the requests.\<close>

definition fut_start :: "time \<Rightarrow> duration \<Rightarrow> sampling_fut \<Rightarrow> sampling_fut" where
  "fut_start now sampling_window f =
     f\<lparr>sf_started := True, sf_timeout := calc_timeout (sf_header_time f) now sampling_window\<rparr>"

definition sampling_started :: "sampling_fut \<Rightarrow> node_event" where
  "sampling_started f = SamplingStarted (sf_height f) (sf_square_width f) (sf_indexes f)"

text \<open>The end of a future, in the \<open>select!\<close> of the connected loop.\<close>

definition on_sampling_done ::
  "'s store_ops \<Rightarrow> nat \<Rightarrow> bool \<Rightarrow> 's daser \<Rightarrow> (daser_error, unit) result \<times> 's daser"
where
  "on_sampling_done ops height timed_out w =
     (case (if timed_out then
              (case expect_r ''invalid height'' (insert_relaxed (da_timed_out w) (Rng height height)) of
                 Inl e \<Rightarrow> (Inl e, w)
               | Inr t \<Rightarrow> (Inr (), w\<lparr>da_timed_out := t\<rparr>))
            else (case st_mark_as_sampled ops height (da_store w) of (res, store) \<Rightarrow>
              (map_err DaserStore res, w\<lparr>da_store := store\<rparr>))) of
        (Inl e, w1) \<Rightarrow> (Inl e, w1)
      | (Inr _, w1) \<Rightarrow>
        (case expect_r ''invalid height'' (remove_relaxed (da_ongoing w1) (Rng height height)) of
           Inl e \<Rightarrow> (Inl e, w1)
         | Inr ongoing \<Rightarrow> (Inr (), w1\<lparr>da_ongoing := ongoing\<rparr>)))"

definition remove_fut :: "nat \<Rightarrow> 's daser \<Rightarrow> 's daser" where
  "remove_fut i w = w\<lparr>da_sampling_futs := take i (da_sampling_futs w) @ drop (Suc i) (da_sampling_futs w)\<rparr>"

definition fut_finish ::
  "'s store_ops \<Rightarrow> nat \<Rightarrow> sampling_fut \<Rightarrow> duration \<Rightarrow> 's daser \<Rightarrow> (daser_error, unit) result \<times> 's daser"
where
  "fut_finish ops i f took w =
     on_sampling_done ops (sf_height f) (sf_timed_out f)
       (remove_fut i (da_publish (SamplingResult (sf_height f) (sf_timed_out f) took) w))"

definition on_fut_start ::
  "'s store_ops \<Rightarrow> nat \<Rightarrow> time \<Rightarrow> duration \<Rightarrow> 's daser \<Rightarrow> (daser_error, unit) result \<times> 's daser"
where
  "on_fut_start ops i now took w =
     (let f = da_sampling_futs w ! i;
          f1 = fut_start now (da_sampling_window w) f;
          w1 = (da_publish (sampling_started f) w)\<lparr>da_sampling_futs := (da_sampling_futs w)[i := f1]\<rparr> in
      if sf_pending f1 = [] then fut_finish ops i f1 took w1 else (Inr (), w1))"

text \<open>The answer to a request for a share: delivered, timed out, or a fatal error, which ends the
  future and the worker.\<close>

definition on_share ::
  "'s store_ops \<Rightarrow> nat \<Rightarrow> nat \<Rightarrow> nat \<Rightarrow> (p2p_error, unit) result \<Rightarrow> duration \<Rightarrow> 's daser \<Rightarrow>
   (daser_error, unit) result \<times> 's daser"
where
  "on_share ops i row column res took w =
     (let f = da_sampling_futs w ! i in
      case (case res of
              Inr _ \<Rightarrow> Inr False
            | Inl (Err e) \<Rightarrow> if e = RequestTimedOut then Inr True else Inl (Err (DaserP2p e))
            | Inl (Panic m) \<Rightarrow> Inl (Panic m)) of
        Inl e \<Rightarrow> (Inl e, remove_fut i w)
      | Inr timed_out \<Rightarrow>
        let f1 = f\<lparr>sf_pending := remove1 (row, column) (sf_pending f), sf_timed_out := timed_out \<or> sf_timed_out f\<rparr>;
            w1 = (da_publish (ShareSamplingResult (sf_height f) (sf_square_width f) row column timed_out) w)
              \<lparr>da_sampling_futs := (da_sampling_futs w)[i := f1]\<rparr> in
        if sf_pending f1 = [] then fut_finish ops i f1 took w1 else (Inr (), w1))"

section \<open>The event loops\<close>

datatype da_phase =
    DaConnecting
  | DaConnected
  | DaStopped
  | DaFailed "daser_error fault"

text \<open>The events of the two \<open>select!\<close> loops; \<open>FutStart\<close> and \<open>Share\<close> are the progress of the sampling
  at a position of the list of futures.\<close>

datatype da_event =
    DaCancel
  | DaPeersChanged nat
  | DaReportTick
  | DaCmd daser_cmd
  | FutStart nat time duration
  | Share nat nat nat "(p2p_error, unit) result" duration
  | DaNewHead

definition da_report :: "'s store_ops \<Rightarrow> 's daser \<Rightarrow> (daser_error, unit) result \<times> 's daser" where
  "da_report ops w = (bind_r (map_err DaserStore (st_get_sampled_ranges ops (da_store w))) (\<lambda>_. Inr ()), w)"

definition or_da_failed :: "da_phase \<Rightarrow> (daser_error, 'a) result \<times> 's daser \<Rightarrow> da_phase \<times> 's daser" where
  "or_da_failed p m = (case m of (Inl e, w) \<Rightarrow> (DaFailed e, w) | (Inr _, w) \<Rightarrow> (p, w))"

text \<open>The turn of the connected loop that follows a successful handler: as many samplings start as
  are allowed.\<close>

definition da_turn ::
  "('m, 'c) da_env \<Rightarrow> 's store_ops \<Rightarrow> (daser_error, 'a) result \<times> 's daser \<Rightarrow> (da_phase \<times> 's daser) option"
where
  "da_turn env ops m = (case m of
      (Inl e, w) \<Rightarrow> Some (DaFailed e, w)
    | (Inr _, w) \<Rightarrow> Option.bind (schedule_all env ops 0 w) (\<lambda>r. Some (or_da_failed DaConnected r)))"

definition da_enter ::
  "('m, 'c) da_env \<Rightarrow> 's store_ops \<Rightarrow> nat \<Rightarrow> 's daser \<Rightarrow> (da_phase \<times> 's daser) option"
where
  "da_enter env ops num_connected_peers w =
     (if num_connected_peers = 0 then Some (DaConnecting, w)
      else case update_queue ops w of
          (Inl e, w1) \<Rightarrow> Some (DaFailed e, w1)
        | (Inr _, w1) \<Rightarrow> Option.bind (schedule_all env ops 0 w1) (\<lambda>r.
            Some (or_da_failed DaConnected (seq_w r (da_report ops)))))"

definition da_leave :: "'s daser \<Rightarrow> 's daser" where
  "da_leave w = w\<lparr>da_sampling_futs := [], da_queue := [], da_ongoing := [], da_timed_out := [],
     da_head_height := None\<rparr>"

definition da_connecting_event ::
  "('m, 'c) da_env \<Rightarrow> 's store_ops \<Rightarrow> da_event \<Rightarrow> 's daser \<Rightarrow> (da_phase \<times> 's daser) option"
where
  "da_connecting_event env ops ev w = (case ev of
      DaCancel \<Rightarrow> Some (DaStopped, w)
    | DaPeersChanged peers \<Rightarrow> da_enter env ops peers w
    | DaCmd cmd \<Rightarrow> Some (or_da_failed DaConnecting (da_on_cmd cmd w))
    | _ \<Rightarrow> Some (DaConnecting, w))"

definition da_connected_event ::
  "('m, 'c) da_env \<Rightarrow> 's store_ops \<Rightarrow> da_event \<Rightarrow> 's daser \<Rightarrow> (da_phase \<times> 's daser) option"
where
  "da_connected_event env ops ev w = (case ev of
      DaCancel \<Rightarrow> Some (DaStopped, da_leave w)
    | DaPeersChanged peers \<Rightarrow>
      if peers = 0 then Some (DaConnecting, da_leave w) else da_turn env ops (Inr (), w)
    | DaReportTick \<Rightarrow> da_turn env ops (da_report ops w)
    | DaCmd cmd \<Rightarrow> da_turn env ops (da_on_cmd cmd w)
    | FutStart i now took \<Rightarrow>
      if i < length (da_sampling_futs w) \<and> \<not> sf_started (da_sampling_futs w ! i)
      then da_turn env ops (on_fut_start ops i now took w) else Some (DaConnected, w)
    | Share i row column res took \<Rightarrow>
      if i < length (da_sampling_futs w) \<and> sf_started (da_sampling_futs w ! i) \<and>
         (row, column) \<in> set (sf_pending (da_sampling_futs w ! i))
      then da_turn env ops (on_share ops i row column res took w) else Some (DaConnected, w)
    | DaNewHead \<Rightarrow> da_turn env ops (update_queue ops w))"

definition da_event_step ::
  "('m, 'c) da_env \<Rightarrow> 's store_ops \<Rightarrow> da_event \<Rightarrow> da_phase \<times> 's daser \<Rightarrow> (da_phase \<times> 's daser) option"
where
  "da_event_step env ops ev st = (case st of
      (DaConnecting, w) \<Rightarrow> da_connecting_event env ops ev w
    | (DaConnected, w) \<Rightarrow> da_connected_event env ops ev w
    | (p, w) \<Rightarrow> Some (p, w))"

end
