(* ===== verification/Pruner.thy ===== *)
theory Pruner
  imports Daser
begin

text \<open>
  The pruner of \<open>node/src/pruner.rs\<close>: the worker that removes blocks which are outside the pruning
  window. The record \<open>pruner\<close> is its state and \<open>pruner_round\<close> one iteration of its loop. The sampler
  is reached through its commands, the argument \<open>dcmd\<close>, and the crate that stores the sampled
  data is the argument \<open>bs_remove\<close>. The binary search is a partial function, whose value \<open>None\<close> means
  that it does not return.
\<close>

section \<open>State\<close>

definition MAX_PRUNABLE_BATCH_SIZE :: nat where
  "MAX_PRUNABLE_BATCH_SIZE = 512"

datatype pruner_error =
    PrunerP2p p2p_error
  | PrunerStore store_error
  | PrunerBlockstore string
  | PrunerDaser daser_error

record block_info =
  bi_height :: nat
  bi_time :: time

record pcache =
  ca_updated_at :: "time option"
  ca_after_pruning_window :: "nat option"
  ca_after_sampling_window :: "nat option"
  ca_block_info :: "nat \<rightharpoonup> block_info"
  ca_keep_block_info :: "nat set"

record ('s, 'b) pruner =
  pr_store :: 's
  pr_blockstore :: 'b
  pr_block_time :: duration
  pr_pruning_window :: duration
  pr_sampling_window :: duration
  pr_prev_num_of_prunable_blocks :: nat
  pr_cache :: pcache
  pr_events :: "node_event list"

definition pruner_new :: "'s \<Rightarrow> 'b \<Rightarrow> duration \<Rightarrow> duration \<Rightarrow> duration \<Rightarrow> ('s, 'b) pruner" where
  "pruner_new store blockstore block_time pruning_window sampling_window =
     \<lparr>pr_store = store, pr_blockstore = blockstore, pr_block_time = block_time,
      pr_pruning_window = pruning_window, pr_sampling_window = sampling_window,
      pr_prev_num_of_prunable_blocks = 0,
      pr_cache = \<lparr>ca_updated_at = None, ca_after_pruning_window = None, ca_after_sampling_window = None,
        ca_block_info = Map.empty, ca_keep_block_info = {}\<rparr>,
      pr_events = []\<rparr>"

text \<open>The handle of the sampler: its commands, and the two methods the pruner calls.\<close>

type_synonym 'd daser_handle = "daser_cmd \<Rightarrow> 'd \<Rightarrow> (daser_error, bool option) result \<times> 'd"

definition want_to_prune :: "'d daser_handle \<Rightarrow> nat \<Rightarrow> 'd \<Rightarrow> (daser_error, bool) result \<times> 'd" where
  "want_to_prune dcmd height d = (case dcmd (WantToPrune height) d of
      (Inl e, d1) \<Rightarrow> (Inl e, d1)
    | (Inr None, d1) \<Rightarrow> (Inl (Err DaserChannelClosedUnexpectedly), d1)
    | (Inr (Some b), d1) \<Rightarrow> (Inr b, d1))"

definition send_update :: "'d daser_handle \<Rightarrow> daser_cmd \<Rightarrow> 'd \<Rightarrow> (pruner_error, unit) result \<times> 'd" where
  "send_update dcmd c d = (case dcmd c d of (r, d1) \<Rightarrow> (map_err PrunerDaser (bind_r r (\<lambda>_. Inr ())), d1))"

text \<open>The handle of the modelled sampler. A worker that has ended takes no command; one that ends
  while it handles the command never answers.\<close>

definition da_handle :: "(da_phase \<times> 's daser) daser_handle" where
  "da_handle cmd st = (case st of (p, w) \<Rightarrow>
     (case p of
        DaStopped \<Rightarrow> (Inl (Err DaserWorkerDied), (p, w))
      | DaFailed _ \<Rightarrow> (Inl (Err DaserWorkerDied), (p, w))
      | _ \<Rightarrow> ((case fst (da_on_cmd cmd w) of
                Inl _ \<Rightarrow> Inl (Err DaserChannelClosedUnexpectedly) | Inr b \<Rightarrow> Inr b),
             or_da_failed p (da_on_cmd cmd w))))"

section \<open>The cache\<close>

definition garbage_collect :: "pcache \<Rightarrow> pcache" where
  "garbage_collect ca = ca\<lparr>ca_block_info := (\<lambda>height.
     if ca_after_pruning_window ca = Some height \<or> ca_after_sampling_window ca = Some height \<or>
        height \<in> ca_keep_block_info ca then ca_block_info ca height else None)\<rparr>"

definition get_block_info ::
  "'s store_ops \<Rightarrow> 's \<Rightarrow> nat \<Rightarrow> pcache \<Rightarrow> (pruner_error, block_info) result \<times> pcache"
where
  "get_block_info ops store height ca = (case ca_block_info ca height of
      Some info \<Rightarrow> (Inr info, ca)
    | None \<Rightarrow>
      (case map_err PrunerStore (st_get_by_height ops height store) of
         Inl e \<Rightarrow> (Inl e, ca)
       | Inr header \<Rightarrow>
         let info = \<lparr>bi_height = eh_height header, bi_time = eh_time header\<rparr> in
         (Inr info, ca\<lparr>ca_block_info := (ca_block_info ca)(height \<mapsto> info)\<rparr>)))"

section \<open>The first height after a window\<close>

text \<open>The answer of the fast search is \<open>None\<close> when the binary search is needed.\<close>

definition find_height_after_window_fast ::
  "'s store_ops \<Rightarrow> 's \<Rightarrow> block_ranges \<Rightarrow> time \<Rightarrow> nat option \<Rightarrow> pcache \<Rightarrow>
   (pruner_error, nat option option) result \<times> pcache"
where
  "find_height_after_window_fast ops store stored_headers cutoff prev_after_window ca =
     (case prev_after_window of
        Some prev \<Rightarrow>
          let known = (if br_contains stored_headers prev then Some prev else left_of stored_headers prev) in
          (case right_of stored_headers prev of
             Some right_of_after_window \<Rightarrow>
               (case get_block_info ops store right_of_after_window ca of
                  (Inl e, ca1) \<Rightarrow> (Inl e, ca1)
                | (Inr info, ca1) \<Rightarrow>
                  if cutoff < bi_time info then (Inr (Some known), ca1)
                  else (case right_of stored_headers right_of_after_window of
                      Some right_of_right \<Rightarrow>
                        (case get_block_info ops store right_of_right ca1 of
                           (Inl e, ca2) \<Rightarrow> (Inl e, ca2)
                         | (Inr info2, ca2) \<Rightarrow>
                           if cutoff < bi_time info2 then (Inr (Some (Some right_of_after_window)), ca2)
                           else (Inr None, ca2))
                    | None \<Rightarrow> (Inr (Some (Some right_of_after_window)), ca1)))
           | None \<Rightarrow> (Inr (Some known), ca))
      | None \<Rightarrow>
          (case br_tail stored_headers of
             None \<Rightarrow> (Inr (Some None), ca)
           | Some tail \<Rightarrow>
             (case get_block_info ops store tail ca of
                (Inl e, ca1) \<Rightarrow> (Inl e, ca1)
              | (Inr info, ca1) \<Rightarrow>
                if cutoff < bi_time info then (Inr (Some None), ca1) else (Inr None, ca1))))"

partial_function (option) slow_loop ::
  "'s store_ops \<Rightarrow> 's \<Rightarrow> time \<Rightarrow> block_ranges \<Rightarrow> block_info option \<Rightarrow> pcache \<Rightarrow>
   ((pruner_error, block_info option) result \<times> pcache) option"
where
  "slow_loop ops store cutoff ranges highest ca =
     (case partitions ranges of
        Inl e \<Rightarrow> Some (Inl e, ca)
      | Inr None \<Rightarrow> Some (Inr highest, ca)
      | Inr (Some (left, middle, right)) \<Rightarrow>
        (case get_block_info ops store middle ca of
           (Inl e, ca1) \<Rightarrow> Some (Inl e, ca1)
         | (Inr info, ca1) \<Rightarrow>
           if bi_time info < cutoff then
             slow_loop ops store cutoff right
               (if (case highest of None \<Rightarrow> True | Some hi \<Rightarrow> bi_time hi < bi_time info) then Some info else highest) ca1
           else slow_loop ops store cutoff left highest ca1))"

definition find_height_after_window_slow ::
  "'s store_ops \<Rightarrow> 's \<Rightarrow> block_ranges \<Rightarrow> time \<Rightarrow> pcache \<Rightarrow> ((pruner_error, nat option) result \<times> pcache) option"
where
  "find_height_after_window_slow ops store stored_headers cutoff ca =
     Option.bind (slow_loop ops store cutoff stored_headers None ca) (\<lambda>(r, ca1).
     Some (bind_r r (\<lambda>highest. Inr (map_option bi_height highest)), ca1))"

definition find_height_after_window ::
  "'s store_ops \<Rightarrow> 's \<Rightarrow> block_ranges \<Rightarrow> time \<Rightarrow> nat option \<Rightarrow> pcache \<Rightarrow>
   ((pruner_error, nat option) result \<times> pcache) option"
where
  "find_height_after_window ops store stored_headers cutoff prev_after_window ca =
     (case find_height_after_window_fast ops store stored_headers cutoff prev_after_window ca of
        (Inl e, ca1) \<Rightarrow> Some (Inl e, ca1)
      | (Inr (Some res), ca1) \<Rightarrow> Some (Inr res, ca1)
      | (Inr None, ca1) \<Rightarrow> find_height_after_window_slow ops store stored_headers cutoff ca1)"

section \<open>Updating the cache\<close>

text \<open>The order of \<open>Option<u64>\<close>.\<close>

fun opt_less :: "nat option \<Rightarrow> nat option \<Rightarrow> bool" where
  "opt_less None None = False"
| "opt_less None (Some _) = True"
| "opt_less (Some _) None = False"
| "opt_less (Some a) (Some b) = (a < b)"

definition right_of_opt :: "block_ranges \<Rightarrow> nat option \<Rightarrow> nat set" where
  "right_of_opt stored_blocks h = (case h of None \<Rightarrow> {} | Some height \<Rightarrow> set_option (right_of stored_blocks height))"

text \<open>The end of the update: which infos are kept.\<close>

definition refresh_cache :: "block_ranges \<Rightarrow> time \<Rightarrow> pcache \<Rightarrow> pcache" where
  "refresh_cache stored_blocks instant ca =
     (garbage_collect (ca\<lparr>ca_keep_block_info := set_option (br_tail stored_blocks) \<union>
        right_of_opt stored_blocks (ca_after_sampling_window ca) \<union>
        right_of_opt stored_blocks (ca_after_pruning_window ca)\<rparr>))\<lparr>ca_updated_at := Some instant\<rparr>"

definition recently_updated :: "time \<Rightarrow> duration \<Rightarrow> pcache \<Rightarrow> bool" where
  "recently_updated instant update_after ca = (case ca_updated_at ca of
      None \<Rightarrow> False | Some updated_at \<Rightarrow> max 0 (instant - updated_at) < update_after)"

definition update_cached_data ::
  "'s store_ops \<Rightarrow> 'd daser_handle \<Rightarrow> time \<Rightarrow> block_ranges \<Rightarrow> time \<Rightarrow> time \<Rightarrow> ('s, 'b) pruner \<Rightarrow> 'd \<Rightarrow>
   ((pruner_error, unit) result \<times> ('s, 'b) pruner \<times> 'd) option"
where
  "update_cached_data ops dcmd instant stored_blocks sampling_cutoff pruning_cutoff w d =
     (let update_after = min (10 ^ 9) (pr_block_time w); ca = pr_cache w in
      if recently_updated instant update_after ca then Some (Inr (), w, d)
      else Option.bind (find_height_after_window ops (pr_store w) stored_blocks sampling_cutoff
          (ca_after_sampling_window ca) ca) (\<lambda>(r1, ca1).
        case r1 of
          Inl e \<Rightarrow> Some (Inl e, w\<lparr>pr_cache := ca1\<rparr>, d)
        | Inr after_sampling_window \<Rightarrow>
          Option.bind (find_height_after_window ops (pr_store w) stored_blocks pruning_cutoff
            (ca_after_pruning_window ca1) ca1) (\<lambda>(r2, ca2).
          case r2 of
            Inl e \<Rightarrow> Some (Inl e, w\<lparr>pr_cache := ca2\<rparr>, d)
          | Inr after_pruning_window \<Rightarrow>
            let ca3 = (if opt_less (ca_after_sampling_window ca2) after_sampling_window
                       then ca2\<lparr>ca_after_sampling_window := after_sampling_window\<rparr> else ca2) in
            if opt_less (ca_after_pruning_window ca3) after_pruning_window then
              let ca4 = ca3\<lparr>ca_after_pruning_window := after_pruning_window\<rparr> in
              (case (case after_pruning_window of
                       None \<Rightarrow> (Inr (), d)
                     | Some height \<Rightarrow> send_update dcmd (UpdateHighestPrunableHeight height) d) of
                 (Inl e, d1) \<Rightarrow> Some (Inl e, w\<lparr>pr_cache := ca4\<rparr>, d1)
               | (Inr _, d1) \<Rightarrow> Some (Inr (), w\<lparr>pr_cache := refresh_cache stored_blocks instant ca4\<rparr>, d1))
            else Some (Inr (), w\<lparr>pr_cache := refresh_cache stored_blocks instant ca3\<rparr>, d))))"

section \<open>The next batch\<close>

text \<open>The heights up to a height that is after a window.\<close>

definition window_area :: "nat option \<Rightarrow> (pruner_error, block_ranges) result" where
  "window_area h = (case h of None \<Rightarrow> Inr [] | Some height \<Rightarrow> expect_r ''never fails'' (try_from_range (Rng 1 height)))"

text \<open>The blocks that may be removed: those after both windows, and the sampled ones after the
  pruning window that are not edges.\<close>

definition prune_candidates ::
  "pcache \<Rightarrow> block_ranges \<Rightarrow> block_ranges \<Rightarrow> block_ranges \<Rightarrow> (pruner_error, block_ranges \<times> block_ranges) result"
where
  "prune_candidates ca stored_ranges pruned_ranges sampled_ranges =
     bind_r (window_area (ca_after_sampling_window ca)) (\<lambda>non_sampling_area.
     bind_r (window_area (ca_after_pruning_window ca)) (\<lambda>prunable_area.
     bind_r (br_add pruned_ranges stored_ranges) (\<lambda>synced_ranges.
     bind_r (edges synced_ranges) (\<lambda>edge_ranges.
     bind_r (br_and stored_ranges prunable_area) (\<lambda>candidates.
     bind_r (br_and candidates non_sampling_area) (\<lambda>after_sampling_window.
     bind_r (br_sub candidates after_sampling_window) (\<lambda>within.
     bind_r (br_sub within edge_ranges) (\<lambda>inner.
     bind_r (br_and inner sampled_ranges) (\<lambda>prunable_and_sampled.
     Inr (after_sampling_window, prunable_and_sampled))))))))))"

lemma pop_head_less:
  assumes "pop_head rs = Inr (Some h, rs')"
  shows "sum_list (map (Suc \<circ> rend) rs') < sum_list (map (Suc \<circ> rend) rs)"
proof (cases rs rule: rev_cases)
  case Nil
  with assms show ?thesis by (simp add: pop_head_def)
next
  case (snoc xs r)
  with assms show ?thesis by (auto simp: pop_head_def sub_u64_def split: if_splits)
qed

text \<open>One iteration of the loop over the blocks after both windows, from the highest down: a sampled
  block is taken, for another the sampler is asked. The result is what remains and the batch, or
  \<open>None\<close> at the end of the loop.\<close>

definition ask_step ::
  "'d daser_handle \<Rightarrow> block_ranges \<Rightarrow> block_ranges \<Rightarrow> block_ranges \<Rightarrow> 'd \<Rightarrow>
   (pruner_error, (block_ranges \<times> block_ranges) option) result \<times> 'd"
where
  "ask_step dcmd sampled_ranges remaining batch d =
     (case pop_head remaining of
        Inl e \<Rightarrow> (Inl e, d)
      | Inr (None, _) \<Rightarrow> (Inr None, d)
      | Inr (Some height, remaining1) \<Rightarrow>
        (case br_len batch of
           Inl e \<Rightarrow> (Inl e, d)
         | Inr n \<Rightarrow>
           if n = MAX_PRUNABLE_BATCH_SIZE then (Inr None, d)
           else (case (if br_contains sampled_ranges height then (Inr True, d)
                       else want_to_prune dcmd height d) of
               (Inl e, d1) \<Rightarrow> (map_err PrunerDaser (Inl e), d1)
             | (Inr b, d1) \<Rightarrow>
               if b then
                 (case expect_r ''never fails'' (insert_relaxed batch (Rng height height)) of
                    Inl e \<Rightarrow> (Inl e, d1)
                  | Inr batch1 \<Rightarrow> (Inr (Some (remaining1, batch1)), d1))
               else (Inr (Some (remaining1, batch)), d1))))"

lemma ask_step_less:
  assumes "ask_step dcmd sampled remaining batch d = (Inr (Some (remaining1, batch1)), d1)"
  shows "sum_list (map (Suc \<circ> rend) remaining1) < sum_list (map (Suc \<circ> rend) remaining)"
proof -
  from assms obtain h where "pop_head remaining = (Inr (Some h, remaining1) :: (pruner_error, _) result)"
    by (auto simp: ask_step_def split: sum.splits option.splits if_splits prod.splits)
  then show ?thesis by (rule pop_head_less)
qed

function ask_loop ::
  "'d daser_handle \<Rightarrow> block_ranges \<Rightarrow> block_ranges \<Rightarrow> block_ranges \<Rightarrow> 'd \<Rightarrow> (pruner_error, block_ranges) result \<times> 'd"
where
  "ask_loop dcmd sampled_ranges remaining batch d =
     (case ask_step dcmd sampled_ranges remaining batch d of
        (Inl e, d1) \<Rightarrow> (Inl e, d1)
      | (Inr None, d1) \<Rightarrow> (Inr batch, d1)
      | (Inr (Some (remaining1, batch1)), d1) \<Rightarrow> ask_loop dcmd sampled_ranges remaining1 batch1 d1)"
  by pat_completeness auto
termination
  by (relation "measure (\<lambda>(dcmd, sampled, remaining, batch, d). sum_list (map (Suc \<circ> rend) remaining))")
    (auto dest: ask_step_less [OF sym])

declare ask_loop.simps [simp del]

text \<open>What comes before the loop: the ranges of the store, the cached heights, the updates for the
  sampler and the sampled part of the batch. The result is the sampled ranges, the blocks to go
  through, and the batch.\<close>

definition open_batch ::
  "'s store_ops \<Rightarrow> 'd daser_handle \<Rightarrow> time \<Rightarrow> time \<Rightarrow> time \<Rightarrow> ('s, 'b) pruner \<Rightarrow> 'd \<Rightarrow>
   ((pruner_error, block_ranges \<times> block_ranges \<times> block_ranges) result \<times> ('s, 'b) pruner \<times> 'd) option"
where
  "open_batch ops dcmd instant sampling_cutoff pruning_cutoff w d =
     (case map_err PrunerStore (bind_r (st_get_stored_header_ranges ops (pr_store w)) (\<lambda>stored_ranges.
        bind_r (st_get_pruned_ranges ops (pr_store w)) (\<lambda>pruned_ranges.
        bind_r (st_get_sampled_ranges ops (pr_store w)) (\<lambda>sampled_ranges.
        Inr (stored_ranges, pruned_ranges, sampled_ranges))))) of
        Inl e \<Rightarrow> Some (Inl e, w, d)
      | Inr (stored_ranges, pruned_ranges, sampled_ranges) \<Rightarrow>
        Option.bind (update_cached_data ops dcmd instant stored_ranges sampling_cutoff pruning_cutoff w d) (\<lambda>(r, w1, d1).
        case r of
          Inl e \<Rightarrow> Some (Inl e, w1, d1)
        | Inr _ \<Rightarrow>
          (case bind_r (prune_candidates (pr_cache w1) stored_ranges pruned_ranges sampled_ranges) (\<lambda>(a, b).
             bind_r (br_len a) (\<lambda>m. bind_r (br_len b) (\<lambda>n. bind_r (add_u64 m n) (\<lambda>num. Inr (a, b, num))))) of
             Inl e \<Rightarrow> Some (Inl e, w1, d1)
           | Inr (after_sampling_window, prunable_and_sampled, num_of_prunable_blocks) \<Rightarrow>
             (case (if pr_prev_num_of_prunable_blocks w1 \<noteq> num_of_prunable_blocks
                    then send_update dcmd (UpdateNumberOfPrunableBlocks num_of_prunable_blocks) d1 else (Inr (), d1)) of
                (Inl e, d2) \<Rightarrow> Some (Inl e, w1, d2)
              | (Inr _, d2) \<Rightarrow>
                Some (bind_r (br_headn prunable_and_sampled MAX_PRUNABLE_BATCH_SIZE) (\<lambda>prunable_batch.
                    Inr (sampled_ranges, after_sampling_window, prunable_batch)),
                  w1\<lparr>pr_prev_num_of_prunable_blocks := num_of_prunable_blocks\<rparr>, d2)))))"

definition get_next_prunable_batch ::
  "'s store_ops \<Rightarrow> 'd daser_handle \<Rightarrow> time \<Rightarrow> time \<Rightarrow> time \<Rightarrow> ('s, 'b) pruner \<Rightarrow> 'd \<Rightarrow>
   ((pruner_error, block_ranges) result \<times> ('s, 'b) pruner \<times> 'd) option"
where
  "get_next_prunable_batch ops dcmd instant sampling_cutoff pruning_cutoff w d =
     Option.bind (open_batch ops dcmd instant sampling_cutoff pruning_cutoff w d) (\<lambda>(r, w1, d1).
     case r of
       Inl e \<Rightarrow> Some (Inl e, w1, d1)
     | Inr (sampled_ranges, after_sampling_window, prunable_batch) \<Rightarrow>
       (case ask_loop dcmd sampled_ranges after_sampling_window prunable_batch d1 of
          (res, d2) \<Rightarrow> Some (res, w1, d2)))"

section \<open>Pruning\<close>

fun remove_cids ::
  "(cid \<Rightarrow> 'b \<Rightarrow> (string, unit) result \<times> 'b) \<Rightarrow> cid list \<Rightarrow> ('s, 'b) pruner \<Rightarrow>
   (pruner_error, unit) result \<times> ('s, 'b) pruner"
where
  "remove_cids bs_remove [] w = (Inr (), w)"
| "remove_cids bs_remove (c # cs) w = (case bs_remove c (pr_blockstore w) of (r, b) \<Rightarrow>
     seq_w (map_err PrunerBlockstore r, w\<lparr>pr_blockstore := b\<rparr>) (remove_cids bs_remove cs))"

definition prune_height ::
  "'s store_ops \<Rightarrow> (cid \<Rightarrow> 'b \<Rightarrow> (string, unit) result \<times> 'b) \<Rightarrow> nat \<Rightarrow> ('s, 'b) pruner \<Rightarrow>
   (pruner_error, unit) result \<times> ('s, 'b) pruner"
where
  "prune_height ops bs_remove height w =
     (case map_err PrunerStore (st_get_sampling_metadata ops height (pr_store w)) of
        Inl e \<Rightarrow> (Inl e, w)
      | Inr md \<Rightarrow>
        seq_w (remove_cids bs_remove (case md of None \<Rightarrow> [] | Some m \<Rightarrow> sm_cids m) w) (\<lambda>w1.
          case st_remove_height ops height (pr_store w1) of (r, s) \<Rightarrow>
            (map_err PrunerStore r, w1\<lparr>pr_store := s\<rparr>)))"

text \<open>The inner loop, until the worker is cancelled; it returns the last height it has removed.\<close>

fun prune_heights ::
  "'s store_ops \<Rightarrow> (cid \<Rightarrow> 'b \<Rightarrow> (string, unit) result \<times> 'b) \<Rightarrow> (nat \<Rightarrow> bool) \<Rightarrow> nat list \<Rightarrow> nat option \<Rightarrow>
   ('s, 'b) pruner \<Rightarrow> (pruner_error, nat option) result \<times> ('s, 'b) pruner"
where
  "prune_heights ops bs_remove cancelled [] to_height w = (Inr to_height, w)"
| "prune_heights ops bs_remove cancelled (height # hs) to_height w =
     (if cancelled height then (Inr to_height, w)
      else case prune_height ops bs_remove height w of
          (Inl e, w1) \<Rightarrow> (Inl e, w1)
        | (Inr _, w1) \<Rightarrow> prune_heights ops bs_remove cancelled hs (Some height) w1)"

fun prune_batch ::
  "'s store_ops \<Rightarrow> (cid \<Rightarrow> 'b \<Rightarrow> (string, unit) result \<times> 'b) \<Rightarrow> (nat \<Rightarrow> bool) \<Rightarrow> block_ranges \<Rightarrow>
   ('s, 'b) pruner \<Rightarrow> (pruner_error, unit) result \<times> ('s, 'b) pruner"
where
  "prune_batch ops bs_remove cancelled [] w = (Inr (), w)"
| "prune_batch ops bs_remove cancelled (r # rs) w =
     (case prune_heights ops bs_remove cancelled [rstart r..<Suc (rend r)] None w of
        (Inl e, w1) \<Rightarrow> (Inl e, w1)
      | (Inr to_height, w1) \<Rightarrow>
        prune_batch ops bs_remove cancelled rs (case to_height of
            None \<Rightarrow> w1
          | Some h \<Rightarrow> w1\<lparr>pr_events := pr_events w1 @ [PrunedHeaders (rstart r) h]\<rparr>))"

text \<open>One iteration of the loop: with an empty batch the worker sleeps.\<close>

definition pruner_round ::
  "'s store_ops \<Rightarrow> (cid \<Rightarrow> 'b \<Rightarrow> (string, unit) result \<times> 'b) \<Rightarrow> 'd daser_handle \<Rightarrow> (nat \<Rightarrow> bool) \<Rightarrow> time \<Rightarrow> time \<Rightarrow>
   ('s, 'b) pruner \<Rightarrow> 'd \<Rightarrow> ((pruner_error, unit) result \<times> ('s, 'b) pruner \<times> 'd) option"
where
  "pruner_round ops bs_remove dcmd cancelled now instant w d =
     Option.bind (get_next_prunable_batch ops dcmd instant (time_saturating_sub now (pr_sampling_window w))
       (time_saturating_sub now (pr_pruning_window w)) w d) (\<lambda>(r, w1, d1).
     case r of
       Inl e \<Rightarrow> Some (Inl e, w1, d1)
     | Inr batch \<Rightarrow>
       if br_is_empty batch then Some (Inr (), w1, d1)
       else (case prune_batch ops bs_remove cancelled batch w1 of (res, w2) \<Rightarrow> Some (res, w2, d1)))"

end
