(* ===== verification/In_Memory_Store.thy ===== *)
theory In_Memory_Store
  imports Store_Spec
begin

text \<open>
  \<open>InMemoryStore\<close>, \<open>node/src/store/in_memory_store.rs\<close>: headers by hash, hashes by height,
  and the three range lists. The store simulates the specification as long as no two headers
  share a hash; when they do, a failing insertion leaves part of its headers behind.
\<close>

record mem_store =
  ms_headers :: "hash \<rightharpoonup> extended_header"
  ms_height_to_hash :: "nat \<rightharpoonup> hash"
  ms_header_ranges :: block_ranges
  ms_sampling_data :: "nat \<rightharpoonup> sampling_metadata"
  ms_sampled_ranges :: block_ranges
  ms_pruned_ranges :: block_ranges

definition mem_new :: mem_store where
  "mem_new = \<lparr>ms_headers = Map.empty, ms_height_to_hash = Map.empty, ms_header_ranges = [],
     ms_sampling_data = Map.empty, ms_sampled_ranges = [], ms_pruned_ranges = []\<rparr>"

definition mem_get_head_height :: "mem_store \<Rightarrow> nat store_result" where
  "mem_get_head_height s = ok_or NotFound (br_head (ms_header_ranges s))"

definition mem_contains_hash :: "hash \<Rightarrow> mem_store \<Rightarrow> bool" where
  "mem_contains_hash k s \<longleftrightarrow> ms_headers s k \<noteq> None"

definition mem_get_by_hash :: "hash \<Rightarrow> mem_store \<Rightarrow> extended_header store_result" where
  "mem_get_by_hash k s = ok_or NotFound (ms_headers s k)"

definition mem_contains_height :: "nat \<Rightarrow> mem_store \<Rightarrow> bool" where
  "mem_contains_height h s \<longleftrightarrow> br_contains (ms_header_ranges s) h"

definition mem_get_by_height :: "nat \<Rightarrow> mem_store \<Rightarrow> extended_header store_result" where
  "mem_get_by_height h s = (case ms_height_to_hash s h of
      None \<Rightarrow> Inl (Err NotFound)
    | Some k \<Rightarrow> (case ms_headers s k of
        None \<Rightarrow> Inl (Panic ''inconsistent between header hash and header heights'')
      | Some x \<Rightarrow> Inr x))"

definition mem_get_head :: "mem_store \<Rightarrow> extended_header store_result" where
  "mem_get_head s = bind_r (mem_get_head_height s) (\<lambda>h. mem_get_by_height h s)"

definition mem_neighbour :: "nat \<Rightarrow> mem_store \<Rightarrow> extended_header store_result" where
  "mem_neighbour h s = (case mem_get_by_height h s of
      Inl (Err NotFound) \<Rightarrow> Inl (Panic ''inconsistency between headers and ranges table'')
    | r \<Rightarrow> r)"

definition mem_verify_against_neighbours ::
  "tendermint \<Rightarrow> time \<Rightarrow> mem_store \<Rightarrow> extended_header option \<Rightarrow> extended_header option \<Rightarrow> unit store_result"
where
  "mem_verify_against_neighbours tm now s lowest_header highest_header =
     bind_r (case lowest_header of
         None \<Rightarrow> Inr ()
       | Some l \<Rightarrow>
         bind_r (sub_u64 (eh_height l) 1) (\<lambda>h.
         bind_r (mem_neighbour h s) (\<lambda>prev.
         map_err (\<lambda>e. InsertionFailed (NeighborsVerificationFailed e)) (eh_verify tm now prev l)))) (\<lambda>_.
     case highest_header of
       None \<Rightarrow> Inr ()
     | Some l \<Rightarrow>
       bind_r (add_u64 (eh_height l) 1) (\<lambda>h.
       bind_r (mem_neighbour h s) (\<lambda>next.
       map_err (\<lambda>e. InsertionFailed (NeighborsVerificationFailed e)) (eh_verify tm now l next))))"

fun mem_insert_loop :: "extended_header list \<Rightarrow> mem_store \<Rightarrow> unit store_result \<times> mem_store" where
  "mem_insert_loop [] s = (Inr (), s)"
| "mem_insert_loop (x # xs) s =
     (if ms_headers s (eh_hash x) \<noteq> None
      then (Inl (Err (InsertionFailed (HashExists (eh_hash x)))), s)
      else mem_insert_loop xs (s\<lparr>ms_headers := (ms_headers s)(eh_hash x \<mapsto> x),
             ms_height_to_hash := (ms_height_to_hash s)(eh_height x \<mapsto> eh_hash x)\<rparr>))"

definition mem_insert_verified ::
  "tendermint \<Rightarrow> time \<Rightarrow> extended_header list \<Rightarrow> mem_store \<Rightarrow> unit store_result \<times> mem_store"
where
  "mem_insert_verified tm now headers s =
     (case (vec_first headers, vec_last headers) of
        (Some head, Some tail) \<Rightarrow>
          let headers_range = Rng (eh_height head) (eh_height tail) in
          (case bind_r (map_err (\<lambda>e. InsertionFailed (ConstraintsNotMet e))
                 (check_insertion_constraints (ms_header_ranges s) headers_range))
                 (\<lambda>(prev_exists, next_exists).
                   mem_verify_against_neighbours tm now s
                     (if prev_exists then Some head else None)
                     (if next_exists then Some tail else None)) of
             Inl e \<Rightarrow> (Inl e, s)
           | Inr _ \<Rightarrow>
             (case mem_insert_loop headers s of
                (Inl e, s') \<Rightarrow> (Inl e, s')
              | (Inr _, s') \<Rightarrow>
                (case expect_r ''invalid range'' (insert_relaxed (ms_header_ranges s') headers_range) of
                   Inl e \<Rightarrow> (Inl e, s')
                 | Inr hr \<Rightarrow>
                   (case expect_r ''invalid range'' (remove_relaxed (ms_sampled_ranges s') headers_range) of
                      Inl e \<Rightarrow> (Inl e, s'\<lparr>ms_header_ranges := hr\<rparr>)
                    | Inr sr \<Rightarrow>
                      (case expect_r ''invalid range'' (remove_relaxed (ms_pruned_ranges s') headers_range) of
                         Inl e \<Rightarrow> (Inl e, s'\<lparr>ms_header_ranges := hr, ms_sampled_ranges := sr\<rparr>)
                       | Inr pr \<Rightarrow>
                         (Inr (), s'\<lparr>ms_header_ranges := hr, ms_sampled_ranges := sr,
                            ms_pruned_ranges := pr\<rparr>))))))
      | _ \<Rightarrow> (Inr (), s))"

definition mem_insert ::
  "tendermint \<Rightarrow> time \<Rightarrow> extended_header list \<Rightarrow> mem_store \<Rightarrow> unit store_result \<times> mem_store"
where
  "mem_insert tm now headers s =
     (case map_err (\<lambda>e. InsertionFailed (HeadersVerificationFailed e)) (verified_headers tm now headers) of
        Inl e \<Rightarrow> (Inl e, s)
      | Inr hs \<Rightarrow> mem_insert_verified tm now hs s)"

definition mem_update_sampling_metadata ::
  "nat \<Rightarrow> cid list \<Rightarrow> mem_store \<Rightarrow> unit store_result \<times> mem_store"
where
  "mem_update_sampling_metadata h cids s =
     (if \<not> mem_contains_height h s then (Inl (Err NotFound), s)
      else (Inr (), s\<lparr>ms_sampling_data := (ms_sampling_data s)(h \<mapsto> (case ms_sampling_data s h of
          None \<Rightarrow> \<lparr>sm_cids = cids\<rparr>
        | Some metadata \<Rightarrow> metadata\<lparr>sm_cids := append_cids (sm_cids metadata) cids\<rparr>))\<rparr>))"

definition mem_get_sampling_metadata :: "nat \<Rightarrow> mem_store \<Rightarrow> sampling_metadata option store_result" where
  "mem_get_sampling_metadata h s =
     (if \<not> mem_contains_height h s then Inl (Err NotFound) else Inr (ms_sampling_data s h))"

definition mem_mark_as_sampled :: "nat \<Rightarrow> mem_store \<Rightarrow> unit store_result \<times> mem_store" where
  "mem_mark_as_sampled h s =
     (if \<not> mem_contains_height h s then (Inl (Err NotFound), s)
      else case expect_r ''invalid height'' (insert_relaxed (ms_sampled_ranges s) (Rng h h)) of
          Inl e \<Rightarrow> (Inl e, s)
        | Inr sampled \<Rightarrow> (Inr (), s\<lparr>ms_sampled_ranges := sampled\<rparr>))"

definition mem_remove_height :: "nat \<Rightarrow> mem_store \<Rightarrow> unit store_result \<times> mem_store" where
  "mem_remove_height h s =
     (if \<not> br_contains (ms_header_ranges s) h then (Inl (Err NotFound), s)
      else case ms_height_to_hash s h of
        None \<Rightarrow> (Inl (Err (StoredDataError ''inconsistency between ranges and height_to_hash tables'')), s)
      | Some k \<Rightarrow>
        if ms_headers s k = None
        then (Inl (Err (StoredDataError ''inconsistency between header and height_to_hash tables'')), s)
        else
          let s1 = s\<lparr>ms_sampling_data := (ms_sampling_data s)(h := None),
                     ms_height_to_hash := (ms_height_to_hash s)(h := None),
                     ms_headers := (ms_headers s)(k := None)\<rparr> in
          (case expect_r ''invalid height'' (remove_relaxed (ms_header_ranges s1) (Rng h h)) of
             Inl e \<Rightarrow> (Inl e, s1)
           | Inr hr \<Rightarrow>
             (case expect_r ''invalid height'' (remove_relaxed (ms_sampled_ranges s1) (Rng h h)) of
                Inl e \<Rightarrow> (Inl e, s1\<lparr>ms_header_ranges := hr\<rparr>)
              | Inr sr \<Rightarrow>
                (case expect_r ''invalid height'' (insert_relaxed (ms_pruned_ranges s1) (Rng h h)) of
                   Inl e \<Rightarrow> (Inl e, s1\<lparr>ms_header_ranges := hr, ms_sampled_ranges := sr\<rparr>)
                 | Inr pr \<Rightarrow>
                   (Inr (), s1\<lparr>ms_header_ranges := hr, ms_sampled_ranges := sr, ms_pruned_ranges := pr\<rparr>)))))"

text \<open>The implementation of the trait.\<close>

definition mem_ops :: "tendermint \<Rightarrow> mem_store store_ops" where
  "mem_ops tm = \<lparr>st_get_head = mem_get_head, st_get_by_hash = mem_get_by_hash,
     st_get_by_height = mem_get_by_height, st_head_height = mem_get_head_height,
     st_has = mem_contains_hash, st_has_at = mem_contains_height,
     st_update_sampling_metadata = mem_update_sampling_metadata,
     st_get_sampling_metadata = mem_get_sampling_metadata,
     st_mark_as_sampled = mem_mark_as_sampled, st_insert = mem_insert tm,
     st_get_stored_header_ranges = (\<lambda>s. Inr (ms_header_ranges s)),
     st_get_sampled_ranges = (\<lambda>s. Inr (ms_sampled_ranges s)),
     st_get_pruned_ranges = (\<lambda>s. Inr (ms_pruned_ranges s)),
     st_remove_height = mem_remove_height\<rparr>"

section \<open>Simulation of the specification\<close>

definition mem_table :: "mem_store \<Rightarrow> nat \<rightharpoonup> extended_header" where
  "mem_table s h = (case ms_height_to_hash s h of None \<Rightarrow> None | Some k \<Rightarrow> ms_headers s k)"

definition mem_abs :: "mem_store \<Rightarrow> store_spec" where
  "mem_abs s = \<lparr>sp_headers = mem_table s, sp_metadata = ms_sampling_data s,
     sp_stored = ms_header_ranges s, sp_sampled = ms_sampled_ranges s,
     sp_pruned = ms_pruned_ranges s\<rparr>"

text \<open>The two tables are inverse to each other.\<close>

definition mem_tables_ok :: "mem_store \<Rightarrow> bool" where
  "mem_tables_ok s \<longleftrightarrow>
     (\<forall>h k. ms_height_to_hash s h = Some k \<longrightarrow>
        (\<exists>x. ms_headers s k = Some x \<and> eh_hash x = k \<and> eh_height x = h)) \<and>
     (\<forall>k x. ms_headers s k = Some x \<longrightarrow> eh_hash x = k \<and> ms_height_to_hash s (eh_height x) = Some k)"

definition mem_invar :: "mem_store \<Rightarrow> bool" where
  "mem_invar s \<longleftrightarrow> mem_tables_ok s \<and> sp_ok (mem_abs s)"

lemma mem_abs_simps [simp]:
  "sp_headers (mem_abs s) = mem_table s" "sp_metadata (mem_abs s) = ms_sampling_data s"
  "sp_stored (mem_abs s) = ms_header_ranges s" "sp_sampled (mem_abs s) = ms_sampled_ranges s"
  "sp_pruned (mem_abs s) = ms_pruned_ranges s"
  by (simp_all add: mem_abs_def)

lemma mem_new_invar [simp]: "mem_invar mem_new" "mem_abs mem_new = sp_new"
proof -
  show "mem_abs mem_new = sp_new"
    by (simp add: mem_abs_def mem_new_def sp_new_def mem_table_def fun_eq_iff)
  then show "mem_invar mem_new" by (simp add: mem_invar_def) (simp add: mem_tables_ok_def mem_new_def)
qed

lemma mem_get_by_height_eq:
  "mem_tables_ok s \<Longrightarrow> mem_get_by_height h s = ok_or NotFound (mem_table s h)"
  by (fastforce simp: mem_get_by_height_def mem_table_def mem_tables_ok_def split: option.splits)

lemma mem_contains_height_iff:
  assumes "mem_invar s"
  shows "mem_contains_height h s \<longleftrightarrow> mem_table s h \<noteq> None"
proof -
  have "br_wf (ms_header_ranges s)" "heights (ms_header_ranges s) = dom (mem_table s)"
    using assms by (auto simp: mem_invar_def sp_ok_def)
  then show ?thesis by (auto simp: mem_contains_height_def)
qed

lemma mem_headers_iff:
  "mem_tables_ok s \<Longrightarrow> ms_headers s k = Some x \<longleftrightarrow> mem_table s (eh_height x) = Some x \<and> eh_hash x = k"
  by (fastforce simp: mem_tables_ok_def mem_table_def split: option.splits)

lemma mem_enter:
  assumes "mem_tables_ok s" "ms_headers s (eh_hash x) = None" "mem_table s (eh_height x) = None"
  defines "s' \<equiv> s\<lparr>ms_headers := (ms_headers s)(eh_hash x \<mapsto> x),
      ms_height_to_hash := (ms_height_to_hash s)(eh_height x \<mapsto> eh_hash x)\<rparr>"
  shows "mem_tables_ok s'" "mem_table s' = (mem_table s)(eh_height x \<mapsto> x)"
proof -
  have new: "ms_height_to_hash s (eh_height x) = None"
    using assms(1,3) by (fastforce simp: mem_tables_ok_def mem_table_def split: option.splits)
  have unused: "ms_height_to_hash s h \<noteq> Some (eh_hash x)" for h
    using assms(1,2) unfolding mem_tables_ok_def by (metis option.distinct(1))
  show "mem_tables_ok s'"
    unfolding mem_tables_ok_def
  proof (intro conjI allI impI)
    fix h k
    assume "ms_height_to_hash s' h = Some k"
    then consider "h = eh_height x" "k = eh_hash x" | "h \<noteq> eh_height x" "ms_height_to_hash s h = Some k"
      by (auto simp: s'_def split: if_splits)
    then show "\<exists>y. ms_headers s' k = Some y \<and> eh_hash y = k \<and> eh_height y = h"
    proof cases
      case 2
      with assms(1) obtain y where "ms_headers s k = Some y" "eh_hash y = k" "eh_height y = h"
        by (auto simp: mem_tables_ok_def)
      with 2 unused show ?thesis by (auto simp: s'_def)
    qed (simp add: s'_def)
  next
    fix k y
    assume "ms_headers s' k = Some y"
    then consider "k = eh_hash x" "y = x" | "k \<noteq> eh_hash x" "ms_headers s k = Some y"
      by (auto simp: s'_def split: if_splits)
    then have "eh_hash y = k \<and> ms_height_to_hash s' (eh_height y) = Some k"
    proof cases
      case 2
      with assms(1) have "eh_hash y = k" "ms_height_to_hash s (eh_height y) = Some k"
        by (auto simp: mem_tables_ok_def)
      with new show ?thesis by (auto simp: s'_def)
    qed (simp add: s'_def)
    then show "eh_hash y = k" "ms_height_to_hash s' (eh_height y) = Some k" by simp_all
  qed
  show "mem_table s' = (mem_table s)(eh_height x \<mapsto> x)"
    using unused by (auto simp: s'_def mem_table_def fun_eq_iff split: option.splits)
qed

lemma mem_fresh_hash:
  "mem_tables_ok s \<Longrightarrow> fresh_hashes (x # hs) (mem_table s) \<Longrightarrow> ms_headers s (eh_hash x) = None"
  using mem_headers_iff [of s "eh_hash x"] by (cases "ms_headers s (eh_hash x)") (auto simp: fresh_hashes_def)

lemma fresh_hashes_Cons:
  "fresh_hashes (x # hs) m \<Longrightarrow> m (eh_height x) = None \<Longrightarrow> fresh_hashes hs (m(eh_height x \<mapsto> x))"
  by (auto simp: fresh_hashes_def split: if_splits)

lemma mem_insert_loop_ok:
  assumes "mem_tables_ok s" "fresh_hashes hs (mem_table s)" "distinct (map eh_height hs)"
    "\<forall>x \<in> set hs. mem_table s (eh_height x) = None"
  shows "\<exists>hd h2h. mem_insert_loop hs s = (Inr (), s\<lparr>ms_headers := hd, ms_height_to_hash := h2h\<rparr>) \<and>
    mem_tables_ok (s\<lparr>ms_headers := hd, ms_height_to_hash := h2h\<rparr>) \<and>
    mem_table (s\<lparr>ms_headers := hd, ms_height_to_hash := h2h\<rparr>) = enter_headers hs (mem_table s)"
  using assms
proof (induction hs arbitrary: s)
  case Nil
  then show ?case by (intro exI [of _ "ms_headers s"] exI [of _ "ms_height_to_hash s"]) simp
next
  case (Cons x hs)
  define s' where "s' = s\<lparr>ms_headers := (ms_headers s)(eh_hash x \<mapsto> x),
      ms_height_to_hash := (ms_height_to_hash s)(eh_height x \<mapsto> eh_hash x)\<rparr>"
  note free = mem_fresh_hash [OF Cons.prems(1,2)]
  have here: "mem_table s (eh_height x) = None" using Cons.prems(4) by simp
  note s' = mem_enter [OF Cons.prems(1) free here, folded s'_def]
  have "fresh_hashes hs (mem_table s')"
    unfolding s'(2) by (rule fresh_hashes_Cons [OF Cons.prems(2) here])
  moreover have "\<forall>y \<in> set hs. mem_table s' (eh_height y) = None"
  proof
    fix y
    assume "y \<in> set hs"
    with Cons.prems(3) have "eh_height y \<noteq> eh_height x" by (metis distinct.simps(2) image_eqI list.map(2) list.set_map)
    with Cons.prems(4) \<open>y \<in> set hs\<close> show "mem_table s' (eh_height y) = None" by (simp add: s'(2))
  qed
  ultimately obtain hd h2h where
    "mem_insert_loop hs s' = (Inr (), s'\<lparr>ms_headers := hd, ms_height_to_hash := h2h\<rparr>)"
    "mem_tables_ok (s'\<lparr>ms_headers := hd, ms_height_to_hash := h2h\<rparr>)"
    "mem_table (s'\<lparr>ms_headers := hd, ms_height_to_hash := h2h\<rparr>) = enter_headers hs (mem_table s')"
    using Cons.IH [OF s'(1)] Cons.prems(3) by auto
  with free s'(2) show ?case
    by (intro exI [of _ hd] exI [of _ h2h]) (simp add: s'_def)
qed

lemma mem_neighbours_eq:
  assumes "mem_tables_ok s"
    "p \<Longrightarrow> 0 < eh_height l \<and> mem_table s (eh_height l - 1) \<noteq> None"
    "n \<Longrightarrow> eh_height u < u64_max \<and> mem_table s (eh_height u + 1) \<noteq> None"
  shows "mem_verify_against_neighbours tm now s (if p then Some l else None) (if n then Some u else None) =
    sp_neighbours tm now (mem_table s) (then_some p l) (then_some n u)"
  using assms(2,3)
  by (auto simp: mem_verify_against_neighbours_def sp_neighbours_def then_some_def verify_err_def
      mem_neighbour_def mem_get_by_height_eq [OF assms(1)])

lemma mem_tables_other [simp]:
  "mem_tables_ok (s\<lparr>ms_header_ranges := a\<rparr>) = mem_tables_ok s"
  "mem_tables_ok (s\<lparr>ms_sampled_ranges := a\<rparr>) = mem_tables_ok s"
  "mem_tables_ok (s\<lparr>ms_pruned_ranges := a\<rparr>) = mem_tables_ok s"
  "mem_tables_ok (s\<lparr>ms_sampling_data := d\<rparr>) = mem_tables_ok s"
  "mem_table (s\<lparr>ms_header_ranges := a\<rparr>) = mem_table s"
  "mem_table (s\<lparr>ms_sampled_ranges := a\<rparr>) = mem_table s"
  "mem_table (s\<lparr>ms_pruned_ranges := a\<rparr>) = mem_table s"
  "mem_table (s\<lparr>ms_sampling_data := d\<rparr>) = mem_table s"
  by (simp_all add: mem_tables_ok_def mem_table_def fun_eq_iff split: option.splits)

text \<open>The check before an insertion is the specification's.\<close>

lemma mem_check_eq:
  assumes "mem_invar s" "successively linked hs" "hs \<noteq> []" "typed_headers hs"
  shows "bind_r (map_err (\<lambda>e. InsertionFailed (ConstraintsNotMet e))
        (check_insertion_constraints (ms_header_ranges s) (span hs)))
      (\<lambda>(prev_exists, next_exists). mem_verify_against_neighbours tm now s
        (if prev_exists then Some (hd hs) else None) (if next_exists then Some (last hs) else None)) =
    sp_check tm now hs (mem_abs s)"
proof (cases "check_insertion_constraints (ms_header_ranges s) (span hs)")
  case (Inl e)
  then show ?thesis by (cases e) (simp_all add: sp_check_def)
next
  case (Inr pn)
  then obtain p n where pn: "check_insertion_constraints (ms_header_ranges s) (span hs) = Inr (p, n)"
    by (cases pn) auto
  have "sp_ok (mem_abs s)" and tab: "mem_tables_ok s" using assms(1) by (simp_all add: mem_invar_def)
  from mem_neighbours_eq [OF tab check_flags [OF this(1) assms(2-4), unfolded mem_abs_simps, OF pn]] pn
  show ?thesis by (simp add: sp_check_def)
qed

lemma mem_insert_sim:
  assumes "mem_invar s" "typed_headers hs" "fresh_hashes hs (mem_table s)"
  shows "mem_invar (snd (mem_insert tm now hs s)) \<and>
    sp_insert tm now hs (mem_abs s) = (fst (mem_insert tm now hs s), mem_abs (snd (mem_insert tm now hs s)))"
proof (cases "verified_headers tm now hs")
  case (Inl e)
  then show ?thesis using assms(1) by (cases e) (simp_all add: mem_insert_def sp_insert_def)
next
  case (Inr hs')
  then have v: "verified_headers tm now hs = Inr hs" and lk: "successively linked hs"
    using verified_headers_Inr [of tm now hs hs'] by auto
  show ?thesis
  proof (cases "hs = []")
    case True
    with v assms(1) show ?thesis by (simp add: mem_insert_def sp_insert_def mem_insert_verified_def)
  next
    case ne: False
    note chk = mem_check_eq [OF assms(1) lk ne assms(2), of tm now]
    show ?thesis
    proof (cases "sp_check tm now hs (mem_abs s)")
      case (Inl e)
      with v ne chk assms(1) show ?thesis
        by (simp add: mem_insert_def sp_insert_def mem_insert_verified_def span_def Let_def)
    next
      case (Inr u)
      have ok: "sp_ok (mem_abs s)" and tab: "mem_tables_ok s" using assms(1) by (simp_all add: mem_invar_def)
      note c = sp_check_Inr [OF ok lk ne assms(2) Inr]
      have "\<forall>x \<in> set hs. mem_table s (eh_height x) = None"
        using c(2) ok span_heights [OF lk ne] by (fastforce simp: insertable_def sp_ok_def)
      from mem_insert_loop_ok [OF tab assms(3) linked_distinct_heights [OF lk] this] obtain hd h2h where
        loop: "mem_insert_loop hs s = (Inr (), s\<lparr>ms_headers := hd, ms_height_to_hash := h2h\<rparr>)"
        "mem_tables_ok (s\<lparr>ms_headers := hd, ms_height_to_hash := h2h\<rparr>)"
        "mem_table (s\<lparr>ms_headers := hd, ms_height_to_hash := h2h\<rparr>) = enter_headers hs (mem_table s)" by blast
      have can: "canonical (ms_header_ranges s)" "canonical (ms_sampled_ranges s)" "canonical (ms_pruned_ranges s)"
        using ok by (auto simp: sp_ok_def)
      from canonical_insert [OF can(1) c(1)] obtain hr where hr: "insert_relaxed (ms_header_ranges s) (span hs) = Inr hr" by blast
      from canonical_remove [OF can(2) c(1)] obtain sr where sr: "remove_relaxed (ms_sampled_ranges s) (span hs) = Inr sr" by blast
      from canonical_remove [OF can(3) c(1)] obtain pr where pr: "remove_relaxed (ms_pruned_ranges s) (span hs) = Inr pr" by blast
      let ?s = "s\<lparr>ms_headers := hd, ms_height_to_hash := h2h, ms_header_ranges := hr,
          ms_sampled_ranges := sr, ms_pruned_ranges := pr\<rparr>"
      have mem: "mem_insert tm now hs s = (Inr (), ?s)"
        using v ne chk Inr loop(1) hr sr pr
        by (simp add: mem_insert_def mem_insert_verified_def span_def Let_def)
      have sp: "sp_insert tm now hs (mem_abs s) = (Inr (), mem_abs ?s)"
        using v ne Inr hr sr pr loop(3)
        by (simp add: sp_insert_def update_ranges_def mem_abs_def)
      have "sp_ok (mem_abs ?s)" using sp_insert_ok [OF ok assms(2), of tm now] assms(3) sp by simp
      with loop(2) mem sp show ?thesis by (simp add: mem_invar_def mem_tables_ok_def)
    qed
  qed
qed

lemma mem_delete:
  assumes "mem_tables_ok s" "ms_height_to_hash s h = Some k"
  defines "s' \<equiv> s\<lparr>ms_height_to_hash := (ms_height_to_hash s)(h := None), ms_headers := (ms_headers s)(k := None)\<rparr>"
  shows "mem_tables_ok s'" "mem_table s' = (mem_table s)(h := None)"
proof -
  from assms(1,2) obtain x where x: "ms_headers s k = Some x" "eh_hash x = k" "eh_height x = h"
    by (auto simp: mem_tables_ok_def)
  have other: "k' \<noteq> k" if "ms_height_to_hash s h' = Some k'" "h' \<noteq> h" for h' k'
  proof
    assume "k' = k"
    with that(1) assms(1) obtain y where "ms_headers s k = Some y" "eh_height y = h'"
      by (auto simp: mem_tables_ok_def)
    with x that(2) show False by simp
  qed
  show "mem_tables_ok s'"
    unfolding mem_tables_ok_def
  proof (intro conjI allI impI)
    fix h' k'
    assume "ms_height_to_hash s' h' = Some k'"
    then have *: "ms_height_to_hash s h' = Some k'" "h' \<noteq> h" by (auto simp: s'_def split: if_splits)
    with assms(1) other [OF *] show "\<exists>y. ms_headers s' k' = Some y \<and> eh_hash y = k' \<and> eh_height y = h'"
      by (auto simp: mem_tables_ok_def s'_def)
  next
    fix k' y
    assume "ms_headers s' k' = Some y"
    then have "ms_headers s k' = Some y" "k' \<noteq> k" by (auto simp: s'_def split: if_splits)
    moreover from this assms(1) have "eh_hash y = k'" "ms_height_to_hash s (eh_height y) = Some k'"
      by (auto simp: mem_tables_ok_def)
    moreover from calculation assms(2) have "eh_height y \<noteq> h" by auto
    ultimately show "eh_hash y = k'" "ms_height_to_hash s' (eh_height y) = Some k'"
      by (auto simp: s'_def)
  qed
  show "mem_table s' = (mem_table s)(h := None)"
    using other by (auto simp: mem_table_def s'_def fun_eq_iff split: option.splits)
qed

lemma mem_table_Some:
  "mem_tables_ok s \<Longrightarrow> mem_table s h = Some x \<Longrightarrow>
   ms_height_to_hash s h = Some (eh_hash x) \<and> ms_headers s (eh_hash x) = Some x"
  by (fastforce simp: mem_table_def mem_tables_ok_def split: option.splits)

lemma mem_remove_height_sim:
  assumes "mem_invar s"
  shows "mem_invar (snd (mem_remove_height h s)) \<and>
    sp_remove_height h (mem_abs s) = (fst (mem_remove_height h s), mem_abs (snd (mem_remove_height h s)))"
proof (cases "mem_table s h")
  case None
  with mem_contains_height_iff [OF assms, of h] assms show ?thesis
    by (simp add: mem_remove_height_def sp_remove_height_def mem_contains_height_def)
next
  case (Some x)
  have ok: "sp_ok (mem_abs s)" and tab: "mem_tables_ok s" using assms by (simp_all add: mem_invar_def)
  note x = mem_table_Some [OF tab Some]
  define s1 where "s1 = s\<lparr>ms_height_to_hash := (ms_height_to_hash s)(h := None),
      ms_headers := (ms_headers s)(eh_hash x := None)\<rparr>"
  note del = mem_delete [OF tab conjunct1 [OF x], folded s1_def]
  from Some have "sp_headers (mem_abs s) h = Some x" by simp
  from sp_remove_height_Some [OF ok this] obtain st sm pr where
    sp: "sp_remove_height h (mem_abs s) = (Inr (), (mem_abs s)\<lparr>sp_headers := (sp_headers (mem_abs s))(h := None),
       sp_metadata := (sp_metadata (mem_abs s))(h := None), sp_stored := st, sp_sampled := sm, sp_pruned := pr\<rparr>)"
    and d: "drop_ranges (ms_header_ranges s) (ms_sampled_ranges s) (ms_pruned_ranges s) h = Inr (st, sm, pr)"
    by (metis mem_abs_simps(3-5))
  let ?s = "s1\<lparr>ms_sampling_data := (ms_sampling_data s)(h := None), ms_header_ranges := st,
      ms_sampled_ranges := sm, ms_pruned_ranges := pr\<rparr>"
  from d have mem: "mem_remove_height h s = (Inr (), ?s)"
    using x Some mem_contains_height_iff [OF assms, of h]
    by (auto simp: mem_remove_height_def mem_contains_height_def drop_ranges_def s1_def Let_def)
  have abs: "mem_abs ?s = (mem_abs s)\<lparr>sp_headers := (sp_headers (mem_abs s))(h := None),
       sp_metadata := (sp_metadata (mem_abs s))(h := None), sp_stored := st, sp_sampled := sm, sp_pruned := pr\<rparr>"
    using del(2) by (simp add: mem_abs_def s1_def)
  have "sp_ok (mem_abs ?s)" using sp_remove_height_ok [OF ok, of h] sp abs by simp
  with mem sp abs del(1) show ?thesis by (simp add: mem_invar_def)
qed

lemma mem_mark_as_sampled_sim:
  assumes "mem_invar s"
  shows "mem_invar (snd (mem_mark_as_sampled h s)) \<and>
    sp_mark_as_sampled h (mem_abs s) = (fst (mem_mark_as_sampled h s), mem_abs (snd (mem_mark_as_sampled h s)))"
proof -
  have sim: "sp_mark_as_sampled h (mem_abs s) = (fst (mem_mark_as_sampled h s), mem_abs (snd (mem_mark_as_sampled h s)))"
    using mem_contains_height_iff [OF assms, of h]
    by (auto simp: sp_mark_as_sampled_def mem_mark_as_sampled_def mem_abs_def split: sum.splits)
  moreover have "mem_tables_ok (snd (mem_mark_as_sampled h s))"
    using assms by (auto simp: mem_mark_as_sampled_def mem_invar_def split: sum.splits)
  moreover have "sp_ok (mem_abs (snd (mem_mark_as_sampled h s)))"
    using sp_mark_as_sampled_ok [of "mem_abs s" h] assms sim by (simp add: mem_invar_def)
  ultimately show ?thesis by (simp add: mem_invar_def)
qed

lemma mem_update_sampling_metadata_sim:
  assumes "mem_invar s"
  shows "mem_invar (snd (mem_update_sampling_metadata h cids s)) \<and>
    sp_update_sampling_metadata h cids (mem_abs s) =
      (fst (mem_update_sampling_metadata h cids s), mem_abs (snd (mem_update_sampling_metadata h cids s)))"
proof -
  have sim: "sp_update_sampling_metadata h cids (mem_abs s) =
      (fst (mem_update_sampling_metadata h cids s), mem_abs (snd (mem_update_sampling_metadata h cids s)))"
    using mem_contains_height_iff [OF assms, of h]
    by (auto simp: sp_update_sampling_metadata_def mem_update_sampling_metadata_def mem_abs_def fun_eq_iff
        split: option.splits)
  moreover have "mem_tables_ok (snd (mem_update_sampling_metadata h cids s))"
    using assms by (auto simp: mem_update_sampling_metadata_def mem_invar_def)
  moreover have "sp_ok (mem_abs (snd (mem_update_sampling_metadata h cids s)))"
    using sp_update_sampling_metadata_ok [of "mem_abs s" h cids] assms sim by (simp add: mem_invar_def)
  ultimately show ?thesis by (simp add: mem_invar_def)
qed

lemmas mem_sims = mem_insert_sim mem_remove_height_sim mem_mark_as_sampled_sim
  mem_update_sampling_metadata_sim

lemma mem_step_sim:
  assumes "mem_invar s" "cmd_ok c (mem_abs s)"
  shows "mem_invar (snd (st_step (mem_ops tm) c s)) \<and>
    sp_step tm c (mem_abs s) = (fst (st_step (mem_ops tm) c s), mem_abs (snd (st_step (mem_ops tm) c s)))"
  using assms mem_sims
  by (cases c) (simp_all add: st_step_def sp_step_def mem_ops_def cmd_ok_def)

interpretation mem: header_store tm "mem_ops tm" mem_invar mem_abs for tm
proof
  fix s c h k
  assume inv: "mem_invar s"
  then have tab: "mem_tables_ok s" by (simp add: mem_invar_def)
  note table = mem_get_by_height_eq [OF tab]
  show "sp_ok (mem_abs s)" using inv by (simp add: mem_invar_def)
  show "st_get_by_height (mem_ops tm) h s = ok_or NotFound (sp_headers (mem_abs s) h)"
    by (simp add: mem_ops_def table)
  have hash: "ms_headers s k = Some x \<longleftrightarrow> (\<exists>h. mem_table s h = Some x \<and> eh_hash x = k)" for x
    using mem_headers_iff [OF tab, of k x] mem_table_Some [OF tab, of _ x] by auto
  show "case st_get_by_hash (mem_ops tm) k s of
      Inl e \<Rightarrow> e = Err NotFound \<and> (\<forall>h x. sp_headers (mem_abs s) h = Some x \<longrightarrow> eh_hash x \<noteq> k)
    | Inr x \<Rightarrow> \<exists>h. sp_headers (mem_abs s) h = Some x \<and> eh_hash x = k"
    using hash by (cases "ms_headers s k") (auto simp: mem_ops_def mem_get_by_hash_def)
  show "st_has (mem_ops tm) k s = (\<exists>h x. sp_headers (mem_abs s) h = Some x \<and> eh_hash x = k)"
    using hash by (auto simp: mem_ops_def mem_contains_hash_def)
  show "st_has_at (mem_ops tm) h s = (h \<in> dom (sp_headers (mem_abs s)))"
    using mem_contains_height_iff [OF inv] by (auto simp: mem_ops_def)
  show "st_head_height (mem_ops tm) s = ok_or NotFound (br_head (sp_stored (mem_abs s)))"
    by (simp add: mem_ops_def mem_get_head_height_def)
  show "st_get_head (mem_ops tm) s = bind_r (ok_or NotFound (br_head (sp_stored (mem_abs s))))
      (\<lambda>h. ok_or NotFound (sp_headers (mem_abs s) h))"
    by (simp add: mem_ops_def mem_get_head_def mem_get_head_height_def table)
  show "st_get_sampling_metadata (mem_ops tm) h s =
      (if sp_headers (mem_abs s) h = None then Inl (Err NotFound) else Inr (sp_metadata (mem_abs s) h))"
    using mem_contains_height_iff [OF inv, of h] by (simp add: mem_ops_def mem_get_sampling_metadata_def)
  show "mem_invar (snd (st_step (mem_ops tm) c s)) \<and> sp_step tm c (mem_abs s) =
      (fst (st_step (mem_ops tm) c s), mem_abs (snd (st_step (mem_ops tm) c s)))" if "cmd_ok c (mem_abs s)"
    using inv that by (rule mem_step_sim)
qed (simp_all add: mem_ops_def)

end
