(* ===== verification/Redb_Store.thy ===== *)
theory Redb_Store
  imports Store_Spec
begin

text \<open>
  \<open>RedbStore\<close>, \<open>node/src/store/redb_store.rs\<close>: the store on the \<open>redb\<close> database. A
  table is the map from its keys to its values, a database the record of its tables; a write
  transaction runs on a copy that replaces the database when the closure succeeds and the
  commit does. What the database engine reports when it begins, commits or aborts a
  transaction is an argument, \<open>tx_env\<close>; the failures of single table accesses are not
  modelled. A closure runs on the blocking thread pool, which turns a panic into an
  \<open>ExecutorError\<close>. The protobuf codec of headers, of sampling metadata and of the
  identity key, which lies in other crates, is the argument \<open>codec\<close>.
\<close>

section \<open>Tables\<close>

record codec =
  enc_header :: "extended_header \<Rightarrow> bytes"
  dec_header :: "bytes \<Rightarrow> extended_header option"
  enc_sampling :: "sampling_metadata \<Rightarrow> bytes"
  dec_sampling :: "bytes \<Rightarrow> sampling_metadata option"
  dec_keypair :: "bytes \<Rightarrow> bytes option"

record redb_db =
  db_heights :: "bytes \<rightharpoonup> nat"
  db_headers :: "nat \<rightharpoonup> bytes"
  db_sampling :: "nat \<rightharpoonup> bytes"
  db_schema_version :: "nat option"
  db_ranges :: "string \<rightharpoonup> (nat \<times> nat) list"
  db_identity :: "bytes option"
  db_height_ranges_v1 :: "(nat \<times> nat \<times> nat) list"

text \<open>The table of version 1, \<open>STORE.HEIGHT_RANGES\<close>, is the list of its rows in key order.\<close>

definition SCHEMA_VERSION :: nat where
  "SCHEMA_VERSION = 3"

definition SAMPLED_RANGES_KEY :: string where
  "SAMPLED_RANGES_KEY = ''KEY.SAMPLED_RANGES''"

definition HEADER_RANGES_KEY :: string where
  "HEADER_RANGES_KEY = ''KEY.HEADER_RANGES''"

definition PRUNED_RANGES_KEY :: string where
  "PRUNED_RANGES_KEY = ''KEY.PRUNED_RANGES''"

definition V2_SAMPLED_RANGES_KEY :: string where
  "V2_SAMPLED_RANGES_KEY = ''KEY.ACCEPTED_SAMPING_RANGES''"

lemmas range_keys = SAMPLED_RANGES_KEY_def HEADER_RANGES_KEY_def PRUNED_RANGES_KEY_def
  V2_SAMPLED_RANGES_KEY_def

text \<open>\<open>Hash::as_bytes\<close>.\<close>

definition hash_bytes :: "hash \<Rightarrow> bytes" where
  "hash_bytes k = (case k of Sha256 b \<Rightarrow> b | Hash_None \<Rightarrow> [])"

definition deserialize_extended_header :: "codec \<Rightarrow> bytes \<Rightarrow> extended_header store_result" where
  "deserialize_extended_header cd b =
     ok_or (StoredDataError ''Stored ExtendedHeader cannot be deserialized'') (dec_header cd b)"

definition deserialize_sampling_metadata :: "codec \<Rightarrow> bytes \<Rightarrow> sampling_metadata store_result" where
  "deserialize_sampling_metadata cd b =
     ok_or (StoredDataError ''Stored SamplingMetadata cannot be deserialized'') (dec_sampling cd b)"

definition db_get_ranges :: "redb_db \<Rightarrow> string \<Rightarrow> block_ranges store_result" where
  "db_get_ranges db name =
     map_err (\<lambda>_. StoredDataError ''Stored BlockRanges are invalid'')
       (from_vec (map (\<lambda>(s, e). Rng s e) (case db_ranges db name of None \<Rightarrow> [] | Some raw \<Rightarrow> raw)))"

definition db_set_ranges :: "string \<Rightarrow> block_ranges \<Rightarrow> redb_db \<Rightarrow> redb_db" where
  "db_set_ranges name ranges db =
     db\<lparr>db_ranges := (db_ranges db)(name \<mapsto> map (\<lambda>r. (rstart r, rend r)) ranges)\<rparr>"

definition db_get_height :: "redb_db \<Rightarrow> bytes \<Rightarrow> nat store_result" where
  "db_get_height db key = ok_or NotFound (db_heights db key)"

definition db_get_header :: "codec \<Rightarrow> redb_db \<Rightarrow> nat \<Rightarrow> extended_header store_result" where
  "db_get_header cd db key =
     bind_r (ok_or NotFound (db_headers db key)) (deserialize_extended_header cd)"

definition db_get_sampling_metadata ::
  "codec \<Rightarrow> redb_db \<Rightarrow> nat \<Rightarrow> sampling_metadata option store_result"
where
  "db_get_sampling_metadata cd db key = (case db_sampling db key of
      None \<Rightarrow> Inr None
    | Some b \<Rightarrow> bind_r (deserialize_sampling_metadata cd b) (\<lambda>m. Inr (Some m)))"

section \<open>Transactions\<close>

record tx_env =
  tx_begin :: "store_error option"
  tx_commit :: "store_error option"
  tx_abort :: "store_error option"

definition tx_ok :: tx_env where
  "tx_ok = \<lparr>tx_begin = None, tx_commit = None, tx_abort = None\<rparr>"

definition read_tx :: "tx_env \<Rightarrow> (redb_db \<Rightarrow> 'a store_result) \<Rightarrow> redb_db \<Rightarrow> 'a store_result" where
  "read_tx env f db = (case tx_begin env of
      Some e \<Rightarrow> Inl (Err e)
    | None \<Rightarrow> (case f db of Inl (Panic m) \<Rightarrow> Inl (Err (ExecutorError m)) | r \<Rightarrow> r))"

text \<open>A closure of a write transaction returns its result and the tables it has written.\<close>

definition write_tx ::
  "tx_env \<Rightarrow> (redb_db \<Rightarrow> ('a \<times> redb_db) store_result) \<Rightarrow> redb_db \<Rightarrow> 'a store_result \<times> redb_db"
where
  "write_tx env f db = (case tx_begin env of
      Some e \<Rightarrow> (Inl (Err e), db)
    | None \<Rightarrow> (case f db of
        Inr (x, db') \<Rightarrow> (case tx_commit env of Some e \<Rightarrow> (Inl (Err e), db) | None \<Rightarrow> (Inr x, db'))
      | Inl (Err e) \<Rightarrow> (case tx_abort env of Some e' \<Rightarrow> (Inl (Err e'), db) | None \<Rightarrow> (Inl (Err e), db))
      | Inl (Panic m) \<Rightarrow> (Inl (Err (ExecutorError m)), db)))"

section \<open>Opening\<close>

definition migrate_v1_to_v2 :: "redb_db \<Rightarrow> redb_db store_result" where
  "migrate_v1_to_v2 db = (case db_schema_version db of
      None \<Rightarrow> Inl (Panic ''migrations never run on new db'')
    | Some version \<Rightarrow>
      if version \<ge> 2 then Inr db
      else Inr (db\<lparr>db_height_ranges_v1 := [],
        db_ranges := (db_ranges db)(HEADER_RANGES_KEY \<mapsto> map snd (db_height_ranges_v1 db)),
        db_schema_version := Some 2\<rparr>))"

definition migrate_v2_to_v3 :: "redb_db \<Rightarrow> redb_db store_result" where
  "migrate_v2_to_v3 db = (case db_schema_version db of
      None \<Rightarrow> Inl (Panic ''migrations never run on new db'')
    | Some version \<Rightarrow>
      if version \<ge> 3 then Inr db
      else bind_r (db_get_ranges db V2_SAMPLED_RANGES_KEY) (\<lambda>sampled_ranges.
        let db' = db_set_ranges SAMPLED_RANGES_KEY sampled_ranges db in
        Inr (db'\<lparr>db_ranges := (db_ranges db')(V2_SAMPLED_RANGES_KEY := None),
          db_schema_version := Some 3\<rparr>)))"

text \<open>The closure of \<open>RedbStore::new\<close>; \<open>keypair\<close> is the generated identity.\<close>

definition redb_init :: "bytes \<Rightarrow> redb_db \<Rightarrow> (unit \<times> redb_db) store_result" where
  "redb_init keypair db =
     bind_r (case db_schema_version db of
         Some version \<Rightarrow>
           if version > SCHEMA_VERSION then Inl (Err (OpenFailed ''Incompatible database schema''))
           else bind_r (migrate_v1_to_v2 db) migrate_v2_to_v3
       | None \<Rightarrow> Inr (db\<lparr>db_schema_version := Some SCHEMA_VERSION\<rparr>)) (\<lambda>db1.
     Inr ((), if db_identity db1 = None then db1\<lparr>db_identity := Some keypair\<rparr> else db1))"

definition redb_new :: "tx_env \<Rightarrow> bytes \<Rightarrow> redb_db \<Rightarrow> unit store_result \<times> redb_db" where
  "redb_new env keypair db = (case write_tx env (redb_init keypair) db of
      (r, db') \<Rightarrow> (map_err (\<lambda>e. case e of OpenFailed m \<Rightarrow> OpenFailed m | _ \<Rightarrow> OpenFailed ''error'') r, db'))"

definition redb_empty :: redb_db where
  "redb_empty = \<lparr>db_heights = Map.empty, db_headers = Map.empty, db_sampling = Map.empty,
     db_schema_version = None, db_ranges = Map.empty, db_identity = None, db_height_ranges_v1 = []\<rparr>"

section \<open>Operations\<close>

definition redb_head_height :: "tx_env \<Rightarrow> redb_db \<Rightarrow> nat store_result" where
  "redb_head_height env = read_tx env (\<lambda>db.
     bind_r (db_get_ranges db HEADER_RANGES_KEY) (\<lambda>header_ranges.
     ok_or NotFound (br_head header_ranges)))"

definition redb_get_by_hash :: "tx_env \<Rightarrow> codec \<Rightarrow> hash \<Rightarrow> redb_db \<Rightarrow> extended_header store_result" where
  "redb_get_by_hash env cd k = read_tx env (\<lambda>db.
     bind_r (db_get_height db (hash_bytes k)) (db_get_header cd db))"

definition redb_get_by_height :: "tx_env \<Rightarrow> codec \<Rightarrow> nat \<Rightarrow> redb_db \<Rightarrow> extended_header store_result" where
  "redb_get_by_height env cd h = read_tx env (\<lambda>db. db_get_header cd db h)"

definition redb_get_head :: "tx_env \<Rightarrow> codec \<Rightarrow> redb_db \<Rightarrow> extended_header store_result" where
  "redb_get_head env cd = read_tx env (\<lambda>db.
     bind_r (db_get_ranges db HEADER_RANGES_KEY) (\<lambda>header_ranges.
     bind_r (ok_or NotFound (br_head header_ranges)) (db_get_header cd db)))"

definition unwrap_or_false :: "bool store_result \<Rightarrow> bool" where
  "unwrap_or_false r = (case r of Inr b \<Rightarrow> b | Inl _ \<Rightarrow> False)"

definition redb_contains_hash :: "tx_env \<Rightarrow> hash \<Rightarrow> redb_db \<Rightarrow> bool" where
  "redb_contains_hash env k db = unwrap_or_false (read_tx env (\<lambda>db.
     bind_r (db_get_height db (hash_bytes k)) (\<lambda>h. Inr (db_headers db h \<noteq> None))) db)"

definition redb_contains_height :: "tx_env \<Rightarrow> nat \<Rightarrow> redb_db \<Rightarrow> bool" where
  "redb_contains_height env h db =
     unwrap_or_false (read_tx env (\<lambda>db. Inr (db_headers db h \<noteq> None)) db)"

definition redb_neighbour :: "codec \<Rightarrow> redb_db \<Rightarrow> nat \<Rightarrow> extended_header store_result" where
  "redb_neighbour cd db h = map_err (\<lambda>e. if e = NotFound
       then StoredDataError ''inconsistency between headers and ranges table'' else e)
     (db_get_header cd db h)"

definition redb_verify_against_neighbours ::
  "tendermint \<Rightarrow> time \<Rightarrow> codec \<Rightarrow> redb_db \<Rightarrow> extended_header option \<Rightarrow> extended_header option \<Rightarrow>
   unit store_result"
where
  "redb_verify_against_neighbours tm now cd db lowest_header highest_header =
     bind_r (case lowest_header of
         None \<Rightarrow> Inr ()
       | Some l \<Rightarrow>
         bind_r (sub_u64 (eh_height l) 1) (\<lambda>h.
         bind_r (redb_neighbour cd db h) (\<lambda>prev.
         map_err (\<lambda>e. InsertionFailed (NeighborsVerificationFailed e)) (eh_verify tm now prev l)))) (\<lambda>_.
     case highest_header of
       None \<Rightarrow> Inr ()
     | Some l \<Rightarrow>
       bind_r (add_u64 (eh_height l) 1) (\<lambda>h.
       bind_r (redb_neighbour cd db h) (\<lambda>next.
       map_err (\<lambda>e. InsertionFailed (NeighborsVerificationFailed e)) (eh_verify tm now l next))))"

fun redb_insert_loop :: "codec \<Rightarrow> extended_header list \<Rightarrow> redb_db \<Rightarrow> redb_db store_result" where
  "redb_insert_loop cd [] db = Inr db"
| "redb_insert_loop cd (x # xs) db =
     (if db_headers db (eh_height x) \<noteq> None
      then Inl (Err (StoredDataError ''inconsistency between headers table and ranges table''))
      else if db_heights db (hash_bytes (eh_hash x)) \<noteq> None
      then Inl (Err (InsertionFailed (HashExists (eh_hash x))))
      else redb_insert_loop cd xs
        (db\<lparr>db_headers := (db_headers db)(eh_height x \<mapsto> enc_header cd x),
            db_heights := (db_heights db)(hash_bytes (eh_hash x) \<mapsto> eh_height x)\<rparr>))"

definition redb_insert_tx ::
  "tendermint \<Rightarrow> time \<Rightarrow> codec \<Rightarrow> extended_header list \<Rightarrow> redb_db \<Rightarrow> (unit \<times> redb_db) store_result"
where
  "redb_insert_tx tm now cd headers db =
     (case (vec_first headers, vec_last headers) of
        (Some head, Some tail) \<Rightarrow>
          bind_r (db_get_ranges db HEADER_RANGES_KEY) (\<lambda>header_ranges.
          bind_r (db_get_ranges db SAMPLED_RANGES_KEY) (\<lambda>sampled_ranges.
          bind_r (db_get_ranges db PRUNED_RANGES_KEY) (\<lambda>pruned_ranges.
          let headers_range = Rng (eh_height head) (eh_height tail) in
          bind_r (map_err (\<lambda>e. InsertionFailed (ConstraintsNotMet e))
            (check_insertion_constraints header_ranges headers_range)) (\<lambda>(prev_exists, next_exists).
          bind_r (redb_verify_against_neighbours tm now cd db
            (if prev_exists then Some head else None)
            (if next_exists then Some tail else None)) (\<lambda>_.
          bind_r (redb_insert_loop cd headers db) (\<lambda>db1.
          bind_r (expect_r ''invalid range'' (insert_relaxed header_ranges headers_range)) (\<lambda>hr.
          bind_r (expect_r ''invalid range'' (remove_relaxed sampled_ranges headers_range)) (\<lambda>sr.
          bind_r (expect_r ''invalid range'' (remove_relaxed pruned_ranges headers_range)) (\<lambda>pr.
          Inr ((), db_set_ranges PRUNED_RANGES_KEY pr (db_set_ranges SAMPLED_RANGES_KEY sr
            (db_set_ranges HEADER_RANGES_KEY hr db1))))))))))))
      | _ \<Rightarrow> Inr ((), db))"

definition redb_insert ::
  "tx_env \<Rightarrow> tendermint \<Rightarrow> codec \<Rightarrow> time \<Rightarrow> extended_header list \<Rightarrow> redb_db \<Rightarrow> unit store_result \<times> redb_db"
where
  "redb_insert env tm cd now headers db =
     (case map_err (\<lambda>e. InsertionFailed (HeadersVerificationFailed e)) (verified_headers tm now headers) of
        Inl e \<Rightarrow> (Inl e, db)
      | Inr hs \<Rightarrow> write_tx env (redb_insert_tx tm now cd hs) db)"

definition redb_update_sampling_metadata ::
  "tx_env \<Rightarrow> codec \<Rightarrow> nat \<Rightarrow> cid list \<Rightarrow> redb_db \<Rightarrow> unit store_result \<times> redb_db"
where
  "redb_update_sampling_metadata env cd h cids = write_tx env (\<lambda>db.
     bind_r (db_get_ranges db HEADER_RANGES_KEY) (\<lambda>header_ranges.
     if \<not> br_contains header_ranges h then Inl (Err NotFound)
     else bind_r (db_get_sampling_metadata cd db h) (\<lambda>previous.
       let entry = (case previous of
           Some p \<Rightarrow> p\<lparr>sm_cids := append_cids (sm_cids p) cids\<rparr>
         | None \<Rightarrow> \<lparr>sm_cids = cids\<rparr>) in
       Inr ((), db\<lparr>db_sampling := (db_sampling db)(h \<mapsto> enc_sampling cd entry)\<rparr>))))"

definition redb_mark_as_sampled :: "tx_env \<Rightarrow> nat \<Rightarrow> redb_db \<Rightarrow> unit store_result \<times> redb_db" where
  "redb_mark_as_sampled env h = write_tx env (\<lambda>db.
     bind_r (db_get_ranges db HEADER_RANGES_KEY) (\<lambda>header_ranges.
     bind_r (db_get_ranges db SAMPLED_RANGES_KEY) (\<lambda>sampled_ranges.
     if \<not> br_contains header_ranges h then Inl (Err NotFound)
     else bind_r (expect_r ''invalid height'' (insert_relaxed sampled_ranges (Rng h h))) (\<lambda>sr.
       Inr ((), db_set_ranges SAMPLED_RANGES_KEY sr db)))))"

definition redb_get_sampling_metadata ::
  "tx_env \<Rightarrow> codec \<Rightarrow> nat \<Rightarrow> redb_db \<Rightarrow> sampling_metadata option store_result"
where
  "redb_get_sampling_metadata env cd h = read_tx env (\<lambda>db.
     if db_headers db h = None then Inl (Err NotFound) else db_get_sampling_metadata cd db h)"

definition redb_get_ranges :: "tx_env \<Rightarrow> string \<Rightarrow> redb_db \<Rightarrow> block_ranges store_result" where
  "redb_get_ranges env name = read_tx env (\<lambda>db. db_get_ranges db name)"

definition redb_remove_height :: "tx_env \<Rightarrow> codec \<Rightarrow> nat \<Rightarrow> redb_db \<Rightarrow> unit store_result \<times> redb_db" where
  "redb_remove_height env cd h = write_tx env (\<lambda>db.
     bind_r (db_get_ranges db HEADER_RANGES_KEY) (\<lambda>header_ranges.
     bind_r (db_get_ranges db SAMPLED_RANGES_KEY) (\<lambda>sampled_ranges.
     bind_r (db_get_ranges db PRUNED_RANGES_KEY) (\<lambda>pruned_ranges.
     if \<not> br_contains header_ranges h then Inl (Err NotFound)
     else (case db_headers db h of
         None \<Rightarrow> Inl (Err (StoredDataError ''inconsistency between ranges and height_to_hash tables''))
       | Some b \<Rightarrow>
         bind_r (ok_or (StoredDataError ''decode'') (dec_header cd b)) (\<lambda>x.
         if db_heights db (hash_bytes (eh_hash x)) = None
         then Inl (Err (StoredDataError ''inconsistency between header and height_to_hash tables''))
         else
           let db1 = db\<lparr>db_headers := (db_headers db)(h := None),
                        db_heights := (db_heights db)(hash_bytes (eh_hash x) := None),
                        db_sampling := (db_sampling db)(h := None)\<rparr> in
           bind_r (expect_r ''valid range never fails'' (remove_relaxed header_ranges (Rng h h))) (\<lambda>hr.
           bind_r (expect_r ''valid range never fails'' (remove_relaxed sampled_ranges (Rng h h))) (\<lambda>sr.
           bind_r (expect_r ''valid range never fails'' (insert_relaxed pruned_ranges (Rng h h))) (\<lambda>pr.
           Inr ((), db_set_ranges PRUNED_RANGES_KEY pr (db_set_ranges SAMPLED_RANGES_KEY sr
             (db_set_ranges HEADER_RANGES_KEY hr db1))))))))))))"

definition redb_get_identity :: "tx_env \<Rightarrow> codec \<Rightarrow> redb_db \<Rightarrow> bytes store_result" where
  "redb_get_identity env cd = read_tx env (\<lambda>db. case db_identity db of
      None \<Rightarrow> Inl (Panic ''identity_table should be non empty'')
    | Some b \<Rightarrow> ok_or (StoredDataError ''Could not deserialize stored libp2p identity'') (dec_keypair cd b))"

definition redb_ops :: "tx_env \<Rightarrow> tendermint \<Rightarrow> codec \<Rightarrow> redb_db store_ops" where
  "redb_ops env tm cd = \<lparr>st_get_head = redb_get_head env cd, st_get_by_hash = redb_get_by_hash env cd,
     st_get_by_height = redb_get_by_height env cd, st_head_height = redb_head_height env,
     st_has = redb_contains_hash env, st_has_at = redb_contains_height env,
     st_update_sampling_metadata = redb_update_sampling_metadata env cd,
     st_get_sampling_metadata = redb_get_sampling_metadata env cd,
     st_mark_as_sampled = redb_mark_as_sampled env, st_insert = redb_insert env tm cd,
     st_get_stored_header_ranges = redb_get_ranges env HEADER_RANGES_KEY,
     st_get_sampled_ranges = redb_get_ranges env SAMPLED_RANGES_KEY,
     st_get_pruned_ranges = redb_get_ranges env PRUNED_RANGES_KEY,
     st_remove_height = redb_remove_height env cd\<rparr>"

section \<open>Atomicity\<close>

text \<open>Whatever the engine reports, an operation that fails leaves the database as it was.\<close>

lemma write_tx_atomic: "fst (write_tx env f db) = Inl e \<Longrightarrow> snd (write_tx env f db) = db"
  by (auto simp: write_tx_def split: option.splits sum.splits fault.splits)

lemma redb_step_atomic:
  "fst (st_step (redb_ops env tm cd) c db) = Inl e \<Longrightarrow> snd (st_step (redb_ops env tm cd) c db) = db"
  by (cases c) (auto simp: st_step_def redb_ops_def redb_insert_def redb_update_sampling_metadata_def
      redb_mark_as_sampled_def redb_remove_height_def split: sum.splits dest: write_tx_atomic)

end
