(* ===== verification/Redb_Simulation.thy ===== *)
theory Redb_Simulation
  imports Redb_Store
begin

text \<open>
  The database store simulates the store specification: \<open>redb_abs\<close> reads the specification's
  state off the tables, \<open>redb_invar\<close> says that every row decodes and that the hash table is
  the index of the header table. The codec is assumed to decode what it encoded.
\<close>

definition codec_ok :: "codec \<Rightarrow> bool" where
  "codec_ok cd \<longleftrightarrow> (\<forall>x. dec_header cd (enc_header cd x) = Some x) \<and>
     (\<forall>m. dec_sampling cd (enc_sampling cd m) = Some m)"

definition redb_table :: "codec \<Rightarrow> redb_db \<Rightarrow> nat \<rightharpoonup> extended_header" where
  "redb_table cd db h = Option.bind (db_headers db h) (dec_header cd)"

definition redb_meta :: "codec \<Rightarrow> redb_db \<Rightarrow> nat \<rightharpoonup> sampling_metadata" where
  "redb_meta cd db h = Option.bind (db_sampling db h) (dec_sampling cd)"

definition redb_rngs :: "redb_db \<Rightarrow> string \<Rightarrow> block_ranges" where
  "redb_rngs db name = map (\<lambda>(s, e). Rng s e) (case db_ranges db name of None \<Rightarrow> [] | Some raw \<Rightarrow> raw)"

definition redb_abs :: "codec \<Rightarrow> redb_db \<Rightarrow> store_spec" where
  "redb_abs cd db = \<lparr>sp_headers = redb_table cd db, sp_metadata = redb_meta cd db,
     sp_stored = redb_rngs db HEADER_RANGES_KEY, sp_sampled = redb_rngs db SAMPLED_RANGES_KEY,
     sp_pruned = redb_rngs db PRUNED_RANGES_KEY\<rparr>"

definition redb_tables_ok :: "codec \<Rightarrow> redb_db \<Rightarrow> bool" where
  "redb_tables_ok cd db \<longleftrightarrow> codec_ok cd \<and>
     (\<forall>h b. db_headers db h = Some b \<longrightarrow> dec_header cd b \<noteq> None) \<and>
     (\<forall>h b. db_sampling db h = Some b \<longrightarrow> dec_sampling cd b \<noteq> None) \<and>
     (\<forall>k h. db_heights db k = Some h \<longleftrightarrow> (\<exists>x. redb_table cd db h = Some x \<and> hash_bytes (eh_hash x) = k))"

definition redb_invar :: "codec \<Rightarrow> redb_db \<Rightarrow> bool" where
  "redb_invar cd db \<longleftrightarrow> redb_tables_ok cd db \<and> sp_ok (redb_abs cd db)"

lemma redb_abs_simps [simp]:
  "sp_headers (redb_abs cd db) = redb_table cd db" "sp_metadata (redb_abs cd db) = redb_meta cd db"
  "sp_stored (redb_abs cd db) = redb_rngs db HEADER_RANGES_KEY"
  "sp_sampled (redb_abs cd db) = redb_rngs db SAMPLED_RANGES_KEY"
  "sp_pruned (redb_abs cd db) = redb_rngs db PRUNED_RANGES_KEY"
  by (simp_all add: redb_abs_def)

lemma codec_ok_simps [simp]:
  assumes "codec_ok cd"
  shows "dec_header cd (enc_header cd x) = Some x" "dec_sampling cd (enc_sampling cd m) = Some m"
  using assms by (simp_all add: codec_ok_def)

lemma hash_bytes_eq_iff:
  "a \<noteq> Sha256 [] \<Longrightarrow> b \<noteq> Sha256 [] \<Longrightarrow> hash_bytes a = hash_bytes b \<longleftrightarrow> a = b"
  by (auto simp: hash_bytes_def split: hash.splits)

section \<open>Reading\<close>

lemma db_get_ranges_ok: "br_wf (redb_rngs db name) \<Longrightarrow> db_get_ranges db name = Inr (redb_rngs db name)"
  by (simp add: db_get_ranges_def redb_rngs_def)

lemma db_get_header_eq:
  "redb_tables_ok cd db \<Longrightarrow> db_get_header cd db h = ok_or NotFound (redb_table cd db h)"
  by (fastforce simp: db_get_header_def redb_table_def deserialize_extended_header_def redb_tables_ok_def
      split: option.splits bind_splits)

lemma db_headers_None_iff:
  "redb_tables_ok cd db \<Longrightarrow> db_headers db h = None \<longleftrightarrow> redb_table cd db h = None"
  by (cases "db_headers db h") (auto simp: redb_table_def redb_tables_ok_def)

lemma db_get_sampling_eq:
  "redb_tables_ok cd db \<Longrightarrow> db_get_sampling_metadata cd db h = Inr (redb_meta cd db h)"
  by (fastforce simp: db_get_sampling_metadata_def redb_meta_def deserialize_sampling_metadata_def
      redb_tables_ok_def split: option.splits)

lemma redb_contains_iff:
  assumes "redb_invar cd db"
  shows "br_contains (redb_rngs db HEADER_RANGES_KEY) h \<longleftrightarrow> redb_table cd db h \<noteq> None"
proof -
  have "br_wf (redb_rngs db HEADER_RANGES_KEY)" "heights (redb_rngs db HEADER_RANGES_KEY) = dom (redb_table cd db)"
    using assms by (auto simp: redb_invar_def sp_ok_def)
  then show ?thesis by auto
qed

lemma redb_ranges_read:
  assumes "redb_invar cd db"
  shows "db_get_ranges db HEADER_RANGES_KEY = Inr (redb_rngs db HEADER_RANGES_KEY)"
    "db_get_ranges db SAMPLED_RANGES_KEY = Inr (redb_rngs db SAMPLED_RANGES_KEY)"
    "db_get_ranges db PRUNED_RANGES_KEY = Inr (redb_rngs db PRUNED_RANGES_KEY)"
  using assms by (auto simp: redb_invar_def sp_ok_def intro!: db_get_ranges_ok)

section \<open>Writing\<close>

lemma db_set_ranges_simps [simp]:
  "redb_rngs (db_set_ranges name rs db) name' = (if name' = name then rs else redb_rngs db name')"
  "redb_table cd (db_set_ranges name rs db) = redb_table cd db"
  "redb_meta cd (db_set_ranges name rs db) = redb_meta cd db"
  "redb_tables_ok cd (db_set_ranges name rs db) = redb_tables_ok cd db"
proof -
  show tab: "redb_table cd (db_set_ranges name rs db) = redb_table cd db"
    by (simp add: db_set_ranges_def redb_table_def fun_eq_iff)
  show "redb_meta cd (db_set_ranges name rs db) = redb_meta cd db"
    by (simp add: db_set_ranges_def redb_meta_def fun_eq_iff)
  show "redb_tables_ok cd (db_set_ranges name rs db) = redb_tables_ok cd db"
    unfolding redb_tables_ok_def tab by (simp add: db_set_ranges_def)
  have "map (\<lambda>(s, e). Rng s e) (map (\<lambda>r. (rstart r, rend r)) rs) = rs" by (induction rs) auto
  then show "redb_rngs (db_set_ranges name rs db) name' = (if name' = name then rs else redb_rngs db name')"
    by (simp add: redb_rngs_def db_set_ranges_def)
qed

lemma range_keys_distinct [simp]:
  "SAMPLED_RANGES_KEY \<noteq> HEADER_RANGES_KEY" "HEADER_RANGES_KEY \<noteq> SAMPLED_RANGES_KEY"
  "PRUNED_RANGES_KEY \<noteq> HEADER_RANGES_KEY" "HEADER_RANGES_KEY \<noteq> PRUNED_RANGES_KEY"
  "SAMPLED_RANGES_KEY \<noteq> PRUNED_RANGES_KEY" "PRUNED_RANGES_KEY \<noteq> SAMPLED_RANGES_KEY"
  by (simp_all add: range_keys)

lemma redb_enter:
  assumes "redb_tables_ok cd db" "redb_table cd db (eh_height x) = None"
    "db_heights db (hash_bytes (eh_hash x)) = None"
  defines "db' \<equiv> db\<lparr>db_headers := (db_headers db)(eh_height x \<mapsto> enc_header cd x),
      db_heights := (db_heights db)(hash_bytes (eh_hash x) \<mapsto> eh_height x)\<rparr>"
  shows "redb_tables_ok cd db'" "redb_table cd db' = (redb_table cd db)(eh_height x \<mapsto> x)"
proof -
  have cd: "codec_ok cd" using assms(1) by (simp add: redb_tables_ok_def)
  show tab: "redb_table cd db' = (redb_table cd db)(eh_height x \<mapsto> x)"
    using cd by (auto simp: db'_def redb_table_def fun_eq_iff)
  have idx: "db_heights db k = Some h \<longleftrightarrow> (\<exists>y. redb_table cd db h = Some y \<and> hash_bytes (eh_hash y) = k)" for k h
    using assms(1) by (simp add: redb_tables_ok_def)
  have "db_heights db' k = Some h \<longleftrightarrow> (\<exists>y. redb_table cd db' h = Some y \<and> hash_bytes (eh_hash y) = k)" for k h
  proof (cases "k = hash_bytes (eh_hash x)")
    case True
    have "\<not> (\<exists>y. redb_table cd db h = Some y \<and> hash_bytes (eh_hash y) = k)"
      using assms(3) idx [of k h] True by simp
    with True show ?thesis unfolding tab by (auto simp: db'_def)
  next
    case False
    with idx [of k h] assms(2) show ?thesis unfolding tab by (auto simp: db'_def)
  qed
  with assms(1) cd show "redb_tables_ok cd db'"
    unfolding redb_tables_ok_def by (auto simp: db'_def)
qed

lemma redb_fresh_hash:
  assumes "redb_tables_ok cd db" "fresh_hashes (x # hs) (redb_table cd db)" "typed_header x"
    "\<forall>h y. redb_table cd db h = Some y \<longrightarrow> typed_header y"
  shows "db_heights db (hash_bytes (eh_hash x)) = None"
proof (rule ccontr)
  assume "db_heights db (hash_bytes (eh_hash x)) \<noteq> None"
  then obtain h y where y: "redb_table cd db h = Some y" "hash_bytes (eh_hash y) = hash_bytes (eh_hash x)"
    using assms(1) by (auto simp: redb_tables_ok_def)
  with assms(3,4) have "eh_hash y = eh_hash x" by (auto simp: typed_header_def hash_bytes_eq_iff)
  with y assms(2) show False by (auto simp: fresh_hashes_def)
qed

lemma fresh_hashes_tail:
  "fresh_hashes (x # hs) m \<Longrightarrow> fresh_hashes hs (m(eh_height x \<mapsto> x))"
  by (auto simp: fresh_hashes_def split: if_splits)

lemma redb_insert_loop_ok:
  assumes "redb_tables_ok cd db" "fresh_hashes hs (redb_table cd db)" "distinct (map eh_height hs)"
    "\<forall>x \<in> set hs. redb_table cd db (eh_height x) = None" "typed_headers hs"
    "\<forall>h y. redb_table cd db h = Some y \<longrightarrow> typed_header y"
  shows "\<exists>db'. redb_insert_loop cd hs db = Inr db' \<and> redb_tables_ok cd db' \<and>
    redb_table cd db' = enter_headers hs (redb_table cd db) \<and> redb_meta cd db' = redb_meta cd db \<and>
    redb_rngs db' = redb_rngs db"
  using assms
proof (induction hs arbitrary: db)
  case (Cons x hs)
  define db1 where "db1 = db\<lparr>db_headers := (db_headers db)(eh_height x \<mapsto> enc_header cd x),
      db_heights := (db_heights db)(hash_bytes (eh_hash x) \<mapsto> eh_height x)\<rparr>"
  have tx: "typed_header x" using Cons.prems(5) by (simp add: typed_headers_def)
  have here: "redb_table cd db (eh_height x) = None" using Cons.prems(4) by simp
  note free = redb_fresh_hash [OF Cons.prems(1,2) tx Cons.prems(6)]
  note e = redb_enter [OF Cons.prems(1) here free, folded db1_def]
  have "\<exists>db'. redb_insert_loop cd hs db1 = Inr db' \<and> redb_tables_ok cd db' \<and>
    redb_table cd db' = enter_headers hs (redb_table cd db1) \<and> redb_meta cd db' = redb_meta cd db1 \<and>
    redb_rngs db' = redb_rngs db1"
  proof (rule Cons.IH [OF e(1)])
    show "fresh_hashes hs (redb_table cd db1)" unfolding e(2) by (rule fresh_hashes_tail [OF Cons.prems(2)])
    show "distinct (map eh_height hs)" using Cons.prems(3) by simp
    show "typed_headers hs" using Cons.prems(5) by (simp add: typed_headers_def)
    show "\<forall>h y. redb_table cd db1 h = Some y \<longrightarrow> typed_header y"
      using Cons.prems(6) tx by (auto simp: e(2))
    show "\<forall>y \<in> set hs. redb_table cd db1 (eh_height y) = None"
    proof
      fix y
      assume "y \<in> set hs"
      with Cons.prems(3) have "eh_height y \<noteq> eh_height x" by (metis distinct.simps(2) image_eqI list.map(2) list.set_map)
      with Cons.prems(4) \<open>y \<in> set hs\<close> show "redb_table cd db1 (eh_height y) = None" by (simp add: e(2))
    qed
  qed
  moreover have "redb_meta cd db1 = redb_meta cd db" "redb_rngs db1 = redb_rngs db"
    by (simp_all add: db1_def redb_meta_def redb_rngs_def fun_eq_iff)
  moreover have "redb_insert_loop cd (x # hs) db = redb_insert_loop cd hs db1"
    using free here db_headers_None_iff [OF Cons.prems(1)] by (simp add: db1_def)
  ultimately show ?case by (auto simp: e(2))
qed simp

lemma redb_neighbours_eq:
  assumes "redb_tables_ok cd db"
    "p \<Longrightarrow> 0 < eh_height l \<and> redb_table cd db (eh_height l - 1) \<noteq> None"
    "n \<Longrightarrow> eh_height u < u64_max \<and> redb_table cd db (eh_height u + 1) \<noteq> None"
  shows "redb_verify_against_neighbours tm now cd db (if p then Some l else None) (if n then Some u else None) =
    sp_neighbours tm now (redb_table cd db) (then_some p l) (then_some n u)"
  using assms(2,3)
  by (auto simp: redb_verify_against_neighbours_def sp_neighbours_def then_some_def verify_err_def
      redb_neighbour_def db_get_header_eq [OF assms(1)])

lemma redb_delete:
  assumes "redb_invar cd db" "redb_table cd db h = Some x"
  defines "db' \<equiv> db\<lparr>db_headers := (db_headers db)(h := None),
      db_heights := (db_heights db)(hash_bytes (eh_hash x) := None), db_sampling := (db_sampling db)(h := None)\<rparr>"
  shows "redb_tables_ok cd db'" "redb_table cd db' = (redb_table cd db)(h := None)"
    "redb_meta cd db' = (redb_meta cd db)(h := None)" "redb_rngs db' = redb_rngs db"
proof -
  have ok: "redb_tables_ok cd db" "sp_ok (redb_abs cd db)" using assms(1) by (simp_all add: redb_invar_def)
  show tab: "redb_table cd db' = (redb_table cd db)(h := None)"
    by (simp add: db'_def redb_table_def fun_eq_iff)
  show "redb_meta cd db' = (redb_meta cd db)(h := None)" "redb_rngs db' = redb_rngs db"
    by (simp_all add: db'_def redb_meta_def redb_rngs_def fun_eq_iff)
  have idx: "db_heights db k = Some h \<longleftrightarrow> (\<exists>y. redb_table cd db h = Some y \<and> hash_bytes (eh_hash y) = k)" for k h
    using ok(1) by (simp add: redb_tables_ok_def)
  have inj: "h' = h" if "redb_table cd db h' = Some y" "hash_bytes (eh_hash y) = hash_bytes (eh_hash x)" for h' y
  proof -
    have "db_heights db (hash_bytes (eh_hash x)) = Some h'" "db_heights db (hash_bytes (eh_hash x)) = Some h"
      using idx that assms(2) by blast+
    then show ?thesis by simp
  qed
  have "db_heights db' k = Some h' \<longleftrightarrow> (\<exists>y. redb_table cd db' h' = Some y \<and> hash_bytes (eh_hash y) = k)" for k h'
  proof (cases "k = hash_bytes (eh_hash x)")
    case True
    with inj show ?thesis unfolding tab by (auto simp: db'_def split: if_splits)
  next
    case False
    with idx [of k h'] assms(2) show ?thesis unfolding tab by (auto simp: db'_def)
  qed
  with ok(1) show "redb_tables_ok cd db'" unfolding redb_tables_ok_def by (auto simp: db'_def)
qed

section \<open>Simulation\<close>

lemma write_tx_ok [simp]:
  "f db = Inr (x, db') \<Longrightarrow> write_tx tx_ok f db = (Inr x, db')"
  "f db = Inl (Err e) \<Longrightarrow> write_tx tx_ok f db = (Inl (Err e), db)"
  by (simp_all add: write_tx_def tx_ok_def)

lemma redb_invarI:
  "redb_tables_ok cd db' \<Longrightarrow> sp_ok a' \<Longrightarrow> redb_abs cd db' = a' \<Longrightarrow> redb_invar cd db'"
  by (simp add: redb_invar_def)

lemma redb_check_eq:
  assumes "redb_invar cd db" "successively linked hs" "hs \<noteq> []" "typed_headers hs"
  shows "bind_r (map_err (\<lambda>e. InsertionFailed (ConstraintsNotMet e))
        (check_insertion_constraints (redb_rngs db HEADER_RANGES_KEY) (span hs)))
      (\<lambda>(prev_exists, next_exists). redb_verify_against_neighbours tm now cd db
        (if prev_exists then Some (hd hs) else None) (if next_exists then Some (last hs) else None)) =
    sp_check tm now hs (redb_abs cd db)"
proof (cases "check_insertion_constraints (redb_rngs db HEADER_RANGES_KEY) (span hs)")
  case (Inl e)
  then show ?thesis by (cases e) (simp_all add: sp_check_def)
next
  case (Inr pn)
  then obtain p n where pn: "check_insertion_constraints (redb_rngs db HEADER_RANGES_KEY) (span hs) = Inr (p, n)"
    by (cases pn) auto
  have "sp_ok (redb_abs cd db)" and tab: "redb_tables_ok cd db" using assms(1) by (simp_all add: redb_invar_def)
  from redb_neighbours_eq [OF tab check_flags [OF this(1) assms(2-4), unfolded redb_abs_simps, OF pn]] pn
  show ?thesis by (simp add: sp_check_def)
qed

text \<open>The closure of an insertion after its check.\<close>

lemma bind_r_assoc: "bind_r (bind_r m f) g = bind_r m (\<lambda>x. bind_r (f x) g)"
  by (cases m) simp_all

lemma redb_insert_tx_eq:
  assumes "redb_invar cd db" "successively linked hs" "hs \<noteq> []" "typed_headers hs"
  shows "redb_insert_tx tm now cd hs db =
    bind_r (sp_check tm now hs (redb_abs cd db)) (\<lambda>_.
    bind_r (redb_insert_loop cd hs db) (\<lambda>db1.
    bind_r (update_ranges (redb_rngs db HEADER_RANGES_KEY) (redb_rngs db SAMPLED_RANGES_KEY)
      (redb_rngs db PRUNED_RANGES_KEY) (span hs)) (\<lambda>(hr, sr, pr).
    Inr ((), db_set_ranges PRUNED_RANGES_KEY pr (db_set_ranges SAMPLED_RANGES_KEY sr
      (db_set_ranges HEADER_RANGES_KEY hr db1))))))"
  unfolding redb_check_eq [OF assms, symmetric]
  using assms(3) redb_ranges_read [OF assms(1)]
  by (simp add: redb_insert_tx_def span_def update_ranges_def bind_r_assoc Let_def case_prod_unfold)

lemma redb_insert_sim:
  assumes "redb_invar cd db" "typed_headers hs" "fresh_hashes hs (redb_table cd db)" "clock_ok now"
  shows "redb_invar cd (snd (redb_insert tx_ok tm cd now hs db)) \<and>
    sp_insert tm now hs (redb_abs cd db) =
      (fst (redb_insert tx_ok tm cd now hs db), redb_abs cd (snd (redb_insert tx_ok tm cd now hs db)))"
proof (cases "verified_headers tm now hs")
  case (Inl e)
  then show ?thesis using assms(1) by (cases e) (simp_all add: redb_insert_def sp_insert_def)
next
  case (Inr hs')
  then have v: "verified_headers tm now hs = Inr hs" and lk: "successively linked hs"
    using verified_headers_Inr [of tm now hs hs'] by auto
  have ok: "sp_ok (redb_abs cd db)" and tab: "redb_tables_ok cd db" using assms(1) by (simp_all add: redb_invar_def)
  consider "hs = []" | e where "hs \<noteq> []" "sp_check tm now hs (redb_abs cd db) = Inl (Err e)"
    | "hs \<noteq> []" "sp_check tm now hs (redb_abs cd db) = Inr ()"
  proof (cases "hs = []")
    case False
    then have "\<not> panics (sp_check tm now hs (redb_abs cd db))"
      by (rule sp_check_no_panic [OF ok lk _ assms(2,4)])
    then show thesis
      using that(2,3) [OF False]
      by (cases "sp_check tm now hs (redb_abs cd db)") (auto simp: panics_def split: fault.splits)
  qed
  then show ?thesis
  proof cases
    case 1
    with v assms(1) show ?thesis by (simp add: redb_insert_def sp_insert_def redb_insert_tx_def)
  next
    case 2
    with v assms(1) redb_insert_tx_eq [OF assms(1) lk 2(1) assms(2), of tm now] show ?thesis
      by (simp add: redb_insert_def sp_insert_def)
  next
    case 3
    note ne = 3(1) and chk = 3(2)
    note c = sp_check_Inr [OF ok lk ne assms(2) chk]
    have free: "\<forall>x \<in> set hs. redb_table cd db (eh_height x) = None"
      using c(2) ok span_heights [OF lk ne] by (fastforce simp: insertable_def sp_ok_def)
    have typed: "\<forall>h y. redb_table cd db h = Some y \<longrightarrow> typed_header y" using ok by (simp add: sp_ok_def)
    from redb_insert_loop_ok [OF tab assms(3) linked_distinct_heights [OF lk] free assms(2) typed]
    obtain db1 where loop: "redb_insert_loop cd hs db = Inr db1" "redb_tables_ok cd db1"
      "redb_table cd db1 = enter_headers hs (redb_table cd db)" "redb_meta cd db1 = redb_meta cd db"
      "redb_rngs db1 = redb_rngs db" by blast
    have can: "canonical (redb_rngs db HEADER_RANGES_KEY)" "canonical (redb_rngs db SAMPLED_RANGES_KEY)"
      "canonical (redb_rngs db PRUNED_RANGES_KEY)" using ok by (auto simp: sp_ok_def)
    from update_ranges_ok [OF can c(1)] obtain hr sr pr where
      u: "update_ranges (redb_rngs db HEADER_RANGES_KEY) (redb_rngs db SAMPLED_RANGES_KEY)
        (redb_rngs db PRUNED_RANGES_KEY) (span hs) = Inr (hr, sr, pr)" .
    let ?db = "db_set_ranges PRUNED_RANGES_KEY pr (db_set_ranges SAMPLED_RANGES_KEY sr
      (db_set_ranges HEADER_RANGES_KEY hr db1))"
    have redb: "redb_insert tx_ok tm cd now hs db = (Inr (), ?db)"
      using v redb_insert_tx_eq [OF assms(1) lk ne assms(2), of tm now] chk loop(1) u
      by (simp add: redb_insert_def)
    have sp: "sp_insert tm now hs (redb_abs cd db) = (Inr (), redb_abs cd ?db)"
      using v ne chk u loop by (simp add: sp_insert_def redb_abs_def)
    have "sp_ok (redb_abs cd ?db)" using sp_insert_ok [OF ok assms(2), of tm now] assms(3) sp by simp
    with redb sp loop(2) show ?thesis by (simp add: redb_invar_def)
  qed
qed

lemma redb_remove_height_sim:
  assumes "redb_invar cd db"
  shows "redb_invar cd (snd (redb_remove_height tx_ok cd h db)) \<and>
    sp_remove_height h (redb_abs cd db) =
      (fst (redb_remove_height tx_ok cd h db), redb_abs cd (snd (redb_remove_height tx_ok cd h db)))"
proof (cases "redb_table cd db h")
  case None
  with redb_contains_iff [OF assms, of h] redb_ranges_read [OF assms] assms show ?thesis
    by (simp add: redb_remove_height_def sp_remove_height_def)
next
  case (Some x)
  have ok: "sp_ok (redb_abs cd db)" and tab: "redb_tables_ok cd db" using assms by (simp_all add: redb_invar_def)
  define db1 where "db1 = db\<lparr>db_headers := (db_headers db)(h := None),
      db_heights := (db_heights db)(hash_bytes (eh_hash x) := None), db_sampling := (db_sampling db)(h := None)\<rparr>"
  note del = redb_delete [OF assms Some, folded db1_def]
  from Some tab obtain b where b: "db_headers db h = Some b" "dec_header cd b = Some x"
    by (auto simp: redb_table_def bind_eq_Some_conv)
  have idx: "db_heights db (hash_bytes (eh_hash x)) = Some h" using Some tab by (auto simp: redb_tables_ok_def)
  from Some have "sp_headers (redb_abs cd db) h = Some x" by simp
  from sp_remove_height_Some [OF ok this] obtain st sm pr where
    sp: "sp_remove_height h (redb_abs cd db) = (Inr (), (redb_abs cd db)\<lparr>
       sp_headers := (sp_headers (redb_abs cd db))(h := None),
       sp_metadata := (sp_metadata (redb_abs cd db))(h := None), sp_stored := st, sp_sampled := sm, sp_pruned := pr\<rparr>)"
    and d: "drop_ranges (redb_rngs db HEADER_RANGES_KEY) (redb_rngs db SAMPLED_RANGES_KEY)
      (redb_rngs db PRUNED_RANGES_KEY) h = Inr (st, sm, pr)"
    by (metis redb_abs_simps(3-5))
  let ?db = "db_set_ranges PRUNED_RANGES_KEY pr (db_set_ranges SAMPLED_RANGES_KEY sm
      (db_set_ranges HEADER_RANGES_KEY st db1))"
  from d have "redb_remove_height tx_ok cd h db = (Inr (), ?db)"
    using b idx Some redb_contains_iff [OF assms, of h] redb_ranges_read [OF assms]
    by (auto simp: redb_remove_height_def drop_ranges_def Let_def db1_def)
  moreover have abs: "redb_abs cd ?db = (redb_abs cd db)\<lparr>
       sp_headers := (sp_headers (redb_abs cd db))(h := None),
       sp_metadata := (sp_metadata (redb_abs cd db))(h := None), sp_stored := st, sp_sampled := sm, sp_pruned := pr\<rparr>"
    using del by (simp add: redb_abs_def)
  moreover have "sp_ok (redb_abs cd ?db)" using sp_remove_height_ok [OF ok, of h] sp abs by simp
  ultimately show ?thesis using sp del(1) by (simp add: redb_invar_def)
qed

lemma redb_mark_as_sampled_sim:
  assumes "redb_invar cd db"
  shows "redb_invar cd (snd (redb_mark_as_sampled tx_ok h db)) \<and>
    sp_mark_as_sampled h (redb_abs cd db) =
      (fst (redb_mark_as_sampled tx_ok h db), redb_abs cd (snd (redb_mark_as_sampled tx_ok h db)))"
proof (cases "redb_table cd db h")
  case None
  with redb_contains_iff [OF assms, of h] redb_ranges_read [OF assms] assms show ?thesis
    by (simp add: redb_mark_as_sampled_def sp_mark_as_sampled_def)
next
  case (Some x)
  have ok: "sp_ok (redb_abs cd db)" and tab: "redb_tables_ok cd db" using assms by (simp_all add: redb_invar_def)
  have "sp_headers (redb_abs cd db) h = Some x" using Some by simp
  note h = sp_ok_height [OF ok this]
  have can: "canonical (redb_rngs db SAMPLED_RANGES_KEY)" using ok by (simp add: sp_ok_def)
  from canonical_insert_height [OF can h(1) less_imp_le [OF h(2)]] obtain rs where
    rs: "insert_relaxed (redb_rngs db SAMPLED_RANGES_KEY) (Rng h h) = Inr rs" by blast
  have "redb_mark_as_sampled tx_ok h db = (Inr (), db_set_ranges SAMPLED_RANGES_KEY rs db)"
    using Some rs redb_contains_iff [OF assms, of h] redb_ranges_read [OF assms]
    by (simp add: redb_mark_as_sampled_def)
  moreover have sp: "sp_mark_as_sampled h (redb_abs cd db) =
      (Inr (), redb_abs cd (db_set_ranges SAMPLED_RANGES_KEY rs db))"
    using Some rs by (simp add: sp_mark_as_sampled_def redb_abs_def)
  moreover have "sp_ok (redb_abs cd (db_set_ranges SAMPLED_RANGES_KEY rs db))"
    using sp_mark_as_sampled_ok [OF ok, of h] sp by simp
  ultimately show ?thesis using tab by (simp add: redb_invar_def)
qed

lemma redb_update_sampling_metadata_sim:
  assumes "redb_invar cd db"
  shows "redb_invar cd (snd (redb_update_sampling_metadata tx_ok cd h cids db)) \<and>
    sp_update_sampling_metadata h cids (redb_abs cd db) =
      (fst (redb_update_sampling_metadata tx_ok cd h cids db),
       redb_abs cd (snd (redb_update_sampling_metadata tx_ok cd h cids db)))"
proof (cases "redb_table cd db h")
  case None
  with redb_contains_iff [OF assms, of h] redb_ranges_read [OF assms] assms show ?thesis
    by (simp add: redb_update_sampling_metadata_def sp_update_sampling_metadata_def)
next
  case (Some x)
  have ok: "sp_ok (redb_abs cd db)" and tab: "redb_tables_ok cd db" using assms by (simp_all add: redb_invar_def)
  then have cd: "codec_ok cd" by (simp add: redb_tables_ok_def)
  define entry where "entry = (case redb_meta cd db h of
      None \<Rightarrow> \<lparr>sm_cids = cids\<rparr> | Some md \<Rightarrow> \<lparr>sm_cids = append_cids (sm_cids md) cids\<rparr>)"
  define db' where "db' = db\<lparr>db_sampling := (db_sampling db)(h \<mapsto> enc_sampling cd entry)\<rparr>"
  have entry: "entry = (case redb_meta cd db h of
      Some p \<Rightarrow> p\<lparr>sm_cids := append_cids (sm_cids p) cids\<rparr> | None \<Rightarrow> \<lparr>sm_cids = cids\<rparr>)"
    by (auto simp: entry_def split: option.splits)
  have "redb_update_sampling_metadata tx_ok cd h cids db = (Inr (), db')"
    using Some redb_contains_iff [OF assms, of h] redb_ranges_read [OF assms] db_get_sampling_eq [OF tab]
    by (simp add: redb_update_sampling_metadata_def Let_def db'_def entry)
  moreover have same: "redb_table cd db' = redb_table cd db" "redb_rngs db' = redb_rngs db"
    by (simp_all add: db'_def redb_table_def redb_rngs_def fun_eq_iff)
  moreover have "redb_meta cd db' = (redb_meta cd db)(h \<mapsto> entry)"
    using cd by (simp add: db'_def redb_meta_def fun_eq_iff)
  moreover have "redb_tables_ok cd db'"
    using tab cd unfolding redb_tables_ok_def same by (auto simp: db'_def)
  moreover have sp: "sp_update_sampling_metadata h cids (redb_abs cd db) = (Inr (), redb_abs cd db')"
    using Some calculation by (simp add: sp_update_sampling_metadata_def redb_abs_def entry_def)
  moreover have "sp_ok (redb_abs cd db')"
    using sp_update_sampling_metadata_ok [OF ok, of h cids] sp by simp
  ultimately show ?thesis by (simp add: redb_invar_def)
qed

lemmas redb_sims = redb_insert_sim redb_remove_height_sim redb_mark_as_sampled_sim
  redb_update_sampling_metadata_sim

lemma redb_step_sim:
  assumes "redb_invar cd db" "cmd_ok c (redb_abs cd db)"
  shows "redb_invar cd (snd (st_step (redb_ops tx_ok tm cd) c db)) \<and>
    sp_step tm c (redb_abs cd db) =
      (fst (st_step (redb_ops tx_ok tm cd) c db), redb_abs cd (snd (st_step (redb_ops tx_ok tm cd) c db)))"
  using assms redb_sims
  by (cases c) (simp_all add: st_step_def sp_step_def redb_ops_def cmd_ok_def)

lemma read_tx_ok [simp]: "\<not> panics (f db) \<Longrightarrow> read_tx tx_ok f db = f db"
  by (auto simp: read_tx_def tx_ok_def panics_def split: sum.splits fault.splits)

lemma ok_or_no_panic [simp]: "\<not> panics (ok_or e v)"
  by (cases v) auto

lemma redb_hash_index:
  assumes "redb_invar cd db" "k \<noteq> Sha256 []"
  shows "(\<exists>h x. db_heights db (hash_bytes k) = Some h \<and> redb_table cd db h = Some x \<and> eh_hash x = k) \<or>
    db_heights db (hash_bytes k) = None \<and> (\<forall>h x. redb_table cd db h = Some x \<longrightarrow> eh_hash x \<noteq> k)"
proof -
  have idx: "db_heights db b = Some h \<longleftrightarrow> (\<exists>x. redb_table cd db h = Some x \<and> hash_bytes (eh_hash x) = b)" for b h
    using assms(1) by (simp add: redb_invar_def redb_tables_ok_def)
  have typed: "eh_hash x \<noteq> Sha256 []" if "redb_table cd db h = Some x" for h x
    using that assms(1) by (auto simp: redb_invar_def sp_ok_def typed_header_def)
  show ?thesis
  proof (cases "db_heights db (hash_bytes k)")
    case None
    then have "eh_hash x \<noteq> k" if "redb_table cd db h = Some x" for h x
      using idx [of "hash_bytes k" h] that by auto
    with None show ?thesis by blast
  next
    case (Some h)
    with idx obtain x where "redb_table cd db h = Some x" "hash_bytes (eh_hash x) = hash_bytes k" by blast
    with typed hash_bytes_eq_iff [OF _ assms(2)] Some show ?thesis by blast
  qed
qed

interpretation redb: header_store tm "redb_ops tx_ok tm cd" "redb_invar cd" "redb_abs cd" for tm cd
proof
  fix s c h k
  assume inv: "redb_invar cd s"
  then have tab: "redb_tables_ok cd s" and ok: "sp_ok (redb_abs cd s)" by (simp_all add: redb_invar_def)
  note table = db_get_header_eq [OF tab] and ranges = redb_ranges_read [OF inv]
  show "sp_ok (redb_abs cd s)" by (rule ok)
  show "redb_invar cd (snd (st_step (redb_ops tx_ok tm cd) c s)) \<and> sp_step tm c (redb_abs cd s) =
      (fst (st_step (redb_ops tx_ok tm cd) c s), redb_abs cd (snd (st_step (redb_ops tx_ok tm cd) c s)))"
    if "cmd_ok c (redb_abs cd s)" using inv that by (rule redb_step_sim)
  show "st_get_by_height (redb_ops tx_ok tm cd) h s = ok_or NotFound (sp_headers (redb_abs cd s) h)"
    by (simp add: redb_ops_def redb_get_by_height_def table)
  have lookup: "(\<exists>h x. db_heights s (hash_bytes k) = Some h \<and> redb_table cd s h = Some x \<and> eh_hash x = k) \<or>
      db_heights s (hash_bytes k) = None \<and> (\<forall>h x. redb_table cd s h = Some x \<longrightarrow> eh_hash x \<noteq> k)"
    if "k \<noteq> Sha256 []" using redb_hash_index [OF inv that] .
  show "case st_get_by_hash (redb_ops tx_ok tm cd) k s of
      Inl e \<Rightarrow> e = Err NotFound \<and> (\<forall>h x. sp_headers (redb_abs cd s) h = Some x \<longrightarrow> eh_hash x \<noteq> k)
    | Inr x \<Rightarrow> \<exists>h. sp_headers (redb_abs cd s) h = Some x \<and> eh_hash x = k" if "k \<noteq> Sha256 []"
    using lookup [OF that]
    by (elim disjE exE conjE) (auto simp: redb_ops_def redb_get_by_hash_def db_get_height_def table)
  show "st_has (redb_ops tx_ok tm cd) k s = (\<exists>h x. sp_headers (redb_abs cd s) h = Some x \<and> eh_hash x = k)"
    if "k \<noteq> Sha256 []"
    using lookup [OF that]
    by (elim disjE exE conjE)
      (auto simp: redb_ops_def redb_contains_hash_def unwrap_or_false_def db_get_height_def
        db_headers_None_iff [OF tab] simp del: not_None_eq)
  show "st_has_at (redb_ops tx_ok tm cd) h s = (h \<in> dom (sp_headers (redb_abs cd s)))"
    using db_headers_None_iff [OF tab, of h] by (auto simp: redb_ops_def redb_contains_height_def unwrap_or_false_def)
  show "st_head_height (redb_ops tx_ok tm cd) s = ok_or NotFound (br_head (sp_stored (redb_abs cd s)))"
    by (simp add: redb_ops_def redb_head_height_def ranges)
  show "st_get_head (redb_ops tx_ok tm cd) s = bind_r (ok_or NotFound (br_head (sp_stored (redb_abs cd s))))
      (\<lambda>h. ok_or NotFound (sp_headers (redb_abs cd s) h))"
  proof -
    have "db_get_header cd s = (\<lambda>h. ok_or NotFound (redb_table cd s h))" using table by blast
    then show ?thesis by (simp add: redb_ops_def redb_get_head_def ranges bind_r_panics)
  qed
  show "st_get_sampling_metadata (redb_ops tx_ok tm cd) h s =
      (if sp_headers (redb_abs cd s) h = None then Inl (Err NotFound) else Inr (sp_metadata (redb_abs cd s) h))"
    using db_headers_None_iff [OF tab, of h]
    by (simp add: redb_ops_def redb_get_sampling_metadata_def db_get_sampling_eq [OF tab])
qed (simp_all add: redb_ops_def redb_get_ranges_def redb_ranges_read)

section \<open>Opening and migrating\<close>

text \<open>A new database is the empty store.\<close>

lemma redb_new_empty:
  assumes "codec_ok cd"
  obtains db where "redb_new tx_ok key redb_empty = (Inr (), db)" "redb_invar cd db" "redb_abs cd db = sp_new"
    "db_schema_version db = Some SCHEMA_VERSION" "db_identity db = Some key"
proof -
  define db where "db = redb_empty\<lparr>db_schema_version := Some SCHEMA_VERSION, db_identity := Some key\<rparr>"
  have "redb_new tx_ok key redb_empty = (Inr (), db)"
    by (simp add: redb_new_def redb_init_def redb_empty_def db_def)
  moreover have abs: "redb_abs cd db = sp_new"
    by (simp add: redb_abs_def sp_new_def redb_table_def redb_meta_def redb_rngs_def db_def redb_empty_def fun_eq_iff)
  moreover have "redb_tables_ok cd db"
    using assms by (simp add: redb_tables_ok_def redb_table_def db_def redb_empty_def)
  then have "redb_invar cd db" by (simp add: redb_invar_def abs)
  moreover have "db_schema_version db = Some SCHEMA_VERSION" "db_identity db = Some key"
    by (simp_all add: db_def)
  ultimately show thesis using that by blast
qed

text \<open>Opening a current database changes nothing.\<close>

lemma redb_new_current:
  assumes "db_schema_version db = Some SCHEMA_VERSION" "db_identity db \<noteq> None"
  shows "redb_new tx_ok key db = (Inr (), db)"
  using assms
  by (auto simp: redb_new_def redb_init_def migrate_v1_to_v2_def migrate_v2_to_v3_def SCHEMA_VERSION_def)

text \<open>The migrations carry the ranges of the old schemas over and keep every header.\<close>

definition v1_ranges :: "redb_db \<Rightarrow> block_ranges" where
  "v1_ranges db = map (\<lambda>(k, s, e). Rng s e) (db_height_ranges_v1 db)"

lemma v1_ranges_eq: "map (\<lambda>(s, e). Rng s e) (map snd (db_height_ranges_v1 db)) = v1_ranges db"
  by (simp add: v1_ranges_def) (auto simp: case_prod_unfold)

lemma redb_migrate:
  assumes "db_schema_version db = Some v" "v \<in> {1, 2}" "br_wf (redb_rngs db V2_SAMPLED_RANGES_KEY)"
  obtains db' where "redb_new tx_ok key db = (Inr (), db')" "db_schema_version db' = Some SCHEMA_VERSION"
    "redb_rngs db' SAMPLED_RANGES_KEY = redb_rngs db V2_SAMPLED_RANGES_KEY"
    "redb_rngs db' HEADER_RANGES_KEY = (if v = 1 then v1_ranges db else redb_rngs db HEADER_RANGES_KEY)"
    "redb_rngs db' PRUNED_RANGES_KEY = redb_rngs db PRUNED_RANGES_KEY"
    "db_headers db' = db_headers db" "db_heights db' = db_heights db" "db_sampling db' = db_sampling db"
proof -
  define db1 where "db1 = (if v = 1 then db\<lparr>db_height_ranges_v1 := [],
        db_ranges := (db_ranges db)(HEADER_RANGES_KEY \<mapsto> map snd (db_height_ranges_v1 db)),
        db_schema_version := Some 2\<rparr> else db)"
  have m1: "migrate_v1_to_v2 db = Inr db1" "db_schema_version db1 = Some 2"
    using assms(1,2) by (auto simp: migrate_v1_to_v2_def db1_def)
  have r1: "redb_rngs db1 n = (if v = 1 \<and> n = HEADER_RANGES_KEY then v1_ranges db else redb_rngs db n)" for n
    using v1_ranges_eq [of db] by (auto simp: db1_def redb_rngs_def)
  have old: "V2_SAMPLED_RANGES_KEY \<noteq> HEADER_RANGES_KEY" by (simp add: range_keys)
  define db2 where "db2 = (let d = db_set_ranges SAMPLED_RANGES_KEY (redb_rngs db V2_SAMPLED_RANGES_KEY) db1 in
    d\<lparr>db_ranges := (db_ranges d)(V2_SAMPLED_RANGES_KEY := None), db_schema_version := Some 3\<rparr>)"
  have get: "db_get_ranges db1 V2_SAMPLED_RANGES_KEY = Inr (redb_rngs db V2_SAMPLED_RANGES_KEY)"
    using db_get_ranges_ok [of db1 V2_SAMPLED_RANGES_KEY] assms(3) r1 old by simp
  have m2: "migrate_v2_to_v3 db1 = Inr db2"
    by (simp add: migrate_v2_to_v3_def m1(2) get db2_def Let_def)
  have r2: "redb_rngs db2 n = (if n = V2_SAMPLED_RANGES_KEY then []
      else if n = SAMPLED_RANGES_KEY then redb_rngs db V2_SAMPLED_RANGES_KEY else redb_rngs db1 n)" for n
    using db_set_ranges_simps(1) [of SAMPLED_RANGES_KEY "redb_rngs db V2_SAMPLED_RANGES_KEY" db1 n]
    by (simp add: db2_def Let_def redb_rngs_def)
  define db3 where "db3 = (if db_identity db2 = None then db2\<lparr>db_identity := Some key\<rparr> else db2)"
  have new: "redb_new tx_ok key db = (Inr (), db3)"
    using assms(1,2) m1 m2 by (auto simp: redb_new_def redb_init_def SCHEMA_VERSION_def db3_def)
  have r3: "redb_rngs db3 = redb_rngs db2" by (simp add: db3_def redb_rngs_def fun_eq_iff)
  show thesis
  proof (rule that [OF new])
    show "db_schema_version db3 = Some SCHEMA_VERSION" by (simp add: db3_def db2_def Let_def SCHEMA_VERSION_def)
    show "db_headers db3 = db_headers db" "db_heights db3 = db_heights db" "db_sampling db3 = db_sampling db"
      by (simp_all add: db3_def db2_def db1_def db_set_ranges_def Let_def)
  qed (simp_all add: r3 r2 r1, simp_all add: range_keys)
qed

end
