(* ===== verification/Either_Store.thy ===== *)
theory Either_Store
  imports In_Memory_Store Redb_Simulation
begin

text \<open>
  \<open>EitherStore\<close>, \<open>node/src/store/either_store.rs\<close>: a store that is one of two stores and
  passes every call on. If both sides keep the contract of a header store, so does the
  combination; the instance the node uses is interpreted at the end.
\<close>

datatype ('l, 'r) either_store = Left 'l | Right 'r

definition either_left :: "('l, 'r) either_store \<Rightarrow> 'l option" where
  "either_left s = (case s of Left l \<Rightarrow> Some l | Right _ \<Rightarrow> None)"

definition either_right :: "('l, 'r) either_store \<Rightarrow> 'r option" where
  "either_right s = (case s of Left _ \<Rightarrow> None | Right r \<Rightarrow> Some r)"

text \<open>The macro \<open>call!\<close>, for methods that read and for methods that change the store.\<close>

definition call_r :: "('l \<Rightarrow> 'a) \<Rightarrow> ('r \<Rightarrow> 'a) \<Rightarrow> ('l, 'r) either_store \<Rightarrow> 'a" where
  "call_r f g s = (case s of Left l \<Rightarrow> f l | Right r \<Rightarrow> g r)"

definition call_w ::
  "('l \<Rightarrow> 'a \<times> 'l) \<Rightarrow> ('r \<Rightarrow> 'a \<times> 'r) \<Rightarrow> ('l, 'r) either_store \<Rightarrow> 'a \<times> ('l, 'r) either_store"
where
  "call_w f g s = (case s of
      Left l \<Rightarrow> (let (x, l') = f l in (x, Left l'))
    | Right r \<Rightarrow> (let (x, r') = g r in (x, Right r')))"

definition either_ops :: "'l store_ops \<Rightarrow> 'r store_ops \<Rightarrow> ('l, 'r) either_store store_ops" where
  "either_ops L R = \<lparr>
     st_get_head = call_r (st_get_head L) (st_get_head R),
     st_get_by_hash = (\<lambda>k. call_r (st_get_by_hash L k) (st_get_by_hash R k)),
     st_get_by_height = (\<lambda>h. call_r (st_get_by_height L h) (st_get_by_height R h)),
     st_head_height = call_r (st_head_height L) (st_head_height R),
     st_has = (\<lambda>k. call_r (st_has L k) (st_has R k)),
     st_has_at = (\<lambda>h. call_r (st_has_at L h) (st_has_at R h)),
     st_update_sampling_metadata = (\<lambda>h cids.
       call_w (st_update_sampling_metadata L h cids) (st_update_sampling_metadata R h cids)),
     st_get_sampling_metadata = (\<lambda>h.
       call_r (st_get_sampling_metadata L h) (st_get_sampling_metadata R h)),
     st_mark_as_sampled = (\<lambda>h. call_w (st_mark_as_sampled L h) (st_mark_as_sampled R h)),
     st_insert = (\<lambda>now hs. call_w (st_insert L now hs) (st_insert R now hs)),
     st_get_stored_header_ranges =
       call_r (st_get_stored_header_ranges L) (st_get_stored_header_ranges R),
     st_get_sampled_ranges = call_r (st_get_sampled_ranges L) (st_get_sampled_ranges R),
     st_get_pruned_ranges = call_r (st_get_pruned_ranges L) (st_get_pruned_ranges R),
     st_remove_height = (\<lambda>h. call_w (st_remove_height L h) (st_remove_height R h))\<rparr>"

definition either_invar :: "('l \<Rightarrow> bool) \<Rightarrow> ('r \<Rightarrow> bool) \<Rightarrow> ('l, 'r) either_store \<Rightarrow> bool" where
  "either_invar I J = call_r I J"

definition either_abs :: "('l \<Rightarrow> store_spec) \<Rightarrow> ('r \<Rightarrow> store_spec) \<Rightarrow> ('l, 'r) either_store \<Rightarrow> store_spec" where
  "either_abs f g = call_r f g"

lemma call_simps [simp]:
  "call_r f g (Left l) = f l" "call_r f g (Right r) = g r"
  by (simp_all add: call_r_def)

lemma either_step:
  "st_step (either_ops L R) c = call_w (st_step L c) (st_step R c)"
  by (cases c) (auto simp: st_step_def either_ops_def call_w_def fun_eq_iff split: either_store.splits)

locale two_stores =
  L: header_store tm lops linv labs + R: header_store tm rops rinv rabs
  for tm and lops :: "'l store_ops" and linv labs and rops :: "'r store_ops" and rinv rabs

sublocale two_stores \<subseteq> either: header_store tm "either_ops lops rops" "either_invar linv rinv"
  "either_abs labs rabs"
proof
  fix s c h k
  assume inv: "either_invar linv rinv s"
  show "sp_ok (either_abs labs rabs s)"
    using inv L.invar_ok R.invar_ok by (cases s) (simp_all add: either_invar_def either_abs_def)
  show "either_invar linv rinv (snd (st_step (either_ops lops rops) c s)) \<and>
      sp_step tm c (either_abs labs rabs s) =
        (fst (st_step (either_ops lops rops) c s),
         either_abs labs rabs (snd (st_step (either_ops lops rops) c s)))"
    if "cmd_ok c (either_abs labs rabs s)"
    using inv that L.step_sim [of _ c] R.step_sim [of _ c]
    by (cases s) (simp_all add: either_step call_w_def either_invar_def either_abs_def case_prod_unfold Let_def)
  show "case st_get_by_hash (either_ops lops rops) k s of
      Inl e \<Rightarrow> e = Err NotFound \<and> (\<forall>h x. sp_headers (either_abs labs rabs s) h = Some x \<longrightarrow> eh_hash x \<noteq> k)
    | Inr x \<Rightarrow> \<exists>h. sp_headers (either_abs labs rabs s) h = Some x \<and> eh_hash x = k" if "k \<noteq> Sha256 []"
  proof (cases s)
    case (Left l)
    have eq: "either_abs labs rabs s = labs l"
      "st_get_by_hash (either_ops lops rops) k s = st_get_by_hash lops k l" "linv l"
      using inv Left by (simp_all add: either_abs_def either_ops_def either_invar_def)
    show ?thesis unfolding eq(1,2) by (rule L.get_by_hash_law [OF eq(3) that])
  next
    case (Right r)
    have eq: "either_abs labs rabs s = rabs r"
      "st_get_by_hash (either_ops lops rops) k s = st_get_by_hash rops k r" "rinv r"
      using inv Right by (simp_all add: either_abs_def either_ops_def either_invar_def)
    show ?thesis unfolding eq(1,2) by (rule R.get_by_hash_law [OF eq(3) that])
  qed
qed (simp_all add: either_ops_def either_invar_def either_abs_def call_r_def L.get_by_height_law
    R.get_by_height_law L.has_law R.has_law L.has_at_law R.has_at_law L.head_height_law
    R.head_height_law L.get_head_law R.get_head_law L.metadata_law R.metadata_law L.ranges_law
    R.ranges_law split: either_store.splits)

interpretation mem_or_redb: two_stores tm "mem_ops tm" mem_invar mem_abs "redb_ops tx_ok tm cd"
  "redb_invar cd" "redb_abs cd" for tm cd ..

end
