(* ===== verification/Pruner_Search.thy ===== *)
theory Pruner_Search
  imports Pruner Either_Store Block_Ranges_Partition
begin

text \<open>
  The search for the first height after a window, over any store that keeps the contract
  \<open>header_store\<close>: the binary search returns, and both searches find the highest stored block that
  is older than the cut-off. The times of the chain are a function \<open>T\<close> of the height.
\<close>

section \<open>Times and cached infos\<close>

text \<open>The stored headers are blocks of a chain with the times \<open>T\<close>.\<close>

definition chain_times :: "(nat \<Rightarrow> time) \<Rightarrow> store_spec \<Rightarrow> bool" where
  "chain_times T a \<longleftrightarrow> (\<forall>h x. sp_headers a h = Some x \<longrightarrow> eh_time x = T h)"

definition info_at :: "(nat \<Rightarrow> time) \<Rightarrow> nat \<Rightarrow> block_info" where
  "info_at T h = \<lparr>bi_height = h, bi_time = T h\<rparr>"

lemma info_at_simps [simp]: "bi_height (info_at T h) = h" "bi_time (info_at T h) = T h"
  by (simp_all add: info_at_def)

definition cache_ok :: "(nat \<Rightarrow> time) \<Rightarrow> pcache \<Rightarrow> bool" where
  "cache_ok T ca \<longleftrightarrow> (\<forall>h i. ca_block_info ca h = Some i \<longrightarrow> i = info_at T h)"

text \<open>A search only adds infos.\<close>

definition infos_grow :: "(nat \<Rightarrow> time) \<Rightarrow> pcache \<Rightarrow> pcache \<Rightarrow> bool" where
  "infos_grow T ca ca' \<longleftrightarrow> cache_ok T ca' \<and> (\<exists>m. ca' = ca\<lparr>ca_block_info := m\<rparr>)"

lemma infos_grow_refl: "cache_ok T ca \<Longrightarrow> infos_grow T ca ca"
  unfolding infos_grow_def by (metis pcache.surjective pcache.update_convs(4))

lemma infos_grow_trans: "infos_grow T a b \<Longrightarrow> infos_grow T b c \<Longrightarrow> infos_grow T a c"
  unfolding infos_grow_def by auto

lemma infos_growD:
  assumes "infos_grow T ca ca'"
  shows "cache_ok T ca'" "ca_after_pruning_window ca' = ca_after_pruning_window ca"
    "ca_after_sampling_window ca' = ca_after_sampling_window ca"
  using assms by (auto simp: infos_grow_def)

section \<open>The searched height\<close>

text \<open>The highest member of \<open>S\<close> that satisfies \<open>P\<close>.\<close>

definition is_top :: "(nat \<Rightarrow> bool) \<Rightarrow> nat set \<Rightarrow> nat option \<Rightarrow> bool" where
  "is_top P S r = (case r of
      None \<Rightarrow> \<forall>h \<in> S. \<not> P h
    | Some m \<Rightarrow> m \<in> S \<and> P m \<and> (\<forall>h \<in> S. m < h \<longrightarrow> \<not> P h))"

lemma is_top_cong: "(\<And>h. h \<in> S \<Longrightarrow> P h = Q h) \<Longrightarrow> is_top P S r = is_top Q S r"
  by (auto simp: is_top_def split: option.splits)

lemma is_top_unique: "is_top P S a \<Longrightarrow> is_top P S b \<Longrightarrow> a = b"
  by (auto simp: is_top_def split: option.splits) (metis nat_neq_iff)

text \<open>One round of the binary search narrows the set that is left to one half.\<close>

lemma is_top_split:
  assumes "balanced_split S L m R" "strict_mono T" "\<forall>x \<in> S. \<forall>y \<in> set_option hi. y < x" "\<forall>y \<in> set_option hi. T y < (c :: int)"
  shows "T m < c \<Longrightarrow> is_top (\<lambda>h. T h < c) (R \<union> {m}) r \<Longrightarrow> is_top (\<lambda>h. T h < c) (S \<union> set_option hi) r"
    "\<not> T m < c \<Longrightarrow> is_top (\<lambda>h. T h < c) (L \<union> set_option hi) r \<Longrightarrow> is_top (\<lambda>h. T h < c) (S \<union> set_option hi) r"
proof -
  note S = assms(1) [unfolded balanced_split_def]
  have mono: "T x < T y" if "x < y" for x y using assms(2) that by (rule strict_monoD)
  show "is_top (\<lambda>h. T h < c) (S \<union> set_option hi) r" if "T m < c" "is_top (\<lambda>h. T h < c) (R \<union> {m}) r"
  proof (cases r)
    case (Some k)
    with that(2) S have k: "k \<in> R \<union> {m}" "T k < c" "\<forall>h \<in> R \<union> {m}. k < h \<longrightarrow> \<not> T h < c" "m \<le> k"
      by (auto simp: is_top_def less_imp_le)
    have "\<not> T h < c" if h: "h \<in> S \<union> set_option hi" "k < h" for h
    proof -
      from h(1) have "h \<in> R \<union> {m} \<or> h < m" using S assms(3) by blast
      with h(2) k show ?thesis by auto
    qed
    with k S Some show ?thesis by (auto simp: is_top_def)
  qed (use that in \<open>auto simp: is_top_def\<close>)
  show "is_top (\<lambda>h. T h < c) (S \<union> set_option hi) r" if "\<not> T m < c" "is_top (\<lambda>h. T h < c) (L \<union> set_option hi) r"
  proof -
    have "\<not> T h < c" if "h \<in> insert m R" for h using that \<open>\<not> T m < c\<close> S mono [of m h] by fastforce
    with that(2) S show ?thesis by (auto simp: is_top_def split: option.splits)
  qed
qed

lemma left_of_top:
  assumes "br_wf rs"
  shows "is_top (\<lambda>x. x \<le> h) (heights rs) (if br_contains rs h then Some h else left_of rs h)"
proof (cases "h \<in> heights rs")
  case False
  then have eq: "{x \<in> heights rs. x < h} = {x \<in> heights rs. x \<le> h}" by (auto simp: le_less)
  show ?thesis
  proof (cases "{x \<in> heights rs. x \<le> h} = {}")
    case ne: False
    have "finite {x \<in> heights rs. x \<le> h}" by simp
    from Max_in [OF this ne] Max_ge [OF this] False ne show ?thesis
      by (auto simp: left_of_eq [OF assms] eq is_top_def)
  qed (use False in \<open>auto simp: left_of_eq [OF assms] eq is_top_def\<close>)
qed (auto simp: is_top_def)

lemma right_of_Some:
  assumes "br_wf rs" "right_of rs h = Some k"
  shows "k \<in> heights rs" "h < k" "\<And>x. x \<in> heights rs \<Longrightarrow> h < x \<Longrightarrow> k \<le> x"
proof -
  have fin: "finite {x \<in> heights rs. h < x}" by simp
  have k: "{x \<in> heights rs. h < x} \<noteq> {}" "k = Min {x \<in> heights rs. h < x}"
    using assms by (auto simp: right_of_eq split: if_splits)
  show "k \<in> heights rs" "h < k" using Min_in [OF fin k(1)] k(2) by auto
  show "k \<le> x" if "x \<in> heights rs" "h < x" for x using Min_le [OF fin] that k(2) by simp
qed

lemma right_of_None: "br_wf rs \<Longrightarrow> right_of rs h = None \<Longrightarrow> x \<in> heights rs \<Longrightarrow> x \<le> h"
  by (auto simp: right_of_eq not_less [symmetric] split: if_splits)

section \<open>The searches\<close>

context header_store
begin

lemma get_block_info_ok:
  assumes "invar s" "chain_times T (abs_st s)" "cache_ok T ca" "h \<in> heights (sp_stored (abs_st s))"
  shows "\<exists>ca'. get_block_info ops s h ca = (Inr (info_at T h), ca') \<and> infos_grow T ca ca'"
proof (cases "ca_block_info ca h")
  case None
  from assms(4) invar_ok [OF assms(1)] obtain x where x: "sp_headers (abs_st s) h = Some x" by (auto simp: sp_ok_def)
  with sp_ok_height(4) [OF invar_ok [OF assms(1)] x] assms(2)
  have i: "\<lparr>bi_height = eh_height x, bi_time = eh_time x\<rparr> = info_at T h" by (simp add: chain_times_def info_at_def)
  have "get_block_info ops s h ca = (Inr (info_at T h), ca\<lparr>ca_block_info := (ca_block_info ca)(h \<mapsto> info_at T h)\<rparr>)"
    using None x get_by_height_law [OF assms(1), of h] by (simp add: get_block_info_def i Let_def)
  moreover have "infos_grow T ca (ca\<lparr>ca_block_info := (ca_block_info ca)(h \<mapsto> info_at T h)\<rparr>)"
    using assms(3) by (auto simp: infos_grow_def cache_ok_def)
  ultimately show ?thesis by blast
next
  case (Some i)
  with assms(3) show ?thesis by (auto simp: get_block_info_def cache_ok_def intro!: infos_grow_refl)
qed

text \<open>The binary search returns the highest block older than the cut-off.\<close>

lemma slow_loop_ok:
  assumes "invar s" "chain_times T (abs_st s)" "strict_mono T" "cache_ok T ca" "br_wf rs"
    "heights rs \<subseteq> heights (sp_stored (abs_st s))"
    "\<forall>x \<in> heights rs. \<forall>y \<in> set_option hi. y < x" "\<forall>y \<in> set_option hi. T y < c"
  shows "\<exists>r ca'. slow_loop ops s c rs (map_option (info_at T) hi) ca = Some (Inr (map_option (info_at T) r), ca') \<and>
    infos_grow T ca ca' \<and> is_top (\<lambda>h. T h < c) (heights rs \<union> set_option hi) r"
  using assms(4-)
proof (induction "card (heights rs)" arbitrary: rs hi ca rule: less_induct)
  case less
  show ?case
  proof (cases "heights rs = {}")
    case True
    with less.prems(2) have "slow_loop ops s c rs (map_option (info_at T) hi) ca = Some (Inr (map_option (info_at T) hi), ca)"
      by (subst slow_loop.simps) (simp add: partitions_empty)
    moreover have "is_top (\<lambda>h. T h < c) (heights rs \<union> set_option hi) hi"
      using True less.prems(5) by (auto simp: is_top_def split: option.splits)
    ultimately show ?thesis using infos_grow_refl [OF less.prems(1)] by blast
  next
    case False
    from partitions_ok [OF less.prems(2) False, where 'e = pruner_error] obtain l m r where
      p: "partitions rs = (Inr (Some (l, m, r)) :: (pruner_error, _) result)" "br_wf l" "br_wf r"
      and b: "balanced_split (heights rs) (heights l) m (heights r)" by blast
    note S = b [unfolded balanced_split_def]
    from get_block_info_ok [OF assms(1,2) less.prems(1), of m] S less.prems(3) obtain ca1 where
      g: "get_block_info ops s m ca = (Inr (info_at T m), ca1)" "infos_grow T ca ca1" by blast
    have "heights l \<subset> heights rs" "heights r \<subset> heights rs" using S by auto
    then have card: "card (heights l) < card (heights rs)" "card (heights r) < card (heights rs)"
      by (simp_all add: psubset_card_mono)
    show ?thesis
    proof (cases "T m < c")
      case True
      have "T y < T m" if "y \<in> set_option hi" for y
        using less.prems(4) S that by (intro strict_monoD [OF assms(3)]) blast
      then have step: "slow_loop ops s c rs (map_option (info_at T) hi) ca =
          slow_loop ops s c r (map_option (info_at T) (Some m)) ca1"
        using True p(1) g(1) by (subst slow_loop.simps) (auto split: option.splits)
      from less.hyps [OF card(2) infos_growD(1) [OF g(2)] p(3), of "Some m"] S less.prems(3) True
      obtain k ca2 where "slow_loop ops s c r (map_option (info_at T) (Some m)) ca1 = Some (Inr (map_option (info_at T) k), ca2)"
        "infos_grow T ca1 ca2" "is_top (\<lambda>h. T h < c) (heights r \<union> {m}) k" by auto
      with step infos_grow_trans [OF g(2)] is_top_split(1) [OF b assms(3) less.prems(4,5) True] show ?thesis by metis
    next
      case False
      then have step: "slow_loop ops s c rs (map_option (info_at T) hi) ca =
          slow_loop ops s c l (map_option (info_at T) hi) ca1"
        using p(1) g(1) by (subst slow_loop.simps) simp
      from less.hyps [OF card(1) infos_growD(1) [OF g(2)] p(2), of hi] S less.prems(3-5)
      obtain k ca2 where "slow_loop ops s c l (map_option (info_at T) hi) ca1 = Some (Inr (map_option (info_at T) k), ca2)"
        "infos_grow T ca1 ca2" "is_top (\<lambda>h. T h < c) (heights l \<union> set_option hi) k" by auto
      with step infos_grow_trans [OF g(2)] is_top_split(2) [OF b assms(3) less.prems(4,5) False] show ?thesis by metis
    qed
  qed
qed

lemma find_slow_ok:
  assumes "invar s" "chain_times T (abs_st s)" "strict_mono T" "cache_ok T ca"
  shows "\<exists>r ca'. find_height_after_window_slow ops s (sp_stored (abs_st s)) c ca = Some (Inr r, ca') \<and>
    infos_grow T ca ca' \<and> is_top (\<lambda>h. T h < c) (heights (sp_stored (abs_st s))) r"
proof -
  have "br_wf (sp_stored (abs_st s))" using invar_ok [OF assms(1)] by (simp add: sp_ok_def)
  from slow_loop_ok [OF assms this subset_refl, of None c] obtain r ca' where
    "slow_loop ops s c (sp_stored (abs_st s)) None ca = Some (Inr (map_option (info_at T) r), ca')"
    "infos_grow T ca ca'" "is_top (\<lambda>h. T h < c) (heights (sp_stored (abs_st s))) r" by auto
  then show ?thesis
    by (auto simp: find_height_after_window_slow_def option.map_comp comp_def option.map_ident)
qed

text \<open>The fast search answers with the highest block that is not newer than the cut-off, when the
  previous answer was not newer either.\<close>

lemma find_fast_ok:
  assumes "invar s" "chain_times T (abs_st s)" "strict_mono T" "cache_ok T ca" "\<forall>p \<in> set_option prev. T p \<le> c"
  defines "S \<equiv> sp_stored (abs_st s)"
  shows "\<exists>r ca'. find_height_after_window_fast ops s S c prev ca = (Inr r, ca') \<and> infos_grow T ca ca' \<and>
    (\<forall>k. r = Some k \<longrightarrow> is_top (\<lambda>h. T h \<le> c) (heights S) k)"
proof -
  have wf: "br_wf S" using invar_ok [OF assms(1)] by (simp add: sp_ok_def S_def)
  have le: "T x \<le> T y" if "x \<le> y" for x y using strict_mono_less_eq [OF assms(3)] that by simp
  note info = get_block_info_ok [OF assms(1,2), folded S_def]
  show ?thesis
  proof (cases prev)
    case None
    show ?thesis
    proof (cases "br_tail S")
      case tl: None
      with wf have "heights S = {}" by (simp add: br_tail_None_iff)
      with None tl infos_grow_refl [OF assms(4)] show ?thesis
        by (simp add: find_height_after_window_fast_def is_top_def)
    next
      case (Some t)
      with wf have t: "t \<in> heights S" "\<forall>x \<in> heights S. t \<le> x" by (simp_all add: br_tail_Some_iff)
      from info [OF assms(4) t(1)] obtain ca1 where
        i: "get_block_info ops s t ca = (Inr (info_at T t), ca1)" "infos_grow T ca ca1" by blast
      have "is_top (\<lambda>h. T h \<le> c) (heights S) None" if "c < T t" using that t(2) le by (fastforce simp: is_top_def)
      with None Some i show ?thesis by (simp add: find_height_after_window_fast_def)
    qed
  next
    case (Some p)
    with assms(5) have Tp: "T p \<le> c" by simp
    define known where "known = (if br_contains S p then Some p else left_of S p)"
    have known: "is_top (\<lambda>h. T h \<le> c) (heights S) known" if "\<forall>x \<in> heights S. p < x \<longrightarrow> c < T x"
    proof -
      have "T x \<le> c \<longleftrightarrow> x \<le> p" if "x \<in> heights S" for x
        using that \<open>\<forall>x \<in> heights S. p < x \<longrightarrow> c < T x\<close> le [of x p] Tp by force
      from is_top_cong [of "heights S" "\<lambda>h. T h \<le> c" "\<lambda>x. x \<le> p", OF this] left_of_top [OF wf, of p]
      show ?thesis by (simp add: known_def)
    qed
    show ?thesis
    proof (cases "right_of S p")
      case r: None
      from known right_of_None [OF wf r] have "is_top (\<lambda>h. T h \<le> c) (heights S) known" by fastforce
      with Some r infos_grow_refl [OF assms(4)] show ?thesis
        by (auto simp: find_height_after_window_fast_def known_def)
    next
      case r: (Some q)
      note q = right_of_Some [OF wf r]
      from info [OF assms(4) q(1)] obtain ca1 where
        i: "get_block_info ops s q ca = (Inr (info_at T q), ca1)" "infos_grow T ca ca1" by blast
      show ?thesis
      proof (cases "c < T q")
        case True
        then have "is_top (\<lambda>h. T h \<le> c) (heights S) known" using q(3) le by (intro known) fastforce
        with Some r i True show ?thesis
          by (auto simp: find_height_after_window_fast_def known_def)
      next
        case False
        have top: "is_top (\<lambda>h. T h \<le> c) (heights S) (Some q)" if "\<forall>x \<in> heights S. q < x \<longrightarrow> c < T x"
          using that q(1) False by (force simp: is_top_def)
        show ?thesis
        proof (cases "right_of S q")
          case rr: None
          from top right_of_None [OF wf rr] have "is_top (\<lambda>h. T h \<le> c) (heights S) (Some q)" by fastforce
          with Some r rr i False show ?thesis by (simp add: find_height_after_window_fast_def)
        next
          case rr: (Some q2)
          note q2 = right_of_Some [OF wf rr]
          from info [OF infos_growD(1) [OF i(2)] q2(1)] obtain ca2 where
            i2: "get_block_info ops s q2 ca1 = (Inr (info_at T q2), ca2)" "infos_grow T ca1 ca2" by blast
          have "is_top (\<lambda>h. T h \<le> c) (heights S) (Some q)" if "c < T q2" using q2(3) le that by (intro top) fastforce
          with Some r rr i i2 False infos_grow_trans [OF i(2) i2(2)] show ?thesis
            by (simp add: find_height_after_window_fast_def)
        qed
      qed
    qed
  qed
qed

text \<open>The found height is never newer than the cut-off, and without a block at the very time of the
  cut-off it is the highest older one.\<close>

lemma find_height_ok:
  assumes "invar s" "chain_times T (abs_st s)" "strict_mono T" "cache_ok T ca" "\<forall>p \<in> set_option prev. T p \<le> c"
  defines "S \<equiv> sp_stored (abs_st s)"
  shows "\<exists>r ca'. find_height_after_window ops s S c prev ca = Some (Inr r, ca') \<and> infos_grow T ca ca' \<and>
    (\<forall>k \<in> set_option r. k \<in> heights S \<and> T k \<le> c) \<and>
    ((\<forall>h \<in> heights S. T h \<noteq> c) \<longrightarrow> is_top (\<lambda>h. T h < c) (heights S) r)"
proof -
  from find_fast_ok [OF assms(1-5), folded S_def] obtain r ca1 where
    f: "find_height_after_window_fast ops s S c prev ca = (Inr r, ca1)" "infos_grow T ca ca1"
    "\<forall>k. r = Some k \<longrightarrow> is_top (\<lambda>h. T h \<le> c) (heights S) k" by blast
  show ?thesis
  proof (cases r)
    case None
    from find_slow_ok [OF assms(1-3) infos_growD(1) [OF f(2)], of c, folded S_def] obtain k ca2 where
      k: "find_height_after_window_slow ops s S c ca1 = Some (Inr k, ca2)" "infos_grow T ca1 ca2"
      "is_top (\<lambda>h. T h < c) (heights S) k" by blast
    have "\<forall>x \<in> set_option k. x \<in> heights S \<and> T x \<le> c" using k(3) by (auto simp: is_top_def)
    with None f(1) k infos_grow_trans [OF f(2) k(2)] show ?thesis by (simp add: find_height_after_window_def)
  next
    case (Some k)
    with f(3) have k: "is_top (\<lambda>h. T h \<le> c) (heights S) k" by simp
    have "is_top (\<lambda>h. T h < c) (heights S) k" if ne: "\<forall>h \<in> heights S. T h \<noteq> c"
      using k is_top_cong [of "heights S" "\<lambda>h. T h \<le> c" "\<lambda>h. T h < c" k] ne by force
    moreover have "\<forall>x \<in> set_option k. x \<in> heights S \<and> T x \<le> c" using k by (auto simp: is_top_def)
    ultimately show ?thesis using Some f(1,2) by (simp add: find_height_after_window_def)
  qed
qed

end

end
