(* ===== verification/Daser_Invariants.thy ===== *)
theory Daser_Invariants
  imports Daser Either_Store
begin

text \<open>
  What holds in every state the sampler reaches, over any store that keeps the contract
  \<open>header_store\<close>: the queue, the running samplings and the heights that the pruner may remove do
  not overlap, the number of samplings is bounded, every sampling has drawn enough distinct
  shares of its square, and its progress is in the published events. The two loops return.
\<close>

section \<open>Random shares\<close>

definition drawn :: "(nat \<Rightarrow> nat) \<Rightarrow> nat \<Rightarrow> nat \<Rightarrow> nat \<Rightarrow> (nat \<times> nat) set" where
  "drawn rng w a b = (\<lambda>k. (rng (2 * k) mod w, rng (2 * k + 1) mod w)) ` {a..<b}"

text \<open>The generator yields enough different shares of the square.\<close>

definition rng_fair :: "(nat \<Rightarrow> nat) \<Rightarrow> nat \<Rightarrow> nat \<Rightarrow> bool" where
  "rng_fair rng w m \<longleftrightarrow> (\<exists>n. m \<le> card (drawn rng w 0 n))"

definition indexes_ok :: "nat \<Rightarrow> nat \<Rightarrow> (nat \<times> nat) list \<Rightarrow> bool" where
  "indexes_ok w m xs \<longleftrightarrow> distinct xs \<and> set xs \<subseteq> {..<w} \<times> {..<w} \<and> length xs = min m (w ^ 2)"

lemma random_loop_sound:
  "random_loop rng k w m xs = Some ys \<Longrightarrow>
   distinct xs \<and> set xs \<subseteq> {..<w} \<times> {..<w} \<and> length xs \<le> m \<and> 0 < w \<longrightarrow>
   distinct ys \<and> set ys \<subseteq> {..<w} \<times> {..<w} \<and> length ys = m"
proof (induction rule: random_loop.raw_induct [rotated, consumes 1, case_names step])
  case (step f rng k w m xs ys)
  show ?case
  proof (cases "length xs < m")
    case True
    define p where "p = (rng (2 * k) mod w, rng (2 * k + 1) mod w)"
    from step(2) True have "f rng (k + 1) w m (if p \<in> set xs then xs else xs @ [p]) = Some ys"
      by (simp only: if_True p_def Let_def)
    from step(1) [OF this] True show ?thesis by (auto simp: p_def)
  next
    case False
    with step(2) show ?thesis by auto
  qed
qed

lemma random_loop_returns:
  assumes "m \<le> card (set xs \<union> drawn rng w k n)" "distinct xs"
  shows "\<exists>ys. random_loop rng k w m xs = Some ys"
  using assms
proof (induction "n - k" arbitrary: k xs)
  case 0
  then have "drawn rng w k n = {}" by (simp add: drawn_def)
  with 0 show ?case by (subst random_loop.simps) (simp add: distinct_card)
next
  case (Suc d)
  define p where "p = (rng (2 * k) mod w, rng (2 * k + 1) mod w)"
  define xs' where "xs' = (if p \<in> set xs then xs else xs @ [p])"
  from Suc(2) have "{k..<n} = insert k {k + 1..<n}" by auto
  then have "drawn rng w k n = insert p (drawn rng w (k + 1) n)" by (simp add: drawn_def p_def)
  then have "set xs \<union> drawn rng w k n = set xs' \<union> drawn rng w (k + 1) n" by (auto simp: xs'_def)
  with Suc.prems Suc(2) have "\<exists>ys. random_loop rng (k + 1) w m xs' = Some ys"
    by (intro Suc(1)) (auto simp: xs'_def)
  then show ?case by (subst random_loop.simps) (auto simp: Let_def p_def xs'_def)
qed

lemma all_pairs:
  defines "xs w \<equiv> concat (map (\<lambda>row. map (\<lambda>col. (row, col)) [0..<w]) [0..<w])"
  shows "distinct (xs w)" "set (xs w) = {..<w} \<times> {..<w}" "length (xs w) = w ^ 2"
proof -
  show set: "set (xs w) = {..<w} \<times> {..<w}" by (auto simp: xs_def)
  have "xs w = List.product [0..<w] [0..<w]" by (simp add: xs_def product_concat_map)
  then show "distinct (xs w)" "length (xs w) = w ^ 2"
    by (simp_all add: distinct_product power2_eq_square)
qed

lemma random_indexes_sound:
  assumes "random_indexes rng w m = Some xs"
  shows "indexes_ok w m xs"
proof (cases "w ^ 2 \<le> m")
  case True
  with assms all_pairs [of w] show ?thesis by (simp add: random_indexes_def indexes_ok_def min_def)
next
  case False
  then have "0 < w" by (cases w) auto
  with assms False random_loop_sound [of rng 0 w m "[]" xs] show ?thesis
    by (simp add: random_indexes_def indexes_ok_def)
qed

lemma random_indexes_returns:
  assumes "w ^ 2 \<le> m \<or> rng_fair rng w m"
  shows "\<exists>xs. random_indexes rng w m = Some xs"
  using assms random_loop_returns [of m "[]" rng w 0]
  by (auto simp: random_indexes_def rng_fair_def)

section \<open>Timeouts\<close>

lemma calc_timeout_eq:
  assumes "time_min \<le> now - sampling_window"
  shows "calc_timeout header_time now sampling_window =
    max (header_time + sampling_window - now) GET_SAMPLE_MIN_TIMEOUT"
  using assms by (auto simp: calc_timeout_def time_saturating_sub_def Let_def GET_SAMPLE_MIN_TIMEOUT_def)

section \<open>The invariant\<close>

text \<open>The published events tell the progress of a sampling: it was announced, and every share that
  is no longer pending was answered after that, in time unless the sampling has timed out.\<close>

definition delivered :: "node_event list \<Rightarrow> sampling_fut \<Rightarrow> (nat \<times> nat) set \<Rightarrow> bool" where
  "delivered es f ps \<longleftrightarrow> (\<exists>pre post. es = pre @ sampling_started f # post \<and>
     (\<forall>(row, col) \<in> ps. \<exists>t. ShareSamplingResult (sf_height f) (sf_square_width f) row col t \<in> set post \<and>
        (t \<longrightarrow> sf_timed_out f)))"

definition fut_ok :: "node_event list \<Rightarrow> sampling_fut \<Rightarrow> bool" where
  "fut_ok es f \<longleftrightarrow> indexes_ok (sf_square_width f) MAX_SAMPLES_NEEDED (sf_indexes f) \<and>
     distinct (sf_pending f) \<and> set (sf_pending f) \<subseteq> set (sf_indexes f) \<and>
     (if sf_started f then delivered es f (set (sf_indexes f) - set (sf_pending f))
      else sf_pending f = sf_indexes f \<and> \<not> sf_timed_out f)"

definition da_ok :: "'s daser \<Rightarrow> bool" where
  "da_ok w \<longleftrightarrow> br_wf (da_queue w) \<and> br_wf (da_timed_out w) \<and> br_wf (da_ongoing w) \<and> br_wf (da_will_be_pruned w) \<and>
     heights (da_ongoing w) = sf_height ` set (da_sampling_futs w) \<and>
     distinct (map sf_height (da_sampling_futs w)) \<and>
     heights (da_queue w) \<inter> (heights (da_ongoing w) \<union> heights (da_timed_out w) \<union> heights (da_will_be_pruned w)) = {} \<and>
     heights (da_ongoing w) \<inter> heights (da_will_be_pruned w) = {} \<and>
     (\<forall>f \<in> set (da_sampling_futs w). fut_ok (da_events w) f) \<and>
     length (da_sampling_futs w) \<le> da_concurrency_limit w + da_additional_headersub_concurency w \<and>
     da_concurrency_limit w + da_additional_headersub_concurency w \<le> u64_max \<and>
     da_max_samples_needed w = MAX_SAMPLES_NEEDED"

lemma da_okD:
  assumes "da_ok w"
  shows "br_wf (da_queue w)" "br_wf (da_timed_out w)" "br_wf (da_ongoing w)" "br_wf (da_will_be_pruned w)"
    "heights (da_ongoing w) = sf_height ` set (da_sampling_futs w)"
    "distinct (map sf_height (da_sampling_futs w))"
    "heights (da_queue w) \<inter> (heights (da_ongoing w) \<union> heights (da_timed_out w) \<union> heights (da_will_be_pruned w)) = {}"
    "heights (da_ongoing w) \<inter> heights (da_will_be_pruned w) = {}"
    "\<And>f. f \<in> set (da_sampling_futs w) \<Longrightarrow> fut_ok (da_events w) f"
    "length (da_sampling_futs w) \<le> da_concurrency_limit w + da_additional_headersub_concurency w"
    "da_concurrency_limit w + da_additional_headersub_concurency w \<le> u64_max"
    "da_max_samples_needed w = MAX_SAMPLES_NEEDED"
  using assms unfolding da_ok_def by blast+

lemma daser_new_ok: "c + a \<le> u64_max \<Longrightarrow> da_ok (daser_new s sw c a)"
  by (simp add: da_ok_def daser_new_def)

lemma delivered_more:
  assumes "delivered es f ps" shows "delivered (es @ es') f ps"
proof -
  from assms obtain pre post where d: "es = pre @ sampling_started f # post"
    "\<forall>(row, col) \<in> ps. \<exists>t. ShareSamplingResult (sf_height f) (sf_square_width f) row col t \<in> set post \<and>
        (t \<longrightarrow> sf_timed_out f)"
    unfolding delivered_def by blast
  then show ?thesis
    unfolding delivered_def by (intro exI [of _ pre] exI [of _ "post @ es'"]) fastforce
qed

lemma fut_ok_more: "fut_ok es f \<Longrightarrow> fut_ok (es @ es') f"
  using delivered_more by (auto simp: fut_ok_def)

text \<open>Changes that cannot break it: the store, what the pruner reports, and events.\<close>

lemma da_ok_frame [simp]:
  "da_ok (w\<lparr>da_store := s\<rparr>) = da_ok w"
  "da_ok (w\<lparr>da_head_height := h\<rparr>) = da_ok w"
  "da_ok (w\<lparr>da_highest_prunable_height := h\<rparr>) = da_ok w"
  "da_ok (w\<lparr>da_num_of_prunable_blocks := n\<rparr>) = da_ok w"
  "da_ok (w\<lparr>da_head_height := h, da_queue := q\<rparr>) = da_ok (w\<lparr>da_queue := q\<rparr>)"
  by (simp_all add: da_ok_def)

lemma da_ok_publish: "da_ok w \<Longrightarrow> da_ok (da_publish e w)"
  by (auto simp: da_ok_def da_publish_def intro: fut_ok_more)

lemma da_ok_queue:
  assumes "da_ok w" "br_wf q"
    "heights q \<inter> (heights (da_ongoing w) \<union> heights (da_timed_out w) \<union> heights (da_will_be_pruned w)) = {}"
  shows "da_ok (w\<lparr>da_queue := q\<rparr>)"
  using assms by (auto simp: da_ok_def)

lemma da_ok_leave: "da_ok w \<Longrightarrow> da_ok (da_leave w)"
  by (simp add: da_ok_def da_leave_def)

section \<open>Commands\<close>

lemma on_want_to_prune_cases:
  assumes "da_ok w" "h \<le> u64_max"
  shows "(h = 0 \<and> (\<exists>m. on_want_to_prune h w = (Inl (Panic m), w))) \<or>
    (h \<in> heights (da_ongoing w) \<and> on_want_to_prune h w = (Inr False, w)) \<or>
    (0 < h \<and> h \<notin> heights (da_ongoing w) \<and> (\<exists>q p. on_want_to_prune h w =
       (Inr True, w\<lparr>da_queue := q, da_will_be_pruned := p\<rparr>) \<and> br_wf q \<and> br_wf p \<and>
       heights q = heights (da_queue w) - {h} \<and> heights p = insert h (heights (da_will_be_pruned w))))"
proof -
  consider "h = 0" | "0 < h" "h \<in> heights (da_ongoing w)" | "0 < h" "h \<notin> heights (da_ongoing w)" by blast
  then show ?thesis
  proof cases
    case 1
    moreover have "0 \<notin> heights (da_ongoing w)"
      using heights_bounded [OF da_okD(3) [OF assms(1)]] by (auto simp: all_heights_def)
    ultimately show ?thesis
      by (simp add: on_want_to_prune_def remove_relaxed_def validate_def)
  next
    case 2
    then show ?thesis by (simp add: on_want_to_prune_def)
  next
    case 3
    with assms(2) have r: "range_ok (Rng h h)" by (simp add: range_ok_def)
    from br.rem_law [OF da_okD(1) [OF assms(1)] r] obtain q where
      q: "remove_relaxed (da_queue w) (Rng h h) = Inr q" "br_wf q" "heights q = heights (da_queue w) - {h}"
      by (auto simp: range_set_def)
    from br.ins_law [OF da_okD(4) [OF assms(1)] r] obtain p where
      p: "insert_relaxed (da_will_be_pruned w) (Rng h h) = Inr p" "br_wf p"
      "heights p = insert h (heights (da_will_be_pruned w))" by (auto simp: range_set_def)
    from q(1) p(1) have "on_want_to_prune h w = (Inr True, w\<lparr>da_queue := q, da_will_be_pruned := p\<rparr>)"
      using 3 by (simp add: on_want_to_prune_def)
    with 3 q p show ?thesis by blast
  qed
qed

definition cmd_u64 :: "daser_cmd \<Rightarrow> bool" where
  "cmd_u64 c = (case c of WantToPrune h \<Rightarrow> h \<le> u64_max | _ \<Rightarrow> True)"

lemma on_want_to_prune_ok:
  assumes "da_ok w" "h \<le> u64_max"
  shows "da_ok (snd (on_want_to_prune h w))"
  using on_want_to_prune_cases [OF assms] assms(1)
  by (elim disjE exE conjE) (auto simp: da_ok_def)

lemma da_on_cmd_ok: "da_ok w \<Longrightarrow> cmd_u64 c \<Longrightarrow> da_ok (snd (da_on_cmd c w))"
  using on_want_to_prune_ok [of w]
  by (cases c) (auto simp: da_on_cmd_def cmd_u64_def case_prod_unfold)

section \<open>Scheduling\<close>

text \<open>The heights that are not to be sampled now.\<close>

definition da_busy :: "'s daser \<Rightarrow> nat set" where
  "da_busy w = heights (da_ongoing w) \<union> heights (da_timed_out w) \<union> heights (da_will_be_pruned w)"

lemma da_busy_frame [simp]:
  "da_busy (w\<lparr>da_queue := q\<rparr>) = da_busy w" "da_busy (w\<lparr>da_head_height := h\<rparr>) = da_busy w"
  "da_busy (w\<lparr>da_store := s\<rparr>) = da_busy w"
  by (simp_all add: da_busy_def)

lemma da_ok_busy: "da_ok w \<Longrightarrow> heights (da_queue w) \<inter> da_busy w = {}"
  using da_okD(7) by (simp add: da_busy_def)

lemma sampling_limit_le:
  assumes "da_ok w"
  shows "\<exists>l. sampling_limit h w = Inr l \<and> l \<le> da_concurrency_limit w + da_additional_headersub_concurency w"
  using da_okD(11) [OF assms] by (simp add: sampling_limit_def add_u64_def)

lemma put_back_ok:
  assumes "da_ok w" "0 < h" "h \<le> u64_max" "h \<notin> da_busy w"
  shows "\<exists>q. put_back h w = (Inr None, w\<lparr>da_queue := q\<rparr>) \<and> da_ok (w\<lparr>da_queue := q\<rparr>) \<and>
    heights q = insert h (heights (da_queue w))"
proof -
  from assms(2,3) have "range_ok (Rng h h)" by (simp add: range_ok_def)
  from br.ins_law [OF da_okD(1) [OF assms(1)] this] obtain q where
    q: "insert_relaxed (da_queue w) (Rng h h) = Inr q" "br_wf q" "heights q = insert h (heights (da_queue w))"
    by (auto simp: range_set_def)
  have "da_ok (w\<lparr>da_queue := q\<rparr>)"
    using assms(4) da_ok_busy [OF assms(1)] q(2,3) by (intro da_ok_queue [OF assms(1)]) (auto simp: da_busy_def)
  moreover from q(1) have "put_back h w = (Inr None, w\<lparr>da_queue := q\<rparr>)" by (simp add: put_back_def)
  ultimately show ?thesis using q(3) by blast
qed

text \<open>The outcome of the search: nothing, or a stored header that may be sampled.\<close>

definition next_post ::
  "store_spec \<Rightarrow> 's daser \<Rightarrow> (daser_error, extended_header option) result \<Rightarrow> block_ranges \<Rightarrow> bool"
where
  "next_post a w r q \<longleftrightarrow> da_ok (w\<lparr>da_queue := q\<rparr>) \<and>
     (r = Inr None \<or> (\<exists>x. r = Inr (Some x) \<and> sp_headers a (eh_height x) = Some x \<and>
        eh_height x \<notin> heights q \<and> eh_height x \<notin> da_busy w \<and>
        length (da_sampling_futs w) < da_concurrency_limit w + da_additional_headersub_concurency w)) \<and>
     (heights (da_queue w) \<inter> heights (sp_sampled a) = {} \<longrightarrow> heights q \<inter> heights (sp_sampled a) = {} \<and>
        (\<forall>x. r = Inr (Some x) \<longrightarrow> eh_height x \<notin> heights (sp_sampled a)))"

context header_store
begin

lemma update_metadata_sim:
  assumes "invar s"
  shows "invar (snd (st_update_sampling_metadata ops h cids s))"
    "sp_update_sampling_metadata h cids (abs_st s) =
      (fst (st_update_sampling_metadata ops h cids s), abs_st (snd (st_update_sampling_metadata ops h cids s)))"
  using step_sim [OF assms, of "UpdateSamplingMetadata h cids"] by (simp_all add: st_step_def sp_step_def cmd_ok_def)

lemma mark_sampled_sim:
  assumes "invar s"
  shows "invar (snd (st_mark_as_sampled ops h s))"
    "sp_mark_as_sampled h (abs_st s) = (fst (st_mark_as_sampled ops h s), abs_st (snd (st_mark_as_sampled ops h s)))"
  using step_sim [OF assms, of "MarkAsSampled h"] by (simp_all add: st_step_def sp_step_def cmd_ok_def)

lemma update_queue_ok:
  assumes "da_ok w" "invar (da_store w)"
  shows "\<exists>q. update_queue ops w = (Inr (), w\<lparr>da_head_height := br_head (sp_stored (abs_st (da_store w))), da_queue := q\<rparr>) \<and>
    da_ok (w\<lparr>da_queue := q\<rparr>) \<and>
    heights q = heights (sp_stored (abs_st (da_store w))) - heights (sp_sampled (abs_st (da_store w))) - da_busy w"
proof -
  let ?a = "abs_st (da_store w)"
  have wf: "br_wf (sp_stored ?a)" "br_wf (sp_sampled ?a)" using invar_ok [OF assms(2)] by (auto simp: sp_ok_def)
  note ok = da_okD [OF assms(1)]
  have eq: "heights (sp_stored ?a) -
        (\<Union>b \<in> set [sp_sampled ?a, da_timed_out w, da_ongoing w, da_will_be_pruned w]. heights b) =
      heights (sp_stored ?a) - heights (sp_sampled ?a) - da_busy w" by (auto simp: da_busy_def)
  have "\<exists>q. fold_r (\<lambda>b x. br_sub x b) [sp_sampled ?a, da_timed_out w, da_ongoing w, da_will_be_pruned w] (sp_stored ?a) =
      (Inr q :: (daser_error, block_ranges) result) \<and> br_wf q \<and>
      heights q = heights (sp_stored ?a) -
        (\<Union>b \<in> set [sp_sampled ?a, da_timed_out w, da_ongoing w, da_will_be_pruned w]. heights b)"
    by (rule br.sub_chain [OF wf(1)]) (use wf(2) ok(2-4) in simp)
  then obtain q where q: "fold_r (\<lambda>b x. br_sub x b) [sp_sampled ?a, da_timed_out w, da_ongoing w, da_will_be_pruned w]
      (sp_stored ?a) = (Inr q :: (daser_error, block_ranges) result)" "br_wf q"
    "heights q = heights (sp_stored ?a) - heights (sp_sampled ?a) - da_busy w"
    unfolding eq by blast
  then have "da_ok (w\<lparr>da_queue := q\<rparr>)" by (intro da_ok_queue [OF assms(1)]) (auto simp: da_busy_def)
  moreover have "update_queue ops w = (Inr (), w\<lparr>da_head_height := br_head (sp_stored ?a), da_queue := q\<rparr>)"
    using q(1) ranges_law [OF assms(2)] by (simp add: update_queue_def Let_def del: fold_r.simps)
  ultimately show ?thesis using q(3) by blast
qed

text \<open>One round of the search: it ends, or the height it took is not stored any more and the queue
  is computed anew.\<close>

lemma next_sample_header_round:
  assumes "da_ok w" "invar (da_store w)"
  shows "(\<exists>r q. next_sample_header ops w = Some (r, w\<lparr>da_queue := q\<rparr>) \<and> next_post (abs_st (da_store w)) w r q) \<or>
    (\<exists>q. \<not> heights (da_queue w) \<subseteq> dom (sp_headers (abs_st (da_store w))) \<and> da_ok (w\<lparr>da_queue := q\<rparr>) \<and>
       next_sample_header ops w = (case update_queue ops (w\<lparr>da_queue := q\<rparr>) of
         (Inl e, w2) \<Rightarrow> Some (Inl e, w2) | (Inr _, w2) \<Rightarrow> next_sample_header ops w2))"
proof -
  from pop_head_ok [OF da_okD(1) [OF assms(1)]] obtain q where
    q: "pop_head (da_queue w) = (Inr (br_head (da_queue w), q) :: (daser_error, _) result)" "br_wf q"
    "heights q = heights (da_queue w) - set_option (br_head (da_queue w))" .
  show ?thesis
  proof (cases "br_head (da_queue w)")
    case None
    with q assms(1) show ?thesis
      by (subst next_sample_header.simps) (rule disjI1; intro exI [of _ "Inr None"] exI [of _ "da_queue w"];
        simp add: next_post_def)
  next
    case (Some h)
    then have h: "h \<in> heights (da_queue w)" using br_head_Some_iff [OF da_okD(1) [OF assms(1)]] by blast
    have bounds: "0 < h" "h \<le> u64_max"
      using heights_bounded [OF da_okD(1) [OF assms(1)]] h by (auto simp: all_heights_def)
    have busy: "h \<notin> da_busy w" using da_ok_busy [OF assms(1)] h by blast
    have ok: "da_ok (w\<lparr>da_queue := q\<rparr>)"
      using q(2,3) da_ok_busy [OF assms(1)] by (intro da_ok_queue [OF assms(1)]) (auto simp: da_busy_def)
    from sampling_limit_le [OF ok] obtain l where
      l: "sampling_limit h (w\<lparr>da_queue := q\<rparr>) = Inr l" "l \<le> da_concurrency_limit w + da_additional_headersub_concurency w"
      by fastforce
    show ?thesis
    proof (cases "length (da_sampling_futs w) \<ge> l")
      case True
      from put_back_ok [OF ok bounds] busy obtain q' where
        q': "put_back h (w\<lparr>da_queue := q\<rparr>) = (Inr None, w\<lparr>da_queue := q'\<rparr>)" "da_ok (w\<lparr>da_queue := q'\<rparr>)"
        "heights q' = insert h (heights q)" by auto
      then have same: "heights q' = heights (da_queue w)" using q(3) Some h by auto
      have "next_sample_header ops w = Some (Inr None, w\<lparr>da_queue := q'\<rparr>)" using True q l Some q'(1)
        by (subst next_sample_header.simps) simp
      moreover have "next_post (abs_st (da_store w)) w (Inr None) q'" using q'(2) same by (simp add: next_post_def)
      ultimately show ?thesis by blast
    next
      case False
      show ?thesis
      proof (cases "sp_headers (abs_st (da_store w)) h")
        case None
        then have "st_get_by_height ops h (da_store w) = Inl (Err NotFound)" using get_by_height_law [OF assms(2)] by simp
        with q(1) l Some False have "next_sample_header ops w = (case update_queue ops (w\<lparr>da_queue := q\<rparr>) of
           (Inl e, w2) \<Rightarrow> Some (Inl e, w2) | (Inr _, w2) \<Rightarrow> next_sample_header ops w2)"
          by (subst next_sample_header.simps) simp
        with ok h None show ?thesis by blast
      next
        case (Some x)
        note hx = sp_ok_height(4) [OF invar_ok [OF assms(2)] Some]
        have "st_get_by_height ops h (da_store w) = Inr x" using get_by_height_law [OF assms(2)] Some by simp
        with q(1) l \<open>br_head (da_queue w) = Some h\<close> False
        have "next_sample_header ops w = Some (Inr (Some x), w\<lparr>da_queue := q\<rparr>)"
          by (subst next_sample_header.simps) simp
        moreover have "next_post (abs_st (da_store w)) w (Inr (Some x)) q"
          using ok Some hx busy q(3) h \<open>br_head (da_queue w) = Some h\<close> False l(2) by (auto simp: next_post_def)
        ultimately show ?thesis by blast
      qed
    qed
  qed
qed

text \<open>The search returns: the second round finds its header.\<close>

lemma next_sample_header_ok:
  assumes "da_ok w" "invar (da_store w)"
  shows "\<exists>r q hd. next_sample_header ops w = Some (r, w\<lparr>da_head_height := hd, da_queue := q\<rparr>) \<and>
    next_post (abs_st (da_store w)) w r q"
  using next_sample_header_round [OF assms]
proof (elim disjE exE conjE)
  fix r q
  assume "next_sample_header ops w = Some (r, w\<lparr>da_queue := q\<rparr>)" "next_post (abs_st (da_store w)) w r q"
  moreover have "w\<lparr>da_queue := q\<rparr> = w\<lparr>da_head_height := da_head_height w, da_queue := q\<rparr>" by simp
  ultimately show ?thesis by metis
next
  fix q
  define w1 where "w1 = w\<lparr>da_queue := q\<rparr>"
  assume "da_ok (w\<lparr>da_queue := q\<rparr>)"
    and round: "next_sample_header ops w = (case update_queue ops (w\<lparr>da_queue := q\<rparr>) of
         (Inl e, w2) \<Rightarrow> Some (Inl e, w2) | (Inr _, w2) \<Rightarrow> next_sample_header ops w2)"
  then have ok1: "da_ok w1" "invar (da_store w1)" using assms(2) by (simp_all add: w1_def)
  let ?hd = "br_head (sp_stored (abs_st (da_store w)))"
  from update_queue_ok [OF ok1] obtain q2 where
    q2: "update_queue ops w1 = (Inr (), w\<lparr>da_head_height := ?hd, da_queue := q2\<rparr>)" "da_ok (w\<lparr>da_queue := q2\<rparr>)"
    "heights q2 \<subseteq> heights (sp_stored (abs_st (da_store w)))" "heights q2 \<inter> heights (sp_sampled (abs_st (da_store w))) = {}"
    by (auto simp: w1_def)
  define w2 where "w2 = w\<lparr>da_head_height := ?hd, da_queue := q2\<rparr>"
  have "da_ok w2" using q2(2) by (simp add: w2_def)
  moreover have "invar (da_store w2)" using assms(2) by (simp add: w2_def)
  moreover have "heights (da_queue w2) \<subseteq> dom (sp_headers (abs_st (da_store w2)))"
    using q2(3) invar_ok [OF assms(2)] by (simp add: w2_def sp_ok_def)
  ultimately obtain r q3 where
    "next_sample_header ops w2 = Some (r, w2\<lparr>da_queue := q3\<rparr>)" "next_post (abs_st (da_store w2)) w2 r q3"
    using next_sample_header_round [of w2] by blast
  moreover have "next_sample_header ops w = next_sample_header ops w2"
    using round q2(1) by (simp add: w1_def w2_def)
  moreover have "next_post (abs_st (da_store w2)) w2 r q3 \<Longrightarrow> next_post (abs_st (da_store w)) w r q3"
    using q2(4) by (simp add: next_post_def w2_def)
  ultimately show ?thesis by (auto simp: w2_def)
qed

end

end
