(* ===== verification/Daser_Reach.thy ===== *)
theory Daser_Reach
  imports Daser_Invariants
begin

text \<open>
  The steps of the sampler: what every handler keeps, that the scheduling loop returns, and what
  holds in every reachable state while the other workers change the store.
\<close>

section \<open>What a handler keeps\<close>

text \<open>A block counts as sampled after enough distinct shares of its square were requested and each
  of them was delivered in time.\<close>

definition sampled_after :: "node_event list \<Rightarrow> nat \<Rightarrow> bool" where
  "sampled_after es h \<longleftrightarrow> (\<exists>pre post width idx. es = pre @ SamplingStarted h width idx # post \<and>
     indexes_ok width MAX_SAMPLES_NEEDED idx \<and>
     (\<forall>(row, col) \<in> set idx. ShareSamplingResult h width row col False \<in> set post))"

lemma sampled_after_more:
  assumes "sampled_after es h" shows "sampled_after (es @ es') h"
proof -
  from assms obtain pre post width idx where s: "es = pre @ SamplingStarted h width idx # post"
    "indexes_ok width MAX_SAMPLES_NEEDED idx" "\<forall>(row, col) \<in> set idx. ShareSamplingResult h width row col False \<in> set post"
    unfolding sampled_after_def by blast
  then show ?thesis unfolding sampled_after_def
    by (intro exI [of _ pre] exI [of _ "post @ es'"] exI [of _ width] exI [of _ idx]) fastforce
qed

definition sampled_heights :: "('s \<Rightarrow> store_spec) \<Rightarrow> 's daser \<Rightarrow> nat set" where
  "sampled_heights A w = heights (sp_sampled (A (da_store w)))"

text \<open>From \<open>w\<close> to \<open>w'\<close>: the store stays consistent and keeps its headers, what the pruner was allowed stays
  allowed, events are only added, no block loses its mark, and new marks are justified.\<close>

definition da_next :: "('s \<Rightarrow> bool) \<Rightarrow> ('s \<Rightarrow> store_spec) \<Rightarrow> 's daser \<Rightarrow> 's daser \<Rightarrow> bool" where
  "da_next I A w w' \<longleftrightarrow> I (da_store w') \<and> heights (da_will_be_pruned w) \<subseteq> heights (da_will_be_pruned w') \<and>
     sp_headers (A (da_store w')) = sp_headers (A (da_store w)) \<and>
     (\<exists>es. da_events w' = da_events w @ es) \<and> sampled_heights A w \<subseteq> sampled_heights A w' \<and>
     (\<forall>h \<in> sampled_heights A w' - sampled_heights A w. sampled_after (da_events w') h)"

lemma da_next_refl [simp]: "I (da_store w) \<Longrightarrow> da_next I A w w"
  by (simp add: da_next_def)

lemma da_next_trans:
  assumes "da_next I A u v" "da_next I A v w"
  shows "da_next I A u w"
proof -
  from assms(2) obtain es where es: "da_events w = da_events v @ es" by (auto simp: da_next_def)
  have "sampled_after (da_events w) h" if "h \<in> sampled_heights A w - sampled_heights A u" for h
  proof (cases "h \<in> sampled_heights A v")
    case True
    with assms(1) that have "sampled_after (da_events v) h" by (auto simp: da_next_def)
    then show ?thesis unfolding es by (rule sampled_after_more)
  next
    case False
    with assms(2) that show ?thesis by (auto simp: da_next_def)
  qed
  with assms show ?thesis unfolding da_next_def by (metis append.assoc subset_trans)
qed

text \<open>A step that leaves the store alone.\<close>

lemma da_next_local:
  assumes "I (da_store w)" "da_store w' = da_store w" "da_events w' = da_events w @ es"
    "heights (da_will_be_pruned w) \<subseteq> heights (da_will_be_pruned w')"
  shows "da_next I A w w'"
  using assms by (auto simp: da_next_def sampled_heights_def)

text \<open>The blocks that are being sampled are stored, and neither they nor the queued ones have been
  sampled.\<close>

definition da_safe :: "('s \<Rightarrow> store_spec) \<Rightarrow> 's daser \<Rightarrow> bool" where
  "da_safe A w \<longleftrightarrow> heights (da_ongoing w) \<subseteq> dom (sp_headers (A (da_store w))) \<and>
     (heights (da_queue w) \<union> heights (da_ongoing w)) \<inter> sampled_heights A w = {}"

definition da_keeps :: "('s \<Rightarrow> store_spec) \<Rightarrow> 's daser \<Rightarrow> 's daser \<Rightarrow> bool" where
  "da_keeps A w w' \<longleftrightarrow> da_ok w' \<and> (da_safe A w \<longrightarrow> da_safe A w')"

lemma da_keeps_refl [simp]: "da_ok w \<Longrightarrow> da_keeps A w w"
  by (simp add: da_keeps_def)

lemma da_keeps_trans: "da_keeps A u v \<Longrightarrow> da_keeps A v w \<Longrightarrow> da_keeps A u w"
  by (auto simp: da_keeps_def)

text \<open>A step that leaves the store alone and takes nothing sampled up.\<close>

lemma da_keeps_local:
  assumes "da_ok w'" "da_store w' = da_store w" "heights (da_ongoing w') \<subseteq> heights (da_ongoing w)"
    "heights (da_queue w') \<subseteq> heights (da_queue w) \<union> (- sampled_heights A w)"
  shows "da_keeps A w w'"
  using assms unfolding da_keeps_def da_safe_def sampled_heights_def by auto

text \<open>The outcome of a handler: after a success the invariants hold.\<close>

definition handled_ok ::
  "('s \<Rightarrow> bool) \<Rightarrow> ('s \<Rightarrow> store_spec) \<Rightarrow> 's daser \<Rightarrow> (daser_error, 'a) result \<times> 's daser \<Rightarrow> bool"
where
  "handled_ok I A w m \<longleftrightarrow> da_next I A w (snd m) \<and> (is_ok (fst m) \<longrightarrow> da_keeps A w (snd m))"

lemma handled_ok_stay: "da_ok w \<Longrightarrow> I (da_store w) \<Longrightarrow> handled_ok I A w (r, w)"
  by (simp add: handled_ok_def da_keeps_refl)

lemma handled_ok_trans:
  "da_next I A u v \<Longrightarrow> da_keeps A u v \<Longrightarrow> handled_ok I A v m \<Longrightarrow> handled_ok I A u m"
  using da_next_trans da_keeps_trans by (fastforce simp: handled_ok_def)

lemma handled_ok_leaf: "da_next I A w w' \<Longrightarrow> da_keeps A w w' \<Longrightarrow> handled_ok I A w (r, w')"
  by (simp add: handled_ok_def)

lemma handled_okD:
  assumes "handled_ok I A w (Inr x, w')"
  shows "da_ok w'" "I (da_store w')" "da_next I A w w'" "da_keeps A w w'"
  using assms by (simp_all add: handled_ok_def da_next_def da_keeps_def)

lemma da_on_cmd_frame:
  assumes "da_ok w" "cmd_u64 c"
  shows "da_store (snd (da_on_cmd c w)) = da_store w \<and> da_ongoing (snd (da_on_cmd c w)) = da_ongoing w \<and>
    heights (da_queue (snd (da_on_cmd c w))) \<subseteq> heights (da_queue w)"
proof (cases c)
  case (WantToPrune h)
  with assms(2) have "h \<le> u64_max" by (simp add: cmd_u64_def)
  from on_want_to_prune_cases [OF assms(1) this] WantToPrune show ?thesis
    by (elim disjE exE conjE) (auto simp: da_on_cmd_def)
qed (simp_all add: da_on_cmd_def)

lemma on_cmd_handled:
  assumes "da_ok w" "I (da_store w)" "cmd_u64 c"
  shows "handled_ok I A w (da_on_cmd c w)"
proof -
  have "da_next I A w (snd (da_on_cmd c w))"
  proof (cases c)
    case (WantToPrune h)
    with assms(3) have "h \<le> u64_max" by (simp add: cmd_u64_def)
    from on_want_to_prune_cases [OF assms(1) this] WantToPrune assms(2) show ?thesis
      by (elim disjE exE conjE) (auto simp: da_on_cmd_def intro!: da_next_local)
  qed (use assms(2) in \<open>auto simp: da_on_cmd_def intro!: da_next_local\<close>)
  moreover have "da_keeps A w (snd (da_on_cmd c w))"
  proof (rule da_keeps_local [OF da_on_cmd_ok [OF assms(1,3)]])
    show "da_store (snd (da_on_cmd c w)) = da_store w"
      "heights (da_ongoing (snd (da_on_cmd c w))) \<subseteq> heights (da_ongoing w)"
      "heights (da_queue (snd (da_on_cmd c w))) \<subseteq> heights (da_queue w) \<union> - sampled_heights A w"
      using da_on_cmd_frame [OF assms(1,3)] by auto
  qed
  ultimately show ?thesis by (simp add: handled_ok_def)
qed

lemma skip_below_handled:
  assumes "da_ok w" "I (da_store w)" "0 < h" "h \<le> u64_max"
  shows "handled_ok I A w (skip_below h w)"
proof -
  from assms(3,4) have r: "range_ok (Rng 1 h)" by (simp add: range_ok_def)
  from br.rem_law [OF da_okD(1) [OF assms(1)] r] obtain q where
    q: "remove_relaxed (da_queue w) (Rng 1 h) = Inr q" "br_wf q" "heights q = heights (da_queue w) - range_set (Rng 1 h)" by blast
  from br.ins_law [OF da_okD(2) [OF assms(1)] r] obtain t where
    t: "insert_relaxed (da_timed_out w) (Rng 1 h) = Inr t" "br_wf t" "heights t = heights (da_timed_out w) \<union> range_set (Rng 1 h)" by blast
  from q(1) t(1) have "skip_below h w = (Inr False, w\<lparr>da_queue := q, da_timed_out := t\<rparr>)" by (simp add: skip_below_def)
  moreover have "da_ok (w\<lparr>da_queue := q, da_timed_out := t\<rparr>)" using assms(1) q t by (auto simp: da_ok_def)
  ultimately show ?thesis using assms(2) q(3) by (auto simp: handled_ok_def intro!: da_next_local da_keeps_local)
qed

section \<open>The reachable states\<close>

definition running :: "da_phase \<Rightarrow> bool" where
  "running p = (case p of DaFailed _ \<Rightarrow> False | _ \<Rightarrow> True)"

definition da_event_u64 :: "da_event \<Rightarrow> bool" where
  "da_event_u64 ev = (case ev of DaCmd c \<Rightarrow> cmd_u64 c | _ \<Rightarrow> True)"

text \<open>Between the events of the sampler the other workers may change the store, as long as it stays
  consistent.\<close>

inductive daser_reach ::
  "('m, 'c) cid_lib \<Rightarrow> ('c \<Rightarrow> cid option) \<Rightarrow> 's store_ops \<Rightarrow> ('s \<Rightarrow> bool) \<Rightarrow>
   da_phase \<times> 's daser \<Rightarrow> da_phase \<times> 's daser \<Rightarrow> bool"
  for L conv ops I st0 where
  start: "daser_reach L conv ops I st0 st0"
| event: "daser_reach L conv ops I st0 st \<Longrightarrow> de_lib env = L \<Longrightarrow> de_conv env = conv \<Longrightarrow> da_event_u64 ev \<Longrightarrow>
    da_event_step env ops ev st = Some st' \<Longrightarrow> daser_reach L conv ops I st0 st'"
| others: "daser_reach L conv ops I st0 (p, w) \<Longrightarrow> I s \<Longrightarrow> daser_reach L conv ops I st0 (p, w\<lparr>da_store := s\<rparr>)"

section \<open>Starting a sampling\<close>

lemma sp_mark_as_sampled_heights:
  assumes "sp_ok a"
  shows "heights (sp_sampled (snd (sp_mark_as_sampled h a))) \<subseteq> insert h (heights (sp_sampled a))"
    "heights (sp_sampled a) \<subseteq> heights (sp_sampled (snd (sp_mark_as_sampled h a)))"
    "sp_headers (snd (sp_mark_as_sampled h a)) = sp_headers a"
proof -
  have "heights (sp_sampled (snd (sp_mark_as_sampled h a))) =
      (if sp_headers a h = None then heights (sp_sampled a) else insert h (heights (sp_sampled a))) \<and>
    sp_headers (snd (sp_mark_as_sampled h a)) = sp_headers a"
  proof (cases "sp_headers a h")
    case (Some x)
    note hx = sp_ok_height [OF assms Some]
    have "canonical (sp_sampled a)" using assms by (simp add: sp_ok_def)
    from canonical_insert_height [OF this hx(1)] hx(2) obtain rs where
      "insert_relaxed (sp_sampled a) (Rng h h) = Inr rs" "heights rs = insert h (heights (sp_sampled a))" by auto
    with Some show ?thesis by (simp add: sp_mark_as_sampled_def)
  qed (simp add: sp_mark_as_sampled_def)
  then show "heights (sp_sampled (snd (sp_mark_as_sampled h a))) \<subseteq> insert h (heights (sp_sampled a))"
    "heights (sp_sampled a) \<subseteq> heights (sp_sampled (snd (sp_mark_as_sampled h a)))"
    "sp_headers (snd (sp_mark_as_sampled h a)) = sp_headers a" by auto
qed

lemma sp_update_metadata_sampled [simp]:
  "sp_sampled (snd (sp_update_sampling_metadata h cids a)) = sp_sampled a"
  "sp_stored (snd (sp_update_sampling_metadata h cids a)) = sp_stored a"
  "sp_pruned (snd (sp_update_sampling_metadata h cids a)) = sp_pruned a"
  "sp_headers (snd (sp_update_sampling_metadata h cids a)) = sp_headers a"
  by (simp_all add: sp_update_sampling_metadata_def)

text \<open>A new sampling in the list of futures.\<close>

lemma da_ok_push:
  assumes "da_ok w" "br_wf og" "heights og = insert (sf_height f) (heights (da_ongoing w))"
    "sf_height f \<notin> heights (da_queue w)" "sf_height f \<notin> da_busy w" "fut_ok (da_events w) f"
    "length (da_sampling_futs w) < da_concurrency_limit w + da_additional_headersub_concurency w"
  shows "da_ok (w\<lparr>da_sampling_futs := da_sampling_futs w @ [f], da_ongoing := og\<rparr>)"
proof -
  note ok = da_okD [OF assms(1)]
  have "sf_height f \<notin> sf_height ` set (da_sampling_futs w)" using assms(5) ok(5) by (auto simp: da_busy_def)
  moreover have "heights (da_queue w) \<inter> (insert (sf_height f) (heights (da_ongoing w)) \<union> heights (da_timed_out w) \<union>
      heights (da_will_be_pruned w)) = {}" using ok(7) assms(4) by blast
  moreover have "insert (sf_height f) (heights (da_ongoing w)) \<inter> heights (da_will_be_pruned w) = {}"
    using ok(8) assms(5) by (auto simp: da_busy_def)
  ultimately show ?thesis
    unfolding da_ok_def using ok(1,2,4,6,9-12) assms(2,3,6,7) ok(5) by auto
qed

definition new_fut :: "extended_header \<Rightarrow> nat \<Rightarrow> (nat \<times> nat) list \<Rightarrow> sampling_fut" where
  "new_fut x width idx = \<lparr>sf_height = eh_height x, sf_square_width = width, sf_header_time = eh_time x,
     sf_indexes = idx, sf_started = False, sf_timeout = 0, sf_pending = idx, sf_timed_out = False\<rparr>"

lemma new_fut_ok: "indexes_ok width MAX_SAMPLES_NEEDED idx \<Longrightarrow> fut_ok es (new_fut x width idx)"
  by (simp add: fut_ok_def new_fut_def indexes_ok_def)

definition env_fair :: "('m, 'c) da_env \<Rightarrow> bool" where
  "env_fair env \<longleftrightarrow> (\<forall>k w. MAX_SAMPLES_NEEDED < w ^ 2 \<longrightarrow> rng_fair (de_rng env k) w MAX_SAMPLES_NEEDED)"

context header_store
begin

lemma start_sampling_handled:
  assumes "da_ok w" "invar (da_store w)" "sp_headers (abs_st (da_store w)) (eh_height x) = Some x"
    "eh_height x \<notin> heights (da_queue w)" "eh_height x \<notin> da_busy w" "indexes_ok width MAX_SAMPLES_NEEDED idx"
    "length (da_sampling_futs w) < da_concurrency_limit w + da_additional_headersub_concurency w"
  shows "da_next invar abs_st w (snd (start_sampling L conv ops x width idx w)) \<and>
    (is_ok (fst (start_sampling L conv ops x width idx w)) \<longrightarrow> da_ok (snd (start_sampling L conv ops x width idx w)) \<and>
       (da_safe abs_st w \<and> eh_height x \<notin> sampled_heights abs_st w \<longrightarrow>
         da_safe abs_st (snd (start_sampling L conv ops x width idx w)))) \<and>
    (\<forall>b. fst (start_sampling L conv ops x width idx w) = Inr b \<longrightarrow> b \<and>
       length (da_sampling_futs (snd (start_sampling L conv ops x width idx w))) = Suc (length (da_sampling_futs w)) \<and>
       da_concurrency_limit (snd (start_sampling L conv ops x width idx w)) = da_concurrency_limit w \<and>
       da_additional_headersub_concurency (snd (start_sampling L conv ops x width idx w)) =
         da_additional_headersub_concurency w)"
proof (cases "map_err DaserP2p (fold_r (\<lambda>(row, col) cids.
    bind_r (sample_cid L conv row col (eh_height x)) (\<lambda>c. Inr (cids @ [c]))) idx [])")
  case (Inl e)
  then have "start_sampling L conv ops x width idx w = (Inl e, w)" by (simp add: start_sampling_def Let_def)
  with assms(1,2) show ?thesis by simp
next
  case (Inr cids)
  define s where "s = snd (st_update_sampling_metadata ops (eh_height x) cids (da_store w))"
  note sim = update_metadata_sim [OF assms(2), of "eh_height x" cids]
  have upd: "st_update_sampling_metadata ops (eh_height x) cids (da_store w) = (Inr (), s)"
    using sim(2) assms(3) by (simp add: s_def sp_update_sampling_metadata_def prod_eq_iff)
  have s: "invar s" "sp_sampled (abs_st s) = sp_sampled (abs_st (da_store w))"
    "sp_headers (abs_st s) = sp_headers (abs_st (da_store w))"
    using sim sp_update_metadata_sampled(1,4) [of "eh_height x" cids "abs_st (da_store w)"] by (simp_all add: s_def)
  note hx = sp_ok_height [OF invar_ok [OF assms(2)] assms(3)]
  then have "range_ok (Rng (eh_height x) (eh_height x))" by (simp add: range_ok_def)
  from br.ins_law [OF da_okD(3) [OF assms(1)] this] obtain og where
    og: "insert_relaxed (da_ongoing w) (Rng (eh_height x) (eh_height x)) = Inr og" "br_wf og"
    "heights og = insert (eh_height x) (heights (da_ongoing w))" by (auto simp: range_set_def)
  define w' where "w' = w\<lparr>da_store := s, da_sampling_futs := da_sampling_futs w @ [new_fut x width idx], da_ongoing := og\<rparr>"
  have step: "start_sampling L conv ops x width idx w = (Inr True, w')"
    using Inr upd og(1) by (simp add: start_sampling_def Let_def w'_def new_fut_def)
  have "da_ok (w\<lparr>da_sampling_futs := da_sampling_futs w @ [new_fut x width idx], da_ongoing := og\<rparr>)"
    by (rule da_ok_push) (use assms og new_fut_ok in \<open>auto simp: new_fut_def\<close>)
  moreover have "w' = (w\<lparr>da_sampling_futs := da_sampling_futs w @ [new_fut x width idx], da_ongoing := og\<rparr>)\<lparr>da_store := s\<rparr>"
    by (simp add: w'_def)
  ultimately have "da_ok w'" by (simp only: da_ok_frame)
  moreover have "da_next invar abs_st w w'"
    using s by (simp add: da_next_def w'_def sampled_heights_def)
  moreover have "da_safe abs_st w'" if "da_safe abs_st w" "eh_height x \<notin> sampled_heights abs_st w"
    using that assms(3,4) s og(3) by (auto simp: da_safe_def w'_def sampled_heights_def)
  ultimately show ?thesis by (simp add: step w'_def)
qed

lemma schedule_next_handled:
  assumes "da_ok w" "invar (da_store w)" "schedule_next_sample_block env ops k w = Some m"
  shows "handled_ok invar abs_st w m \<and> (fst m = Inr True \<longrightarrow>
    length (da_sampling_futs (snd m)) = Suc (length (da_sampling_futs w)) \<and>
    da_concurrency_limit (snd m) = da_concurrency_limit w \<and>
    da_additional_headersub_concurency (snd m) = da_additional_headersub_concurency w)"
proof -
  from next_sample_header_ok [OF assms(1,2)] obtain r q hd where
    n: "next_sample_header ops w = Some (r, w\<lparr>da_head_height := hd, da_queue := q\<rparr>)"
    "next_post (abs_st (da_store w)) w r q" by blast
  define w1 where "w1 = w\<lparr>da_head_height := hd, da_queue := q\<rparr>"
  have w1: "da_ok w1" "invar (da_store w1)" using n(2) assms(2) by (simp_all add: w1_def next_post_def)
  have next1: "da_next invar abs_st w w1" using assms(2) by (auto simp: w1_def intro!: da_next_local)
  have same: "length (da_sampling_futs w1) = length (da_sampling_futs w)" "da_concurrency_limit w1 = da_concurrency_limit w"
    "da_additional_headersub_concurency w1 = da_additional_headersub_concurency w" by (simp_all add: w1_def)
  have safe1: "da_safe abs_st w1 \<and> (\<forall>x. r = Inr (Some x) \<longrightarrow> eh_height x \<notin> sampled_heights abs_st w1)" if "da_safe abs_st w"
    using that n(2) by (auto simp: da_safe_def next_post_def sampled_heights_def w1_def)
  then have keeps1: "da_keeps abs_st w w1" using w1(1) by (simp add: da_keeps_def)
  note lift = handled_ok_trans [OF next1 keeps1, of m]
  from n(2) consider "r = Inr None" | x where "r = Inr (Some x)" "sp_headers (abs_st (da_store w1)) (eh_height x) = Some x"
    "eh_height x \<notin> heights (da_queue w1)" "eh_height x \<notin> da_busy w1"
    "length (da_sampling_futs w1) < da_concurrency_limit w1 + da_additional_headersub_concurency w1"
    by (auto simp: next_post_def w1_def)
  then show ?thesis
  proof cases
    case 1
    with n(1) assms(3) have "m = (Inr False, w1)" by (simp add: schedule_next_sample_block_def w1_def)
    with w1 lift show ?thesis by (simp add: handled_ok_stay)
  next
    case (2 x)
    note hx = sp_ok_height [OF invar_ok [OF w1(2)] 2(2)]
    consider e where "m = (Inl e, w1)" | "m = skip_below (eh_height x) w1"
      | width idx where "random_indexes (de_rng env k) width (da_max_samples_needed w1) = Some idx"
        "m = start_sampling (de_lib env) (de_conv env) ops x width idx w1"
      using n(1) 2(1) assms(3)
      by (auto simp: schedule_next_sample_block_def w1_def [symmetric] bind_eq_Some_conv split: sum.splits if_splits)
    then show ?thesis
    proof cases
      case 1
      with w1 lift show ?thesis by (simp add: handled_ok_stay)
    next
      case 2
      then have "fst m \<noteq> Inr True" by (auto simp: skip_below_def Let_def split: sum.splits)
      moreover have "handled_ok invar abs_st w1 m" unfolding 2 using hx(1,2) by (intro skip_below_handled w1) simp_all
      ultimately show ?thesis using lift by blast
    next
      case (3 width idx)
      have "indexes_ok width MAX_SAMPLES_NEEDED idx"
        using random_indexes_sound [OF 3(1)] da_okD(12) [OF w1(1)] by simp
      from start_sampling_handled [OF w1 2(2-4) this 2(5), where L = "de_lib env" and conv = "de_conv env"]
      show ?thesis unfolding 3(2) [symmetric]
        using same safe1 2(1) da_next_trans [OF next1] by (auto simp: handled_ok_def da_keeps_def)
    qed
  qed
qed

lemma schedule_all_handled:
  "schedule_all env ops k w = Some m \<Longrightarrow> da_ok w \<Longrightarrow> invar (da_store w) \<Longrightarrow> handled_ok invar abs_st w m"
proof (induction "da_concurrency_limit w + da_additional_headersub_concurency w - length (da_sampling_futs w)"
    arbitrary: k w rule: less_induct)
  case less
  from less.prems(1) obtain r w1 where s: "schedule_next_sample_block env ops k w = Some (r, w1)"
    and m: "(case r of Inl e \<Rightarrow> Some (Inl e, w1)
      | Inr b \<Rightarrow> if b then schedule_all env ops (k + 1) w1 else Some (Inr (), w1)) = Some m"
    by (subst (asm) schedule_all.simps) (auto simp: bind_eq_Some_conv)
  note h = schedule_next_handled [OF less.prems(2,3) s]
  show ?case
  proof (cases "r = Inr True")
    case True
    with h have w1: "da_ok w1" "invar (da_store w1)" "da_next invar abs_st w w1" "da_keeps abs_st w w1"
      and len: "length (da_sampling_futs w1) = Suc (length (da_sampling_futs w))"
      "da_concurrency_limit w1 = da_concurrency_limit w"
      "da_additional_headersub_concurency w1 = da_additional_headersub_concurency w"
      using handled_okD [of invar abs_st w True w1] by auto
    from da_okD(10) [OF w1(1)] len have "handled_ok invar abs_st w1 m"
      using m True by (intro less.hyps w1) auto
    with w1(3,4) show ?thesis by (rule handled_ok_trans)
  next
    case False
    with m h show ?thesis by (cases r) (auto simp: handled_ok_def split: if_splits)
  qed
qed

text \<open>With a fair generator the loop returns: every round that goes on has used up one of the
  places for samplings.\<close>

lemma schedule_next_returns:
  assumes "da_ok w" "invar (da_store w)" "env_fair env"
  shows "\<exists>m. schedule_next_sample_block env ops k w = Some m"
proof -
  from next_sample_header_ok [OF assms(1,2)] obtain r w1 where
    n: "next_sample_header ops w = Some (r, w1)" "da_max_samples_needed w1 = da_max_samples_needed w" by fastforce
  have "\<exists>idx. random_indexes (de_rng env k) width (da_max_samples_needed w1) = Some idx" for width
  proof (rule random_indexes_returns)
    show "width ^ 2 \<le> da_max_samples_needed w1 \<or> rng_fair (de_rng env k) width (da_max_samples_needed w1)"
      using assms(3) unfolding n(2) da_okD(12) [OF assms(1)] env_fair_def by (meson not_le)
  qed
  then obtain g where "\<And>width. random_indexes (de_rng env k) width (da_max_samples_needed w1) = Some (g width)"
    by metis
  then show ?thesis
    using n(1) by (simp add: schedule_next_sample_block_def split: sum.split option.split)
qed

lemma schedule_all_returns:
  "da_ok w \<Longrightarrow> invar (da_store w) \<Longrightarrow> env_fair env \<Longrightarrow> \<exists>m. schedule_all env ops k w = Some m"
proof (induction "da_concurrency_limit w + da_additional_headersub_concurency w - length (da_sampling_futs w)"
    arbitrary: k w rule: less_induct)
  case less
  from schedule_next_returns [OF less.prems] obtain r w1 where
    s: "schedule_next_sample_block env ops k w = Some (r, w1)" by (metis surj_pair)
  note h = schedule_next_handled [OF less.prems(1,2) s]
  show ?case
  proof (cases "r = Inr True")
    case True
    with h have w1: "da_ok w1" "invar (da_store w1)"
      and len: "length (da_sampling_futs w1) = Suc (length (da_sampling_futs w))"
      "da_concurrency_limit w1 = da_concurrency_limit w"
      "da_additional_headersub_concurency w1 = da_additional_headersub_concurency w"
      using handled_okD [of invar abs_st w True w1] by auto
    from da_okD(10) [OF w1(1)] len have "\<exists>m. schedule_all env ops (k + 1) w1 = Some m"
      by (intro less.hyps w1 less.prems(3)) auto
    with s True show ?thesis by (subst schedule_all.simps) simp
  next
    case False
    with s show ?thesis by (subst schedule_all.simps) (auto split: sum.split)
  qed
qed

section \<open>Running samplings\<close>

lemma fut_finish_handled:
  assumes "da_ok w" "invar (da_store w)" "i < length (da_sampling_futs w)" "f = da_sampling_futs w ! i"
    "sf_started f" "sf_pending f = []"
  shows "handled_ok invar abs_st w (fut_finish ops i f took w)"
proof -
  define h where "h = sf_height f"
  define w1 where "w1 = remove_fut i (da_publish (SamplingResult h (sf_timed_out f) took) w)"
  note ok = da_okD [OF assms(1)]
  have f: "f \<in> set (da_sampling_futs w)" using assms(3,4) by simp
  then have hog: "h \<in> heights (da_ongoing w)" using ok(5) by (simp add: h_def)
  then have bounds: "range_ok (Rng h h)"
    using heights_bounded [OF ok(3)] by (auto simp: all_heights_def range_ok_def)
  from br.rem_law [OF ok(3) bounds] obtain og where
    og: "remove_relaxed (da_ongoing w) (Rng h h) = Inr og" "br_wf og" "heights og = heights (da_ongoing w) - {h}"
    by (auto simp: range_set_def)
  from br.ins_law [OF ok(2) bounds] obtain t where
    t: "insert_relaxed (da_timed_out w) (Rng h h) = Inr t" "br_wf t" "heights t = insert h (heights (da_timed_out w))"
    by (auto simp: range_set_def)
  have ev: "da_events w1 = da_events w @ [SamplingResult h (sf_timed_out f) took]"
    by (simp add: w1_def remove_fut_def da_publish_def)
  have fin: "da_ok (w1\<lparr>da_ongoing := og, da_timed_out := t'\<rparr>)"
    if "br_wf t'" "heights t' \<subseteq> insert h (heights (da_timed_out w))" for t'
  proof -
    define fs where "fs = take i (da_sampling_futs w) @ drop (Suc i) (da_sampling_futs w)"
    have split: "da_sampling_futs w = take i (da_sampling_futs w) @ f # drop (Suc i) (da_sampling_futs w)"
      using id_take_nth_drop [OF assms(3)] assms(4) by simp
    have "distinct (map sf_height (take i (da_sampling_futs w) @ f # drop (Suc i) (da_sampling_futs w)))"
      using ok(6) split by argo
    then have d: "distinct (map sf_height fs)" "h \<notin> sf_height ` set fs" by (auto simp: fs_def h_def)
    have img: "set (da_sampling_futs w) = insert f (set fs)" by (subst split) (auto simp: fs_def)
    have "length fs \<le> length (da_sampling_futs w)" by (simp add: fs_def)
    moreover have "heights og = sf_height ` set fs" using og(3) ok(5) img d(2) by (auto simp: h_def)
    moreover have "fut_ok (da_events w @ [SamplingResult h (sf_timed_out f) took]) g" if "g \<in> set fs" for g
      using ok(9) [of g] img that by (simp add: fut_ok_more)
    moreover have "h \<notin> heights (da_queue w)" using ok(7) hog by blast
    ultimately show ?thesis
      unfolding da_ok_def using ok(1,4,7,8,10-12) og(2,3) that d(1)
      by (auto simp: w1_def remove_fut_def da_publish_def fs_def [symmetric])
  qed
  have out: "fut_finish ops i f took w = on_sampling_done ops h (sf_timed_out f) w1"
    by (simp add: fut_finish_def w1_def h_def)
  show ?thesis
  proof (cases "sf_timed_out f")
    case True
    have "on_sampling_done ops h True w1 = (Inr (), w1\<lparr>da_ongoing := og, da_timed_out := t\<rparr>)"
      using t(1) og(1) by (simp add: on_sampling_done_def w1_def remove_fut_def da_publish_def)
    moreover have "da_next invar abs_st w (w1\<lparr>da_ongoing := og, da_timed_out := t\<rparr>)"
      by (rule da_next_local [where es = "[SamplingResult h (sf_timed_out f) took]"])
        (use assms(2) ev in \<open>auto simp: w1_def remove_fut_def da_publish_def\<close>)
    moreover have "da_keeps abs_st w (w1\<lparr>da_ongoing := og, da_timed_out := t\<rparr>)"
      by (rule da_keeps_local [OF fin [OF t(2)]]) (use og(3) t(3) in \<open>auto simp: w1_def remove_fut_def da_publish_def\<close>)
    ultimately show ?thesis using True by (simp add: out handled_ok_def)
  next
    case False
    define s where "s = snd (st_mark_as_sampled ops h (da_store w))"
    note sim = mark_sampled_sim [OF assms(2), of h]
    have s: "invar s" "heights (sp_sampled (abs_st s)) \<subseteq> insert h (heights (sp_sampled (abs_st (da_store w))))"
      "heights (sp_sampled (abs_st (da_store w))) \<subseteq> heights (sp_sampled (abs_st s))"
      "sp_headers (abs_st s) = sp_headers (abs_st (da_store w))"
      using sim sp_mark_as_sampled_heights [OF invar_ok [OF assms(2)], of h] by (simp_all add: s_def)
    have "delivered (da_events w) f (set (sf_indexes f))" "indexes_ok (sf_square_width f) MAX_SAMPLES_NEEDED (sf_indexes f)"
      using ok(9) [OF f] assms(5,6) by (simp_all add: fut_ok_def)
    with False have "sampled_after (da_events w) h"
      unfolding delivered_def sampled_after_def sampling_started_def h_def by fastforce
    then have just: "sampled_after (da_events w1) h" unfolding ev by (rule sampled_after_more)
    have marked: "on_sampling_done ops h False w1 = (case map_err DaserStore (fst (st_mark_as_sampled ops h (da_store w))) of
        Inl e \<Rightarrow> (Inl e, w1\<lparr>da_store := s\<rparr>) | Inr _ \<Rightarrow> (Inr (), w1\<lparr>da_store := s, da_ongoing := og\<rparr>))"
      using og(1)
      by (auto simp: on_sampling_done_def w1_def remove_fut_def da_publish_def s_def case_prod_unfold split: sum.splits)
    have nxt: "da_next invar abs_st w w'" if "w' = w1\<lparr>da_store := s\<rparr> \<or> w' = w1\<lparr>da_store := s, da_ongoing := og\<rparr>" for w'
    proof -
      have e: "da_events w' = da_events w1" "da_store w' = s" "da_will_be_pruned w' = da_will_be_pruned w"
        using that by (auto simp: w1_def remove_fut_def da_publish_def)
      with s just ev show ?thesis by (auto simp: da_next_def sampled_heights_def)
    qed
    have safe: "da_safe abs_st (w1\<lparr>da_store := s, da_ongoing := og\<rparr>)" if "da_safe abs_st w"
      using that s(2,4) og(3) hog ok(7) unfolding da_safe_def
      by (auto simp: w1_def remove_fut_def da_publish_def sampled_heights_def)
    have "da_ok (w1\<lparr>da_store := s, da_ongoing := og\<rparr>)"
    proof -
      have "w1\<lparr>da_store := s, da_ongoing := og\<rparr> = (w1\<lparr>da_ongoing := og, da_timed_out := da_timed_out w\<rparr>)\<lparr>da_store := s\<rparr>"
        by (simp add: w1_def remove_fut_def da_publish_def)
      then show ?thesis using fin [OF ok(2)] by (simp only: da_ok_frame) blast
    qed
    with nxt False safe show ?thesis
      by (cases "map_err DaserStore (fst (st_mark_as_sampled ops h (da_store w)))")
        (auto simp: out marked handled_ok_def da_keeps_def)
  qed
qed

text \<open>One future replaced by another of the same height.\<close>

lemma da_ok_update_fut:
  assumes "da_ok w" "i < length (da_sampling_futs w)" "sf_height f1 = sf_height (da_sampling_futs w ! i)"
    "fut_ok (da_events w @ [e]) f1"
  shows "da_ok ((da_publish e w)\<lparr>da_sampling_futs := (da_sampling_futs w)[i := f1]\<rparr>)"
proof -
  note ok = da_okD [OF assms(1)]
  have m: "map sf_height ((da_sampling_futs w)[i := f1]) = map sf_height (da_sampling_futs w)"
    using assms(2,3) by (simp add: map_update list_update_same_conv)
  then have "sf_height ` set ((da_sampling_futs w)[i := f1]) = sf_height ` set (da_sampling_futs w)"
    by (metis set_map)
  moreover have "fut_ok (da_events w @ [e]) f" if "f \<in> set ((da_sampling_futs w)[i := f1])" for f
    using set_update_subset_insert [of "da_sampling_futs w" i f1] that assms(4) ok(9) by (auto intro: fut_ok_more)
  ultimately show ?thesis
    unfolding da_ok_def using ok(1-8,10-12) m by (simp add: da_publish_def)
qed

lemma on_fut_start_handled:
  assumes "da_ok w" "invar (da_store w)" "i < length (da_sampling_futs w)" "\<not> sf_started (da_sampling_futs w ! i)"
  shows "handled_ok invar abs_st w (on_fut_start ops i now took w)"
proof -
  define f where "f = da_sampling_futs w ! i"
  define f1 where "f1 = fut_start now (da_sampling_window w) f"
  define w1 where "w1 = (da_publish (sampling_started f) w)\<lparr>da_sampling_futs := (da_sampling_futs w)[i := f1]\<rparr>"
  have f: "fut_ok (da_events w) f" using da_okD(9) [OF assms(1)] assms(3) by (simp add: f_def)
  have "sampling_started f1 = sampling_started f" by (simp add: f1_def fut_start_def sampling_started_def)
  with f assms(4) have "fut_ok (da_events w @ [sampling_started f]) f1"
    unfolding fut_ok_def delivered_def by (auto simp: f_def f1_def fut_start_def)
  then have w1: "da_ok w1" unfolding w1_def
    by (rule da_ok_update_fut [OF assms(1,3), rotated]) (simp add: f1_def fut_start_def f_def)
  have nxt: "da_next invar abs_st w w1"
    using assms(2) by (auto simp: w1_def da_publish_def intro!: da_next_local)
  have keeps: "da_keeps abs_st w w1"
    by (rule da_keeps_local [OF w1]) (simp_all add: w1_def da_publish_def)
  have eq: "on_fut_start ops i now took w = (if sf_pending f1 = [] then fut_finish ops i f1 took w1 else (Inr (), w1))"
    by (simp add: on_fut_start_def Let_def w1_def f1_def f_def)
  have "handled_ok invar abs_st w1 (fut_finish ops i f1 took w1)" if "sf_pending f1 = []"
    using that assms(2,3)
    by (intro fut_finish_handled w1) (auto simp: w1_def da_publish_def f1_def fut_start_def)
  with handled_ok_trans [OF nxt keeps, of "fut_finish ops i f1 took w1"] handled_ok_leaf [OF nxt keeps, of "Inr ()"] show ?thesis by (simp add: eq)
qed

lemma fut_ok_answered:
  assumes "fut_ok es f" "sf_started f" "(row, col) \<in> set (sf_pending f)"
  shows "fut_ok (es @ [ShareSamplingResult (sf_height f) (sf_square_width f) row col t])
    (f\<lparr>sf_pending := remove1 (row, col) (sf_pending f), sf_timed_out := t \<or> sf_timed_out f\<rparr>)" (is "fut_ok _ ?f")
proof -
  from assms(1,2) obtain pre post where d: "es = pre @ sampling_started f # post"
    "\<forall>(row, col) \<in> set (sf_indexes f) - set (sf_pending f). \<exists>t.
       ShareSamplingResult (sf_height f) (sf_square_width f) row col t \<in> set post \<and> (t \<longrightarrow> sf_timed_out f)"
    unfolding fut_ok_def delivered_def by auto
  have p: "distinct (sf_pending f)" "set (sf_pending f) \<subseteq> set (sf_indexes f)" using assms(1) by (auto simp: fut_ok_def)
  then have r1: "set (remove1 (row, col) (sf_pending f)) = set (sf_pending f) - {(row, col)}" by simp
  have answered: "\<exists>t'. ShareSamplingResult (sf_height f) (sf_square_width f) r c t' \<in>
       set (post @ [ShareSamplingResult (sf_height f) (sf_square_width f) row col t]) \<and> (t' \<longrightarrow> t \<or> sf_timed_out f)"
    if rc: "(r, c) \<in> set (sf_indexes f) - set (remove1 (row, col) (sf_pending f))" for r c
  proof (cases "(r, c) = (row, col)")
    case True
    then show ?thesis by auto
  next
    case False
    with rc r1 have "(r, c) \<in> set (sf_indexes f) - set (sf_pending f)" by blast
    with d(2) obtain t' where
      "ShareSamplingResult (sf_height f) (sf_square_width f) r c t' \<in> set post" "t' \<longrightarrow> sf_timed_out f" by blast
    then show ?thesis by auto
  qed
  have "es @ [ShareSamplingResult (sf_height f) (sf_square_width f) row col t] =
      pre @ sampling_started ?f # post @ [ShareSamplingResult (sf_height f) (sf_square_width f) row col t]"
    by (simp add: d(1) sampling_started_def)
  then have "delivered (es @ [ShareSamplingResult (sf_height f) (sf_square_width f) row col t]) ?f
      (set (sf_indexes f) - set (remove1 (row, col) (sf_pending f)))"
    unfolding delivered_def using answered by (intro exI conjI) auto
  moreover have "set (remove1 (row, col) (sf_pending f)) \<subseteq> set (sf_indexes f)" using p r1 by blast
  ultimately show ?thesis using assms(1,2) p by (simp add: fut_ok_def)
qed

lemma on_share_handled:
  assumes "da_ok w" "invar (da_store w)" "i < length (da_sampling_futs w)" "sf_started (da_sampling_futs w ! i)"
    "(row, col) \<in> set (sf_pending (da_sampling_futs w ! i))"
  shows "handled_ok invar abs_st w (on_share ops i row col res took w)"
proof -
  define f where "f = da_sampling_futs w ! i"
  define f1 where "f1 t = f\<lparr>sf_pending := remove1 (row, col) (sf_pending f), sf_timed_out := t \<or> sf_timed_out f\<rparr>" for t
  define e where "e t = ShareSamplingResult (sf_height f) (sf_square_width f) row col t" for t
  define w1 where "w1 t = (da_publish (e t) w)\<lparr>da_sampling_futs := (da_sampling_futs w)[i := f1 t]\<rparr>" for t
  have f: "fut_ok (da_events w) f" using da_okD(9) [OF assms(1)] assms(3) by (simp add: f_def)
  have w1: "da_ok (w1 t)" for t unfolding w1_def
    by (rule da_ok_update_fut [OF assms(1,3)])
      (use fut_ok_answered [OF f] assms(4,5) in \<open>simp_all add: f1_def e_def f_def\<close>)
  have nxt: "da_next invar abs_st w (w1 t)" for t
    using assms(2) by (auto simp: w1_def da_publish_def intro!: da_next_local)
  have keeps: "da_keeps abs_st w (w1 t)" for t
    by (rule da_keeps_local [OF w1]) (simp_all add: w1_def da_publish_def)
  have fin: "handled_ok invar abs_st (w1 t) (fut_finish ops i (f1 t) took (w1 t))" if "sf_pending (f1 t) = []" for t
    using that assms(2-4) by (intro fut_finish_handled w1) (auto simp: w1_def da_publish_def f1_def f_def)
  define m where "m t = (if sf_pending (f1 t) = [] then fut_finish ops i (f1 t) took (w1 t) else (Inr (), w1 t))" for t
  have "handled_ok invar abs_st w (m t)" for t
    using handled_ok_trans [OF nxt keeps fin] handled_ok_leaf [OF nxt keeps, of "Inr ()"] by (simp add: m_def)
  moreover have "handled_ok invar abs_st w (Inl x :: (daser_error, unit) result, remove_fut i w)" for x
    using assms(2) by (auto simp: handled_ok_def remove_fut_def intro!: da_next_local)
  moreover have "on_share ops i row col res took w \<in> range m \<union> {(Inl x, remove_fut i w) |x. True}"
    by (auto simp: on_share_def Let_def m_def w1_def f1_def e_def f_def split: sum.splits fault.splits)
  ultimately show ?thesis by auto
qed

lemma update_queue_handled:
  assumes "da_ok w" "invar (da_store w)"
  shows "handled_ok invar abs_st w (update_queue ops w)"
proof -
  from update_queue_ok [OF assms] obtain q where
    q: "update_queue ops w = (Inr (), w\<lparr>da_head_height := br_head (sp_stored (abs_st (da_store w))), da_queue := q\<rparr>)"
    "da_ok (w\<lparr>da_queue := q\<rparr>)"
    "heights q = heights (sp_stored (abs_st (da_store w))) - heights (sp_sampled (abs_st (da_store w))) - da_busy w" by blast
  then show ?thesis using assms(2)
    by (auto simp: handled_ok_def sampled_heights_def intro!: da_next_local da_keeps_local)
qed

section \<open>Steps of the event loops\<close>

lemma da_turn_ok:
  assumes "handled_ok invar abs_st w m" "da_turn env ops m = Some (p, w')"
  shows "da_next invar abs_st w w' \<and> (running p \<longrightarrow> da_keeps abs_st w w')"
proof (cases "fst m")
  case (Inl e)
  with assms show ?thesis by (cases m) (auto simp: da_turn_def handled_ok_def running_def)
next
  case (Inr x)
  obtain w1 where m: "m = (Inr x, w1)" using Inr by (cases m) auto
  with assms(2) obtain r where r: "schedule_all env ops 0 w1 = Some r" "(p, w') = or_da_failed DaConnected r"
    by (auto simp: da_turn_def bind_eq_Some_conv)
  note w1 = handled_okD [OF assms(1) [unfolded m]]
  from handled_ok_trans [OF w1(3,4) schedule_all_handled [OF r(1) w1(1,2)]] r(2) show ?thesis
    by (cases r) (auto simp: or_da_failed_def handled_ok_def running_def split: sum.splits)
qed

lemma da_enter_ok:
  assumes "da_ok w" "invar (da_store w)" "da_enter env ops peers w = Some (p, w')"
  shows "da_next invar abs_st w w' \<and> (running p \<longrightarrow> da_keeps abs_st w w')"
proof (cases "peers = 0")
  case True
  with assms show ?thesis by (auto simp: da_enter_def)
next
  case False
  note u = update_queue_handled [OF assms(1,2)]
  from update_queue_ok [OF assms(1,2)] obtain w1 where w1: "update_queue ops w = (Inr (), w1)" by blast
  note ok1 = handled_okD [OF u [unfolded w1]]
  from assms(3) False w1 obtain r where r: "schedule_all env ops 0 w1 = Some r"
    "(p, w') = or_da_failed DaConnected (seq_w r (da_report ops))" by (auto simp: da_enter_def bind_eq_Some_conv)
  from handled_ok_trans [OF ok1(3,4) schedule_all_handled [OF r(1) ok1(1,2)]] have h: "handled_ok invar abs_st w r" .
  have "w' = snd r \<and> (running p \<longrightarrow> is_ok (fst r))"
    using r(2) by (cases r; cases "fst r") (auto simp: or_da_failed_def da_report_def running_def split: sum.splits)
  with h show ?thesis by (auto simp: handled_ok_def)
qed

lemma da_event_step_ok:
  assumes "running p \<longrightarrow> da_ok w" "invar (da_store w)" "da_event_u64 ev" "da_event_step env ops ev (p, w) = Some (p', w')"
  shows "da_next invar abs_st w w' \<and> (running p' \<longrightarrow> da_keeps abs_st w w')"
proof (cases p)
  case DaConnecting
  with assms(1) have ok: "da_ok w" by (simp add: running_def)
  show ?thesis
  proof (cases ev)
    case (DaPeersChanged peers)
    with DaConnecting assms(4) show ?thesis
      using da_enter_ok [OF ok assms(2)] by (simp add: da_event_step_def da_connecting_event_def)
  next
    case (DaCmd c)
    with assms(3) have h: "handled_ok invar abs_st w (da_on_cmd c w)"
      by (intro on_cmd_handled ok assms(2)) (simp add: da_event_u64_def)
    from DaConnecting DaCmd assms(4) have "(p', w') = or_da_failed DaConnecting (da_on_cmd c w)"
      by (simp add: da_event_step_def da_connecting_event_def)
    with h show ?thesis
      by (cases "da_on_cmd c w") (auto simp: or_da_failed_def handled_ok_def running_def split: sum.splits)
  qed (use DaConnecting assms(2,4) ok in \<open>auto simp: da_event_step_def da_connecting_event_def\<close>)
next
  case DaConnected
  with assms(1) have ok: "da_ok w" by (simp add: running_def)
  have step: "da_connected_event env ops ev w = Some (p', w')" using assms(4) DaConnected by (simp add: da_event_step_def)
  have leave: "da_next invar abs_st w (da_leave w)" using assms(2) by (auto simp: da_leave_def intro!: da_next_local)
  have gone: "da_keeps abs_st w (da_leave w)"
    by (rule da_keeps_local [OF da_ok_leave [OF ok]]) (simp_all add: da_leave_def)
  show ?thesis
  proof (cases ev)
    case DaCancel
    with step leave gone show ?thesis by (auto simp: da_connected_event_def)
  next
    case (DaPeersChanged peers)
    with step leave gone da_turn_ok [OF handled_ok_stay [where I = invar, OF ok assms(2)]] show ?thesis
      by (auto simp: da_connected_event_def split: if_splits)
  next
    case DaReportTick
    with step da_turn_ok [OF handled_ok_stay [where I = invar, OF ok assms(2)]] show ?thesis
      by (simp add: da_connected_event_def da_report_def)
  next
    case (DaCmd c)
    with assms(3) have "handled_ok invar abs_st w (da_on_cmd c w)"
      by (intro on_cmd_handled ok assms(2)) (simp add: da_event_u64_def)
    from da_turn_ok [OF this] step DaCmd show ?thesis by (simp add: da_connected_event_def)
  next
    case (FutStart i now took)
    with step da_turn_ok [OF on_fut_start_handled [OF ok assms(2), of i now took], of env p' w'] ok assms(2) show ?thesis
      by (auto simp: da_connected_event_def split: if_splits)
  next
    case (Share i row col res took)
    with step da_turn_ok [OF on_share_handled [OF ok assms(2), of i row col res took], of env p' w'] ok assms(2) show ?thesis
      by (auto simp: da_connected_event_def split: if_splits)
  next
    case DaNewHead
    with step da_turn_ok [OF update_queue_handled [OF ok assms(2)]] show ?thesis by (simp add: da_connected_event_def)
  qed
qed (use assms in \<open>auto simp: da_event_step_def running_def\<close>)

text \<open>Every event is handled in finite time.\<close>

lemma turn_ok_returns:
  assumes "handled_ok invar abs_st w m" "env_fair env"
  shows "\<exists>st. da_turn env ops m = Some st"
proof (cases "fst m")
  case (Inl e)
  then show ?thesis by (cases m) (auto simp: da_turn_def)
next
  case (Inr x)
  obtain w1 where w1: "m = (Inr x, w1)" using Inr by (cases m) auto
  with assms(1) have "da_ok w1" "invar (da_store w1)" using handled_okD [of invar abs_st w x w1] by auto
  from schedule_all_returns [OF this assms(2), of 0] obtain r where "schedule_all env ops 0 w1 = Some r" by blast
  with w1 show ?thesis by (simp add: da_turn_def)
qed

lemma da_event_step_returns:
  assumes "running p \<longrightarrow> da_ok w" "invar (da_store w)" "da_event_u64 ev" "env_fair env"
  shows "\<exists>st. da_event_step env ops ev (p, w) = Some st"
proof -
  have enter: "\<exists>st. da_enter env ops peers w = Some st" if ok: "da_ok w" for peers
  proof -
    from update_queue_ok [OF ok assms(2)] obtain w1 where w1: "update_queue ops w = (Inr (), w1)" by blast
    with update_queue_handled [OF ok assms(2)] have "da_ok w1" "invar (da_store w1)"
      using handled_okD [of invar abs_st w "()" w1] by auto
    from schedule_all_returns [OF this assms(4), of 0] obtain r where "schedule_all env ops 0 w1 = Some r" by blast
    with w1 show ?thesis by (simp add: da_enter_def)
  qed
  show ?thesis
  proof (cases p)
    case DaConnecting
    with assms(1) enter show ?thesis
      by (auto simp: da_event_step_def da_connecting_event_def running_def split: da_event.split)
  next
    case DaConnected
    with assms(1) have ok: "da_ok w" by (simp add: running_def)
    have c: "da_event_step env ops ev (p, w) = da_connected_event env ops ev w"
      using DaConnected by (simp add: da_event_step_def)
    have stay: "handled_ok invar abs_st w (r, w)" for r :: "(daser_error, unit) result"
      using ok assms(2) by (rule handled_ok_stay)
    show ?thesis
    proof (cases ev)
      case (DaCmd cmd)
      with assms(3) have "handled_ok invar abs_st w (da_on_cmd cmd w)"
        by (intro on_cmd_handled ok assms(2)) (simp add: da_event_u64_def)
      from turn_ok_returns [OF this assms(4)] show ?thesis unfolding c by (simp add: DaCmd da_connected_event_def)
    next
      case (DaPeersChanged peers)
      from turn_ok_returns [OF stay assms(4)] show ?thesis unfolding c by (simp add: DaPeersChanged da_connected_event_def)
    next
      case DaReportTick
      from turn_ok_returns [OF stay assms(4)] show ?thesis
        unfolding c by (simp add: DaReportTick da_connected_event_def da_report_def)
    next
      case (FutStart i now took)
      from turn_ok_returns [OF on_fut_start_handled [OF ok assms(2), of i now took] assms(4)] show ?thesis
        unfolding c by (simp add: FutStart da_connected_event_def)
    next
      case (Share i row col res took)
      from turn_ok_returns [OF on_share_handled [OF ok assms(2), of i row col res took] assms(4)] show ?thesis
        unfolding c by (simp add: Share da_connected_event_def)
    next
      case DaNewHead
      from turn_ok_returns [OF update_queue_handled [OF ok assms(2)] assms(4)] show ?thesis
        unfolding c by (simp add: DaNewHead da_connected_event_def)
    next
      case DaCancel
      then show ?thesis unfolding c by (simp add: da_connected_event_def)
    qed
  qed (auto simp: da_event_step_def)
qed

section \<open>Reachable states\<close>

lemma daser_reach_ok:
  assumes "daser_reach L conv ops invar st0 st" "running (fst st0) \<longrightarrow> da_ok (snd st0)" "invar (da_store (snd st0))"
  shows "(running (fst st) \<longrightarrow> da_ok (snd st)) \<and> invar (da_store (snd st)) \<and>
    heights (da_will_be_pruned (snd st0)) \<subseteq> heights (da_will_be_pruned (snd st))"
  using assms
proof (induction rule: daser_reach.induct)
  case (event st env ev st')
  obtain p w p' w' where s: "st = (p, w)" "st' = (p', w')" by (metis surj_pair)
  with event have "running p \<longrightarrow> da_ok w" "invar (da_store w)"
    "heights (da_will_be_pruned (snd st0)) \<subseteq> heights (da_will_be_pruned w)" by auto
  with da_event_step_ok [of p w ev env p' w'] event s show ?case by (auto simp: da_next_def da_keeps_def)
qed auto

end

end
