(* ===== verification/Pruner_Invariants.thy ===== *)
theory Pruner_Invariants
  imports Pruner_Search Daser_Reach
begin

text \<open>
  What the pruner keeps and what its batches are, over any store that keeps the contract
  \<open>header_store\<close> and any sampler that keeps the contract \<open>prune_guard\<close>: every block of a batch is
  stored, outside the pruning window, and sampled or released by the sampler. The modelled
  sampler keeps the contract.
\<close>

section \<open>The contract of the sampler\<close>

text \<open>What the sampler has allowed stays allowed, and a positive answer is such a permission. The
  relation \<open>dstep\<close> is what a client wants kept across the commands.\<close>

locale prune_guard =
  fixes dcmd :: "'d daser_handle" and dok :: "'d \<Rightarrow> bool" and dstep :: "'d \<Rightarrow> 'd \<Rightarrow> bool"
    and allowed :: "'d \<Rightarrow> nat set"
  assumes dstep_refl: "dok d \<Longrightarrow> dstep d d"
    and dstep_trans: "dstep d d1 \<Longrightarrow> dstep d1 d2 \<Longrightarrow> dstep d d2"
    and dstep_ok: "dok d \<Longrightarrow> dstep d d1 \<Longrightarrow> dok d1"
    and dstep_allowed: "dstep d d1 \<Longrightarrow> allowed d \<subseteq> allowed d1"
    and cmd_law: "dok d \<Longrightarrow> cmd_u64 c \<Longrightarrow> dstep d (snd (dcmd c d))"
    and want_law: "dok d \<Longrightarrow> cmd_u64 (WantToPrune h) \<Longrightarrow> fst (dcmd (WantToPrune h) d) = Inr (Some True) \<Longrightarrow>
      h \<in> allowed (snd (dcmd (WantToPrune h) d))"
begin

lemma want_to_prune_ok:
  assumes "dok d" "h \<le> u64_max"
  shows "dstep d (snd (want_to_prune dcmd h d))"
    "fst (want_to_prune dcmd h d) = Inr True \<Longrightarrow> h \<in> allowed (snd (want_to_prune dcmd h d))"
proof -
  have c: "cmd_u64 (WantToPrune h)" using assms(2) by (simp add: cmd_u64_def)
  obtain r d1 where r: "dcmd (WantToPrune h) d = (r, d1)" by (metis surj_pair)
  show "dstep d (snd (want_to_prune dcmd h d))"
    using cmd_law [OF assms(1) c] r by (simp add: want_to_prune_def split: sum.splits option.splits)
  show "h \<in> allowed (snd (want_to_prune dcmd h d))" if "fst (want_to_prune dcmd h d) = Inr True"
    using want_law [OF assms(1) c] r that by (auto simp: want_to_prune_def split: sum.splits option.splits)
qed

lemma send_update_ok: "dok d \<Longrightarrow> cmd_u64 c \<Longrightarrow> dstep d (snd (send_update dcmd c d))"
  using cmd_law by (simp add: send_update_def case_prod_unfold)

text \<open>One iteration of the loop.\<close>

lemma ask_step_ok:
  assumes "dok d" "br_wf remaining" "br_wf batch" "ask_step dcmd sampled remaining batch d = (r, d1)"
  shows "dstep d d1 \<and>
    (r = Inr None \<longrightarrow> heights remaining = {} \<or> card (heights batch) = MAX_PRUNABLE_BATCH_SIZE) \<and>
    (\<forall>remaining1 batch1. r = Inr (Some (remaining1, batch1)) \<longrightarrow> (\<exists>h. br_head remaining = Some h \<and>
       br_wf remaining1 \<and> heights remaining1 = heights remaining - {h} \<and>
       br_wf batch1 \<and> card (heights batch) \<noteq> MAX_PRUNABLE_BATCH_SIZE \<and>
       (heights batch1 = heights batch \<and> h \<notin> heights sampled \<or>
        heights batch1 = insert h (heights batch) \<and> (h \<in> heights sampled \<or> h \<in> allowed d1))))"
proof -
  from pop_head_ok [OF assms(2)] obtain rs where
    p: "pop_head remaining = (Inr (br_head remaining, rs) :: (pruner_error, _) result)" "br_wf rs"
    "heights rs = heights remaining - set_option (br_head remaining)" .
  show ?thesis
  proof (cases "br_head remaining")
    case None
    with p(1) assms(4) have "r = Inr None" "d1 = d" by (auto simp: ask_step_def)
    with None dstep_refl [OF assms(1)] br_head_None_iff [OF assms(2)] show ?thesis by simp
  next
    case (Some h)
    then have h: "h \<in> heights remaining" using br_head_Some_iff [OF assms(2)] by blast
    then have b: "h \<le> u64_max" "range_ok (Rng h h)"
      using heights_bounded [OF assms(2)] by (auto simp: all_heights_def range_ok_def)
    from br.ins_law [OF assms(3) b(2)] obtain b1 where
      b1: "insert_relaxed batch (Rng h h) = Inr b1" "br_wf b1" "heights b1 = insert h (heights batch)"
      by (auto simp: range_set_def)
    show ?thesis
    proof (cases "card (heights batch) = MAX_PRUNABLE_BATCH_SIZE")
      case True
      with p(1) Some assms(3,4) have "r = Inr None" "d1 = d" by (auto simp: ask_step_def)
      with True dstep_refl [OF assms(1)] show ?thesis by simp
    next
      case False
      define m where "m = (if h \<in> heights sampled then (Inr True, d) else want_to_prune dcmd h d)"
      have m: "dstep d (snd m)" "fst m = Inr True \<Longrightarrow> h \<in> heights sampled \<or> h \<in> allowed (snd m)"
        "fst m = Inr False \<Longrightarrow> h \<notin> heights sampled"
        using want_to_prune_ok [OF assms(1) b(1)] dstep_refl [OF assms(1)] by (auto simp: m_def)
      have step: "ask_step dcmd sampled remaining batch d = (case m of
          (Inl e, d1) \<Rightarrow> (map_err PrunerDaser (Inl e), d1)
        | (Inr b, d1) \<Rightarrow> (Inr (Some (rs, if b then b1 else batch)), d1))"
        using p(1) Some assms(3) False b1(1) by (simp add: ask_step_def m_def split: sum.split prod.split)
      obtain x y where m': "m = (x, y)" by (metis surj_pair)
      show ?thesis
      proof (cases x)
        case (Inl e)
        then have "map_err PrunerDaser (Inl e :: (daser_error, (block_ranges \<times> block_ranges) option) result) \<noteq> Inr z" for z
          by (cases e) simp_all
        with step m' Inl assms(4) m(1) show ?thesis by auto
      next
        case (Inr ok)
        with step m' assms(4) have "r = Inr (Some (rs, if ok then b1 else batch))" "d1 = y" by auto
        with m m' Inr Some p(2,3) b1(2,3) assms(3) False show ?thesis by (cases ok) auto
      qed
    qed
  qed
qed

text \<open>The loop takes only what was sampled before or is allowed now, never more than fits, and
  leaves out a sampled block only when the batch is full.\<close>

lemma ask_loop_ok:
  assumes "ask_loop dcmd sampled remaining batch d = (r, d1)" "dok d" "br_wf remaining" "br_wf batch"
    "card (heights batch) \<le> MAX_PRUNABLE_BATCH_SIZE"
  shows "dstep d d1 \<and> (\<forall>B. r = Inr B \<longrightarrow> br_wf B \<and> card (heights B) \<le> MAX_PRUNABLE_BATCH_SIZE \<and>
    heights batch \<subseteq> heights B \<and> heights B \<subseteq> heights batch \<union> heights remaining \<inter> (heights sampled \<union> allowed d1) \<and>
    (card (heights B) < MAX_PRUNABLE_BATCH_SIZE \<longrightarrow> heights remaining \<inter> heights sampled \<subseteq> heights B))"
  using assms
proof (induction "card (heights remaining)" arbitrary: remaining batch d rule: less_induct)
  case less
  obtain x y where s: "ask_step dcmd sampled remaining batch d = (x, y)" by (metis surj_pair)
  note step = ask_step_ok [OF less.prems(2-4) s]
  consider e where "x = Inl e" | "x = Inr None" | rs b1 where "x = Inr (Some (rs, b1))" by (metis old.sum.exhaust option.exhaust surj_pair)
  then show ?case
  proof cases
    case 1
    with s less.prems(1) step show ?thesis by (subst (asm) ask_loop.simps) auto
  next
    case 2
    with s less.prems(1) have "r = Inr batch" "d1 = y" by (subst (asm) ask_loop.simps; simp)+
    with 2 step less.prems(4,5) show ?thesis by auto
  next
    case (3 rs b1)
    with step obtain h where h: "br_head remaining = Some h" "br_wf rs" "heights rs = heights remaining - {h}" "br_wf b1"
      "card (heights batch) \<noteq> MAX_PRUNABLE_BATCH_SIZE"
      "heights b1 = heights batch \<and> h \<notin> heights sampled \<or>
       heights b1 = insert h (heights batch) \<and> (h \<in> heights sampled \<or> h \<in> allowed y)" by blast
    have dy: "dstep d y" using step by blast
    have loop: "ask_loop dcmd sampled rs b1 y = (r, d1)"
      using less.prems(1) s 3 by (subst (asm) ask_loop.simps) simp
    have hin: "h \<in> heights remaining" using h(1) br_head_Some_iff [OF less.prems(3)] by blast
    then have card1: "card (heights rs) < card (heights remaining)" unfolding h(3) by (rule card_Diff1_less [OF finite_heights])
    have card2: "card (heights b1) \<le> MAX_PRUNABLE_BATCH_SIZE"
      using h(5,6) less.prems(5) by (auto simp: card_insert_if)
    note IH = less.hyps [OF card1 loop dstep_ok [OF less.prems(2) dy] h(2,4) card2]
    then have dd: "dstep y d1" by blast
    have sub: "heights b1 \<subseteq> insert h (heights batch)" "heights batch \<subseteq> heights b1"
      "h \<in> heights b1 \<Longrightarrow> h \<in> heights batch \<or> h \<in> heights sampled \<union> allowed d1" "h \<in> heights sampled \<Longrightarrow> h \<in> heights b1"
      using h(6) dstep_allowed [OF dd] by auto
    have lower: "heights batch \<subseteq> X" if "heights b1 \<subseteq> X" for X using that sub(2) by blast
    have upper: "X \<subseteq> heights batch \<union> heights remaining \<inter> (heights sampled \<union> allowed d1)"
      if X: "X \<subseteq> heights b1 \<union> heights rs \<inter> (heights sampled \<union> allowed d1)" for X
    proof
      fix k
      assume "k \<in> X"
      with X have "k \<in> heights b1 \<or> k \<in> heights remaining \<and> k \<in> heights sampled \<union> allowed d1" unfolding h(3) by blast
      then show "k \<in> heights batch \<union> heights remaining \<inter> (heights sampled \<union> allowed d1)"
        using sub(1,3) hin by blast
    qed
    have rest: "heights remaining \<inter> heights sampled \<subseteq> X" if "heights b1 \<subseteq> X" "heights rs \<inter> heights sampled \<subseteq> X" for X
      using that sub(4) unfolding h(3) by blast
    have "br_wf B \<and> card (heights B) \<le> MAX_PRUNABLE_BATCH_SIZE \<and>
      heights batch \<subseteq> heights B \<and> heights B \<subseteq> heights batch \<union> heights remaining \<inter> (heights sampled \<union> allowed d1) \<and>
      (card (heights B) < MAX_PRUNABLE_BATCH_SIZE \<longrightarrow> heights remaining \<inter> heights sampled \<subseteq> heights B)" if "r = Inr B" for B
      by (intro conjI impI lower upper rest)
        (use IH [THEN conjunct2, rule_format, OF that] in \<open>simp_all only:\<close>)
    with dstep_trans [OF dy dd] show ?thesis by blast
  qed
qed

end

section \<open>The blocks that may be removed\<close>

definition upto_opt :: "nat option \<Rightarrow> nat set" where
  "upto_opt k = (case k of None \<Rightarrow> {} | Some h \<Rightarrow> {1..h})"

definition u64_opt :: "nat option \<Rightarrow> bool" where
  "u64_opt k \<longleftrightarrow> (\<forall>h \<in> set_option k. 0 < h \<and> h \<le> u64_max)"

lemma window_area_ok:
  assumes "u64_opt k"
  shows "\<exists>rs. window_area k = Inr rs \<and> br_wf rs \<and> heights rs = upto_opt k"
proof (cases k)
  case (Some h)
  with assms have "range_ok (Rng 1 h)" by (simp add: u64_opt_def range_ok_def)
  with Some show ?thesis by (simp add: window_area_def upto_opt_def range_set_def)
qed (simp add: window_area_def upto_opt_def)

text \<open>An edge of a set of heights: a member without one of its neighbours.\<close>

definition edge_of :: "nat set \<Rightarrow> nat \<Rightarrow> bool" where
  "edge_of S h \<longleftrightarrow> h \<in> S \<and> (h - 1 \<notin> S \<or> h + 1 \<notin> S)"

lemma edges_cover:
  assumes "br_wf rs"
  shows "\<exists>es. edges rs = (Inr es :: ('e, block_ranges) result) \<and> br_wf es \<and>
    (\<forall>h. edge_of (heights rs) h \<longrightarrow> h \<in> heights es)"
proof -
  obtain es where es: "edges rs = (Inr es :: ('e, block_ranges) result)" "br_wf es"
    "heights es = (\<Union>r \<in> set rs. {rstart r, rend r})" using edges_ok [OF assms] .
  have "h \<in> heights es" if "edge_of (heights rs) h" for h
  proof -
    from that obtain r where r: "r \<in> set rs" "rstart r \<le> h" "h \<le> rend r"
      by (auto simp: edge_of_def in_heights_iff range_set_def)
    have "h = rstart r \<or> h = rend r"
    proof (rule ccontr)
      assume "\<not> (h = rstart r \<or> h = rend r)"
      with r have "h - 1 \<in> heights rs" "h + 1 \<in> heights rs" by (auto simp: in_heights_iff range_set_def intro!: bexI [of _ r])
      with that show False by (simp add: edge_of_def)
    qed
    with r(1) es(3) show ?thesis by auto
  qed
  with es show ?thesis by blast
qed

lemma prune_candidates_ok:
  assumes "u64_opt (ca_after_sampling_window ca)" "u64_opt (ca_after_pruning_window ca)"
    "br_wf stored" "br_wf pruned" "br_wf sampled"
  defines "P \<equiv> upto_opt (ca_after_pruning_window ca)" and "Q \<equiv> upto_opt (ca_after_sampling_window ca)"
  shows "\<exists>a b. prune_candidates ca stored pruned sampled = Inr (a, b) \<and> br_wf a \<and> br_wf b \<and>
    heights a = heights stored \<inter> P \<inter> Q \<and> heights b \<subseteq> (heights stored \<inter> P \<inter> heights sampled) - Q \<and>
    (\<forall>h \<in> heights b. \<not> edge_of (heights stored \<union> heights pruned) h)"
proof -
  from window_area_ok [OF assms(1)] obtain q where q: "window_area (ca_after_sampling_window ca) = Inr q" "br_wf q" "heights q = Q"
    by (auto simp: Q_def)
  from window_area_ok [OF assms(2)] obtain p where p: "window_area (ca_after_pruning_window ca) = Inr p" "br_wf p" "heights p = P"
    by (auto simp: P_def)
  obtain s where s: "br_add pruned stored = (Inr s :: (pruner_error, _) result)" "br_wf s"
    "heights s = heights pruned \<union> heights stored" using br_add_ok [OF assms(4,3)] .
  obtain es where es: "edges s = (Inr es :: (pruner_error, _) result)" "br_wf es"
    "\<And>h. edge_of (heights s) h \<Longrightarrow> h \<in> heights es" using edges_cover [OF s(2)] by blast
  obtain c where c: "br_and stored p = (Inr c :: (pruner_error, _) result)" "br_wf c" "heights c = heights stored \<inter> heights p"
    using br_and_ok [OF assms(3) p(2)] .
  obtain a where a: "br_and c q = (Inr a :: (pruner_error, _) result)" "br_wf a" "heights a = heights c \<inter> heights q"
    using br_and_ok [OF c(2) q(2)] .
  obtain w where w: "br_sub c a = (Inr w :: (pruner_error, _) result)" "br_wf w" "heights w = heights c - heights a"
    using br_sub_ok [OF c(2) a(2)] .
  obtain i where i: "br_sub w es = (Inr i :: (pruner_error, _) result)" "br_wf i" "heights i = heights w - heights es"
    using br_sub_ok [OF w(2) es(2)] .
  obtain b where b: "br_and i sampled = (Inr b :: (pruner_error, _) result)" "br_wf b" "heights b = heights i \<inter> heights sampled"
    using br_and_ok [OF i(2) assms(5)] .
  have "prune_candidates ca stored pruned sampled = Inr (a, b)"
    using q(1) p(1) s(1) es(1) c(1) a(1) w(1) i(1) b(1) by (simp add: prune_candidates_def)
  moreover have "heights a = heights stored \<inter> P \<inter> Q" using a(3) c(3) q(3) p(3) by simp
  moreover have "heights b \<subseteq> (heights stored \<inter> P \<inter> heights sampled) - Q"
    using b(3) i(3) w(3) a(3) c(3) q(3) p(3) by auto
  moreover have "\<not> edge_of (heights stored \<union> heights pruned) h" if "h \<in> heights b" for h
    using that b(3) i(3) es(3) [of h] s(3) by (auto simp: Un_commute)
  ultimately show ?thesis using a(2) b(2) by blast
qed

section \<open>The invariant\<close>

text \<open>The cached infos are those of the chain, and the two cached heights were outside their window.\<close>

definition pr_ok :: "(nat \<Rightarrow> time) \<Rightarrow> time \<Rightarrow> time \<Rightarrow> pcache \<Rightarrow> bool" where
  "pr_ok T sampling_cutoff pruning_cutoff ca \<longleftrightarrow> cache_ok T ca \<and>
     u64_opt (ca_after_sampling_window ca) \<and> u64_opt (ca_after_pruning_window ca) \<and>
     (\<forall>p \<in> set_option (ca_after_sampling_window ca). T p \<le> sampling_cutoff) \<and>
     (\<forall>p \<in> set_option (ca_after_pruning_window ca). T p \<le> pruning_cutoff)"

text \<open>The cut-offs move on with the clock.\<close>

lemma pr_ok_later: "pr_ok T a b ca \<Longrightarrow> a \<le> a' \<Longrightarrow> b \<le> b' \<Longrightarrow> pr_ok T a' b' ca"
  by (fastforce simp: pr_ok_def)

lemma pruner_new_ok: "pr_ok T a b (pr_cache (pruner_new s bs bt pw sw))"
  by (simp add: pr_ok_def pruner_new_def cache_ok_def u64_opt_def)

lemma pr_ok_infos: "pr_ok T a b ca \<Longrightarrow> infos_grow T ca ca' \<Longrightarrow> pr_ok T a b ca'"
  using infos_growD [of T ca ca'] by (simp add: pr_ok_def)

lemma pr_ok_refresh: "pr_ok T a b ca \<Longrightarrow> pr_ok T a b (refresh_cache stored i ca)"
  by (auto simp: pr_ok_def refresh_cache_def garbage_collect_def cache_ok_def)

lemma pr_ok_set:
  assumes "pr_ok T a b ca" "u64_opt k"
  shows "\<forall>p \<in> set_option k. T p \<le> a \<Longrightarrow> pr_ok T a b (ca\<lparr>ca_after_sampling_window := k\<rparr>)"
    "\<forall>p \<in> set_option k. T p \<le> b \<Longrightarrow> pr_ok T a b (ca\<lparr>ca_after_pruning_window := k\<rparr>)"
  using assms by (auto simp: pr_ok_def cache_ok_def)

lemma upto_opt_older:
  assumes "strict_mono T" "\<forall>p \<in> set_option k. T p \<le> (c :: int)" "h \<in> upto_opt k"
  shows "T h \<le> c"
proof -
  from assms(3) obtain p where p: "k = Some p" "h \<le> p" by (auto simp: upto_opt_def split: option.splits)
  then have "T h \<le> T p" using strict_mono_less_eq [OF assms(1)] by simp
  with p(1) assms(2) show ?thesis by simp
qed

section \<open>Batches\<close>

locale pruner_env = header_store tm ops invar abs_st + prune_guard dcmd dok dstep allowed
  for tm :: tendermint and ops :: "'s store_ops" and invar :: "'s \<Rightarrow> bool" and abs_st :: "'s \<Rightarrow> store_spec"
    and dcmd :: "'d daser_handle" and dok :: "'d \<Rightarrow> bool" and dstep :: "'d \<Rightarrow> 'd \<Rightarrow> bool"
    and allowed :: "'d \<Rightarrow> nat set"
begin

lemma update_cached_data_ok:
  assumes "invar (pr_store w)" "chain_times T (abs_st (pr_store w))" "strict_mono T" "pr_ok T sc pc (pr_cache w)" "dok d"
  defines "S \<equiv> sp_stored (abs_st (pr_store w))"
  shows "\<exists>r ca d1. update_cached_data ops dcmd instant S sc pc w d = Some (r, w\<lparr>pr_cache := ca\<rparr>, d1) \<and>
    pr_ok T sc pc ca \<and> dstep d d1"
proof (cases "recently_updated instant (min (10 ^ 9) (pr_block_time w)) (pr_cache w)")
  case True
  then have "update_cached_data ops dcmd instant S sc pc w d = Some (Inr (), w, d)"
    by (simp only: update_cached_data_def Let_def if_True)
  then have "update_cached_data ops dcmd instant S sc pc w d = Some (Inr (), w\<lparr>pr_cache := pr_cache w\<rparr>, d)" by simp
  with assms(4) dstep_refl [OF assms(5)] show ?thesis by blast
next
  case False
  let ?ca = "pr_cache w"
  have wf: "br_wf S" using invar_ok [OF assms(1)] by (simp add: S_def sp_ok_def)
  have u64: "u64_opt k" if "\<forall>x \<in> set_option k. x \<in> heights S \<and> Q x" for k Q
    using that heights_bounded [OF wf] by (auto simp: u64_opt_def all_heights_def)
  from find_height_ok [OF assms(1-3), of ?ca "ca_after_sampling_window ?ca" sc, folded S_def] assms(4)
  obtain k1 ca1 where f1: "find_height_after_window ops (pr_store w) S sc (ca_after_sampling_window ?ca) ?ca = Some (Inr k1, ca1)"
    "infos_grow T ?ca ca1" "\<forall>x \<in> set_option k1. x \<in> heights S \<and> T x \<le> sc" by (auto simp: pr_ok_def)
  note ok1 = pr_ok_infos [OF assms(4) f1(2)]
  from find_height_ok [OF assms(1-3), of ca1 "ca_after_pruning_window ca1" pc, folded S_def] ok1
  obtain k2 ca2 where f2: "find_height_after_window ops (pr_store w) S pc (ca_after_pruning_window ca1) ca1 = Some (Inr k2, ca2)"
    "infos_grow T ca1 ca2" "\<forall>x \<in> set_option k2. x \<in> heights S \<and> T x \<le> pc" by (auto simp: pr_ok_def)
  note ok2 = pr_ok_infos [OF ok1 f2(2)]
  define ca3 where "ca3 = (if opt_less (ca_after_sampling_window ca2) k1 then ca2\<lparr>ca_after_sampling_window := k1\<rparr> else ca2)"
  have ok3: "pr_ok T sc pc ca3" using pr_ok_set(1) [OF ok2 u64 [OF f1(3)]] f1(3) ok2 by (simp add: ca3_def)
  have ok4: "pr_ok T sc pc (ca3\<lparr>ca_after_pruning_window := k2\<rparr>)" using pr_ok_set(2) [OF ok3 u64 [OF f2(3)]] f2(3) by simp
  define m where "m = (case k2 of None \<Rightarrow> (Inr (), d) | Some height \<Rightarrow> send_update dcmd (UpdateHighestPrunableHeight height) d)"
  have m: "dstep d (snd m)"
    using dstep_refl [OF assms(5)] send_update_ok [OF assms(5)] by (simp add: m_def cmd_u64_def split: option.split)
  have eq: "update_cached_data ops dcmd instant S sc pc w d =
      (if opt_less (ca_after_pruning_window ca3) k2 then
         (case m of (Inl e, d1) \<Rightarrow> Some (Inl e, w\<lparr>pr_cache := ca3\<lparr>ca_after_pruning_window := k2\<rparr>\<rparr>, d1)
          | (Inr _, d1) \<Rightarrow> Some (Inr (), w\<lparr>pr_cache := refresh_cache S instant (ca3\<lparr>ca_after_pruning_window := k2\<rparr>)\<rparr>, d1))
       else Some (Inr (), w\<lparr>pr_cache := refresh_cache S instant ca3\<rparr>, d))"
    using False f1(1) f2(1) by (simp only: update_cached_data_def Let_def if_False f1(1) f2(1) ca3_def m_def
      Option.bind.bind_lunit sum.case prod.case)
  show ?thesis unfolding eq
    using pr_ok_refresh [OF ok3] pr_ok_refresh [OF ok4] ok4 m dstep_refl [OF assms(5)]
    by (cases m; cases "fst m") auto
qed

text \<open>What is known before the sampler is asked.\<close>

lemma open_batch_ok:
  assumes "invar (pr_store w)" "chain_times T (abs_st (pr_store w))" "strict_mono T" "pr_ok T sc pc (pr_cache w)" "dok d"
  defines "a \<equiv> abs_st (pr_store w)"
  shows "\<exists>r w1 d1. open_batch ops dcmd instant sc pc w d = Some (r, w1, d1) \<and> dstep d d1 \<and> pr_store w1 = pr_store w \<and>
    pr_ok T sc pc (pr_cache w1) \<and> pr_blockstore w1 = pr_blockstore w \<and> pr_events w1 = pr_events w \<and>
    (\<forall>sampled after batch. r = Inr (sampled, after, batch) \<longrightarrow> sampled = sp_sampled a \<and> br_wf after \<and> br_wf batch \<and>
       heights after \<subseteq> heights (sp_stored a) \<and> (\<forall>h \<in> heights after. T h \<le> sc \<and> T h \<le> pc) \<and>
       heights batch \<subseteq> heights (sp_sampled a) \<and> (\<forall>h \<in> heights batch. T h \<le> pc) \<and>
       (\<forall>h \<in> heights batch. \<not> edge_of (heights (sp_stored a) \<union> heights (sp_pruned a)) h) \<and>
       card (heights batch) \<le> MAX_PRUNABLE_BATCH_SIZE)"
proof -
  have wf: "br_wf (sp_stored a)" "br_wf (sp_pruned a)" "br_wf (sp_sampled a)" "heights (sp_sampled a) \<subseteq> heights (sp_stored a)"
    using invar_ok [OF assms(1)] by (auto simp: a_def sp_ok_def)
  from update_cached_data_ok [OF assms(1-5), of instant, folded a_def] obtain r ca d1 where
    u: "update_cached_data ops dcmd instant (sp_stored a) sc pc w d = Some (r, w\<lparr>pr_cache := ca\<rparr>, d1)"
    "pr_ok T sc pc ca" "dstep d d1" by blast
  note d1 = dstep_ok [OF assms(5) u(3)]
  show ?thesis
  proof (cases r)
    case (Inl e)
    with u assms(1) show ?thesis by (simp add: open_batch_def ranges_law a_def)
  next
    case (Inr x)
    have k: "u64_opt (ca_after_sampling_window ca)" "u64_opt (ca_after_pruning_window ca)"
      "\<forall>p \<in> set_option (ca_after_sampling_window ca). T p \<le> sc" "\<forall>p \<in> set_option (ca_after_pruning_window ca). T p \<le> pc"
      using u(2) by (auto simp: pr_ok_def)
    from prune_candidates_ok [OF k(1,2) wf(1-3)] obtain af ps where
      p: "prune_candidates ca (sp_stored a) (sp_pruned a) (sp_sampled a) = Inr (af, ps)" "br_wf af" "br_wf ps"
      "heights af = heights (sp_stored a) \<inter> upto_opt (ca_after_pruning_window ca) \<inter> upto_opt (ca_after_sampling_window ca)"
      "heights ps \<subseteq> (heights (sp_stored a) \<inter> upto_opt (ca_after_pruning_window ca) \<inter> heights (sp_sampled a)) -
         upto_opt (ca_after_sampling_window ca)"
      "\<forall>h \<in> heights ps. \<not> edge_of (heights (sp_stored a) \<union> heights (sp_pruned a)) h" by blast
    have "card (heights af) + card (heights ps) = card (heights af \<union> heights ps)"
      using p(4,5) by (subst card_Un_disjoint) auto
    also have "\<dots> \<le> card (heights (sp_stored a))" using p(4,5) by (intro card_mono) auto
    also have "\<dots> \<le> u64_max" by (rule card_heights_le [OF wf(1)])
    finally have num: "add_u64 (card (heights af)) (card (heights ps)) =
      (Inr (card (heights af) + card (heights ps)) :: (pruner_error, nat) result)" by (simp add: add_u64_def)
    have "MAX_PRUNABLE_BATCH_SIZE \<le> u64_max" by (simp add: MAX_PRUNABLE_BATCH_SIZE_def u64_max_def)
    from br_headn_ok [OF p(3) this] obtain b where b: "br_headn ps MAX_PRUNABLE_BATCH_SIZE = (Inr b :: (pruner_error, _) result)" "br_wf b"
      "top_n (heights ps) MAX_PRUNABLE_BATCH_SIZE (heights b)" .
    define n where "n = card (heights af) + card (heights ps)"
    define m where "m = (if pr_prev_num_of_prunable_blocks w \<noteq> n
      then send_update dcmd (UpdateNumberOfPrunableBlocks n) d1 else (Inr (), d1))"
    have m: "dstep d (snd m)"
      using dstep_trans [OF u(3)] dstep_refl [OF d1] send_update_ok [OF d1] by (auto simp: m_def cmd_u64_def)
    have eq: "open_batch ops dcmd instant sc pc w d = (case m of
        (Inl e, d2) \<Rightarrow> Some (Inl e, w\<lparr>pr_cache := ca\<rparr>, d2)
      | (Inr _, d2) \<Rightarrow> Some (Inr (sp_sampled a, af, b), w\<lparr>pr_cache := ca, pr_prev_num_of_prunable_blocks := n\<rparr>, d2))"
      using u(1) Inr p(1-3) num b(1) assms(1) by (simp add: open_batch_def ranges_law a_def m_def n_def split: sum.split prod.split)
    have sub: "heights b \<subseteq> heights ps" "card (heights b) \<le> MAX_PRUNABLE_BATCH_SIZE" using b(3) by (auto simp: top_n_def)
    have "\<forall>h \<in> heights af. T h \<le> sc \<and> T h \<le> pc" using p(4) upto_opt_older [OF assms(3)] k(3,4) by blast
    moreover have "\<forall>h \<in> heights b. T h \<le> pc" using p(5) sub(1) upto_opt_older [OF assms(3) k(4)] by blast
    moreover have "heights b \<subseteq> heights (sp_sampled a)" "heights af \<subseteq> heights (sp_stored a)" using p(4,5) sub(1) by blast+
    moreover have "\<forall>h \<in> heights b. \<not> edge_of (heights (sp_stored a) \<union> heights (sp_pruned a)) h" using p(6) sub(1) by blast
    ultimately show ?thesis unfolding eq using p(2) b(2) sub(2) m u(2) by (cases m; cases "fst m") auto
  qed
qed

lemma get_next_prunable_batch_ok:
  assumes "invar (pr_store w)" "chain_times T (abs_st (pr_store w))" "strict_mono T" "pr_ok T sc pc (pr_cache w)" "dok d"
  defines "a \<equiv> abs_st (pr_store w)"
  shows "\<exists>r w1 d1. get_next_prunable_batch ops dcmd instant sc pc w d = Some (r, w1, d1) \<and> dstep d d1 \<and>
    pr_store w1 = pr_store w \<and> pr_ok T sc pc (pr_cache w1) \<and> pr_events w1 = pr_events w \<and>
    (\<forall>B. r = Inr B \<longrightarrow> br_wf B \<and> heights B \<subseteq> heights (sp_stored a) \<and> card (heights B) \<le> MAX_PRUNABLE_BATCH_SIZE \<and>
      (\<forall>h \<in> heights B. T h \<le> pc \<and>
        (h \<in> heights (sp_sampled a) \<and> \<not> edge_of (heights (sp_stored a) \<union> heights (sp_pruned a)) h \<or>
         T h \<le> sc \<and> (h \<in> heights (sp_sampled a) \<or> h \<in> allowed d1))))"
proof -
  have sampled: "heights (sp_sampled a) \<subseteq> heights (sp_stored a)" using invar_ok [OF assms(1)] unfolding a_def sp_ok_def by blast
  from open_batch_ok [OF assms(1-5), of instant, folded a_def] obtain r w1 d1 where
    o: "open_batch ops dcmd instant sc pc w d = Some (r, w1, d1)" "dstep d d1" "pr_store w1 = pr_store w" "pr_ok T sc pc (pr_cache w1)"
    "pr_events w1 = pr_events w"
    and post: "\<And>sampled after batch. r = Inr (sampled, after, batch) \<Longrightarrow> sampled = sp_sampled a \<and> br_wf after \<and> br_wf batch \<and>
       heights after \<subseteq> heights (sp_stored a) \<and> (\<forall>h \<in> heights after. T h \<le> sc \<and> T h \<le> pc) \<and>
       heights batch \<subseteq> heights (sp_sampled a) \<and> (\<forall>h \<in> heights batch. T h \<le> pc) \<and>
       (\<forall>h \<in> heights batch. \<not> edge_of (heights (sp_stored a) \<union> heights (sp_pruned a)) h) \<and>
       card (heights batch) \<le> MAX_PRUNABLE_BATCH_SIZE" by blast
  show ?thesis
  proof (cases r)
    case (Inl e)
    with o show ?thesis by (simp add: get_next_prunable_batch_def)
  next
    case (Inr y)
    obtain sm af b where r: "r = Inr (sm, af, b)" using Inr by (metis surj_pair)
    note P = post [OF r]
    obtain q d2 where l: "ask_loop dcmd sm af b d1 = (q, d2)" by (metis surj_pair)
    from ask_loop_ok [OF l dstep_ok [OF assms(5) o(2)]] P have L: "dstep d1 d2"
      "\<And>B. q = Inr B \<Longrightarrow> br_wf B \<and> card (heights B) \<le> MAX_PRUNABLE_BATCH_SIZE \<and>
         heights B \<subseteq> heights b \<union> heights af \<inter> (heights sm \<union> allowed d2)" by auto
    have "heights B \<subseteq> heights (sp_stored a) \<and> (\<forall>h \<in> heights B. T h \<le> pc \<and>
        (h \<in> heights (sp_sampled a) \<and> \<not> edge_of (heights (sp_stored a) \<union> heights (sp_pruned a)) h \<or>
         T h \<le> sc \<and> (h \<in> heights (sp_sampled a) \<or> h \<in> allowed d2)))" if "q = Inr B" for B
      using L(2) [OF that] P sampled by blast
    moreover have "get_next_prunable_batch ops dcmd instant sc pc w d = Some (q, w1, d2)"
      using o(1) r l by (simp add: get_next_prunable_batch_def)
    ultimately show ?thesis using dstep_trans [OF o(2) L(1)] L(2) o(3-5) by blast
  qed
qed

end

end
