(* ===== verification/Sampler_Pruner.thy ===== *)
theory Sampler_Pruner
  imports Pruner_Invariants
begin

text \<open>
  The sampler and the pruner at work on one store, while headers are being inserted. The step
  relation \<open>node_reach\<close> interleaves the events of the sampler, the insertions, the iterations in
  which the pruner collects a batch, and the removals, one block at a time. In every reachable
  state the blocks that are being sampled are stored, and so are the blocks that are yet to be
  removed.
\<close>

section \<open>The sampler keeps its contract\<close>

definition da_dok :: "da_phase \<times> 's daser \<Rightarrow> bool" where
  "da_dok st = (running (fst st) \<longrightarrow> da_ok (snd st))"

definition da_allowed :: "da_phase \<times> 's daser \<Rightarrow> nat set" where
  "da_allowed st = heights (da_will_be_pruned (snd st))"

definition da_dstep :: "('s \<Rightarrow> store_spec) \<Rightarrow> da_phase \<times> 's daser \<Rightarrow> da_phase \<times> 's daser \<Rightarrow> bool" where
  "da_dstep A st st' \<longleftrightarrow> da_store (snd st') = da_store (snd st) \<and> da_allowed st \<subseteq> da_allowed st' \<and>
     (running (fst st') \<longrightarrow> running (fst st) \<and> da_keeps A (snd st) (snd st'))"

lemma da_handle_cases:
  assumes "da_dok st"
  obtains "da_handle c st = (Inl (Err DaserWorkerDied), st)"
  | "da_ok (snd st)" "running (fst st)" "fst (da_handle c st) = (case fst (da_on_cmd c (snd st)) of
      Inl _ \<Rightarrow> Inl (Err DaserChannelClosedUnexpectedly) | Inr b \<Rightarrow> Inr b)"
    "snd (da_handle c st) = or_da_failed (fst st) (da_on_cmd c (snd st))"
  using assms by (cases st; cases "fst st") (auto simp: da_handle_def da_dok_def running_def)

interpretation das: prune_guard da_handle da_dok "da_dstep A" da_allowed for A
proof
  fix st st1 st2 :: "da_phase \<times> 'a daser" and c h
  show "da_dok st \<Longrightarrow> da_dstep A st st" by (simp add: da_dok_def da_dstep_def)
  show "da_dstep A st st1 \<Longrightarrow> da_dstep A st1 st2 \<Longrightarrow> da_dstep A st st2"
    using da_keeps_trans by (auto simp: da_dstep_def)
  show "da_dok st \<Longrightarrow> da_dstep A st st1 \<Longrightarrow> da_dok st1" by (simp add: da_dok_def da_dstep_def da_keeps_def)
  show "da_dstep A st st1 \<Longrightarrow> da_allowed st \<subseteq> da_allowed st1" by (simp add: da_dstep_def)
  show "da_dstep A st (snd (da_handle c st))" if "da_dok st" "cmd_u64 c"
  proof (rule da_handle_cases [OF that(1), of c])
    assume "da_handle c st = (Inl (Err DaserWorkerDied), st)"
    with that(1) show ?thesis by (simp add: da_dok_def da_dstep_def)
  next
    assume ok: "da_ok (snd st)" "running (fst st)"
      and out: "snd (da_handle c st) = or_da_failed (fst st) (da_on_cmd c (snd st))"
    from on_cmd_handled [where I = "\<lambda>_. True", OF ok(1) TrueI that(2)]
    have "handled_ok (\<lambda>_. True) A (snd st) (da_on_cmd c (snd st))" .
    with out ok da_on_cmd_frame [OF ok(1) that(2)] show ?thesis
      by (cases "da_on_cmd c (snd st)")
        (auto simp: or_da_failed_def da_dstep_def da_allowed_def handled_ok_def da_next_def running_def split: sum.splits)
  qed
  show "h \<in> da_allowed (snd (da_handle (WantToPrune h) st))"
    if "da_dok st" "cmd_u64 (WantToPrune h)" "fst (da_handle (WantToPrune h) st) = Inr (Some True)"
  proof (rule da_handle_cases [OF that(1), of "WantToPrune h"])
    assume "da_handle (WantToPrune h) st = (Inl (Err DaserWorkerDied), st)"
    with that(3) show ?thesis by simp
  next
    assume ok: "da_ok (snd st)"
      and out: "fst (da_handle (WantToPrune h) st) = (case fst (da_on_cmd (WantToPrune h) (snd st)) of
        Inl _ \<Rightarrow> Inl (Err DaserChannelClosedUnexpectedly) | Inr b \<Rightarrow> Inr b)"
        "snd (da_handle (WantToPrune h) st) = or_da_failed (fst st) (da_on_cmd (WantToPrune h) (snd st))"
    from that(2) have "h \<le> u64_max" by (simp add: cmd_u64_def)
    from on_want_to_prune_cases [OF ok this] out that(3) show ?thesis
      by (elim disjE exE conjE) (auto simp: da_on_cmd_def or_da_failed_def da_allowed_def)
  qed
qed

section \<open>Removal of one block\<close>

lemma remove_cids_ok:
  "pr_store (snd (remove_cids bs_remove cs w)) = pr_store w \<and> pr_cache (snd (remove_cids bs_remove cs w)) = pr_cache w \<and>
   (fst (remove_cids bs_remove cs w) = Inr () \<or> (\<exists>e. fst (remove_cids bs_remove cs w) = map_err PrunerBlockstore (Inl e)))"
proof (induction cs arbitrary: w)
  case (Cons c cs)
  obtain r b where rb: "bs_remove c (pr_blockstore w) = (r, b)" by (metis surj_pair)
  show ?case
  proof (cases r)
    case (Inl e)
    then have "remove_cids bs_remove (c # cs) w = (map_err PrunerBlockstore (Inl e), w\<lparr>pr_blockstore := b\<rparr>)"
      using rb by (cases e) (simp_all add: seq_w_def map_err_def)
    then show ?thesis by auto
  next
    case (Inr u)
    with rb Cons [of "w\<lparr>pr_blockstore := b\<rparr>"] show ?thesis by simp
  qed
qed simp

context header_store
begin

lemma remove_height_sim:
  assumes "invar s"
  shows "invar (snd (st_remove_height ops h s))"
    "sp_remove_height h (abs_st s) = (fst (st_remove_height ops h s), abs_st (snd (st_remove_height ops h s)))"
  using step_sim [OF assms, of "RemoveHeight h"] by (simp_all add: st_step_def sp_step_def cmd_ok_def)

text \<open>A stored block is removed, unless the blockstore fails.\<close>

lemma prune_height_ok:
  assumes "invar (pr_store w)" "h \<in> dom (sp_headers (abs_st (pr_store w)))" "prune_height ops bs_remove h w = (r, w1)"
  defines "a \<equiv> abs_st (pr_store w)" and "a1 \<equiv> abs_st (pr_store w1)"
  shows "invar (pr_store w1) \<and> pr_cache w1 = pr_cache w \<and>
    (r = Inr () \<and> sp_headers a1 = (sp_headers a)(h := None) \<and> heights (sp_sampled a1) = heights (sp_sampled a) - {h} \<and>
       heights (sp_pruned a1) = insert h (heights (sp_pruned a)) \<or>
     (\<exists>cs e. fst (remove_cids bs_remove cs w) = map_err PrunerBlockstore (Inl e) \<and> r = map_err PrunerBlockstore (Inl e)) \<and>
       pr_store w1 = pr_store w)"
proof -
  define cs where "cs = (case sp_metadata a h of None \<Rightarrow> [] | Some m \<Rightarrow> sm_cids m)"
  define w2 where "w2 = snd (remove_cids bs_remove cs w)"
  obtain x where x: "sp_headers a h = Some x" using assms(2) by (auto simp: a_def)
  have p: "prune_height ops bs_remove h w = seq_w (remove_cids bs_remove cs w) (\<lambda>w1.
      case st_remove_height ops h (pr_store w1) of (r, s) \<Rightarrow> (map_err PrunerStore r, w1\<lparr>pr_store := s\<rparr>))"
    using x metadata_law [OF assms(1), of h] by (simp add: prune_height_def cs_def a_def)
  note rc = remove_cids_ok [of bs_remove cs w, folded w2_def]
  show ?thesis
  proof (cases "fst (remove_cids bs_remove cs w) = Inr ()")
    case True
    then have "remove_cids bs_remove cs w = (Inr (), w2)" by (simp add: w2_def prod_eq_iff)
    with p assms(3) have r: "(r, w1) = (case st_remove_height ops h (pr_store w2) of (r, s) \<Rightarrow>
      (map_err PrunerStore r, w2\<lparr>pr_store := s\<rparr>))" by simp
    from sp_remove_height_Some [OF invar_ok [OF assms(1)] x [unfolded a_def]] obtain st sm pr where
      sp: "sp_remove_height h a = (Inr (), a\<lparr>sp_headers := (sp_headers a)(h := None),
         sp_metadata := (sp_metadata a)(h := None), sp_stored := st, sp_sampled := sm, sp_pruned := pr\<rparr>)"
      "heights sm = heights (sp_sampled a) - {h}" "heights pr = insert h (heights (sp_pruned a))" unfolding a_def by metis
    note sim = remove_height_sim [OF assms(1), of h]
    have s: "fst (st_remove_height ops h (pr_store w)) = Inr ()" "abs_st (snd (st_remove_height ops h (pr_store w))) =
        a\<lparr>sp_headers := (sp_headers a)(h := None), sp_metadata := (sp_metadata a)(h := None), sp_stored := st,
          sp_sampled := sm, sp_pruned := pr\<rparr>"
      using sim(2) sp(1) by (simp_all add: a_def)
    have "r = Inr ()" "pr_store w1 = snd (st_remove_height ops h (pr_store w))" "pr_cache w1 = pr_cache w"
      using r s(1) rc by (simp_all add: case_prod_unfold)
    with s(2) sp(2,3) sim(1) show ?thesis by (simp add: a1_def)
  next
    case False
    with rc obtain e where e: "fst (remove_cids bs_remove cs w) = map_err PrunerBlockstore (Inl e)" by blast
    then have "seq_w (remove_cids bs_remove cs w) f = (map_err PrunerBlockstore (Inl e), w2)" for f
      by (cases e) (auto simp: seq_w_def w2_def map_err_def case_prod_unfold)
    with p assms(3) have "r = map_err PrunerBlockstore (Inl e)" "w1 = w2" by simp_all
    with rc e assms(1) show ?thesis by auto
  qed
qed

end

section \<open>Insertions\<close>

lemma sp_insert_grows:
  assumes "sp_ok a" "typed_headers hs" "a1 = snd (sp_insert tm now hs a)"
  shows "heights (sp_sampled a1) = heights (sp_sampled a)" "sp_headers a \<subseteq>\<^sub>m sp_headers a1"
    "sp_headers a1 h = Some x \<Longrightarrow> sp_headers a h = Some x \<or> x \<in> set hs \<and> eh_height x = h"
proof -
  have "heights (sp_sampled a1) = heights (sp_sampled a) \<and> sp_headers a \<subseteq>\<^sub>m sp_headers a1 \<and>
    (\<forall>h x. sp_headers a1 h = Some x \<longrightarrow> sp_headers a h = Some x \<or> x \<in> set hs \<and> eh_height x = h)"
  proof (cases "\<exists>u. verified_headers tm now hs = Inr hs \<and> hs \<noteq> [] \<and> sp_check tm now hs a = Inr u")
    case False
    have "a1 = a" unfolding assms(3) using False verified_headers_Inr(1) [of tm now hs]
      by (auto simp: sp_insert_def map_err_def split: sum.splits fault.splits)
    then show ?thesis by simp
  next
    case True
    then have v: "verified_headers tm now hs = Inr hs" and ne: "hs \<noteq> []" and
      chk: "sp_check tm now hs a = Inr ()" by auto
    note lk = verified_headers_Inr(2) [OF v]
    note c = sp_check_Inr [OF assms(1) lk ne assms(2) chk]
    have inv: "canonical (sp_stored a)" "canonical (sp_sampled a)" "canonical (sp_pruned a)"
      and sub: "heights (sp_sampled a) \<subseteq> heights (sp_stored a)" "heights (sp_stored a) = dom (sp_headers a)"
      using assms(1) unfolding sp_ok_def by blast+
    from update_ranges_ok [OF inv c(1)] obtain st sm pr where
      u: "update_ranges (sp_stored a) (sp_sampled a) (sp_pruned a) (span hs) = Inr (st, sm, pr)"
      and sm: "heights sm = heights (sp_sampled a) - range_set (span hs)" .
    have a1: "sp_sampled a1 = sm" "sp_headers a1 = enter_headers hs (sp_headers a)"
      using v ne chk u by (simp_all add: assms(3) sp_insert_def)
    have apart: "heights (sp_stored a) \<inter> range_set (span hs) = {}" using c(2) unfolding insertable_def by blast
    have "enter_headers hs (sp_headers a) k = sp_headers a k" if "k \<in> dom (sp_headers a)" for k
    proof (rule enter_headers_other)
      show "k \<notin> eh_height ` set hs" using that apart sub(2) span_heights [OF lk ne] by auto
    qed
    then have "sp_headers a \<subseteq>\<^sub>m sp_headers a1" unfolding a1(2) map_le_def by simp
    moreover have "heights (sp_sampled a1) = heights (sp_sampled a)" using sm sub(1) apart unfolding a1(1) by blast
    moreover have "sp_headers a k = Some y \<or> y \<in> set hs \<and> eh_height y = k" if "sp_headers a1 k = Some y" for k y
      using that unfolding a1(2) enter_headers_Some [OF linked_distinct_heights [OF lk]] by blast
    ultimately show ?thesis by blast
  qed
  then show "heights (sp_sampled a1) = heights (sp_sampled a)" "sp_headers a \<subseteq>\<^sub>m sp_headers a1"
    "sp_headers a1 h = Some x \<Longrightarrow> sp_headers a h = Some x \<or> x \<in> set hs \<and> eh_height x = h" by blast+
qed

section \<open>The steps\<close>

text \<open>Where the pruner is: between two batches, in the loop that asks for permissions (with the
  sampled ranges it has read, what remains and the batch), or removing.\<close>

datatype prune_task =
    Idle
  | Asking block_ranges block_ranges block_ranges
  | Removing "nat list"

definition batch_heights :: "block_ranges \<Rightarrow> nat list" where
  "batch_heights batch = concat (map (\<lambda>r. [rstart r..<Suc (rend r)]) batch)"

record ('s, 'b) node_st =
  ns_daser :: "da_phase \<times> 's daser"
  ns_pruner :: "('s, 'b) pruner"
  ns_task :: prune_task
  ns_sampling_cutoff :: time
  ns_pruning_cutoff :: time

text \<open>The two workers hold the same store.\<close>

definition set_store :: "'s \<Rightarrow> ('s, 'b) node_st \<Rightarrow> ('s, 'b) node_st" where
  "set_store s n = n\<lparr>ns_daser := (fst (ns_daser n), (snd (ns_daser n))\<lparr>da_store := s\<rparr>),
     ns_pruner := (ns_pruner n)\<lparr>pr_store := s\<rparr>\<rparr>"

definition ns_store :: "('s, 'b) node_st \<Rightarrow> 's" where
  "ns_store n = da_store (snd (ns_daser n))"

inductive node_reach ::
  "'s store_ops \<Rightarrow> ('s \<Rightarrow> store_spec) \<Rightarrow> (nat \<Rightarrow> time) \<Rightarrow> ('m, 'c) cid_lib \<Rightarrow> ('c \<Rightarrow> cid option) \<Rightarrow>
   (cid \<Rightarrow> 'b \<Rightarrow> (string, unit) result \<times> 'b) \<Rightarrow> ('s, 'b) node_st \<Rightarrow> ('s, 'b) node_st \<Rightarrow> bool"
  for ops A T L conv bs_remove n0 where
  start: "node_reach ops A T L conv bs_remove n0 n0"
| sampler: "node_reach ops A T L conv bs_remove n0 n \<Longrightarrow> de_lib env = L \<Longrightarrow> de_conv env = conv \<Longrightarrow> da_event_u64 ev \<Longrightarrow>
    da_event_step env ops ev (ns_daser n) = Some st' \<Longrightarrow>
    node_reach ops A T L conv bs_remove n0 (set_store (da_store (snd st')) (n\<lparr>ns_daser := st'\<rparr>))"
| insertion: "node_reach ops A T L conv bs_remove n0 n \<Longrightarrow> cmd_ok (Insert now hs) (A (ns_store n)) \<Longrightarrow>
    \<forall>x \<in> set hs. eh_time x = T (eh_height x) \<Longrightarrow>
    node_reach ops A T L conv bs_remove n0 (set_store (snd (st_step ops (Insert now hs) (ns_store n))) n)"
| collect: "node_reach ops A T L conv bs_remove n0 n \<Longrightarrow> ns_task n = Idle \<Longrightarrow>
    ns_sampling_cutoff n \<le> sc \<Longrightarrow> ns_pruning_cutoff n \<le> pc \<Longrightarrow>
    open_batch ops da_handle instant sc pc (ns_pruner n) (ns_daser n) = Some (Inr (sampled, after, batch), pr', st') \<Longrightarrow>
    node_reach ops A T L conv bs_remove n0 (n\<lparr>ns_daser := st', ns_pruner := pr', ns_task := Asking sampled after batch,
      ns_sampling_cutoff := sc, ns_pruning_cutoff := pc\<rparr>)"
| asking: "node_reach ops A T L conv bs_remove n0 n \<Longrightarrow> ns_task n = Asking sampled after batch \<Longrightarrow>
    ask_step da_handle sampled after batch (ns_daser n) = (Inr (Some (after', batch')), st') \<Longrightarrow>
    node_reach ops A T L conv bs_remove n0 (n\<lparr>ns_daser := st', ns_task := Asking sampled after' batch'\<rparr>)"
| asked: "node_reach ops A T L conv bs_remove n0 n \<Longrightarrow> ns_task n = Asking sampled after batch \<Longrightarrow>
    ask_step da_handle sampled after batch (ns_daser n) = (Inr None, st') \<Longrightarrow>
    node_reach ops A T L conv bs_remove n0 (n\<lparr>ns_daser := st', ns_task := Removing (batch_heights batch)\<rparr>)"
| removal: "node_reach ops A T L conv bs_remove n0 n \<Longrightarrow> ns_task n = Removing (h # hs) \<Longrightarrow>
    prune_height ops bs_remove h (ns_pruner n) = (Inr (), pr') \<Longrightarrow>
    node_reach ops A T L conv bs_remove n0 (set_store (pr_store pr') (n\<lparr>ns_pruner := pr', ns_task := Removing hs\<rparr>))"
| removed: "node_reach ops A T L conv bs_remove n0 n \<Longrightarrow> ns_task n = Removing [] \<Longrightarrow>
    node_reach ops A T L conv bs_remove n0 (n\<lparr>ns_task := Idle\<rparr>)"

section \<open>The invariant of the two workers\<close>

text \<open>The blocks of the batch are stored, and each is sampled or released.\<close>

definition task_ok :: "store_spec \<Rightarrow> nat set \<Rightarrow> prune_task \<Rightarrow> bool" where
  "task_ok a free t = (case t of
      Idle \<Rightarrow> True
    | Asking sampled after batch \<Rightarrow> br_wf after \<and> br_wf batch \<and> heights after \<subseteq> dom (sp_headers a) \<and>
        heights sampled \<subseteq> heights (sp_sampled a) \<and>
        heights batch \<subseteq> dom (sp_headers a) \<inter> (heights (sp_sampled a) \<union> free)
    | Removing hs \<Rightarrow> distinct hs \<and> set hs \<subseteq> dom (sp_headers a) \<inter> (heights (sp_sampled a) \<union> free))"

lemma task_ok_mono:
  assumes "task_ok a free t" "dom (sp_headers a) \<subseteq> dom (sp_headers a')" "heights (sp_sampled a) \<subseteq> heights (sp_sampled a')"
    "free \<subseteq> free'"
  shows "task_ok a' free' t"
proof (cases t)
  case (Asking sampled after batch)
  with assms show ?thesis unfolding task_ok_def by (simp only: prune_task.case) blast
next
  case (Removing hs)
  with assms show ?thesis unfolding task_ok_def by (simp only: prune_task.case) blast
qed (simp add: task_ok_def)

definition node_ok :: "('s \<Rightarrow> bool) \<Rightarrow> ('s \<Rightarrow> store_spec) \<Rightarrow> (nat \<Rightarrow> time) \<Rightarrow> ('s, 'b) node_st \<Rightarrow> bool" where
  "node_ok I A T n \<longleftrightarrow> I (ns_store n) \<and> pr_store (ns_pruner n) = ns_store n \<and> chain_times T (A (ns_store n)) \<and>
     pr_ok T (ns_sampling_cutoff n) (ns_pruning_cutoff n) (pr_cache (ns_pruner n)) \<and>
     (running (fst (ns_daser n)) \<longrightarrow> da_ok (snd (ns_daser n)) \<and> da_safe A (snd (ns_daser n))) \<and>
     task_ok (A (ns_store n)) (da_allowed (ns_daser n)) (ns_task n)"

lemma node_okD:
  assumes "node_ok I A T n"
  shows "I (ns_store n)" "pr_store (ns_pruner n) = ns_store n" "chain_times T (A (ns_store n))"
    "pr_ok T (ns_sampling_cutoff n) (ns_pruning_cutoff n) (pr_cache (ns_pruner n))"
    "running (fst (ns_daser n)) \<longrightarrow> da_ok (snd (ns_daser n)) \<and> da_safe A (snd (ns_daser n))"
    "task_ok (A (ns_store n)) (da_allowed (ns_daser n)) (ns_task n)" "da_dok (ns_daser n)"
  using assms unfolding node_ok_def da_dok_def by blast+

lemma set_store_simps [simp]:
  "ns_store (set_store s n) = s" "pr_store (ns_pruner (set_store s n)) = s" "ns_task (set_store s n) = ns_task n"
  "pr_cache (ns_pruner (set_store s n)) = pr_cache (ns_pruner n)" "fst (ns_daser (set_store s n)) = fst (ns_daser n)"
  "snd (ns_daser (set_store s n)) = (snd (ns_daser n))\<lparr>da_store := s\<rparr>"
  "ns_sampling_cutoff (set_store s n) = ns_sampling_cutoff n" "ns_pruning_cutoff (set_store s n) = ns_pruning_cutoff n"
  "da_allowed (ns_daser (set_store s n)) = da_allowed (ns_daser n)"
  by (simp_all add: ns_store_def set_store_def da_allowed_def)

text \<open>A step that changes the state of the sampler by a command.\<close>

lemma da_dstep_node:
  assumes "da_dstep A (ns_daser n) st'" "node_ok I A T n"
  shows "da_store (snd st') = ns_store n" "da_allowed (ns_daser n) \<subseteq> da_allowed st'"
    "running (fst st') \<longrightarrow> da_ok (snd st') \<and> da_safe A (snd st')"
  using assms(1) node_okD(5) [OF assms(2)] by (auto simp: da_dstep_def ns_store_def da_keeps_def)

text \<open>After a change of the store that keeps what is being sampled and the marks of what is not
  stored.\<close>

lemma da_safe_store:
  assumes "da_safe A w" "heights (da_ongoing w) \<subseteq> dom (sp_headers (A s))" "heights (sp_sampled (A s)) \<subseteq> sampled_heights A w"
  shows "da_safe A (w\<lparr>da_store := s\<rparr>)"
  using assms by (auto simp: da_safe_def sampled_heights_def)

lemma batch_heights_ok:
  assumes "br_wf batch"
  shows "set (batch_heights batch) = heights batch \<and> distinct (batch_heights batch)"
  using assms
proof (induction batch)
  case (Cons r rs)
  have "batch_heights (r # rs) = [rstart r..<Suc (rend r)] @ batch_heights rs" by (simp add: batch_heights_def)
  moreover have "set [rstart r..<Suc (rend r)] = range_set r" by (auto simp: range_set_def)
  moreover have "range_set r \<inter> heights rs = {}" using Cons.prems by (fastforce simp: in_heights_iff range_set_def)
  ultimately show ?case using Cons by (simp del: upt_Suc)
qed (simp add: batch_heights_def)

sublocale header_store \<subseteq> prn: pruner_env tm ops invar abs_st da_handle da_dok "da_dstep abs_st" da_allowed
  by unfold_locales

context header_store
begin

lemma node_step_sampler:
  assumes "node_ok invar abs_st T n" "da_event_u64 ev" "da_event_step env ops ev (ns_daser n) = Some st'"
  shows "node_ok invar abs_st T (set_store (da_store (snd st')) (n\<lparr>ns_daser := st'\<rparr>))"
proof -
  note ok = node_okD [OF assms(1)]
  obtain p w p' w' where e: "ns_daser n = (p, w)" "st' = (p', w')" by (metis surj_pair)
  from da_event_step_ok [of p w ev env p' w'] ok(1,5) assms(2,3)
  have s: "da_next invar abs_st w w'" "running p' \<longrightarrow> da_keeps abs_st w w'" by (auto simp: e ns_store_def)
  have "running p" if "running p'" using assms(3) that by (cases p) (auto simp: e da_event_step_def running_def)
  then have keep: "running p' \<longrightarrow> da_ok w' \<and> da_safe abs_st w'" using s(2) ok(5) by (auto simp: e da_keeps_def)
  have h: "sp_headers (abs_st (da_store w')) = sp_headers (abs_st (ns_store n))"
    "heights (sp_sampled (abs_st (ns_store n))) \<subseteq> heights (sp_sampled (abs_st (da_store w')))"
    "da_allowed (p, w) \<subseteq> da_allowed (p', w')" "invar (da_store w')"
    using s(1) by (auto simp: da_next_def e ns_store_def sampled_heights_def da_allowed_def)
  have "task_ok (abs_st (da_store w')) (da_allowed (p', w')) (ns_task n)"
    by (rule task_ok_mono [OF ok(6)]) (use h in \<open>simp_all add: e\<close>)
  with ok(3,4) keep h show ?thesis by (simp add: node_ok_def e chain_times_def)
qed

lemma node_step_insertion:
  assumes "node_ok invar abs_st T n" "cmd_ok (Insert now hs) (abs_st (ns_store n))"
    "\<forall>x \<in> set hs. eh_time x = T (eh_height x)"
  shows "node_ok invar abs_st T (set_store (snd (st_step ops (Insert now hs) (ns_store n))) n)"
proof -
  note ok = node_okD [OF assms(1)]
  define s where "s = snd (st_step ops (Insert now hs) (ns_store n))"
  from step_sim [OF ok(1) assms(2)] have s: "invar s" "abs_st s = snd (sp_insert tm now hs (abs_st (ns_store n)))"
    by (simp_all add: s_def sp_step_def)
  have "typed_headers hs" using assms(2) by (simp add: cmd_ok_def)
  note g = sp_insert_grows [OF invar_ok [OF ok(1)] this s(2)]
  have t: "chain_times T (abs_st s)" using g(3) ok(3) assms(3) by (fastforce simp: chain_times_def)
  have dom: "dom (sp_headers (abs_st (ns_store n))) \<subseteq> dom (sp_headers (abs_st s))" by (rule map_le_implies_dom_le [OF g(2)])
  have "da_safe abs_st ((snd (ns_daser n))\<lparr>da_store := s\<rparr>)" if "da_safe abs_st (snd (ns_daser n))"
  proof (rule da_safe_store [OF that])
    show "heights (da_ongoing (snd (ns_daser n))) \<subseteq> dom (sp_headers (abs_st s))"
      using that dom unfolding da_safe_def ns_store_def by blast
    show "heights (sp_sampled (abs_st s)) \<subseteq> sampled_heights abs_st (snd (ns_daser n))"
      using g(1) by (simp add: sampled_heights_def ns_store_def)
  qed
  moreover have "task_ok (abs_st s) (da_allowed (ns_daser n)) (ns_task n)"
    by (rule task_ok_mono [OF ok(6) dom]) (simp_all add: g(1))
  ultimately show ?thesis using s(1) t ok(4,5) by (simp add: node_ok_def s_def [symmetric])
qed

lemma node_step_collect:
  assumes "node_ok invar abs_st T n" "strict_mono T" "ns_sampling_cutoff n \<le> sc" "ns_pruning_cutoff n \<le> pc"
    "open_batch ops da_handle instant sc pc (ns_pruner n) (ns_daser n) = Some (Inr (sampled, after, batch), pr', st')"
  shows "node_ok invar abs_st T (n\<lparr>ns_daser := st', ns_pruner := pr', ns_task := Asking sampled after batch,
      ns_sampling_cutoff := sc, ns_pruning_cutoff := pc\<rparr>)"
proof -
  note ok = node_okD [OF assms(1)]
  have inv: "invar (pr_store (ns_pruner n))" "chain_times T (abs_st (pr_store (ns_pruner n)))" using ok(1-3) by simp_all
  from prn.open_batch_ok [OF inv assms(2) pr_ok_later [OF ok(4) assms(3,4)] ok(7), of instant] assms(5)
  have o: "da_dstep abs_st (ns_daser n) st'" "pr_store pr' = ns_store n" "pr_ok T sc pc (pr_cache pr')"
    "sampled = sp_sampled (abs_st (ns_store n))" "br_wf after" "br_wf batch"
    "heights after \<subseteq> heights (sp_stored (abs_st (ns_store n)))" "heights batch \<subseteq> heights (sp_sampled (abs_st (ns_store n)))"
    using ok(2) by simp_all
  have dom: "heights (sp_stored (abs_st (ns_store n))) = dom (sp_headers (abs_st (ns_store n)))"
    "heights (sp_sampled (abs_st (ns_store n))) \<subseteq> heights (sp_stored (abs_st (ns_store n)))"
    using invar_ok [OF ok(1)] unfolding sp_ok_def by blast+
  note d = da_dstep_node [OF o(1) assms(1)]
  have "task_ok (abs_st (ns_store n)) (da_allowed st') (Asking sampled after batch)"
    using o(4-8) dom unfolding task_ok_def by (simp only: prune_task.case) blast
  with d o(2,3) ok(1,3) show ?thesis by (simp add: node_ok_def ns_store_def)
qed

lemma node_step_ask:
  assumes "node_ok invar abs_st T n" "ns_task n = Asking sampled after batch"
    "ask_step da_handle sampled after batch (ns_daser n) = (r, st')"
  shows "r = Inr (Some (after', batch')) \<Longrightarrow>
      node_ok invar abs_st T (n\<lparr>ns_daser := st', ns_task := Asking sampled after' batch'\<rparr>)"
    "r = Inr None \<Longrightarrow> node_ok invar abs_st T (n\<lparr>ns_daser := st', ns_task := Removing (batch_heights batch)\<rparr>)"
proof -
  note ok = node_okD [OF assms(1)]
  let ?a = "abs_st (ns_store n)"
  have t: "br_wf after" "br_wf batch" "heights after \<subseteq> dom (sp_headers ?a)" "heights sampled \<subseteq> heights (sp_sampled ?a)"
    "heights batch \<subseteq> dom (sp_headers ?a) \<inter> (heights (sp_sampled ?a) \<union> da_allowed (ns_daser n))"
    using ok(6) unfolding assms(2) task_ok_def prune_task.case by blast+
  note s = prn.ask_step_ok [OF ok(7) t(1,2) assms(3)]
  have "da_dstep abs_st (ns_daser n) st'" using s by blast
  note d = da_dstep_node [OF this assms(1)]
  have frame: "node_ok invar abs_st T (n\<lparr>ns_daser := st', ns_task := t'\<rparr>)" if "task_ok ?a (da_allowed st') t'" for t'
    using that d ok(1-4) by (simp add: node_ok_def ns_store_def)
  show "node_ok invar abs_st T (n\<lparr>ns_daser := st', ns_task := Removing (batch_heights batch)\<rparr>)" if "r = Inr None"
    using t(5) d(2) batch_heights_ok [OF t(2)] by (intro frame) (auto simp: task_ok_def)
  show "node_ok invar abs_st T (n\<lparr>ns_daser := st', ns_task := Asking sampled after' batch'\<rparr>)"
    if "r = Inr (Some (after', batch'))"
  proof (rule frame)
    from s that obtain h where h: "br_head after = Some h" "br_wf after'" "heights after' = heights after - {h}" "br_wf batch'"
      "heights batch' = heights batch \<and> h \<notin> heights sampled \<or>
       heights batch' = insert h (heights batch) \<and> (h \<in> heights sampled \<or> h \<in> da_allowed st')" by blast
    have "h \<in> heights after" using h(1) br_head_Some_iff [OF t(1)] by blast
    moreover have "heights batch \<subseteq> dom (sp_headers ?a) \<inter> (heights (sp_sampled ?a) \<union> da_allowed st')"
      using t(5) d(2) by blast
    ultimately have "heights batch' \<subseteq> dom (sp_headers ?a) \<inter> (heights (sp_sampled ?a) \<union> da_allowed st')"
      using h(5) t(3,4) by (elim disjE conjE) auto
    moreover have "heights after' \<subseteq> dom (sp_headers ?a)" using h(3) t(3) by blast
    ultimately show "task_ok ?a (da_allowed st') (Asking sampled after' batch')"
      using h(2,4) t(4) by (simp add: task_ok_def)
  qed
qed

lemma node_step_removal:
  assumes "node_ok invar abs_st T n" "ns_task n = Removing (h # hs)"
    "prune_height ops bs_remove h (ns_pruner n) = (Inr (), pr')"
  shows "node_ok invar abs_st T (set_store (pr_store pr') (n\<lparr>ns_pruner := pr', ns_task := Removing hs\<rparr>))"
proof -
  note ok = node_okD [OF assms(1)]
  let ?a = "abs_st (ns_store n)" and ?a1 = "abs_st (pr_store pr')"
  have t: "h \<notin> set hs" "distinct hs" "insert h (set hs) \<subseteq> dom (sp_headers ?a) \<inter> (heights (sp_sampled ?a) \<union> da_allowed (ns_daser n))"
    using ok(6) unfolding assms(2) task_ok_def prune_task.case by auto
  have h: "h \<in> dom (sp_headers (abs_st (pr_store (ns_pruner n))))" "invar (pr_store (ns_pruner n))"
    using t(3) ok(1,2) by auto
  have not_Inr: "Inr () \<noteq> map_err PrunerBlockstore (Inl e)" for e by (cases e) simp_all
  from prune_height_ok [OF h(2,1) assms(3)] have p: "invar (pr_store pr')" "pr_cache pr' = pr_cache (ns_pruner n)"
    "sp_headers ?a1 = (sp_headers ?a)(h := None)" "heights (sp_sampled ?a1) = heights (sp_sampled ?a) - {h}"
    using ok(2) not_Inr by auto
  have "da_safe abs_st ((snd (ns_daser n))\<lparr>da_store := pr_store pr'\<rparr>)" if "running (fst (ns_daser n))"
  proof -
    from that ok(5) have da: "da_ok (snd (ns_daser n))" "da_safe abs_st (snd (ns_daser n))" by blast+
    have "h \<notin> heights (da_ongoing (snd (ns_daser n)))"
      using t(3) da_okD(8) [OF da(1)] da(2) by (auto simp: da_safe_def da_allowed_def sampled_heights_def ns_store_def)
    with da(2) p(3,4) show ?thesis
      by (intro da_safe_store) (auto simp: da_safe_def sampled_heights_def ns_store_def)
  qed
  moreover have "task_ok ?a1 (da_allowed (ns_daser n)) (Removing hs)" using t p(3,4) by (auto simp: task_ok_def)
  moreover have "chain_times T ?a1" using ok(3) p(3) by (auto simp: chain_times_def)
  ultimately show ?thesis using p(1,2) ok(4,5) by (simp add: node_ok_def) 
qed

lemma node_reach_ok:
  assumes "node_reach ops abs_st T L conv bs_remove n0 n" "node_ok invar abs_st T n0" "strict_mono T"
  shows "node_ok invar abs_st T n"
  using assms
proof (induction rule: node_reach.induct)
  case (removed n)
  then have "node_ok invar abs_st T n" by blast
  then show ?case by (simp add: node_ok_def task_ok_def ns_store_def)
qed (blast intro: node_step_sampler node_step_insertion node_step_collect node_step_ask node_step_removal)+

end

end
