(* ===== verification/Pruner_Round.thy ===== *)
theory Pruner_Round
  imports Sampler_Pruner
begin

text \<open>
  Whole rounds of the pruner: what a batch removes from the store, what the published events say,
  and what a round may remove.
\<close>

section \<open>Removal of a batch\<close>

text \<open>From \<open>w\<close> to \<open>w'\<close> exactly the blocks in \<open>R\<close> were removed.\<close>

definition pruned_by :: "('s \<Rightarrow> bool) \<Rightarrow> ('s \<Rightarrow> store_spec) \<Rightarrow> nat set \<Rightarrow> ('s, 'b) pruner \<Rightarrow> ('s, 'b) pruner \<Rightarrow> bool" where
  "pruned_by I A R w w' \<longleftrightarrow> I (pr_store w') \<and>
     sp_headers (A (pr_store w')) = sp_headers (A (pr_store w)) |` (- R) \<and>
     heights (sp_sampled (A (pr_store w'))) = heights (sp_sampled (A (pr_store w))) - R \<and>
     heights (sp_pruned (A (pr_store w'))) = heights (sp_pruned (A (pr_store w))) \<union> R \<and>
     pr_cache w' = pr_cache w"

lemma pruned_by_refl: "I (pr_store w) \<Longrightarrow> pruned_by I A {} w w"
  by (simp add: pruned_by_def restrict_map_def)

lemma pruned_by_trans:
  assumes "pruned_by I A R u v" "pruned_by I A Q v w"
  shows "pruned_by I A (R \<union> Q) u w"
  using assms by (auto simp: pruned_by_def)

lemma pruned_by_events [simp]:
  "pruned_by I A R w (w'\<lparr>pr_events := es\<rparr>) = pruned_by I A R w w'"
  "pruned_by I A R (w\<lparr>pr_events := es\<rparr>) w' = pruned_by I A R w w'"
  by (simp_all add: pruned_by_def)

text \<open>The blocks that a list of events reports as removed.\<close>

definition reported :: "node_event list \<Rightarrow> nat set" where
  "reported es = (\<Union>e \<in> set es. case e of PrunedHeaders a b \<Rightarrow> {a..b} | _ \<Rightarrow> {})"

lemma reported_simps [simp]:
  "reported [] = {}" "reported (es @ es') = reported es \<union> reported es'" "reported [PrunedHeaders a b] = {a..b}"
  by (simp_all add: reported_def)

text \<open>A blockstore that does not fail.\<close>

definition bs_fine :: "(cid \<Rightarrow> 'b \<Rightarrow> (string, unit) result \<times> 'b) \<Rightarrow> bool" where
  "bs_fine bs_remove \<longleftrightarrow> (\<forall>c b. fst (bs_remove c b) = Inr ())"

lemma remove_cids_fine:
  "bs_fine bs_remove \<Longrightarrow> fst (remove_cids bs_remove cs w) = Inr () \<and> pr_events (snd (remove_cids bs_remove cs w)) = pr_events w"
proof (induction cs arbitrary: w)
  case (Cons c cs)
  define b where "b = snd (bs_remove c (pr_blockstore w))"
  have "bs_remove c (pr_blockstore w) = (Inr (), b)"
    using Cons.prems by (simp add: bs_fine_def b_def prod_eq_iff)
  with Cons.IH [OF Cons.prems, of "w\<lparr>pr_blockstore := b\<rparr>"] show ?case by simp
qed simp

context header_store
begin

lemma prune_height_fine:
  assumes "invar (pr_store w)" "h \<in> dom (sp_headers (abs_st (pr_store w)))" "bs_fine bs_remove"
  shows "\<exists>w1. prune_height ops bs_remove h w = (Inr (), w1) \<and> pruned_by invar abs_st {h} w w1 \<and> pr_events w1 = pr_events w"
proof -
  obtain r w1 where p: "prune_height ops bs_remove h w = (r, w1)" by (metis surj_pair)
  obtain x where "sp_headers (abs_st (pr_store w)) h = Some x" using assms(2) by auto
  then have "st_get_sampling_metadata ops h (pr_store w) = Inr (sp_metadata (abs_st (pr_store w)) h)"
    using metadata_law [OF assms(1), of h] by simp
  then obtain cs where eq: "prune_height ops bs_remove h w = seq_w (remove_cids bs_remove cs w) (\<lambda>w1.
      case st_remove_height ops h (pr_store w1) of (r, s) \<Rightarrow> (map_err PrunerStore r, w1\<lparr>pr_store := s\<rparr>))"
    by (auto simp: prune_height_def)
  define w2 where "w2 = snd (remove_cids bs_remove cs w)"
  have w2: "remove_cids bs_remove cs w = (Inr (), w2)" "pr_events w2 = pr_events w"
    using remove_cids_fine [OF assms(3), of cs w] by (simp_all add: w2_def prod_eq_iff)
  have e: "pr_events w1 = pr_events w" using p w2(2) unfolding eq w2(1) seq_w_simps by (auto simp: case_prod_unfold)
  have "fst (remove_cids bs_remove cs w) \<noteq> map_err PrunerBlockstore (Inl e)" for cs e
    using remove_cids_fine [OF assms(3), of cs w] by (cases e) simp_all
  note r = this
  have "(sp_headers a)(h := None) = sp_headers a |` (- {h})" for a by (auto simp: restrict_map_def)
  with prune_height_ok [OF assms(1,2) p] r e p show ?thesis by (auto simp: pruned_by_def)
qed

lemma prune_heights_fine:
  assumes "invar (pr_store w)" "set hs \<subseteq> dom (sp_headers (abs_st (pr_store w)))" "distinct hs" "bs_fine bs_remove"
  shows "\<exists>n w1. prune_heights ops bs_remove cancelled hs t w = (Inr (if n = 0 then t else Some (hs ! (n - 1))), w1) \<and>
    n \<le> length hs \<and> pruned_by invar abs_st (set (take n hs)) w w1 \<and> pr_events w1 = pr_events w \<and>
    ((\<forall>h \<in> set hs. \<not> cancelled h) \<longrightarrow> n = length hs)"
  using assms
proof (induction hs arbitrary: t w)
  case Nil
  with pruned_by_refl [where I = invar, OF Nil(1)] show ?case by (intro exI [of _ 0] exI [of _ w]) simp
next
  case (Cons h hs)
  show ?case
  proof (cases "cancelled h")
    case True
    with pruned_by_refl [where I = invar, OF Cons.prems(1)] show ?thesis
      by (intro exI [of _ 0] exI [of _ w]) simp
  next
    case False
    have "h \<in> dom (sp_headers (abs_st (pr_store w)))" using Cons.prems(2) by simp
    from prune_height_fine [OF Cons.prems(1) this assms(4)] obtain w1 where
      w1: "prune_height ops bs_remove h w = (Inr (), w1)" "pruned_by invar abs_st {h} w w1" "pr_events w1 = pr_events w" by blast
    have "invar (pr_store w1)" "set hs \<subseteq> dom (sp_headers (abs_st (pr_store w1)))" "distinct hs"
      using w1(2) Cons.prems(2,3) by (auto simp: pruned_by_def)
    from Cons.IH [OF this assms(4), of "Some h"] obtain n w2 where
      n: "prune_heights ops bs_remove cancelled hs (Some h) w1 = (Inr (if n = 0 then Some h else Some (hs ! (n - 1))), w2)"
      "n \<le> length hs" "pruned_by invar abs_st (set (take n hs)) w1 w2" "pr_events w2 = pr_events w1"
      "(\<forall>h \<in> set hs. \<not> cancelled h) \<longrightarrow> n = length hs" by blast
    have "prune_heights ops bs_remove cancelled (h # hs) t w = (Inr (if Suc n = 0 then t else Some ((h # hs) ! (Suc n - 1))), w2)"
      using False w1(1) n(1) by (simp add: nth_Cons')
    moreover have "pruned_by invar abs_st (set (take (Suc n) (h # hs))) w w2"
      using pruned_by_trans [OF w1(2) n(3)] by simp
    ultimately show ?thesis using n(2,4,5) w1(3) by (intro exI [of _ "Suc n"] exI [of _ w2]) simp
  qed
qed

text \<open>Without a failing blockstore a batch of stored blocks is removed without an error, and what the
  events report is what was removed, also when the worker is stopped on the way.\<close>

lemma prune_batch_fine:
  assumes "invar (pr_store w)" "br_wf batch" "heights batch \<subseteq> dom (sp_headers (abs_st (pr_store w)))" "bs_fine bs_remove"
  shows "\<exists>R w1 es. prune_batch ops bs_remove cancelled batch w = (Inr (), w1) \<and> pruned_by invar abs_st R w w1 \<and>
    R \<subseteq> heights batch \<and> pr_events w1 = pr_events w @ es \<and> reported es = R \<and>
    ((\<forall>h \<in> heights batch. \<not> cancelled h) \<longrightarrow> R = heights batch)"
  using assms(1-3)
proof (induction batch arbitrary: w)
  case Nil
  then show ?case using pruned_by_refl [where I = invar, OF Nil(1)] by (intro exI [of _ "{}"] exI [of _ w] exI [of _ "[]"]) simp
next
  case (Cons r rs)
  let ?hs = "[rstart r..<Suc (rend r)]"
  have hs: "set ?hs = range_set r" by (auto simp: range_set_def)
  have "set ?hs \<subseteq> dom (sp_headers (abs_st (pr_store w)))" unfolding hs using Cons.prems(3) by simp
  from prune_heights_fine [OF Cons.prems(1) this distinct_upt assms(4), of cancelled None] obtain n w1 where
    n: "prune_heights ops bs_remove cancelled ?hs None w = (Inr (if n = 0 then None else Some (?hs ! (n - 1))), w1)"
    "n \<le> length ?hs" "pruned_by invar abs_st (set (take n ?hs)) w w1" "pr_events w1 = pr_events w"
    "(\<forall>h \<in> set ?hs. \<not> cancelled h) \<longrightarrow> n = length ?hs" by blast
  define t where "t = (if n = 0 then None else Some (?hs ! (n - 1)))"
  define es where "es = (case t of None \<Rightarrow> [] | Some h \<Rightarrow> [PrunedHeaders (rstart r) h])"
  define w2 where "w2 = w1\<lparr>pr_events := pr_events w1 @ es\<rparr>"
  have len: "rstart r + n \<le> Suc (rend r)" using n(2) Cons.prems(2) by (auto simp: range_ok_def simp del: upt_Suc)
  have taken: "set (take n ?hs) = {rstart r..<rstart r + n}" unfolding take_upt [OF len] by (rule set_upt)
  have rep: "reported es = set (take n ?hs)"
    unfolding taken using len by (cases n) (auto simp: es_def t_def nth_upt simp del: upt_Suc)
  have w2: "(case t of None \<Rightarrow> w1 | Some h \<Rightarrow> w1\<lparr>pr_events := pr_events w1 @ [PrunedHeaders (rstart r) h]\<rparr>) = w2"
    by (simp add: w2_def es_def split: option.split)
  have apart: "heights rs \<inter> range_set r = {}" using Cons.prems(2) by (fastforce simp: in_heights_iff range_set_def)
  have sub: "set (take n ?hs) \<subseteq> range_set r" using set_take_subset [of n ?hs] hs by simp
  have "invar (pr_store w2)" "br_wf rs" "heights rs \<subseteq> dom (sp_headers (abs_st (pr_store w2)))"
    using n(3) Cons.prems(2,3) apart sub by (auto simp: pruned_by_def w2_def simp del: upt_Suc)
  from Cons.IH [OF this] obtain R w3 es3 where
    R: "prune_batch ops bs_remove cancelled rs w2 = (Inr (), w3)" "pruned_by invar abs_st R w2 w3" "R \<subseteq> heights rs"
    "pr_events w3 = pr_events w2 @ es3" "reported es3 = R" "(\<forall>h \<in> heights rs. \<not> cancelled h) \<longrightarrow> R = heights rs" by blast
  define Q where "Q = set (take n ?hs)"
  have all: "Q \<union> R = heights (r # rs)" if "\<forall>h \<in> heights (r # rs). \<not> cancelled h"
  proof -
    from that have "\<forall>h \<in> set ?hs. \<not> cancelled h" "\<forall>h \<in> heights rs. \<not> cancelled h" unfolding hs by auto
    with n(5) R(6) have "Q = set ?hs" "R = heights rs" by (simp_all add: Q_def del: upt_Suc)
    with hs show ?thesis by (simp del: upt_Suc)
  qed
  have "prune_batch ops bs_remove cancelled (r # rs) w = (Inr (), w3)"
    using n(1) R(1) w2 by (simp only: prune_batch.simps t_def [symmetric] prod.case sum.case)
  moreover have "pruned_by invar abs_st (Q \<union> R) w w3"
    using pruned_by_trans [OF n(3) R(2) [unfolded w2_def pruned_by_events]] by (simp only: Q_def)
  moreover have "pr_events w3 = pr_events w @ es @ es3" using R(4) n(4) by (simp add: w2_def)
  moreover have "Q \<union> R \<subseteq> heights (r # rs)" using sub [folded Q_def] R(3) by auto
  moreover have "reported (es @ es3) = Q \<union> R" using rep R(5) by (simp add: Q_def del: upt_Suc)
  ultimately show ?case using all by blast
qed

section \<open>A round\<close>

text \<open>A round returns. It removes only blocks outside the pruning window that are sampled and no edge
  of the synchronised ranges, or that are outside the sampling window and sampled or released.\<close>

lemma pruner_round_ok:
  assumes "invar (pr_store w)" "chain_times T (abs_st (pr_store w))" "strict_mono T" "pr_ok T sc pc (pr_cache w)"
    "da_dok st" "bs_fine bs_remove" "sc = time_saturating_sub now (pr_sampling_window w)"
    "pc = time_saturating_sub now (pr_pruning_window w)"
  defines "a \<equiv> abs_st (pr_store w)"
  shows "\<exists>r w' st' R es. pruner_round ops bs_remove da_handle cancelled now instant w st = Some (r, w', st') \<and>
    invar (pr_store w') \<and> pr_ok T sc pc (pr_cache w') \<and> da_dstep abs_st st st' \<and>
    sp_headers (abs_st (pr_store w')) = sp_headers a |` (- R) \<and> card R \<le> MAX_PRUNABLE_BATCH_SIZE \<and>
    pr_events w' = pr_events w @ es \<and> reported es = R \<and>
    (\<forall>h \<in> R. T h \<le> pc \<and>
      (h \<in> heights (sp_sampled a) \<and> \<not> edge_of (heights (sp_stored a) \<union> heights (sp_pruned a)) h \<or>
       T h \<le> sc \<and> (h \<in> heights (sp_sampled a) \<or> h \<in> da_allowed st')))"
proof -
  from prn.get_next_prunable_batch_ok [OF assms(1-5), of instant, folded a_def] obtain r w1 st1 where
    b: "get_next_prunable_batch ops da_handle instant sc pc w st = Some (r, w1, st1)" "da_dstep abs_st st st1"
    "pr_store w1 = pr_store w" "pr_ok T sc pc (pr_cache w1)" "pr_events w1 = pr_events w"
    and B: "\<And>B. r = Inr B \<Longrightarrow> br_wf B \<and> heights B \<subseteq> heights (sp_stored a) \<and> card (heights B) \<le> MAX_PRUNABLE_BATCH_SIZE \<and>
      (\<forall>h \<in> heights B. T h \<le> pc \<and>
        (h \<in> heights (sp_sampled a) \<and> \<not> edge_of (heights (sp_stored a) \<union> heights (sp_pruned a)) h \<or>
         T h \<le> sc \<and> (h \<in> heights (sp_sampled a) \<or> h \<in> da_allowed st1)))" by blast
  have stay: ?thesis if "pruner_round ops bs_remove da_handle cancelled now instant w st = Some (q, w1, st1)" for q
    using that b assms(1) by (intro exI [of _ q] exI [of _ w1] exI [of _ st1] exI [of _ "{}"] exI [of _ "[]"])
      (simp add: a_def restrict_map_def)
  show ?thesis
  proof (cases r)
    case (Inl e)
    with b(1) show ?thesis by (intro stay [of "Inl e"]) (simp add: pruner_round_def assms(7,8))
  next
    case (Inr batch)
    show ?thesis
    proof (cases "br_is_empty batch")
      case True
      with b(1) Inr show ?thesis by (intro stay [of "Inr ()"]) (simp add: pruner_round_def assms(7,8))
    next
      case False
      note P = B [OF Inr]
      have "heights (sp_stored a) = dom (sp_headers a)" using invar_ok [OF assms(1)] unfolding a_def sp_ok_def by blast
      with P b(3) have "heights batch \<subseteq> dom (sp_headers (abs_st (pr_store w1)))" by (simp add: a_def)
      from prune_batch_fine [OF _ _ this assms(6), of cancelled] P b(3) assms(1) obtain R w2 es where
        R: "prune_batch ops bs_remove cancelled batch w1 = (Inr (), w2)" "pruned_by invar abs_st R w1 w2"
        "R \<subseteq> heights batch" "pr_events w2 = pr_events w1 @ es" "reported es = R" by auto
      have "pruner_round ops bs_remove da_handle cancelled now instant w st = Some (Inr (), w2, st1)"
        using b(1) Inr False R(1) by (simp add: pruner_round_def assms(7,8))
      moreover have "card R \<le> MAX_PRUNABLE_BATCH_SIZE"
        using P card_mono [OF finite_heights R(3)] by linarith
      moreover have "\<forall>h \<in> R. T h \<le> pc \<and>
        (h \<in> heights (sp_sampled a) \<and> \<not> edge_of (heights (sp_stored a) \<union> heights (sp_pruned a)) h \<or>
         T h \<le> sc \<and> (h \<in> heights (sp_sampled a) \<or> h \<in> da_allowed st1))" using P R(3) by blast
      moreover have "invar (pr_store w2)" "pr_cache w2 = pr_cache w1" "sp_headers (abs_st (pr_store w2)) = sp_headers a |` (- R)"
        using R(2) b(3) by (simp_all add: pruned_by_def a_def)
      ultimately show ?thesis using R(4,5) b(2,4,5) by (metis (no_types, lifting))
    qed
  qed
qed

end

end
