(* ===== verification/Broadcasting_Store.thy ===== *)
theory Broadcasting_Store
  imports Node_Types "HOL-Library.Sublist"
begin

text \<open>
  \<open>BroadcastingStore\<close> of \<open>node/src/node/subscriptions.rs\<close>: the store as the syncer sees it,
  which announces new headers to subscribers as one contiguous stream. Ranges that arrive
  ahead of the stream wait in \<open>bs_pending\<close>. The broadcast channel is the list of the headers it
  accepted; \<open>rx\<close> tells whether the channel has a receiver at its \<open>n\<close>-th send, since a send
  without one fails. The loop over the pending ranges is shown to end, and the announced
  stream to have no gap and no repetition.
\<close>

record 's bstore =
  bs_inner :: 's
  bs_sent :: "extended_header list"
  bs_sends :: nat
  bs_last_sent_height :: "nat option"
  bs_pending :: "extended_header list list"

definition bs_new :: "'s \<Rightarrow> 's bstore" where
  "bs_new store = \<lparr>bs_inner = store, bs_sent = [], bs_sends = 0, bs_last_sent_height = None, bs_pending = []\<rparr>"

text \<open>One \<open>send\<close> on the channel, and the loop that stops at the first failure.\<close>

definition channel_send :: "(nat \<Rightarrow> bool) \<Rightarrow> extended_header \<Rightarrow> 's bstore \<Rightarrow> bool \<times> 's bstore" where
  "channel_send rx x s =
     (if rx (bs_sends s) then (True, s\<lparr>bs_sent := bs_sent s @ [x], bs_sends := bs_sends s + 1\<rparr>)
      else (False, s\<lparr>bs_sends := bs_sends s + 1\<rparr>))"

fun send_loop :: "(nat \<Rightarrow> bool) \<Rightarrow> extended_header list \<Rightarrow> 's bstore \<Rightarrow> 's bstore" where
  "send_loop rx [] s = s"
| "send_loop rx (x # xs) s = (case channel_send rx x s of (ok, s') \<Rightarrow> if ok then send_loop rx xs s' else s')"

definition send_range :: "(nat \<Rightarrow> bool) \<Rightarrow> extended_header list \<Rightarrow> 's bstore \<Rightarrow> unit store_result \<times> 's bstore" where
  "send_range rx headers s = (case vec_last headers of
      None \<Rightarrow> (Inl (Panic ''range shouldn't be empty here''), s)
    | Some l \<Rightarrow> (Inr (), send_loop rx headers (s\<lparr>bs_last_sent_height := Some (eh_height l)\<rparr>)))"

definition init_broadcast :: "(nat \<Rightarrow> bool) \<Rightarrow> extended_header \<Rightarrow> 's bstore \<Rightarrow> 's bstore" where
  "init_broadcast rx x s =
     (if bs_last_sent_height s = None
      then snd (channel_send rx x (s\<lparr>bs_last_sent_height := Some (eh_height x)\<rparr>))
      else s\<lparr>bs_pending := bs_pending s @ [[x]]\<rparr>)"

text \<open>\<open>Vec::swap_remove\<close>: the last element takes the place of the one removed.\<close>

definition swap_remove :: "nat \<Rightarrow> 'a list \<Rightarrow> 'a list" where
  "swap_remove i xs = butlast (xs[i := last xs])"

lemma send_loop_frame [simp]:
  "bs_pending (send_loop rx xs s) = bs_pending s"
  "bs_inner (send_loop rx xs s) = bs_inner s"
  "bs_last_sent_height (send_loop rx xs s) = bs_last_sent_height s"
  by (induction xs arbitrary: s) (auto simp: channel_send_def)

lemma send_range_frame [simp]:
  "bs_pending (snd (send_range rx xs s)) = bs_pending s"
  "bs_inner (snd (send_range rx xs s)) = bs_inner s"
  by (auto simp: send_range_def split: option.splits)

lemma length_swap_remove [simp]: "length (swap_remove i xs) = length xs - 1"
  by (simp add: swap_remove_def)

text \<open>The loop of \<open>announce_insert\<close> over the pending ranges.\<close>

function drain_pending :: "(nat \<Rightarrow> bool) \<Rightarrow> nat \<Rightarrow> 's bstore \<Rightarrow> unit store_result \<times> 's bstore" where
  "drain_pending rx i s =
     (if i < length (bs_pending s) then
        (case bs_last_sent_height s of
           None \<Rightarrow> (Inl (Panic ''last_sent_height should be initialised here''), s)
         | Some last_sent_height \<Rightarrow>
           (case vec_first (bs_pending s ! i) of
              None \<Rightarrow> (Inl (Panic ''header range shouldn't be empty''), s)
            | Some first_pending \<Rightarrow>
              (case add_u64 last_sent_height 1 of
                 Inl e \<Rightarrow> (Inl e, s)
               | Inr next_height \<Rightarrow>
                 if next_height = eh_height first_pending then
                   drain_pending rx 0 (snd (send_range rx (bs_pending s ! i)
                     (s\<lparr>bs_pending := swap_remove i (bs_pending s)\<rparr>)))
                 else drain_pending rx (i + 1) s)))
      else (Inr (), s))"
  by pat_completeness auto
termination
  by (relation "measures [\<lambda>(rx, i, s). length (bs_pending s), \<lambda>(rx, i, s). length (bs_pending s) - i]") auto

declare drain_pending.simps [simp del]

text \<open>The debug assertion is kept: a range does not cross the last announced height.\<close>

definition announce_insert ::
  "'s store_ops \<Rightarrow> (nat \<Rightarrow> bool) \<Rightarrow> time \<Rightarrow> extended_header list \<Rightarrow> 's bstore \<Rightarrow> unit store_result \<times> 's bstore"
where
  "announce_insert ops rx now rng s = (case bs_last_sent_height s of
      None \<Rightarrow> (Inl (Panic ''syncer should have initialised the height by now''), s)
    | Some last_sent_height \<Rightarrow>
      (case rng of
         [] \<Rightarrow> (Inr (), s)
       | first # _ \<Rightarrow>
         if \<not> (eh_height (last rng) < last_sent_height \<or> last_sent_height < eh_height first)
         then (Inl (Panic ''assertion failed: range crosses last_sent_height''), s)
         else (case st_insert ops now rng (bs_inner s) of (res, inner) \<Rightarrow>
           let s1 = s\<lparr>bs_inner := inner\<rparr> in
           if eh_height first < last_sent_height then (res, s1)
           else (case res of
               Inl e \<Rightarrow> (Inl e, s1)
             | Inr _ \<Rightarrow>
               (case add_u64 last_sent_height 1 of
                  Inl e \<Rightarrow> (Inl e, s1)
                | Inr next_height \<Rightarrow>
                  drain_pending rx 0
                    (if next_height = eh_height first then snd (send_range rx rng s1)
                     else s1\<lparr>bs_pending := bs_pending s1 @ [rng]\<rparr>))))))"

section \<open>The stream has no gap\<close>

text \<open>The channel has a receiver at every send.\<close>

definition received :: "(nat \<Rightarrow> bool) \<Rightarrow> bool" where
  "received rx \<longleftrightarrow> (\<forall>n. rx n)"

text \<open>Consecutive heights.\<close>

definition consecutive :: "extended_header list \<Rightarrow> bool" where
  "consecutive xs = successively (\<lambda>a b. eh_height b = eh_height a + 1) xs"

lemma consecutive_linked: "successively linked xs \<Longrightarrow> consecutive xs"
  unfolding consecutive_def by (erule successively_mono) (simp add: linked_def)

lemma consecutive_append:
  "consecutive xs \<Longrightarrow> consecutive ys \<Longrightarrow> xs \<noteq> [] \<Longrightarrow> ys \<noteq> [] \<Longrightarrow>
   eh_height (hd ys) = eh_height (last xs) + 1 \<Longrightarrow> consecutive (xs @ ys)"
  by (simp add: consecutive_def successively_append_iff)

definition bs_ok :: "'s bstore \<Rightarrow> bool" where
  "bs_ok s \<longleftrightarrow> consecutive (bs_sent s) \<and>
     bs_last_sent_height s = (if bs_sent s = [] then None else Some (eh_height (last (bs_sent s)))) \<and>
     (\<forall>p \<in> set (bs_pending s). p \<noteq> [] \<and> consecutive p)"

lemma send_loop_all: "received rx \<Longrightarrow> bs_sent (send_loop rx xs s) = bs_sent s @ xs"
  by (induction xs arbitrary: s) (auto simp: channel_send_def received_def)

lemma send_range_ok:
  assumes "received rx" "bs_ok s" "consecutive xs" "xs \<noteq> []"
    "bs_last_sent_height s = Some l" "eh_height (hd xs) = l + 1"
  shows "bs_ok (snd (send_range rx xs s))" "fst (send_range rx xs s) = Inr ()"
    "bs_sent (snd (send_range rx xs s)) = bs_sent s @ xs"
proof -
  from assms(2,5) have "bs_sent s \<noteq> []" "l = eh_height (last (bs_sent s))"
    by (auto simp: bs_ok_def split: if_splits)
  with assms show "bs_ok (snd (send_range rx xs s))"
    by (simp add: bs_ok_def send_range_def send_loop_all consecutive_append)
  show "fst (send_range rx xs s) = Inr ()" "bs_sent (snd (send_range rx xs s)) = bs_sent s @ xs"
    using assms by (simp_all add: send_range_def send_loop_all)
qed

lemma set_butlast_update: "i < length xs \<Longrightarrow> set (butlast (xs[i := last xs])) \<subseteq> set xs"
proof
  fix x
  assume i: "i < length xs" and x: "x \<in> set (butlast (xs[i := last xs]))"
  then have "x \<in> set (xs[i := last xs])" by (rule_tac in_set_butlastD)
  then have "x \<in> insert (last xs) (set xs)" using set_update_subset_insert by (metis subsetD)
  with i show "x \<in> set xs" by (cases xs) auto
qed

lemma swap_remove_set: "i < length xs \<Longrightarrow> set (swap_remove i xs) \<subseteq> set xs"
  unfolding swap_remove_def by (rule set_butlast_update)

text \<open>One turn of the loop that finds the next range.\<close>

lemma drain_turn_ok:
  assumes "received rx" "bs_ok s" "i < length (bs_pending s)" "bs_last_sent_height s = Some l"
    "vec_first (bs_pending s ! i) = Some x" "l + 1 = eh_height x"
  defines "s' \<equiv> snd (send_range rx (bs_pending s ! i) (s\<lparr>bs_pending := swap_remove i (bs_pending s)\<rparr>))"
  shows "bs_ok s'" "prefix (bs_sent s) (bs_sent s')" "bs_inner s' = bs_inner s"
proof -
  let ?t = "s\<lparr>bs_pending := swap_remove i (bs_pending s)\<rparr>" and ?p = "bs_pending s ! i"
  have t: "bs_ok ?t" using assms(2) swap_remove_set [OF assms(3)] by (auto simp: bs_ok_def)
  have p: "?p \<noteq> []" "consecutive ?p" using assms(2) nth_mem [OF assms(3)] by (auto simp: bs_ok_def)
  with assms(5,6) have h: "eh_height (hd ?p) = l + 1" by simp
  have l: "bs_last_sent_height ?t = Some l" using assms(4) by simp
  note r = send_range_ok [OF assms(1) t p(2,1) l h]
  from r(1) show "bs_ok s'" by (simp add: s'_def)
  from r(3) show "prefix (bs_sent s) (bs_sent s')" by (simp add: s'_def)
  show "bs_inner s' = bs_inner s" by (simp add: s'_def)
qed

lemma drain_stop:
  "\<not> (i < length (bs_pending s) \<and> (\<exists>l x. bs_last_sent_height s = Some l \<and>
     vec_first (bs_pending s ! i) = Some x \<and> l + 1 \<le> u64_max)) \<Longrightarrow> snd (drain_pending rx i s) = s"
  by (subst drain_pending.simps) (auto simp: add_u64_def split: option.splits)

lemma drain_pending_ok:
  "received rx \<Longrightarrow> bs_ok s \<Longrightarrow>
   bs_ok (snd (drain_pending rx i s)) \<and> prefix (bs_sent s) (bs_sent (snd (drain_pending rx i s))) \<and>
   bs_inner (snd (drain_pending rx i s)) = bs_inner s"
proof (induction rx i s rule: drain_pending.induct)
  case (1 rx i s)
  consider (turn) l x where "i < length (bs_pending s)" "bs_last_sent_height s = Some l"
      "vec_first (bs_pending s ! i) = Some x" "l + 1 \<le> u64_max" "l + 1 = eh_height x"
    | (skip) l x where "i < length (bs_pending s)" "bs_last_sent_height s = Some l"
      "vec_first (bs_pending s ! i) = Some x" "l + 1 \<le> u64_max" "l + 1 \<noteq> eh_height x"
    | (stop) "snd (drain_pending rx i s) = s"
    using drain_stop [of i s rx] by blast
  then show ?case
  proof cases
    case turn
    let ?s' = "snd (send_range rx (bs_pending s ! i) (s\<lparr>bs_pending := swap_remove i (bs_pending s)\<rparr>))"
    note t = drain_turn_ok [OF 1(3,4) turn(1,2,3,5)]
    have "drain_pending rx i s = drain_pending rx 0 ?s'"
      using turn by (subst drain_pending.simps) (simp add: add_u64_def)
    with 1(1) [of l x "l + 1"] turn 1(3) t show ?thesis
      by (auto simp: add_u64_def intro: prefix_order.trans)
  next
    case skip
    then have "drain_pending rx i s = drain_pending rx (i + 1) s"
      by (subst drain_pending.simps) (simp add: add_u64_def)
    with 1(2) [of l x "l + 1"] skip 1(3,4) show ?thesis by (simp add: add_u64_def)
  next
    case stop
    with 1 show ?thesis by simp
  qed
qed

text \<open>An insertion stops early, or it enters the range and looks through the pending ones.\<close>

lemma announce_insert_cases:
  fixes ops now hs and s :: "'s bstore"
  defines "s1 \<equiv> s\<lparr>bs_inner := snd (st_insert ops now hs (bs_inner s))\<rparr>"
  shows "snd (announce_insert ops rx now hs s) \<in> {s, s1} \<or>
    (\<exists>l. bs_last_sent_height s = Some l \<and> hs \<noteq> [] \<and> fst (st_insert ops now hs (bs_inner s)) = Inr () \<and>
       announce_insert ops rx now hs s = drain_pending rx 0
         (if l + 1 = eh_height (hd hs) then snd (send_range rx hs s1)
          else s1\<lparr>bs_pending := bs_pending s @ [hs]\<rparr>))"
proof (cases "bs_last_sent_height s")
  case None
  then show ?thesis by (simp add: announce_insert_def)
next
  case l: (Some l)
  show ?thesis
  proof (cases hs)
    case Nil
    with l show ?thesis by (simp add: announce_insert_def)
  next
    case (Cons x xs)
    then have hs: "hs \<noteq> []" "hd hs = x" by auto
    show ?thesis
    proof (cases "fst (st_insert ops now hs (bs_inner s))")
      case Inl
      with l show ?thesis
        unfolding announce_insert_def s1_def by (simp add: Cons Let_def case_prod_unfold)
    next
      case (Inr u)
      with l hs show ?thesis
        unfolding announce_insert_def s1_def
        by (simp add: Cons Let_def case_prod_unfold add_u64_def)
    qed
  qed
qed

text \<open>It keeps the stream, given a store that only accepts linked ranges.\<close>

lemma announce_insert_ok:
  assumes "received rx" "bs_ok s"
    and linked: "fst (st_insert ops now hs (bs_inner s)) = Inr () \<Longrightarrow> successively linked hs"
  shows "bs_ok (snd (announce_insert ops rx now hs s)) \<and>
    prefix (bs_sent s) (bs_sent (snd (announce_insert ops rx now hs s)))"
proof -
  let ?s1 = "s\<lparr>bs_inner := snd (st_insert ops now hs (bs_inner s))\<rparr>"
  have s1: "bs_ok ?s1" using assms(2) by (simp add: bs_ok_def)
  from announce_insert_cases [of ops rx now hs s] consider
      "snd (announce_insert ops rx now hs s) \<in> {s, ?s1}"
    | l where "bs_last_sent_height s = Some l" "hs \<noteq> []" "fst (st_insert ops now hs (bs_inner s)) = Inr ()"
      "announce_insert ops rx now hs s = drain_pending rx 0
         (if l + 1 = eh_height (hd hs) then snd (send_range rx hs ?s1)
          else ?s1\<lparr>bs_pending := bs_pending s @ [hs]\<rparr>)"
    by blast
  then show ?thesis
  proof cases
    case 1
    with s1 assms(2) show ?thesis by auto
  next
    case (2 l)
    have c: "consecutive hs" using linked 2(3) by (simp add: consecutive_linked)
    show ?thesis
    proof (cases "l + 1 = eh_height (hd hs)")
      case True
      have l: "bs_last_sent_height ?s1 = Some l" using 2(1) by simp
      note t = send_range_ok [OF assms(1) s1 c 2(2) l True [symmetric]]
      from drain_pending_ok [OF assms(1) t(1), of 0] t(3) 2(4) True show ?thesis
        by (auto intro: prefix_order.trans [of "bs_sent s" "bs_sent s @ hs"])
    next
      case False
      have "bs_ok (?s1\<lparr>bs_pending := bs_pending s @ [hs]\<rparr>)" using s1 c 2(2) by (auto simp: bs_ok_def)
      from drain_pending_ok [OF assms(1) this, of 0] 2(4) False show ?thesis by simp
    qed
  qed
qed

lemma init_broadcast_ok:
  assumes "received rx" "bs_ok s"
  shows "bs_ok (init_broadcast rx x s)" "prefix (bs_sent s) (bs_sent (init_broadcast rx x s))"
  using assms by (auto simp: init_broadcast_def bs_ok_def channel_send_def consecutive_def received_def split: if_splits)

lemma bs_new_ok [simp]: "bs_ok (bs_new s)"
  by (simp add: bs_ok_def bs_new_def consecutive_def)

lemma drain_pending_inner [simp]: "bs_inner (snd (drain_pending rx i s)) = bs_inner s"
proof (induction rx i s rule: drain_pending.induct)
  case (1 rx i s)
  show ?case
    by (subst drain_pending.simps) (use 1 in \<open>auto simp: add_u64_def split: option.splits\<close>)
qed

text \<open>Once the stream has started it stays so.\<close>

definition bs_started :: "'s bstore \<Rightarrow> bool" where
  "bs_started s \<longleftrightarrow> bs_last_sent_height s \<noteq> None"

lemma bs_started_update [simp]:
  "bs_started (s\<lparr>bs_inner := x\<rparr>) = bs_started s" "bs_started (s\<lparr>bs_pending := ps\<rparr>) = bs_started s"
  by (simp_all add: bs_started_def)

lemma send_range_started: "bs_started s \<Longrightarrow> bs_started (snd (send_range rx xs s))"
  by (auto simp: bs_started_def send_range_def split: option.splits)

lemma drain_pending_started: "bs_started s \<Longrightarrow> bs_started (snd (drain_pending rx i s))"
proof (induction rx i s rule: drain_pending.induct)
  case (1 rx i s)
  show ?case
    by (subst drain_pending.simps)
      (use 1 in \<open>auto simp: add_u64_def send_range_started split: option.splits\<close>)
qed

lemma announce_insert_started:
  "bs_started s \<Longrightarrow> bs_started (snd (announce_insert ops rx now hs s))"
  using announce_insert_cases [of ops rx now hs s]
  by (auto intro!: drain_pending_started send_range_started split: if_splits)

lemma init_broadcast_started [simp]: "bs_started (init_broadcast rx x s)"
  by (auto simp: bs_started_def init_broadcast_def channel_send_def)

text \<open>The store below sees the insertion or nothing.\<close>

lemma announce_insert_inner:
  "bs_inner (snd (announce_insert ops rx now hs s)) = bs_inner s \<or>
   bs_inner (snd (announce_insert ops rx now hs s)) = snd (st_insert ops now hs (bs_inner s))"
  using announce_insert_cases [of ops rx now hs s] by (auto split: if_splits)

text \<open>Nothing that can be announced stays behind: after the loop no pending range starts right
  after the last announced height.\<close>

definition waits :: "nat option \<Rightarrow> extended_header list \<Rightarrow> bool" where
  "waits sent p \<longleftrightarrow> (\<forall>l x. sent = Some l \<longrightarrow> vec_first p = Some x \<longrightarrow> eh_height x \<noteq> l + 1)"

lemma drain_pending_complete:
  "fst (drain_pending rx i s) = Inr () \<Longrightarrow>
   \<forall>p \<in> set (take i (bs_pending s)). waits (bs_last_sent_height s) p \<Longrightarrow>
   \<forall>p \<in> set (bs_pending (snd (drain_pending rx i s))). waits (bs_last_sent_height (snd (drain_pending rx i s))) p"
proof (induction rx i s rule: drain_pending.induct)
  case (1 rx i s)
  show ?case
  proof (cases "i < length (bs_pending s)")
    case False
    with 1(4) show ?thesis by (subst (1 2) drain_pending.simps) simp
  next
    case True
    from 1(3) True obtain l x where
      lx: "bs_last_sent_height s = Some l" "vec_first (bs_pending s ! i) = Some x" "l + 1 \<le> u64_max"
      by (subst (asm) drain_pending.simps) (auto simp: add_u64_def split: option.splits if_splits)
    show ?thesis
    proof (cases "l + 1 = eh_height x")
      case turn: True
      let ?s' = "snd (send_range rx (bs_pending s ! i) (s\<lparr>bs_pending := swap_remove i (bs_pending s)\<rparr>))"
      have "drain_pending rx i s = drain_pending rx 0 ?s'"
        using True lx turn by (subst drain_pending.simps) (simp add: add_u64_def)
      with 1(1) [of l x "l + 1"] True lx turn 1(3) show ?thesis by (simp add: add_u64_def)
    next
      case skip: False
      then have "drain_pending rx i s = drain_pending rx (i + 1) s"
        using True lx by (subst drain_pending.simps) (simp add: add_u64_def)
      moreover have "\<forall>p \<in> set (take (i + 1) (bs_pending s)). waits (bs_last_sent_height s) p"
        using 1(4) True lx skip by (auto simp: take_Suc_conv_app_nth waits_def)
      ultimately show ?thesis using 1(2) [of l x "l + 1"] True lx skip 1(3) by (simp add: add_u64_def)
    qed
  qed
qed

end
