(* ===== verification/Syncer.thy ===== *)
theory Syncer
  imports Broadcasting_Store
begin

text \<open>
  The syncer of \<open>node/src/syncer.rs\<close>: the worker that brings the headers of the network into
  the store. The record \<open>syncer\<close> is its state, one definition per handler follows, and
  \<open>syncer_step\<close> is the event loop: the state machine that waits for the network head
  (\<open>Connecting\<close>), follows the network (\<open>Connected\<close>) and ends when it is cancelled or a fatal
  error occurs. What the worker receives from outside (answers of the network, the clock, the
  number of connected peers) comes with each event. The published events are the list
  \<open>sy_events\<close>.
\<close>

section \<open>State\<close>

datatype syncer_error =
    SyncerP2p p2p_error
  | SyncerStore store_error
  | SyncerWorkerDied
  | SyncerChannelClosedUnexpectedly

fun syncer_is_fatal :: "syncer_error \<Rightarrow> bool" where
  "syncer_is_fatal (SyncerP2p e) = p2p_is_fatal e"
| "syncer_is_fatal (SyncerStore e) = is_fatal e"
| "syncer_is_fatal SyncerWorkerDied = True"
| "syncer_is_fatal SyncerChannelClosedUnexpectedly = True"

text \<open>\<open>sy_ongoing_range\<close> and \<open>sy_task\<close> are the two fields of \<open>Ongoing\<close>: the task is the request
  that is being answered, \<open>None\<close> when the future is terminated.\<close>

record 's syncer =
  sy_store :: "'s bstore"
  sy_header_sub_rx :: bool
  sy_subjective_head_height :: "nat option"
  sy_highest_slow_sync_height :: "nat option"
  sy_batch_size :: nat
  sy_ongoing_range :: "block_range option"
  sy_task :: "block_range option"
  sy_sampling_window :: duration
  sy_pruning_window :: duration
  sy_events :: "node_event list"

type_synonym 's handled = "(syncer_error, unit) result \<times> 's syncer"

definition syncer_new :: "'s \<Rightarrow> nat \<Rightarrow> duration \<Rightarrow> duration \<Rightarrow> 's syncer" where
  "syncer_new store batch_size sampling_window pruning_window =
     \<lparr>sy_store = bs_new store, sy_header_sub_rx = False, sy_subjective_head_height = None,
      sy_highest_slow_sync_height = None, sy_batch_size = batch_size, sy_ongoing_range = None,
      sy_task = None, sy_sampling_window = sampling_window, sy_pruning_window = pruning_window,
      sy_events = []\<rparr>"

definition publish :: "node_event \<Rightarrow> 's syncer \<Rightarrow> 's syncer" where
  "publish e w = w\<lparr>sy_events := sy_events w @ [e]\<rparr>"

definition SLOW_SYNC_MIN_THRESHOLD :: nat where
  "SLOW_SYNC_MIN_THRESHOLD = 50"

section \<open>Handlers\<close>

record syncing_info =
  si_stored_headers :: block_ranges
  si_subjective_head :: nat

definition get_syncing_info :: "'s store_ops \<Rightarrow> 's syncer \<Rightarrow> (syncer_error, syncing_info) result" where
  "get_syncing_info ops w =
     bind_r (map_err SyncerStore (st_get_stored_header_ranges ops (bs_inner (sy_store w)))) (\<lambda>stored.
     Inr \<lparr>si_stored_headers = stored,
       si_subjective_head = (case sy_subjective_head_height w of None \<Rightarrow> 0 | Some h \<Rightarrow> h)\<rparr>)"

text \<open>\<open>report\<close> reads the information and writes it to the log.\<close>

definition report :: "'s store_ops \<Rightarrow> 's syncer \<Rightarrow> 's handled" where
  "report ops w = (bind_r (get_syncing_info ops w) (\<lambda>_. Inr ()), w)"

datatype syncer_cmd = GetInfo | SubscribeHeights

text \<open>The answer to a command: the information, or the position in the stream of announced
  headers from which the new subscriber receives.\<close>

datatype syncer_reply = Info syncing_info | Subscribed nat

definition on_cmd :: "'s store_ops \<Rightarrow> syncer_cmd \<Rightarrow> 's syncer \<Rightarrow> (syncer_error, syncer_reply) result" where
  "on_cmd ops cmd w = (case cmd of
      GetInfo \<Rightarrow> bind_r (get_syncing_info ops w) (\<lambda>i. Inr (Info i))
    | SubscribeHeights \<Rightarrow> Inr (Subscribed (length (bs_sent (sy_store w)))))"

definition set_subjective_head_height :: "nat \<Rightarrow> 's syncer \<Rightarrow> 's syncer" where
  "set_subjective_head_height height w =
     (if (case sy_subjective_head_height w of None \<Rightarrow> False | Some old_height \<Rightarrow> height \<le> old_height)
      then w else w\<lparr>sy_subjective_head_height := Some height\<rparr>)"

definition on_header_sub_message ::
  "'s store_ops \<Rightarrow> (nat \<Rightarrow> bool) \<Rightarrow> time \<Rightarrow> extended_header \<Rightarrow> 's syncer \<Rightarrow> 's handled"
where
  "on_header_sub_message ops rx now new_head w =
     (let w1 = set_subjective_head_height (eh_height new_head) w in
      case st_head_height ops (bs_inner (sy_store w1)) of
        Inl (Panic m) \<Rightarrow> (Inl (Panic m), w1)
      | Inl (Err _) \<Rightarrow> (Inr (), w1)
      | Inr store_head_height \<Rightarrow>
        (case add_u64 store_head_height 1 of
           Inl e \<Rightarrow> (Inl e, w1)
         | Inr next_height \<Rightarrow>
           if next_height \<noteq> eh_height new_head then (Inr (), w1)
           else (case announce_insert ops rx now [new_head] (sy_store w1) of (res, store) \<Rightarrow>
             let w2 = w1\<lparr>sy_store := store\<rparr> in
             case res of
               Inl (Panic m) \<Rightarrow> (Inl (Panic m), w2)
             | Inl (Err _) \<Rightarrow> (Inr (), w2)
             | Inr _ \<Rightarrow> (Inr (), publish (AddedHeaderFromHeaderSub (eh_height new_head)) w2))))"

definition in_sampling_window :: "time \<Rightarrow> extended_header \<Rightarrow> 's syncer \<Rightarrow> bool" where
  "in_sampling_window now x w \<longleftrightarrow> eh_time x > time_saturating_sub now (sy_sampling_window w)"

definition calculate_range_to_fetch :: "nat \<Rightarrow> block_range list \<Rightarrow> nat \<Rightarrow> ('e, block_range) result" where
  "calculate_range_to_fetch subjective_head_height synced_headers limit =
     (case rev synced_headers of
        [] \<Rightarrow> Inr (range_tailn (Rng 1 subjective_head_height) limit)
      | synced_head_range # rest \<Rightarrow>
        if rend synced_head_range < subjective_head_height then
          bind_r (add_u64 (rend synced_head_range) 1) (\<lambda>s.
          Inr (range_tailn (Rng s subjective_head_height) limit))
        else
          bind_r (add_u64 (case rest of [] \<Rightarrow> 0 | r # _ \<Rightarrow> rend r) 1) (\<lambda>s.
          Inr (range_headn (Rng s (saturating_sub (rstart synced_head_range) 1)) limit)))"

text \<open>The parts of \<open>fetch_next_batch\<close>: the batch, the pause of the slow sync, and the check of
  the sampling window.\<close>

definition next_batch :: "'s store_ops \<Rightarrow> nat \<Rightarrow> 's syncer \<Rightarrow> (syncer_error, block_ranges \<times> block_range) result" where
  "next_batch ops subjective_head_height w =
     bind_r (map_err SyncerStore (st_get_stored_header_ranges ops (bs_inner (sy_store w)))) (\<lambda>store_ranges.
     bind_r (map_err SyncerStore (st_get_pruned_ranges ops (bs_inner (sy_store w)))) (\<lambda>pruned_ranges.
     bind_r (br_add pruned_ranges store_ranges) (\<lambda>synced_ranges.
     bind_r (calculate_range_to_fetch subjective_head_height synced_ranges (sy_batch_size w)) (\<lambda>batch.
     Inr (store_ranges, batch)))))"

definition slow_sync_pause ::
  "'s store_ops \<Rightarrow> block_ranges \<Rightarrow> block_range \<Rightarrow> 's syncer \<Rightarrow> (syncer_error, bool) result"
where
  "slow_sync_pause ops store_ranges batch w =
     (if (case sy_highest_slow_sync_height w of None \<Rightarrow> False | Some height \<Rightarrow> rend batch \<le> height) then
        bind_r (map_err SyncerStore (st_get_sampled_ranges ops (bs_inner (sy_store w)))) (\<lambda>sampled_ranges.
        bind_r (br_sub store_ranges sampled_ranges) (\<lambda>available.
        bind_r (br_len available) (\<lambda>available_for_sampling.
        Inr (available_for_sampling > max (sy_batch_size w div 2) SLOW_SYNC_MIN_THRESHOLD))))
      else Inr False)"

definition beyond_sampling_window ::
  "'s store_ops \<Rightarrow> time \<Rightarrow> block_range \<Rightarrow> 's syncer \<Rightarrow> (syncer_error, bool) result"
where
  "beyond_sampling_window ops now batch w =
     bind_r (add_u64 (rend batch) 1) (\<lambda>h.
     case st_get_by_height ops h (bs_inner (sy_store w)) of
       Inr known_header \<Rightarrow> Inr (\<not> in_sampling_window now known_header w)
     | Inl (Err NotFound) \<Rightarrow> Inr False
     | Inl (Err e) \<Rightarrow> Inl (Err (SyncerStore e))
     | Inl (Panic m) \<Rightarrow> Inl (Panic m))"

definition start_fetching :: "block_range \<Rightarrow> 's syncer \<Rightarrow> 's syncer" where
  "start_fetching batch w =
     (publish (FetchingHeadersStarted (rstart batch) (rend batch)) w)
       \<lparr>sy_ongoing_range := Some batch, sy_task := Some batch\<rparr>"

definition fetch_next_batch :: "'s store_ops \<Rightarrow> time \<Rightarrow> nat \<Rightarrow> 's syncer \<Rightarrow> 's handled" where
  "fetch_next_batch ops now num_connected_peers w =
     (if (sy_ongoing_range w = None) \<noteq> (sy_task w = None) then (Inl (Panic ''assertion failed: ongoing_batch''), w)
      else if sy_task w \<noteq> None then (Inr (), w)
      else if num_connected_peers = 0 then (Inr (), w)
      else case sy_subjective_head_height w of
        None \<Rightarrow> (Inr (), w)
      | Some subjective_head_height \<Rightarrow>
        (case next_batch ops subjective_head_height w of
           Inl e \<Rightarrow> (Inl e, w)
         | Inr (store_ranges, batch) \<Rightarrow>
           if range_is_empty batch then (Inr (), w)
           else (case slow_sync_pause ops store_ranges batch w of
               Inl e \<Rightarrow> (Inl e, w)
             | Inr True \<Rightarrow> (Inr (), w)
             | Inr False \<Rightarrow>
               (case beyond_sampling_window ops now batch w of
                  Inl e \<Rightarrow> (Inl e, w)
                | Inr True \<Rightarrow> (Inr (), w)
                | Inr False \<Rightarrow> (Inr (), start_fetching batch w)))))"

text \<open>The loop that looks, from the highest header down, for a new highest slow sync height.\<close>

fun slow_sync_scan :: "time \<Rightarrow> extended_header list \<Rightarrow> nat option \<Rightarrow> nat option" where
  "slow_sync_scan cutoff [] highest = highest"
| "slow_sync_scan cutoff (x # xs) highest =
     (if (case highest of None \<Rightarrow> False | Some height \<Rightarrow> eh_height x \<le> height) then highest
      else if eh_time x \<le> cutoff then Some (eh_height x)
      else slow_sync_scan cutoff xs highest)"

definition on_fetch_next_batch_result ::
  "'s store_ops \<Rightarrow> (nat \<Rightarrow> bool) \<Rightarrow> time \<Rightarrow> (p2p_error, extended_header list) result \<Rightarrow> duration \<Rightarrow>
   's syncer \<Rightarrow> 's handled"
where
  "on_fetch_next_batch_result ops rx now res took w = (case sy_ongoing_range w of
      None \<Rightarrow> (Inl (Panic ''ongoing_batch not initialized correctly''), w)
    | Some rng \<Rightarrow>
      let w1 = w\<lparr>sy_ongoing_range := None\<rparr> in
      (case res of
         Inl (Panic m) \<Rightarrow> (Inl (Panic m), w1)
       | Inl (Err e) \<Rightarrow>
         if p2p_is_fatal e then (Inl (Err (SyncerP2p e)), w1)
         else (Inr (), publish (FetchingHeadersFailed (rstart rng) (rend rng) ''{e}'' took) w1)
       | Inr headers \<Rightarrow>
         let cutoff = time_saturating_sub now (sy_pruning_window w1);
             w2 = w1\<lparr>sy_highest_slow_sync_height :=
               slow_sync_scan cutoff (rev headers) (sy_highest_slow_sync_height w1)\<rparr> in
         (case announce_insert ops rx now headers (sy_store w2) of (ins, store) \<Rightarrow>
           let w3 = w2\<lparr>sy_store := store\<rparr>;
               finished = FetchingHeadersFinished (rstart rng) (rend rng) took in
           case ins of
             Inl (Panic m) \<Rightarrow> (Inl (Panic m), w3)
           | Inl (Err e) \<Rightarrow>
             if is_fatal e then (Inl (Err (SyncerStore e)), w3)
             else (Inr (), publish finished (publish
               (FetchingHeadersFailed (rstart rng) (rend rng) ''Failed to store headers: {e}'' took) w3))
           | Inr _ \<Rightarrow> (Inr (), publish finished w3))))"

section \<open>Initialisation\<close>

text \<open>What one round of \<open>try_init\<close> meets: the wait for a trusted peer, the head it answers, and
  the time of the insertion.\<close>

record init_answer =
  ia_connected :: "(p2p_error, unit) result"
  ia_head :: "(p2p_error, extended_header) result"
  ia_now :: time

definition try_init ::
  "'s store_ops \<Rightarrow> init_answer \<Rightarrow> bool \<Rightarrow> 's syncer \<Rightarrow>
   (syncer_error, extended_header) result \<times> bool \<times> 's syncer"
where
  "try_init ops ans event_reported w = (case map_err SyncerP2p (ia_connected ans) of
      Inl e \<Rightarrow> (Inl e, event_reported, w)
    | Inr _ \<Rightarrow>
      let w1 = (if event_reported then w else publish FetchingHeadHeaderStarted w) in
      (case map_err SyncerP2p (ia_head ans) of
         Inl e \<Rightarrow> (Inl e, True, w1)
       | Inr network_head \<Rightarrow>
         (case (case st_get_head ops (bs_inner (sy_store w1)) of
                  Inr store_head \<Rightarrow> Inr (eh_hash store_head \<noteq> eh_hash network_head)
                | Inl (Err NotFound) \<Rightarrow> Inr True
                | Inl (Err e) \<Rightarrow> Inl (Err (SyncerStore e))
                | Inl (Panic m) \<Rightarrow> Inl (Panic m)) of
            Inl e \<Rightarrow> (Inl e, True, w1)
          | Inr False \<Rightarrow> (Inr network_head, True, w1)
          | Inr True \<Rightarrow>
            (case st_insert ops (ia_now ans) [network_head] (bs_inner (sy_store w1)) of (res, inner) \<Rightarrow>
              (bind_r (map_err SyncerStore res) (\<lambda>_. Inr network_head), True,
               w1\<lparr>sy_store := (sy_store w1)\<lparr>bs_inner := inner\<rparr>\<rparr>)))))"

section \<open>The event loop\<close>

datatype phase =
    Connecting bool
  | Connected
  | Stopped
  | Failed "syncer_error fault"

text \<open>In \<open>Connecting\<close> the flag is \<open>event_reported\<close> of \<open>try_init_task\<close>. The events of the two
  \<open>select!\<close> loops; the number of connected peers and the clock are those at the event.\<close>

datatype syncer_event =
    Cancel
  | ReportTick
  | Command syncer_cmd
  | InitRound init_answer duration "(p2p_error, unit) result"
  | PeersChanged
  | HeaderSubRecv "extended_header option"
  | BatchDone "(p2p_error, extended_header list) result" duration

definition or_failed :: "phase \<Rightarrow> 's handled \<Rightarrow> phase \<times> 's syncer" where
  "or_failed p m = (case m of (Inl e, w) \<Rightarrow> (Failed e, w) | (Inr _, w) \<Rightarrow> (p, w))"

text \<open>Entering the loops: connecting starts with a report; the connected loop goes back to
  connecting when no peer is left, else it asks for the first batch.\<close>

definition enter_connecting :: "'s store_ops \<Rightarrow> 's syncer \<Rightarrow> phase \<times> 's syncer" where
  "enter_connecting ops w = or_failed (Connecting False) (report ops w)"

definition enter_connected :: "'s store_ops \<Rightarrow> time \<Rightarrow> nat \<Rightarrow> 's syncer \<Rightarrow> phase \<times> 's syncer" where
  "enter_connected ops now peers w =
     (if peers = 0 then enter_connecting ops w
      else or_failed Connected (seq_w (fetch_next_batch ops now peers w) (report ops)))"

text \<open>Leaving it: the ongoing batch is cancelled and header-sub is dropped.\<close>

definition leave_connected :: "'s syncer \<Rightarrow> 's syncer" where
  "leave_connected w =
     (if sy_ongoing_range w = None then w else w\<lparr>sy_ongoing_range := None, sy_task := None\<rparr>)
       \<lparr>sy_header_sub_rx := False\<rparr>"

definition on_network_head ::
  "'s store_ops \<Rightarrow> (nat \<Rightarrow> bool) \<Rightarrow> extended_header \<Rightarrow> duration \<Rightarrow> (p2p_error, unit) result \<Rightarrow>
   's syncer \<Rightarrow> 's handled"
where
  "on_network_head ops rx network_head took init_header_sub w =
     (let w1 = set_subjective_head_height (eh_height network_head) w;
          w2 = w1\<lparr>sy_store := init_broadcast rx network_head (sy_store w1)\<rparr> in
      case map_err SyncerP2p init_header_sub of
        Inl e \<Rightarrow> (Inl e, w2)
      | Inr _ \<Rightarrow> (Inr (), publish (FetchingHeadHeaderFinished (eh_height network_head) took)
          (w2\<lparr>sy_header_sub_rx := True\<rparr>)))"

definition connecting_event ::
  "'s store_ops \<Rightarrow> (nat \<Rightarrow> bool) \<Rightarrow> time \<Rightarrow> nat \<Rightarrow> bool \<Rightarrow> syncer_event \<Rightarrow> 's syncer \<Rightarrow> phase \<times> 's syncer"
where
  "connecting_event ops rx now peers reported ev w = (case ev of
      Cancel \<Rightarrow> (Stopped, w)
    | ReportTick \<Rightarrow> or_failed (Connecting reported) (report ops w)
    | Command c \<Rightarrow> or_failed (Connecting reported) (bind_r (on_cmd ops c w) (\<lambda>_. Inr ()), w)
    | InitRound ans took init_header_sub \<Rightarrow>
      (case try_init ops ans reported w of
         (Inr network_head, _, w1) \<Rightarrow>
           (case on_network_head ops rx network_head took init_header_sub w1 of
              (Inl e, w2) \<Rightarrow> (Failed e, w2)
            | (Inr _, w2) \<Rightarrow> enter_connected ops now peers w2)
       | (Inl (Panic m), _, w1) \<Rightarrow> (Failed (Panic m), w1)
       | (Inl (Err e), reported', w1) \<Rightarrow>
           if syncer_is_fatal e then (Failed (Err e), w1) else (Connecting reported', w1))
    | _ \<Rightarrow> (Connecting reported, w))"

definition connected_event ::
  "'s store_ops \<Rightarrow> (nat \<Rightarrow> bool) \<Rightarrow> time \<Rightarrow> nat \<Rightarrow> syncer_event \<Rightarrow> 's syncer \<Rightarrow> phase \<times> 's syncer"
where
  "connected_event ops rx now peers ev w = (case ev of
      Cancel \<Rightarrow> (Stopped, leave_connected w)
    | PeersChanged \<Rightarrow> if peers = 0 then enter_connecting ops (leave_connected w) else (Connected, w)
    | ReportTick \<Rightarrow> or_failed Connected (report ops w)
    | HeaderSubRecv m \<Rightarrow>
      if \<not> sy_header_sub_rx w then (Failed (Panic ''header-sub not initialized''), w)
      else (case m of
          None \<Rightarrow> (Failed (Err (SyncerP2p P2pWorkerDied)), w)
        | Some x \<Rightarrow> or_failed Connected
            (seq_w (on_header_sub_message ops rx now x w) (fetch_next_batch ops now peers)))
    | Command c \<Rightarrow> or_failed Connected (bind_r (on_cmd ops c w) (\<lambda>_. Inr ()), w)
    | BatchDone res took \<Rightarrow>
      if sy_task w = None then (Connected, w)
      else or_failed Connected
        (seq_w (on_fetch_next_batch_result ops rx now res took (w\<lparr>sy_task := None\<rparr>))
          (fetch_next_batch ops now peers))
    | _ \<Rightarrow> (Connected, w))"

definition syncer_event_step ::
  "'s store_ops \<Rightarrow> (nat \<Rightarrow> bool) \<Rightarrow> time \<Rightarrow> nat \<Rightarrow> syncer_event \<Rightarrow> phase \<times> 's syncer \<Rightarrow> phase \<times> 's syncer"
where
  "syncer_event_step ops rx now peers ev st = (case st of
      (Connecting reported, w) \<Rightarrow> connecting_event ops rx now peers reported ev w
    | (Connected, w) \<Rightarrow> connected_event ops rx now peers ev w
    | (p, w) \<Rightarrow> (p, w))"

text \<open>The pruner and the daser work on the same store: between the events of the syncer its
  content may change.\<close>

inductive syncer_reach :: "'s store_ops \<Rightarrow> (nat \<Rightarrow> bool) \<Rightarrow> 's syncer \<Rightarrow> phase \<times> 's syncer \<Rightarrow> bool"
  for ops rx w0 where
  start: "syncer_reach ops rx w0 (enter_connecting ops w0)"
| event: "syncer_reach ops rx w0 st \<Longrightarrow> syncer_reach ops rx w0 (syncer_event_step ops rx now peers ev st)"
| others: "syncer_reach ops rx w0 (p, w) \<Longrightarrow>
    syncer_reach ops rx w0 (p, w\<lparr>sy_store := (sy_store w)\<lparr>bs_inner := s\<rparr>\<rparr>)"

section \<open>What every handler keeps\<close>

text \<open>The worker without the parts that handlers change freely: a handler that only reads, or
  only publishes, leaves the rest.\<close>

lemma publish_simps [simp]:
  "sy_store (publish e w) = sy_store w" "sy_header_sub_rx (publish e w) = sy_header_sub_rx w"
  "sy_subjective_head_height (publish e w) = sy_subjective_head_height w"
  "sy_ongoing_range (publish e w) = sy_ongoing_range w" "sy_task (publish e w) = sy_task w"
  "sy_batch_size (publish e w) = sy_batch_size w" "sy_sampling_window (publish e w) = sy_sampling_window w"
  "sy_highest_slow_sync_height (publish e w) = sy_highest_slow_sync_height w"
  "sy_pruning_window (publish e w) = sy_pruning_window w"
  "sy_events (publish e w) = sy_events w @ [e]"
  by (simp_all add: publish_def)

lemma set_subjective_simps [simp]:
  "sy_store (set_subjective_head_height h w) = sy_store w"
  "sy_header_sub_rx (set_subjective_head_height h w) = sy_header_sub_rx w"
  "sy_ongoing_range (set_subjective_head_height h w) = sy_ongoing_range w"
  "sy_task (set_subjective_head_height h w) = sy_task w"
  "sy_batch_size (set_subjective_head_height h w) = sy_batch_size w"
  by (simp_all add: set_subjective_head_height_def)

lemma report_snd [simp]: "snd (report ops w) = w"
  by (simp add: report_def)

text \<open>\<open>fetch_next_batch\<close> leaves the worker alone or starts one batch.\<close>

lemma fetch_next_batch_cases:
  "snd (fetch_next_batch ops now peers w) = w \<or>
   (\<exists>subj stored batch. fetch_next_batch ops now peers w = (Inr (), start_fetching batch w) \<and>
      sy_ongoing_range w = None \<and> sy_task w = None \<and> peers \<noteq> 0 \<and>
      sy_subjective_head_height w = Some subj \<and> next_batch ops subj w = Inr (stored, batch) \<and>
      \<not> range_is_empty batch \<and> slow_sync_pause ops stored batch w = Inr False \<and>
      beyond_sampling_window ops now batch w = Inr False)"
  by (auto simp: fetch_next_batch_def split: option.splits sum.splits bool.splits prod.splits)

end
