(* ===== verification/Syncer_Invariants.thy ===== *)
theory Syncer_Invariants
  imports Syncer
begin

text \<open>
  What holds in every state the syncer reaches: its assertions, the growth of the subjective
  head, and the announced stream. Each is shown for every handler and carried over the event
  loop once, by the lemma \<open>event_step_keeps\<close>.
\<close>

section \<open>Invariants of the event loop\<close>

text \<open>A property of the worker that reading, publishing, an update of the store and a new batch
  do not affect.\<close>

definition kept :: "'s store_ops \<Rightarrow> (nat \<Rightarrow> bool) \<Rightarrow> ('s syncer \<Rightarrow> bool) \<Rightarrow> bool" where
  "kept ops rx P \<longleftrightarrow>
     (\<forall>e w. P w \<longrightarrow> P (publish e w)) \<and>
     (\<forall>h w. P w \<longrightarrow> P (set_subjective_head_height h w)) \<and>
     (\<forall>now hs w. P w \<longrightarrow> P (w\<lparr>sy_store := snd (announce_insert ops rx now hs (sy_store w))\<rparr>)) \<and>
     (\<forall>x w. P w \<longrightarrow> P (w\<lparr>sy_store := init_broadcast rx x (sy_store w)\<rparr>)) \<and>
     (\<forall>s w. P w \<longrightarrow> P (w\<lparr>sy_store := (sy_store w)\<lparr>bs_inner := s\<rparr>\<rparr>)) \<and>
     (\<forall>b t w. P w \<longrightarrow> P (w\<lparr>sy_ongoing_range := b, sy_task := t\<rparr>)) \<and>
     (\<forall>b w. P w \<longrightarrow> P (w\<lparr>sy_header_sub_rx := b\<rparr>)) \<and>
     (\<forall>b w. P w \<longrightarrow> P (w\<lparr>sy_highest_slow_sync_height := b\<rparr>))"

lemma keptD:
  assumes "kept ops rx P" "P w"
  shows "P (publish e w)" "P (set_subjective_head_height h w)"
    "P (w\<lparr>sy_store := snd (announce_insert ops rx now hs (sy_store w))\<rparr>)"
    "P (w\<lparr>sy_store := init_broadcast rx x (sy_store w)\<rparr>)"
    "P (w\<lparr>sy_store := (sy_store w)\<lparr>bs_inner := s\<rparr>\<rparr>)"
    "P (w\<lparr>sy_ongoing_range := b, sy_task := t\<rparr>)" "P (w\<lparr>sy_header_sub_rx := c\<rparr>)"
    "P (w\<lparr>sy_highest_slow_sync_height := k\<rparr>)"
  using assms by (simp_all add: kept_def)

lemma kept_task:
  assumes "kept ops rx P" "P w"
  shows "P (w\<lparr>sy_task := t\<rparr>)" "P (w\<lparr>sy_ongoing_range := b\<rparr>)"
  using keptD(6) [OF assms, where b = "sy_ongoing_range w" and t = t]
    keptD(6) [OF assms, where b = b and t = "sy_task w"] by simp_all

lemma fetch_next_batch_kept:
  assumes "kept ops rx P" "P w"
  shows "P (snd (fetch_next_batch ops now peers w))"
proof -
  have "P (start_fetching batch w)" for batch
    unfolding start_fetching_def by (rule keptD(6) [OF assms(1) keptD(1) [OF assms]])
  with fetch_next_batch_cases [of ops now peers w] assms(2) show ?thesis by auto
qed

lemma on_header_sub_message_kept:
  assumes "kept ops rx P" "P w"
  shows "P (snd (on_header_sub_message ops rx now x w))"
proof -
  define w1 where "w1 = set_subjective_head_height (eh_height x) w"
  define w2 where "w2 = w1\<lparr>sy_store := snd (announce_insert ops rx now [x] (sy_store w1))\<rparr>"
  have "snd (on_header_sub_message ops rx now x w) \<in> {w1, w2, publish (AddedHeaderFromHeaderSub (eh_height x)) w2}"
    unfolding on_header_sub_message_def Let_def case_prod_unfold w1_def [symmetric] w2_def [symmetric]
    by (auto split: sum.splits fault.splits)
  moreover have w1: "P w1" unfolding w1_def by (rule keptD(2) [OF assms])
  moreover have w2: "P w2" unfolding w2_def by (rule keptD(3) [OF assms(1) w1])
  ultimately show ?thesis using keptD(1) [OF assms(1) w2] by auto
qed

lemma on_fetch_next_batch_result_kept:
  assumes "kept ops rx P" "P w"
  shows "P (snd (on_fetch_next_batch_result ops rx now res took w))"
proof (cases "sy_ongoing_range w")
  case None
  with assms(2) show ?thesis by (simp add: on_fetch_next_batch_result_def)
next
  case (Some rng)
  define w1 where "w1 = w\<lparr>sy_ongoing_range := None\<rparr>"
  have w1: "P w1" unfolding w1_def by (rule kept_task(2) [OF assms])
  show ?thesis
  proof (cases res)
    case (Inl e)
    with Some w1 keptD(1) [OF assms(1) w1] show ?thesis
      unfolding on_fetch_next_batch_result_def Let_def w1_def [symmetric]
      by (auto split: fault.splits)
  next
    case (Inr hs)
    define w2 where "w2 = w1\<lparr>sy_highest_slow_sync_height := slow_sync_scan
       (time_saturating_sub now (sy_pruning_window w1)) (rev hs) (sy_highest_slow_sync_height w1)\<rparr>"
    define w3 where "w3 = w2\<lparr>sy_store := snd (announce_insert ops rx now hs (sy_store w2))\<rparr>"
    have w2: "P w2" unfolding w2_def by (rule keptD(8) [OF assms(1) w1])
    have w3: "P w3" unfolding w3_def by (rule keptD(3) [OF assms(1) w2])
    have "P (publish e w3)" "P (publish e (publish e' w3))" for e e'
      using keptD(1) [OF assms(1)] w3 by blast+
    with Some Inr w3 show ?thesis
      unfolding on_fetch_next_batch_result_def Let_def w1_def [symmetric]
      by (simp add: case_prod_unfold flip: w2_def w3_def split: sum.splits fault.splits)
  qed
qed

lemma try_init_kept:
  assumes "kept ops rx P" "P w"
  shows "P (snd (snd (try_init ops ans reported w)))"
proof -
  define w1 where "w1 = (if reported then w else publish FetchingHeadHeaderStarted w)"
  have w1: "P w1" using keptD(1) [OF assms] assms(2) by (simp add: w1_def)
  have "snd (snd (try_init ops ans reported w)) \<in> {w, w1} \<union> {w1\<lparr>sy_store := (sy_store w1)\<lparr>bs_inner := s\<rparr>\<rparr> |s. True}"
    unfolding try_init_def Let_def w1_def [symmetric]
    by (auto simp: case_prod_unfold split: sum.splits bool.splits)
  with assms(2) w1 keptD(5) [OF assms(1) w1] show ?thesis by auto
qed

lemma on_network_head_kept:
  assumes "kept ops rx P" "P w"
  shows "P (snd (on_network_head ops rx x took r w))"
proof -
  define w1 where "w1 = set_subjective_head_height (eh_height x) w"
  define w2 where "w2 = w1\<lparr>sy_store := init_broadcast rx x (sy_store w1)\<rparr>"
  have w1: "P w1" unfolding w1_def by (rule keptD(2) [OF assms])
  have w2: "P w2" unfolding w2_def by (rule keptD(4) [OF assms(1) w1])
  have "P (publish e (w2\<lparr>sy_header_sub_rx := True\<rparr>))" for e
    using keptD(1,7) [OF assms(1)] w2 by blast
  with w2 show ?thesis
    unfolding on_network_head_def Let_def w1_def [symmetric] w2_def [symmetric]
    by (auto split: sum.splits)
qed

lemma or_failed_kept: "P (snd m) \<Longrightarrow> P (snd (or_failed p m))"
  by (auto simp: or_failed_def split: prod.splits sum.splits)

lemma leave_connected_kept:
  assumes "kept ops rx P" "P w"
  shows "P (leave_connected w)"
  unfolding leave_connected_def
  by (rule keptD(7) [OF assms(1)]) (use keptD(6) [OF assms] assms(2) in auto)

lemma enter_connecting_kept: "P w \<Longrightarrow> P (snd (enter_connecting ops w))"
  unfolding enter_connecting_def by (rule or_failed_kept) simp

lemma enter_connected_kept:
  assumes "kept ops rx P" "P w"
  shows "P (snd (enter_connected ops now peers w))"
proof -
  have "P (snd (seq_w (fetch_next_batch ops now peers w) (report ops)))"
    by (rule seq_w_keeps) (simp_all add: fetch_next_batch_kept [OF assms])
  then show ?thesis
    using enter_connecting_kept [of P w ops] assms(2) unfolding enter_connected_def
    by (simp add: or_failed_kept [of P])
qed

lemma connecting_event_kept:
  assumes "kept ops rx P" "P w"
  shows "P (snd (connecting_event ops rx now peers reported ev w))"
proof (cases ev)
  case (InitRound ans took r)
  obtain res rep w1 where t: "try_init ops ans reported w = (res, rep, w1)" by (cases "try_init ops ans reported w")
  have w1: "P w1" using try_init_kept [OF assms, of ans reported] t by simp
  show ?thesis
  proof (cases res)
    case (Inl e)
    with w1 show ?thesis by (simp add: connecting_event_def InitRound t split: fault.splits)
  next
    case (Inr x)
    obtain res2 w2 where n: "on_network_head ops rx x took r w1 = (res2, w2)" by fastforce
    have w2: "P w2" using on_network_head_kept [OF assms(1) w1, of x took r] n by simp
    with enter_connected_kept [OF assms(1) w2] show ?thesis
      by (simp add: connecting_event_def InitRound t Inr n split: sum.splits)
  qed
qed (use assms(2) in \<open>auto simp: connecting_event_def intro!: or_failed_kept [of P]\<close>)

lemma connected_event_kept:
  assumes "kept ops rx P" "P w"
  shows "P (snd (connected_event ops rx now peers ev w))"
proof (cases ev)
  case (HeaderSubRecv m)
  have "P (snd (seq_w (on_header_sub_message ops rx now x w) (fetch_next_batch ops now peers)))" for x
    by (rule seq_w_keeps) (simp_all add: fetch_next_batch_kept [OF assms(1)] on_header_sub_message_kept [OF assms])
  with HeaderSubRecv assms(2) show ?thesis
    by (auto simp: connected_event_def intro!: or_failed_kept [of P] split: option.splits)
next
  case (BatchDone res took)
  have "P (snd (seq_w (on_fetch_next_batch_result ops rx now res took (w\<lparr>sy_task := None\<rparr>)) (fetch_next_batch ops now peers)))"
    by (rule seq_w_keeps)
      (simp_all add: fetch_next_batch_kept [OF assms(1)] on_fetch_next_batch_result_kept [OF assms(1)] kept_task(1) [OF assms])
  with BatchDone assms(2) show ?thesis by (auto simp: connected_event_def intro!: or_failed_kept [of P])
qed (use assms(2) leave_connected_kept [OF assms] in \<open>auto simp: connected_event_def intro!: or_failed_kept [of P] enter_connecting_kept [of P]\<close>)

lemma event_step_keeps:
  assumes "kept ops rx P" "P (snd st)"
  shows "P (snd (syncer_event_step ops rx now peers ev st))"
  using assms connecting_event_kept [OF assms(1)] connected_event_kept [OF assms(1)]
  by (cases st; cases "fst st") (auto simp: syncer_event_step_def)

lemma syncer_reach_keeps:
  assumes "syncer_reach ops rx w0 st" "kept ops rx P" "P w0"
  shows "P (snd st)"
  using assms(1)
proof induction
  case start
  from assms(3) show ?case by (rule enter_connecting_kept)
next
  case (event st now peers ev)
  from event_step_keeps [OF assms(2) event.IH] show ?case .
next
  case (others p w s)
  then show ?case using keptD(5) [OF assms(2)] by simp
qed

section \<open>The assertions\<close>

definition ongoing_ok :: "'s syncer \<Rightarrow> bool" where
  "ongoing_ok w \<longleftrightarrow> (sy_ongoing_range w = None \<longleftrightarrow> sy_task w = None)"

text \<open>What the connected loop relies on: header-sub is subscribed and the stream has started.\<close>

definition linked_up :: "'s syncer \<Rightarrow> bool" where
  "linked_up w \<longleftrightarrow> sy_header_sub_rx w \<and> bs_started (sy_store w)"

definition sy_state_ok :: "phase \<times> 's syncer \<Rightarrow> bool" where
  "sy_state_ok st \<longleftrightarrow> ongoing_ok (snd st) \<and> (fst st = Connected \<longrightarrow> linked_up (snd st))"

lemma fetch_next_batch_ok:
  "ongoing_ok w \<Longrightarrow> ongoing_ok (snd (fetch_next_batch ops now peers w))"
  "linked_up w \<Longrightarrow> linked_up (snd (fetch_next_batch ops now peers w))"
  using fetch_next_batch_cases [of ops now peers w]
  by (auto simp: ongoing_ok_def linked_up_def start_fetching_def)

lemma on_header_sub_message_frame:
  "sy_ongoing_range (snd (on_header_sub_message ops rx now x w)) = sy_ongoing_range w"
  "sy_task (snd (on_header_sub_message ops rx now x w)) = sy_task w"
  "sy_header_sub_rx (snd (on_header_sub_message ops rx now x w)) = sy_header_sub_rx w"
  by (simp_all add: on_header_sub_message_def Let_def case_prod_unfold split: sum.splits fault.splits)

lemma on_fetch_frame:
  "sy_ongoing_range (snd (on_fetch_next_batch_result ops rx now res took w)) = None"
  "sy_task (snd (on_fetch_next_batch_result ops rx now res took w)) = sy_task w"
  "sy_header_sub_rx (snd (on_fetch_next_batch_result ops rx now res took w)) = sy_header_sub_rx w"
  by (simp_all add: on_fetch_next_batch_result_def Let_def case_prod_unfold split: option.splits sum.splits fault.splits)

lemma started_kept: "kept ops rx (\<lambda>w. bs_started (sy_store w))"
  unfolding kept_def by (simp add: announce_insert_started)

lemma on_network_head_ok:
  assumes "ongoing_ok w"
  shows "ongoing_ok (snd (on_network_head ops rx x took r w))"
    "fst (on_network_head ops rx x took r w) = Inr () \<Longrightarrow> linked_up (snd (on_network_head ops rx x took r w))"
  using assms by (auto simp: on_network_head_def Let_def ongoing_ok_def linked_up_def split: sum.splits)

lemma try_init_ok: "ongoing_ok w \<Longrightarrow> ongoing_ok (snd (snd (try_init ops ans reported w)))"
  unfolding try_init_def Let_def ongoing_ok_def
  by (auto simp: case_prod_unfold split: sum.splits bool.splits)

lemma or_failed_ok:
  assumes "ongoing_ok (snd m)" "p = Connected \<Longrightarrow> linked_up (snd m)"
  shows "sy_state_ok (or_failed p m)"
  using assms by (cases m; cases "fst m") (auto simp: or_failed_def sy_state_ok_def)

lemma enter_connecting_ok: "ongoing_ok w \<Longrightarrow> sy_state_ok (enter_connecting ops w)"
  unfolding enter_connecting_def by (rule or_failed_ok) simp_all

lemma enter_connected_ok:
  assumes "ongoing_ok w" "linked_up w"
  shows "sy_state_ok (enter_connected ops now peers w)"
proof -
  let ?m = "seq_w (fetch_next_batch ops now peers w) (report ops)"
  have "ongoing_ok (snd ?m) \<and> linked_up (snd ?m)"
    by (rule seq_w_keeps) (use assms in \<open>simp_all add: fetch_next_batch_ok\<close>)
  then have "sy_state_ok (or_failed Connected ?m)" by (intro or_failed_ok) auto
  with enter_connecting_ok [OF assms(1)] show ?thesis by (simp add: enter_connected_def)
qed

lemma connecting_event_ok:
  assumes "ongoing_ok w"
  shows "sy_state_ok (connecting_event ops rx now peers reported ev w)"
proof (cases ev)
  case (InitRound ans took r)
  obtain res rep w1 where t: "try_init ops ans reported w = (res, rep, w1)" by (cases "try_init ops ans reported w")
  have w1: "ongoing_ok w1" using try_init_ok [OF assms, of ops ans reported] t by simp
  show ?thesis
  proof (cases res)
    case (Inl e)
    with w1 show ?thesis
      by (auto simp: connecting_event_def InitRound t sy_state_ok_def split: fault.splits)
  next
    case (Inr x)
    obtain res2 w2 where n: "on_network_head ops rx x took r w1 = (res2, w2)" by fastforce
    have w2: "ongoing_ok w2" "res2 = Inr () \<Longrightarrow> linked_up w2"
      using on_network_head_ok [OF w1, of ops rx x took r] n by simp_all
    with enter_connected_ok [OF w2(1)] show ?thesis
      by (simp add: connecting_event_def InitRound t Inr n sy_state_ok_def split: sum.splits)
  qed
qed (use assms in \<open>auto simp: connecting_event_def sy_state_ok_def intro!: or_failed_ok [unfolded sy_state_ok_def]\<close>)

definition running_ok :: "'s syncer \<Rightarrow> bool" where
  "running_ok w \<longleftrightarrow> ongoing_ok w \<and> linked_up w"

lemma fetch_next_batch_running: "running_ok w \<Longrightarrow> running_ok (snd (fetch_next_batch ops now peers w))"
  by (simp add: running_ok_def fetch_next_batch_ok)

lemma on_header_sub_message_running:
  "running_ok w \<Longrightarrow> running_ok (snd (on_header_sub_message ops rx now x w))"
  using on_header_sub_message_kept [OF started_kept, of w ops rx now x]
  by (simp add: running_ok_def ongoing_ok_def linked_up_def on_header_sub_message_frame)

lemma on_fetch_running:
  assumes "running_ok w"
  shows "running_ok (snd (on_fetch_next_batch_result ops rx now res took (w\<lparr>sy_task := None\<rparr>)))"
  using on_fetch_next_batch_result_kept [OF started_kept, of "w\<lparr>sy_task := None\<rparr>" ops rx now res took] assms
  by (simp add: running_ok_def ongoing_ok_def linked_up_def on_fetch_frame)

lemma or_failed_running: "running_ok (snd m) \<Longrightarrow> sy_state_ok (or_failed Connected m)"
  by (rule or_failed_ok) (simp_all add: running_ok_def)

lemma connected_event_ok:
  assumes "running_ok w"
  shows "sy_state_ok (connected_event ops rx now peers ev w)"
proof (cases ev)
  case Cancel
  with assms show ?thesis
    by (auto simp: connected_event_def running_ok_def sy_state_ok_def leave_connected_def ongoing_ok_def)
next
  case PeersChanged
  have "ongoing_ok (leave_connected w)"
    using assms by (auto simp: running_ok_def leave_connected_def ongoing_ok_def)
  with PeersChanged assms enter_connecting_ok show ?thesis
    by (auto simp: connected_event_def running_ok_def sy_state_ok_def)
next
  case ReportTick
  with assms or_failed_running [of "report ops w"] show ?thesis by (simp add: connected_event_def)
next
  case (Command c)
  with assms or_failed_running [of "(bind_r (on_cmd ops c w) (\<lambda>_. Inr ()), w)"] show ?thesis
    by (simp add: connected_event_def)
next
  case (InitRound ans took r)
  with assms show ?thesis by (simp add: connected_event_def running_ok_def sy_state_ok_def)
next
  case (HeaderSubRecv m)
  have "running_ok (snd (seq_w (on_header_sub_message ops rx now x w) (fetch_next_batch ops now peers)))" for x
    by (rule seq_w_keeps) (use assms in \<open>simp_all add: fetch_next_batch_running on_header_sub_message_running\<close>)
  then have "sy_state_ok (or_failed Connected
      (seq_w (on_header_sub_message ops rx now x w) (fetch_next_batch ops now peers)))" for x
    by (rule or_failed_running)
  moreover have "sy_state_ok (Failed e, w)" for e using assms by (simp add: sy_state_ok_def running_ok_def)
  ultimately show ?thesis by (simp add: connected_event_def HeaderSubRecv split: option.splits)
next
  case (BatchDone res took)
  have "running_ok (snd (seq_w (on_fetch_next_batch_result ops rx now res took (w\<lparr>sy_task := None\<rparr>))
      (fetch_next_batch ops now peers)))"
    by (rule seq_w_keeps) (use assms in \<open>simp_all add: fetch_next_batch_running on_fetch_running\<close>)
  from or_failed_running [OF this] assms show ?thesis
    by (auto simp: connected_event_def BatchDone sy_state_ok_def running_ok_def)
qed

lemma event_step_ok:
  assumes "sy_state_ok st"
  shows "sy_state_ok (syncer_event_step ops rx now peers ev st)"
proof -
  obtain p w where st: "st = (p, w)" by fastforce
  with assms have w: "ongoing_ok w" "p = Connected \<Longrightarrow> linked_up w" by (simp_all add: sy_state_ok_def)
  then show ?thesis
    using assms connecting_event_ok [OF w(1)] connected_event_ok [of w]
    by (cases p) (simp_all add: syncer_event_step_def st running_ok_def)
qed

lemma syncer_reach_ok:
  assumes "syncer_reach ops rx (syncer_new store batch_size sw pw) st"
  shows "sy_state_ok st"
  using assms
proof induction
  case start
  show ?case by (rule enter_connecting_ok) (simp add: ongoing_ok_def syncer_new_def)
next
  case (event st now peers ev)
  from event.IH show ?case by (rule event_step_ok)
next
  case (others p w s)
  then show ?case by (simp add: sy_state_ok_def ongoing_ok_def linked_up_def)
qed

section \<open>The subjective head\<close>

definition head_at_least :: "nat \<Rightarrow> 's syncer \<Rightarrow> bool" where
  "head_at_least h w \<longleftrightarrow> (\<exists>k \<ge> h. sy_subjective_head_height w = Some k)"

lemma head_at_least_kept: "kept ops rx (head_at_least h)"
  by (auto simp: kept_def head_at_least_def set_subjective_head_height_def split: if_splits)

section \<open>The announced stream\<close>

lemma stream_kept:
  assumes "received rx"
    "\<And>now hs s. fst (st_insert ops now hs s) = Inr () \<Longrightarrow> successively linked hs"
  shows "kept ops rx (\<lambda>w. bs_ok (sy_store w) \<and> prefix xs (bs_sent (sy_store w)))"
proof -
  have a: "bs_ok (snd (announce_insert ops rx now hs s)) \<and> prefix xs (bs_sent (snd (announce_insert ops rx now hs s)))"
    if "bs_ok s" "prefix xs (bs_sent s)" for now hs s
  proof -
    have "fst (st_insert ops now hs (bs_inner s)) = Inr () \<Longrightarrow> successively linked hs" by (rule assms(2))
    from announce_insert_ok [OF assms(1) that(1) this] that(2) show ?thesis
      by (blast intro: prefix_order.trans)
  qed
  have b: "bs_ok (init_broadcast rx x s) \<and> prefix xs (bs_sent (init_broadcast rx x s))"
    if "bs_ok s" "prefix xs (bs_sent s)" for x s
    using init_broadcast_ok [OF assms(1) that(1)] that(2) by (blast intro: prefix_order.trans)
  have c: "bs_ok (s\<lparr>bs_inner := i\<rparr>) = bs_ok s" for s and i :: 'a by (simp add: bs_ok_def)
  show ?thesis unfolding kept_def by (simp add: a b c)
qed

end
