(* ===== verification/Syncer_Batches.thy ===== *)
theory Syncer_Batches
  imports Syncer_Invariants
begin

text \<open>
  The choice of the next batch of headers. \<open>calculate_range_to_fetch\<close> always finds missing
  heights while there are any, never asks for a synced one, and its batch touches the synced
  ranges, so that the headers can be verified against a neighbour.
\<close>

section \<open>The range to fetch\<close>

definition sync_top :: "nat \<Rightarrow> block_ranges \<Rightarrow> nat" where
  "sync_top subj rs = max subj (case br_head rs of None \<Rightarrow> 0 | Some h \<Rightarrow> h)"

definition missing :: "nat \<Rightarrow> block_ranges \<Rightarrow> nat set" where
  "missing subj rs = {1..sync_top subj rs} - heights rs"

definition good_batch :: "nat \<Rightarrow> block_ranges \<Rightarrow> nat \<Rightarrow> block_range \<Rightarrow> bool" where
  "good_batch subj rs limit r \<longleftrightarrow> range_ok r \<and> range_set r \<subseteq> missing subj rs \<and>
     card (range_set r) \<le> limit \<and> insertable rs r"

lemma finite_missing [simp]: "finite (missing subj rs)"
  by (simp add: missing_def)

lemma tailn_rstart: "range_ok r \<Longrightarrow> 0 < k \<Longrightarrow> rstart (range_tailn r k) = rstart r"
  by (auto simp: range_tailn_def range_is_empty_def range_ok_def checked_sub_def saturating_add_def)

lemma headn_rend: "range_ok r \<Longrightarrow> 0 < k \<Longrightarrow> rend (range_headn r k) = rend r"
  by (auto simp: range_headn_def range_is_empty_def range_ok_def checked_add_def saturating_sub_def)

lemma headn_empty: "range_is_empty r \<Longrightarrow> range_is_empty (range_headn r k)"
  by (simp add: range_headn_def range_is_empty_def)

text \<open>Above all synced heights.\<close>

lemma fetch_above:
  assumes "br_wf rs" "0 < limit" "\<forall>h \<in> heights rs. h < s" "0 < s" "s \<le> subj" "subj < u64_max"
    "s = 1 \<or> s - 1 \<in> heights rs"
  shows "good_batch subj rs limit (range_tailn (Rng s subj) limit)"
proof -
  let ?r = "Rng s subj"
  have r: "range_ok ?r" "rend ?r < u64_max" using assms by auto
  note t = range_tailn_ok [OF r(1) assms(2) r(2)]
  have s: "rstart (range_tailn ?r limit) = s" using tailn_rstart [OF r(1) assms(2)] by simp
  have sub: "range_set (range_tailn ?r limit) \<subseteq> {s..subj}" using t(2) by simp
  then have "range_set (range_tailn ?r limit) \<subseteq> missing subj rs"
    using assms(3,4) by (fastforce simp: missing_def sync_top_def)
  moreover have "insertable rs (range_tailn ?r limit)"
    using sub assms(3) s by (fastforce simp: insertable_def)
  moreover have "card (range_set (range_tailn ?r limit)) \<le> limit" using t(3) by simp
  ultimately show ?thesis using t(1) by (simp add: good_batch_def)
qed

text \<open>Below the topmost range.\<close>

lemma fetch_below:
  assumes "br_wf (rs @ [hr])" "0 < limit" "subj \<le> rend hr"
    "\<forall>h \<in> heights rs. h \<le> pen" "pen + 1 \<le> rstart hr - 1"
  shows "good_batch subj (rs @ [hr]) limit (range_headn (Rng (pen + 1) (rstart hr - 1)) limit)"
proof -
  let ?r = "Rng (pen + 1) (rstart hr - 1)" and ?rs = "rs @ [hr]"
  have hr: "range_ok hr" using assms(1) by simp
  have r: "range_ok ?r" using assms(5) range_okD [OF hr] by auto
  note t = range_headn_ok [OF r assms(2)]
  have e: "rend (range_headn ?r limit) = rstart hr - 1" using headn_rend [OF r assms(2)] by simp
  have sub: "range_set (range_headn ?r limit) \<subseteq> {pen + 1..rstart hr - 1}" using t(2) by simp
  have top: "sync_top subj ?rs = rend hr" using assms(3) by (simp add: sync_top_def br_head_def)
  have disj: "heights ?rs \<inter> {pen + 1..rstart hr - 1} = {}"
    using assms(4,5) by (auto simp: range_set_def)
  have "range_set (range_headn ?r limit) \<subseteq> missing subj ?rs"
    using sub disj range_okD [OF hr] unfolding missing_def top by fastforce
  moreover have "next_stored ?rs (range_headn ?r limit)"
    using e range_okD [OF hr] by (simp add: next_stored_def range_set_def)
  then have "insertable ?rs (range_headn ?r limit)" using sub disj by (auto simp: insertable_def)
  moreover have "card (range_set (range_headn ?r limit)) \<le> limit" using t(3) by simp
  ultimately show ?thesis using t(1) by (simp add: good_batch_def)
qed

lemma calculate_range_to_fetch_ok:
  assumes "canonical rs" "0 < limit" "subj < u64_max"
  shows "\<exists>r. calculate_range_to_fetch subj rs limit = (Inr r :: ('e, block_range) result) \<and>
    (if missing subj rs = {} then range_is_empty r else good_batch subj rs limit r)"
proof (cases rs rule: rev_cases)
  case Nil
  show ?thesis
  proof (cases "subj = 0")
    case True
    with Nil show ?thesis
      by (simp add: calculate_range_to_fetch_def range_tailn_def range_is_empty_def missing_def sync_top_def br_head_def)
  next
    case False
    with fetch_above [of rs limit 1 subj] assms(2,3) Nil have "good_batch subj rs limit (range_tailn (Rng 1 subj) limit)"
      by simp
    moreover have "missing subj rs \<noteq> {}" using Nil False by (simp add: missing_def sync_top_def)
    ultimately show ?thesis using Nil by (simp add: calculate_range_to_fetch_def)
  qed
next
  case (snoc rest hr)
  have wf: "br_wf rs" and gap: "br_gap rs" using assms(1) by (simp_all add: canonical_def)
  have hr: "range_ok hr" using wf snoc by simp
  note hrD = range_okD [OF hr]
  show ?thesis
  proof (cases "rend hr < subj")
    case True
    have below: "\<forall>h \<in> heights rs. h < rend hr + 1"
      using br_head_Some_iff [OF wf, of "rend hr"] snoc by (auto simp: br_head_def less_Suc_eq_le)
    have "rend hr \<in> heights rs" using snoc hrD by (simp add: range_set_def)
    with fetch_above [OF wf assms(2) below _ _ assms(3)] True have
      "good_batch subj rs limit (range_tailn (Rng (rend hr + 1) subj) limit)" by simp
    moreover have "subj \<in> missing subj rs" using True below by (auto simp: missing_def sync_top_def)
    ultimately show ?thesis
      using True snoc assms(3) by (auto simp: calculate_range_to_fetch_def add_u64_def)
  next
    case False
    define pen where "pen = (case rev rest of [] \<Rightarrow> 0 | r # _ \<Rightarrow> rend r)"
    have pen: "\<forall>h \<in> heights rest. h \<le> pen"
    proof (cases rest rule: rev_cases)
      case (snoc rest' r)
      with wf \<open>rs = rest @ [hr]\<close> have "br_wf rest" by simp
      from br_head_Some_iff [OF this, of "rend r"] snoc show ?thesis by (simp add: pen_def br_head_def)
    qed simp
    have pen_hr: "rest \<noteq> [] \<Longrightarrow> pen + 1 < rstart hr"
      using gap snoc by (cases rest rule: rev_cases) (simp_all add: pen_def)
    have pen_lt: "pen < rstart hr" using pen_hr hrD by (cases "rest = []") (simp_all add: pen_def)
    have calc: "calculate_range_to_fetch subj rs limit = (Inr (range_headn (Rng (pen + 1) (rstart hr - 1)) limit) :: ('e, block_range) result)"
      using False pen_lt hrD snoc by (simp add: calculate_range_to_fetch_def pen_def saturating_sub_def)
    show ?thesis
    proof (cases "pen + 1 \<le> rstart hr - 1")
      case True
      have gb: "good_batch subj rs limit (range_headn (Rng (pen + 1) (rstart hr - 1)) limit)"
        using fetch_below [OF wf [unfolded snoc] assms(2) _ pen True] False snoc by simp
      then have "missing subj rs \<noteq> {}" by (auto simp: good_batch_def range_set_def range_ok_def)
      with gb calc show ?thesis by simp
    next
      case nofit: False
      with pen_hr have "rest = []" by fastforce
      with nofit hrD have "rstart hr = 1" by (simp add: pen_def)
      with \<open>rest = []\<close> snoc False have "missing subj rs = {}"
        by (simp add: missing_def sync_top_def br_head_def range_set_def)
      with calc nofit headn_empty [of "Rng (pen + 1) (rstart hr - 1)" limit] show ?thesis
        by (simp add: range_is_empty_def)
    qed
  qed
qed

end
