(* ===== verification/Syncer_Progress.thy ===== *)
theory Syncer_Progress
  imports Syncer_Batches Either_Store
begin

text \<open>
  The syncer over a store that keeps the contract \<open>header_store\<close>: which batches it asks for, when
  the store can accept them, and that a network that answers brings every header up to its head
  into the store.
\<close>

section \<open>Synced ranges\<close>

lemma canonical_add:
  assumes "canonical a" "canonical b"
  shows "\<exists>c. br_add a b = (Inr c :: ('e, block_ranges) result) \<and> canonical c \<and> heights c = heights a \<union> heights b"
proof -
  let ?f = "\<lambda>rng acc. expect_r holds_valid (insert_relaxed acc rng) :: ('e, block_ranges) result"
  have "\<exists>t. fold_r ?f b a = Inr t \<and> canonical t \<and> heights t = heights a \<union> heights b"
  proof (rule fold_r_invariant)
    show "canonical a \<and> heights a = heights a \<union> heights []" using assms(1) by simp
    fix ys x zs t
    assume b: "b = ys @ x # zs" and t: "canonical t \<and> heights t = heights a \<union> heights ys"
    have x: "range_ok x" using assms(2) b by (simp add: canonical_def)
    from canonical_insert [of t x] t x obtain u where
      "insert_relaxed t x = Inr u" "canonical u" "heights u = heights t \<union> range_set x" by blast
    with t show "\<exists>u. ?f x t = Inr u \<and> canonical u \<and> heights u = heights a \<union> heights (ys @ [x])" by auto
  qed
  then show ?thesis by (simp add: br_add_def)
qed

text \<open>The headers a missing batch will be verified against are the edges of the synced ranges.\<close>

definition edges_stored :: "store_spec \<Rightarrow> bool" where
  "edges_stored a \<longleftrightarrow> (\<forall>h \<in> heights (sp_stored a) \<union> heights (sp_pruned a).
     (h - 1 \<notin> heights (sp_stored a) \<union> heights (sp_pruned a) \<or>
      h + 1 \<notin> heights (sp_stored a) \<union> heights (sp_pruned a)) \<longrightarrow> h \<in> heights (sp_stored a))"

lemma edges_stored_insertable:
  assumes "edges_stored a" "heights synced = heights (sp_stored a) \<union> heights (sp_pruned a)"
    "range_ok r" "insertable synced r"
  shows "insertable (sp_stored a) r"
proof -
  let ?s = "heights (sp_stored a)"
  have mem: "rstart r \<in> range_set r" "rend r \<in> range_set r" and pos: "0 < rstart r"
    using assms(3) by (simp_all add: range_set_def range_ok_def)
  have r: "rstart r \<notin> heights synced" "rend r \<notin> heights synced"
    using assms(4) mem unfolding insertable_def by blast+
  have edge: "h \<in> ?s" if "h \<in> heights synced" "h - 1 \<notin> heights synced \<or> h + 1 \<notin> heights synced" for h
    using assms(1) that unfolding edges_stored_def assms(2) by blast
  have "prev_stored synced r \<Longrightarrow> prev_stored (sp_stored a) r"
    using edge [of "rstart r - 1"] r(1) pos by (simp add: prev_stored_def)
  moreover have "next_stored synced r \<Longrightarrow> next_stored (sp_stored a) r"
    using edge [of "rend r + 1"] r(2) by (simp add: next_stored_def)
  moreover have "?s \<subseteq> heights synced" using assms(2) by blast
  ultimately show ?thesis using assms(4) unfolding insertable_def by blast
qed

text \<open>Where the neighbours of a batch were pruned, and a higher header is stored, the store
  refuses it.\<close>

lemma pruned_edge_refused:
  assumes "canonical (sp_stored a)" "range_ok r" "heights (sp_stored a) \<inter> range_set r = {}"
    "rstart r - 1 \<notin> heights (sp_stored a)" "rend r + 1 \<notin> heights (sp_stored a)"
    "h \<in> heights (sp_stored a)" "rend r < h"
  shows "check_insertion_constraints (sp_stored a) r = Inl (Err (NoAdjacentNeighbors r))"
proof -
  have "\<not> h < rstart r" using assms(2,7) by (simp add: range_ok_def)
  with assms(4-6) have "\<not> insertable (sp_stored a) r"
    unfolding insertable_def prev_stored_def next_stored_def by blast
  with check_insertion_constraints_cases [of "sp_stored a" r] assms(1-3) show ?thesis by auto
qed

section \<open>Batches over a store\<close>

context header_store
begin

lemma next_batch_law:
  assumes "invar (bs_inner (sy_store w))" "0 < sy_batch_size w" "subj < u64_max"
  shows "\<exists>synced batch. next_batch ops subj w = Inr (sp_stored (abs_st (bs_inner (sy_store w))), batch) \<and>
    canonical synced \<and>
    heights synced = heights (sp_stored (abs_st (bs_inner (sy_store w)))) \<union> heights (sp_pruned (abs_st (bs_inner (sy_store w)))) \<and>
    (if missing subj synced = {} then range_is_empty batch
     else good_batch subj synced (sy_batch_size w) batch)"
proof -
  let ?a = "abs_st (bs_inner (sy_store w))"
  have can: "canonical (sp_pruned ?a)" "canonical (sp_stored ?a)"
    using invar_ok [OF assms(1)] by (auto simp: sp_ok_def)
  from canonical_add [OF can] obtain synced where
    s: "br_add (sp_pruned ?a) (sp_stored ?a) = (Inr synced :: (syncer_error, block_ranges) result)" "canonical synced"
    "heights synced = heights (sp_pruned ?a) \<union> heights (sp_stored ?a)" by blast
  from calculate_range_to_fetch_ok [OF s(2) assms(2,3)] obtain r where
    r: "calculate_range_to_fetch subj synced (sy_batch_size w) = (Inr r :: (syncer_error, block_range) result)"
    "if missing subj synced = {} then range_is_empty r else good_batch subj synced (sy_batch_size w) r" by blast
  have "next_batch ops subj w = Inr (sp_stored ?a, r)"
    by (simp add: next_batch_def ranges_law [OF assms(1)] s(1) r(1))
  with s r(2) show ?thesis by (intro exI [of _ synced] exI [of _ r]) (simp add: Un_commute)
qed

text \<open>A batch that is started was missing, is not larger than the batch size, and the worker
  was idle.\<close>

lemma fetch_next_batch_safe:
  assumes "invar (bs_inner (sy_store w))" "0 < sy_batch_size w"
    "\<forall>h. sy_subjective_head_height w = Some h \<longrightarrow> h < u64_max"
    "sy_task (snd (fetch_next_batch ops now peers w)) = Some batch" "sy_task w = None"
  defines "a \<equiv> abs_st (bs_inner (sy_store w))"
  shows "range_ok batch \<and> card (range_set batch) \<le> sy_batch_size w \<and>
    range_set batch \<inter> (heights (sp_stored a) \<union> heights (sp_pruned a)) = {} \<and>
    (edges_stored a \<longrightarrow> insertable (sp_stored a) batch)"
proof -
  from fetch_next_batch_cases [of ops now peers w] assms(4,5) obtain subj stored where
    *: "sy_subjective_head_height w = Some subj" "next_batch ops subj w = Inr (stored, batch)"
    "\<not> range_is_empty batch"
    by (auto simp: start_fetching_def)
  from next_batch_law [OF assms(1,2), of subj] assms(3) *(1,2) obtain synced where
    s: "heights synced = heights (sp_stored a) \<union> heights (sp_pruned a)"
    "if missing subj synced = {} then range_is_empty batch else good_batch subj synced (sy_batch_size w) batch"
    unfolding a_def by auto
  with *(3) have g: "good_batch subj synced (sy_batch_size w) batch" by (auto split: if_splits)
  then show ?thesis
    using s(1) edges_stored_insertable [of a synced batch] by (auto simp: good_batch_def missing_def)
qed

text \<open>Below a pruned edge the sampling window is not consulted: the header that would tell it is
  gone. The batch is requested, and the store refuses the answer.\<close>

lemma pruned_edge_requested:
  assumes "invar (bs_inner (sy_store w))" "sy_ongoing_range w = None" "sy_task w = None" "0 < peers"
    "sy_subjective_head_height w = Some subj" "next_batch ops subj w = Inr (stored, b)" "range_ok b"
    "rend b + 1 \<in> heights (sp_pruned (abs_st (bs_inner (sy_store w))))" "sy_highest_slow_sync_height w = None"
  shows "fetch_next_batch ops now peers w = (Inr (), start_fetching b w)"
proof -
  let ?a = "abs_st (bs_inner (sy_store w))"
  have ok: "sp_ok ?a" by (rule invar_ok [OF assms(1)])
  have "sp_headers ?a (rend b + 1) = None" and le: "rend b + 1 \<le> u64_max"
    using ok assms(8) heights_bounded [of "sp_pruned ?a"] by (auto simp: sp_ok_def all_heights_def)
  then have "beyond_sampling_window ops now b w = Inr False"
    using get_by_height_law [OF assms(1), of "rend b + 1"] by (simp add: beyond_sampling_window_def)
  moreover have "\<not> range_is_empty b" using range_okD [OF assms(7)] by (simp add: range_is_empty_def)
  ultimately show ?thesis using assms by (simp add: fetch_next_batch_def slow_sync_pause_def)
qed

lemma pruned_edge_insert_fails:
  assumes "invar s" "range_ok b" "span hs = b" "hs \<noteq> []" "verified_headers tm now hs = Inr hs"
    "cmd_ok (Insert now hs) (abs_st s)" "heights (sp_stored (abs_st s)) \<inter> range_set b = {}"
    "rstart b - 1 \<notin> heights (sp_stored (abs_st s))" "rend b + 1 \<in> heights (sp_pruned (abs_st s))"
    "h \<in> heights (sp_stored (abs_st s))" "rend b < h"
  shows "fst (st_insert ops now hs s) = Inl (Err (InsertionFailed (ConstraintsNotMet (NoAdjacentNeighbors b)))) \<and>
    abs_st (snd (st_insert ops now hs s)) = abs_st s"
proof -
  have ok: "sp_ok (abs_st s)" by (rule invar_ok [OF assms(1)])
  then have can: "canonical (sp_stored (abs_st s))" "rend b + 1 \<notin> heights (sp_stored (abs_st s))"
    using assms(9) by (auto simp: sp_ok_def)
  have "sp_insert tm now hs (abs_st s) = (Inl (Err (InsertionFailed (ConstraintsNotMet (NoAdjacentNeighbors b)))), abs_st s)"
    using pruned_edge_refused [OF can(1) assms(2,7,8) can(2) assms(10,11)] assms(3-5)
    by (simp add: sp_insert_def sp_check_def)
  with step_sim [OF assms(1,6)] show ?thesis by (simp add: st_step_def sp_step_def)
qed

end

section \<open>A network that answers\<close>

text \<open>The headers of the network up to its head \<open>N\<close>, as the sampling window of the node sees them
  at the time \<open>now\<close>.\<close>

definition net_ok :: "(nat \<Rightarrow> extended_header) \<Rightarrow> nat \<Rightarrow> bool" where
  "net_ok net N \<longleftrightarrow> N < u64_max \<and> (\<forall>h \<in> {1..N}. eh_height (net h) = h \<and> typed_header (net h)) \<and>
     (\<forall>h. 1 \<le> h \<longrightarrow> h < N \<longrightarrow> linked (net h) (net (h + 1))) \<and>
     (\<forall>h \<in> {1..N}. \<forall>k \<in> {1..N}. eh_hash (net h) = eh_hash (net k) \<longrightarrow> h = k)"

definition net_recent :: "(nat \<Rightarrow> extended_header) \<Rightarrow> nat \<Rightarrow> duration \<Rightarrow> duration \<Rightarrow> time \<Rightarrow> bool" where
  "net_recent net N sw pw now \<longleftrightarrow> clock_ok now \<and> (\<forall>h \<in> {1..N}. timely now (net h) \<and>
     time_saturating_sub now sw < eh_time (net h) \<and> time_saturating_sub now pw < eh_time (net h))"

definition net_range :: "(nat \<Rightarrow> extended_header) \<Rightarrow> block_range \<Rightarrow> extended_header list" where
  "net_range net r = map net [rstart r..<Suc (rend r)]"

lemma net_range_length [simp]: "length (net_range net r) = Suc (rend r) - rstart r"
  by (simp add: net_range_def del: upt_Suc)

lemma net_range_nth: "i < Suc (rend r) - rstart r \<Longrightarrow> net_range net r ! i = net (rstart r + i)"
  by (simp add: net_range_def del: upt_Suc)

lemma net_linked:
  assumes "net_ok net N" "1 \<le> h" "h < N"
  shows "linked (net h) (net (h + 1))"
  using assms unfolding net_ok_def by blast

lemma net_range_linked:
  assumes "net_ok net N" "range_ok r" "rend r \<le> N"
  shows "successively linked (net_range net r)"
  unfolding successively_conv_nth
proof (intro allI impI)
  fix i
  assume i: "Suc i < length (net_range net r)"
  then have h: "1 \<le> rstart r + i" "rstart r + i < N" using range_okD [OF assms(2)] assms(3) by auto
  from net_linked [OF assms(1) h] have "linked (net (rstart r + i)) (net (rstart r + i + 1))" .
  with i show "linked (net_range net r ! i) (net_range net r ! Suc i)" by (simp add: net_range_nth)
qed

lemma net_range_set: "set (net_range net r) = net ` range_set r"
  by (auto simp: net_range_def range_set_def simp del: upt_Suc)

lemma net_range_ends:
  assumes "range_ok r"
  shows "net_range net r \<noteq> []" "hd (net_range net r) = net (rstart r)" "last (net_range net r) = net (rend r)"
proof -
  note r = range_okD [OF assms]
  show ne: "net_range net r \<noteq> []" using r by (simp flip: length_greater_0_conv)
  show "hd (net_range net r) = net (rstart r)" using r ne by (simp add: hd_conv_nth net_range_nth)
  show "last (net_range net r) = net (rend r)" using r ne by (simp add: last_conv_nth net_range_nth)
qed

text \<open>The store holds headers of the network only.\<close>

definition holds_net :: "(nat \<Rightarrow> extended_header) \<Rightarrow> nat \<Rightarrow> store_spec \<Rightarrow> bool" where
  "holds_net net N a \<longleftrightarrow> sp_ok a \<and> sp_pruned a = [] \<and>
     (\<forall>h x. sp_headers a h = Some x \<longrightarrow> h \<le> N \<and> x = net h)"

lemma net_height:
  assumes "net_ok net N" "h \<in> {1..N}"
  shows "eh_height (net h) = h" "typed_header (net h)" "h < u64_max"
proof -
  have "\<forall>h \<in> {1..N}. eh_height (net h) = h \<and> typed_header (net h)" "N < u64_max"
    using assms(1) unfolding net_ok_def by blast+
  with assms(2) show "eh_height (net h) = h" "typed_header (net h)" "h < u64_max" by auto
qed

lemma net_recentD:
  assumes "net_recent net N sw pw now"
  shows "clock_ok now" "h \<in> {1..N} \<Longrightarrow> timely now (net h)"
    "h \<in> {1..N} \<Longrightarrow> time_saturating_sub now sw < eh_time (net h)"
    "h \<in> {1..N} \<Longrightarrow> time_saturating_sub now pw < eh_time (net h)"
  using assms unfolding net_recent_def by blast+

lemma net_verified:
  assumes "net_ok net N" "net_recent net N sw pw now" "range_ok r" "rend r \<le> N"
  shows "verified_headers tm now (net_range net r) = Inr (net_range net r)"
proof -
  obtain x xs where xs: "net_range net r = x # xs" using net_range_ends(1) [OF assms(3)] by (meson neq_Nil_conv)
  have "range_set r \<subseteq> {1..N}" using range_okD [OF assms(3)] assms(4) by (auto simp: range_set_def)
  then have "\<exists>h \<in> {1..N}. y = net h" if "y \<in> set (x # xs)" for y
    using that net_range_set [of net r] unfolding xs by blast
  then have mem: "\<forall>y \<in> set (x # xs). \<exists>h \<in> {1..N}. y = net h" by blast
  have "\<forall>y \<in> set (x # xs). eh_height y < u64_max \<and> timely now y"
  proof
    fix y
    assume "y \<in> set (x # xs)"
    with mem obtain h where h: "h \<in> {1..N}" "y = net h" by blast
    from net_recentD(2) [OF assms(2) h(1)] h(2) have "timely now y" by simp
    with net_height [OF assms(1) h(1)] h(2) show "eh_height y < u64_max \<and> timely now y" by simp
  qed
  moreover have "successively linked (x # xs)" using net_range_linked [OF assms(1,3,4)] xs by simp
  moreover have "clock_ok now" by (rule net_recentD(1) [OF assms(2)])
  ultimately have "eh_verify_adjacent_range tm now x xs = Inr ()"
    using eh_verify_adjacent_range_iff [of now x xs tm] by simp
  then show ?thesis by (simp add: verified_headers_def xs)
qed

lemma holds_net_Some:
  assumes "holds_net net N a" "sp_headers a h = Some x"
  shows "x = net h" "h \<in> {1..N}"
  using assms sp_ok_height(1) [of a h x] by (auto simp: holds_net_def)

text \<open>The neighbours of a batch are headers of the network, so they verify.\<close>

lemma net_check:
  assumes net: "net_ok net N" "net_recent net N sw pw now" and r: "range_ok r" "rend r \<le> N"
    and a: "holds_net net N a" "insertable (sp_stored a) r"
  shows "sp_check tm now (net_range net r) a = Inr ()"
proof -
  note e = net_range_ends [OF r(1)]
  have b: "rstart r \<in> {1..N}" "rend r \<in> {1..N}" using range_okD [OF r(1)] r(2) by auto
  have sp: "span (net_range net r) = r" using e net_height(1) [OF net(1)] b by (cases r) (simp add: span_def)
  have ok: "sp_ok a" and dom: "heights (sp_stored a) = dom (sp_headers a)" and wf: "br_wf (sp_stored a)"
    using a(1) by (auto simp: holds_net_def sp_ok_def)
  have verify: "eh_verify tm now (net h) (net (h + 1)) = Inr ()" if "h \<in> {1..N}" "h + 1 \<in> {1..N}" for h
  proof -
    have "clock_ok now" "timely now (net (h + 1))" "linked (net h) (net (h + 1))"
      using net_recentD(1,2) [OF net(2)] net_linked [OF net(1), of h] that by simp_all
    with eh_verify_iff [of now "net h" tm "net (h + 1)"] net_height [OF net(1) that(1)] show ?thesis
      by (simp add: linked_def)
  qed
  let ?p = "prev_stored (sp_stored a) r" and ?n = "next_stored (sp_stored a) r"
  have chk: "check_insertion_constraints (sp_stored a) r = Inr (?p, ?n)"
    using check_insertion_ok_iff [OF wf r(1)] a(2) by simp
  have p: "eh_verify tm now (the (sp_headers a (rstart r - 1))) (net (rstart r)) = Inr ()" if ?p
  proof -
    from that dom obtain x where x: "sp_headers a (rstart r - 1) = Some x" by (auto simp: prev_stored_def)
    from holds_net_Some [OF a(1) x] verify [of "rstart r - 1"] b x show ?thesis by simp
  qed
  have n: "eh_verify tm now (net (rend r)) (the (sp_headers a (rend r + 1))) = Inr ()" if ?n
  proof -
    from that dom obtain x where x: "sp_headers a (rend r + 1) = Some x" by (auto simp: next_stored_def)
    from holds_net_Some [OF a(1) x] verify [of "rend r"] b x show ?thesis by simp
  qed
  have "eh_height (net (rstart r)) = rstart r" "eh_height (net (rend r)) = rend r"
    using net_height(1) [OF net(1)] b by simp_all
  with p n show ?thesis
    by (simp add: sp_check_def sp chk sp_neighbours_def then_some_def verify_err_def e)
qed

lemma net_fresh:
  assumes "net_ok net N" "range_ok r" "rend r \<le> N" "holds_net net N a" "insertable (sp_stored a) r"
  shows "fresh_hashes (net_range net r) (sp_headers a)" "typed_headers (net_range net r)"
proof -
  have sub: "range_set r \<subseteq> {1..N}" using range_okD [OF assms(2)] assms(3) by (auto simp: range_set_def)
  have inj: "h = k" if "h \<in> {1..N}" "k \<in> {1..N}" "eh_hash (net h) = eh_hash (net k)" for h k
    using assms(1) that unfolding net_ok_def by blast
  have "inj_on (\<lambda>h. eh_hash (net h)) (set [rstart r..<Suc (rend r)])"
    using inj sub by (intro inj_onI) (auto simp: range_set_def simp del: upt_Suc)
  then have "distinct (map (\<lambda>h. eh_hash (net h)) [rstart r..<Suc (rend r)])" by (simp add: distinct_map del: upt_Suc)
  then have dist: "distinct (map eh_hash (net_range net r))" by (simp add: net_range_def comp_def del: upt_Suc)
  have dom: "heights (sp_stored a) = dom (sp_headers a)" using assms(4) by (simp add: holds_net_def sp_ok_def)
  have new: "eh_hash y \<noteq> eh_hash (net k)" if "k \<in> range_set r" "sp_headers a h = Some y" for k h y
  proof
    assume "eh_hash y = eh_hash (net k)"
    with inj [of h k] holds_net_Some [OF assms(4) that(2)] sub that(1) have "h = k" by auto
    with that dom assms(5) show False by (auto simp: insertable_def)
  qed
  show "fresh_hashes (net_range net r) (sp_headers a)"
    unfolding fresh_hashes_def net_range_set using dist new by blast
  show "typed_headers (net_range net r)"
    unfolding typed_headers_def net_range_set using net_height(2) [OF assms(1)] sub by blast
qed

lemma net_insert:
  assumes net: "net_ok net N" "net_recent net N sw pw now" and r: "range_ok r" "rend r \<le> N"
    and a: "holds_net net N a" "insertable (sp_stored a) r"
  shows "\<exists>a'. sp_insert tm now (net_range net r) a = (Inr (), a') \<and> holds_net net N a' \<and>
    heights (sp_stored a') = heights (sp_stored a) \<union> range_set r \<and> cmd_ok (Insert now (net_range net r)) a"
proof -
  let ?hs = "net_range net r"
  note e = net_range_ends [OF r(1)] and f = net_fresh [OF net(1) r a]
  have b: "rstart r \<in> {1..N}" "rend r \<in> {1..N}" using range_okD [OF r(1)] r(2) by auto
  have sp: "span ?hs = r" using e net_height(1) [OF net(1)] b by (cases r) (simp add: span_def)
  have ok: "sp_ok a" and can: "canonical (sp_stored a)" "canonical (sp_sampled a)" "canonical (sp_pruned a)"
    using a(1) by (auto simp: holds_net_def sp_ok_def)
  from update_ranges_ok [OF can r(1)] obtain st sm pr where
    u: "update_ranges (sp_stored a) (sp_sampled a) (sp_pruned a) r = Inr (st, sm, pr)" "canonical pr"
    "heights st = heights (sp_stored a) \<union> range_set r" "heights pr = heights (sp_pruned a) - range_set r" .
  define a' where "a' = a\<lparr>sp_headers := enter_headers ?hs (sp_headers a), sp_stored := st, sp_sampled := sm, sp_pruned := pr\<rparr>"
  have ins: "sp_insert tm now ?hs a = (Inr (), a')"
    using net_verified [OF net r, of tm] net_check [OF net r a, of tm] e(1) u(1) by (simp add: sp_insert_def sp a'_def)
  have "sp_ok a'" using sp_insert_ok [OF ok f(2,1), of tm now] ins by simp
  moreover have "sp_pruned a' = []"
    using u(2,4) a(1) heights_eq_empty [of pr] by (simp add: a'_def holds_net_def)
  moreover have "h \<le> N \<and> x = net h" if "sp_headers a' h = Some x" for h x
  proof -
    have dist: "distinct (map eh_height ?hs)" by (rule linked_distinct_heights [OF net_range_linked [OF net(1) r]])
    from that have "(x \<in> set ?hs \<and> eh_height x = h) \<or> sp_headers a h = Some x"
      by (auto simp: a'_def enter_headers_Some [OF dist])
    then show ?thesis
      using holds_net_Some [OF a(1)] net_height(1) [OF net(1)] b unfolding net_range_set
      by (auto simp: range_set_def)
  qed
  ultimately have "holds_net net N a'" by (simp add: holds_net_def)
  moreover have "cmd_ok (Insert now ?hs) a" using f net(2) by (simp add: cmd_ok_def net_recent_def)
  ultimately show ?thesis using ins u(3) by (auto simp: a'_def)
qed

section \<open>Rounds\<close>

text \<open>A round: the network answers the running request, if there is one, with its headers.\<close>

definition sync_round ::
  "'s store_ops \<Rightarrow> (nat \<Rightarrow> bool) \<Rightarrow> time \<Rightarrow> nat \<Rightarrow> (nat \<Rightarrow> extended_header) \<Rightarrow> phase \<times> 's syncer \<Rightarrow> phase \<times> 's syncer"
where
  "sync_round ops rx now peers net st = (case sy_task (snd st) of
      None \<Rightarrow> st
    | Some b \<Rightarrow> syncer_event_step ops rx now peers (BatchDone (Inr (net_range net b)) 0) st)"

fun sync_rounds ::
  "'s store_ops \<Rightarrow> (nat \<Rightarrow> bool) \<Rightarrow> (nat \<Rightarrow> time) \<Rightarrow> nat \<Rightarrow> (nat \<Rightarrow> extended_header) \<Rightarrow> nat \<Rightarrow>
   phase \<times> 's syncer \<Rightarrow> phase \<times> 's syncer"
where
  "sync_rounds ops rx now peers net 0 st = st"
| "sync_rounds ops rx now peers net (Suc n) st =
     sync_round ops rx (now n) peers net (sync_rounds ops rx now peers net n st)"

text \<open>The head of the network is stored and announced, and what else is stored is below it.\<close>

definition at_head :: "(nat \<Rightarrow> extended_header) \<Rightarrow> nat \<Rightarrow> store_spec \<Rightarrow> 's syncer \<Rightarrow> bool" where
  "at_head net N a w \<longleftrightarrow> holds_net net N a \<and> N \<in> heights (sp_stored a) \<and>
     sy_subjective_head_height w = Some N \<and> 0 < sy_batch_size w \<and>
     bs_last_sent_height (sy_store w) = Some N \<and> sy_highest_slow_sync_height w = None"

definition catching_up :: "(nat \<Rightarrow> extended_header) \<Rightarrow> nat \<Rightarrow> store_spec \<Rightarrow> 's syncer \<Rightarrow> bool" where
  "catching_up net N a w \<longleftrightarrow> at_head net N a w \<and> sy_ongoing_range w = sy_task w \<and>
     (case sy_task w of
        None \<Rightarrow> missing N (sp_stored a) = {}
      | Some b \<Rightarrow> good_batch N (sp_stored a) (sy_batch_size w) b)"

lemma at_head_top:
  assumes "at_head net N a w"
  shows "sync_top N (sp_stored a) = N" "1 \<le> N" "\<forall>h \<in> heights (sp_stored a). h \<le> N"
proof -
  have ok: "sp_ok a" and N: "N \<in> heights (sp_stored a)" using assms by (auto simp: at_head_def holds_net_def)
  have wf: "br_wf (sp_stored a)" and dom: "heights (sp_stored a) = dom (sp_headers a)" using ok by (auto simp: sp_ok_def)
  show le: "\<forall>h \<in> heights (sp_stored a). h \<le> N"
    using assms dom by (auto simp: at_head_def holds_net_def)
  have "br_head (sp_stored a) = Some N" using br_head_Some_iff [OF wf] N le by simp
  then show "sync_top N (sp_stored a) = N" by (simp add: sync_top_def)
  show "1 \<le> N" using N heights_bounded [OF wf] by (auto simp: all_heights_def)
qed

text \<open>Every header of the network is after the pruning cutoff: no slow sync.\<close>

lemma slow_sync_scan_recent:
  "\<forall>x \<in> set xs. cutoff < eh_time x \<Longrightarrow> slow_sync_scan cutoff xs None = None"
  by (induction xs) auto

lemma good_batch_below:
  assumes "at_head net N a w" "good_batch N (sp_stored a) limit b"
  shows "range_ok b" "rend b < N" "insertable (sp_stored a) b" "range_set b \<subseteq> {1..N}"
proof -
  have b: "range_ok b" "range_set b \<subseteq> {1..N} - heights (sp_stored a)" "insertable (sp_stored a) b"
    using assms(2) at_head_top(1) [OF assms(1)] by (simp_all add: good_batch_def missing_def)
  have "rend b \<in> range_set b" using range_okD [OF b(1)] by (simp add: range_set_def)
  with b(2) have "rend b \<le> N" "rend b \<noteq> N" using assms(1) by (auto simp: at_head_def)
  with b show "range_ok b" "rend b < N" "insertable (sp_stored a) b" "range_set b \<subseteq> {1..N}" by auto
qed

context header_store
begin

lemma fetch_catches_up:
  assumes net: "net_ok net N" "net_recent net N (sy_sampling_window w) pw now" and "0 < peers"
    and inv: "invar (bs_inner (sy_store w))"
    and w: "at_head net N (abs_st (bs_inner (sy_store w))) w" "sy_task w = None" "sy_ongoing_range w = None"
  shows "\<exists>w'. fetch_next_batch ops now peers w = (Inr (), w') \<and> sy_store w' = sy_store w \<and>
    sy_sampling_window w' = sy_sampling_window w \<and> sy_pruning_window w' = sy_pruning_window w \<and>
    catching_up net N (abs_st (bs_inner (sy_store w))) w'"
proof -
  let ?a = "abs_st (bs_inner (sy_store w))"
  have subj: "sy_subjective_head_height w = Some N" "0 < sy_batch_size w" "sy_highest_slow_sync_height w = None"
    and hold: "holds_net net N ?a" using w(1) by (auto simp: at_head_def)
  have N: "N < u64_max" using net(1) by (simp add: net_ok_def)
  from next_batch_law [OF inv subj(2) N] obtain synced batch where
    b: "next_batch ops N w = Inr (sp_stored ?a, batch)" "canonical synced"
    "heights synced = heights (sp_stored ?a) \<union> heights (sp_pruned ?a)"
    "if missing N synced = {} then range_is_empty batch else good_batch N synced (sy_batch_size w) batch" by blast
  have "canonical (sp_stored ?a)" "sp_pruned ?a = []" using hold by (auto simp: holds_net_def sp_ok_def)
  with b(2,3) have s: "synced = sp_stored ?a" by (simp add: canonical_eqI)
  show ?thesis
  proof (cases "missing N (sp_stored ?a) = {}")
    case True
    then have "fetch_next_batch ops now peers w = (Inr (), w)"
      using b(1,4) s w(2,3) subj(1) assms(3) by (simp add: fetch_next_batch_def)
    with True w show ?thesis by (simp add: catching_up_def)
  next
    case False
    then have g: "good_batch N (sp_stored ?a) (sy_batch_size w) batch" using b(4) s by simp
    note gb = good_batch_below [OF w(1) g]
    have ne: "\<not> range_is_empty batch" using range_okD [OF gb(1)] by (simp add: range_is_empty_def)
    have "\<not> time_saturating_sub now (sy_sampling_window w) \<ge> eh_time x"
      if "sp_headers ?a (rend batch + 1) = Some x" for x
      using holds_net_Some [OF hold that] net_recentD(3) [OF net(2), of "rend batch + 1"] by simp
    then have "beyond_sampling_window ops now batch w = Inr False"
      using gb(2) N get_by_height_law [OF inv, of "rend batch + 1"]
      by (cases "sp_headers ?a (rend batch + 1)")
        (auto simp: beyond_sampling_window_def in_sampling_window_def)
    then have "fetch_next_batch ops now peers w = (Inr (), start_fetching batch w)"
      using b(1) ne w(2,3) subj assms(3) by (simp add: fetch_next_batch_def slow_sync_pause_def)
    moreover have "catching_up net N ?a (start_fetching batch w)"
      using g w(1) by (simp add: catching_up_def start_fetching_def at_head_def)
    ultimately show ?thesis by (simp add: start_fetching_def)
  qed
qed

lemma insert_net:
  assumes "net_ok net N" "net_recent net N sw pw now" "range_ok r" "rend r \<le> N"
    "invar s" "holds_net net N (abs_st s)" "insertable (sp_stored (abs_st s)) r"
  shows "\<exists>s'. st_insert ops now (net_range net r) s = (Inr (), s') \<and> invar s' \<and> holds_net net N (abs_st s') \<and>
    heights (sp_stored (abs_st s')) = heights (sp_stored (abs_st s)) \<union> range_set r"
proof -
  from net_insert [OF assms(1-4,6,7), of tm] obtain a' where
    a': "sp_insert tm now (net_range net r) (abs_st s) = (Inr (), a')" "holds_net net N a'"
    "heights (sp_stored a') = heights (sp_stored (abs_st s)) \<union> range_set r"
    "cmd_ok (Insert now (net_range net r)) (abs_st s)" by blast
  from step_sim [OF assms(5) a'(4)] a'(1) have
    "invar (snd (st_insert ops now (net_range net r) s))" "fst (st_insert ops now (net_range net r) s) = Inr ()"
    "abs_st (snd (st_insert ops now (net_range net r) s)) = a'"
    by (simp_all add: st_step_def sp_step_def)
  with a'(2,3) show ?thesis by (metis prod.collapse)
qed

text \<open>One round stores the running batch and asks for the next.\<close>

lemma round_catches_up:
  assumes net: "net_ok net N" "net_recent net N (sy_sampling_window w) (sy_pruning_window w) now" and "0 < peers"
    and inv: "invar (bs_inner (sy_store w))" and task: "sy_task w = Some b"
    and c: "catching_up net N (abs_st (bs_inner (sy_store w))) w"
  shows "\<exists>w'. sync_round ops rx now peers net (Connected, w) = (Connected, w') \<and>
    invar (bs_inner (sy_store w')) \<and> catching_up net N (abs_st (bs_inner (sy_store w'))) w' \<and>
    sy_sampling_window w' = sy_sampling_window w \<and> sy_pruning_window w' = sy_pruning_window w \<and>
    heights (sp_stored (abs_st (bs_inner (sy_store w')))) =
      heights (sp_stored (abs_st (bs_inner (sy_store w)))) \<union> range_set b"
proof -
  let ?s = "bs_inner (sy_store w)" and ?hs = "net_range net b"
  have h: "at_head net N (abs_st ?s) w" "sy_ongoing_range w = Some b"
    and g: "good_batch N (sp_stored (abs_st ?s)) (sy_batch_size w) b" using c task by (auto simp: catching_up_def)
  note gb = good_batch_below [OF h(1) g]
  have hd: "holds_net net N (abs_st ?s)" "bs_last_sent_height (sy_store w) = Some N" "sy_highest_slow_sync_height w = None"
    using h(1) by (auto simp: at_head_def)
  from insert_net [OF net gb(1) less_imp_le [OF gb(2)] inv hd(1) gb(3)] obtain s' where
    s': "st_insert ops now ?hs ?s = (Inr (), s')" "invar s'" "holds_net net N (abs_st s')"
    "heights (sp_stored (abs_st s')) = heights (sp_stored (abs_st ?s)) \<union> range_set b" by blast
  note e = net_range_ends [OF gb(1), of net] and rb = range_okD [OF gb(1)]
  have ht: "eh_height (net (rstart b)) = rstart b" "eh_height (net (rend b)) = rend b"
    using net_height(1) [OF net(1)] rb gb(2) by simp_all
  obtain x xs where hs: "?hs = x # xs" using e(1) by (meson neq_Nil_conv)
  have x: "eh_height x = rstart b" "eh_height (last (x # xs)) = rend b" using e ht hs by simp_all
  have ann: "announce_insert ops rx now ?hs (sy_store w) = (Inr (), (sy_store w)\<lparr>bs_inner := s'\<rparr>)"
    using s'(1) hd(2) gb(2) rb x unfolding hs by (simp add: announce_insert_def)
  have "range_set b \<subseteq> {1..N}" by (rule gb(4))
  then have scan: "slow_sync_scan (time_saturating_sub now (sy_pruning_window w)) (rev ?hs) None = None"
    using net_recentD(4) [OF net(2)] by (intro slow_sync_scan_recent) (auto simp: net_range_set)
  define w1 where "w1 = publish (FetchingHeadersFinished (rstart b) (rend b) 0)
    (w\<lparr>sy_task := None, sy_ongoing_range := None, sy_store := (sy_store w)\<lparr>bs_inner := s'\<rparr>\<rparr>)"
  have res: "on_fetch_next_batch_result ops rx now (Inr ?hs) 0 (w\<lparr>sy_task := None\<rparr>) = (Inr (), w1)"
    using h(2) hd(3) ann scan by (simp add: on_fetch_next_batch_result_def Let_def w1_def publish_def)
  have "at_head net N (abs_st (bs_inner (sy_store w1))) w1"
    using h(1) s'(3,4) by (simp add: at_head_def w1_def)
  with fetch_catches_up [of net N w1 "sy_pruning_window w" now peers] net assms(3) s'(2) obtain w' where
    w': "fetch_next_batch ops now peers w1 = (Inr (), w')" "sy_store w' = sy_store w1"
    "sy_sampling_window w' = sy_sampling_window w1" "sy_pruning_window w' = sy_pruning_window w1"
    "catching_up net N (abs_st (bs_inner (sy_store w1))) w'"
    by (auto simp: w1_def)
  have "sync_round ops rx now peers net (Connected, w) = (Connected, w')"
    using task res w'(1) by (simp add: sync_round_def syncer_event_step_def connected_event_def or_failed_def)
  with w'(2-5) s' show ?thesis by (simp add: w1_def)
qed

lemma rounds_catch_up:
  assumes net: "net_ok net N" "\<And>n. net_recent net N (sy_sampling_window w) (sy_pruning_window w) (now n)" and "0 < peers"
    and inv: "invar (bs_inner (sy_store w))" and c: "catching_up net N (abs_st (bs_inner (sy_store w))) w"
  shows "\<exists>w'. sync_rounds ops rx now peers net n (Connected, w) = (Connected, w') \<and>
    invar (bs_inner (sy_store w')) \<and> catching_up net N (abs_st (bs_inner (sy_store w'))) w' \<and>
    sy_sampling_window w' = sy_sampling_window w \<and> sy_pruning_window w' = sy_pruning_window w \<and>
    card (missing N (sp_stored (abs_st (bs_inner (sy_store w'))))) \<le>
      card (missing N (sp_stored (abs_st (bs_inner (sy_store w))))) - n"
proof (induction n)
  case 0
  with inv c show ?case by simp
next
  case (Suc n)
  let ?m = "\<lambda>w. missing N (sp_stored (abs_st (bs_inner (sy_store w))))"
  from Suc obtain v where
    v: "sync_rounds ops rx now peers net n (Connected, w) = (Connected, v)" "invar (bs_inner (sy_store v))"
    "catching_up net N (abs_st (bs_inner (sy_store v))) v"
    "sy_sampling_window v = sy_sampling_window w" "sy_pruning_window v = sy_pruning_window w"
    "card (?m v) \<le> card (?m w) - n" by blast
  show ?case
  proof (cases "sy_task v")
    case None
    then have "?m v = {}" using v(3) by (simp add: catching_up_def)
    with None v show ?thesis by (simp add: sync_round_def)
  next
    case (Some b)
    have nr: "net_recent net N (sy_sampling_window v) (sy_pruning_window v) (now n)" using net(2) v(4,5) by simp
    from round_catches_up [OF net(1) nr assms(3) v(2) Some v(3)] obtain w' where
      w': "sync_round ops rx (now n) peers net (Connected, v) = (Connected, w')" "invar (bs_inner (sy_store w'))"
      "catching_up net N (abs_st (bs_inner (sy_store w'))) w'"
      "sy_sampling_window w' = sy_sampling_window v" "sy_pruning_window w' = sy_pruning_window v"
      "heights (sp_stored (abs_st (bs_inner (sy_store w')))) =
        heights (sp_stored (abs_st (bs_inner (sy_store v)))) \<union> range_set b" by blast
    have h: "at_head net N (abs_st (bs_inner (sy_store v))) v" "at_head net N (abs_st (bs_inner (sy_store w'))) w'"
      and g: "good_batch N (sp_stored (abs_st (bs_inner (sy_store v)))) (sy_batch_size v) b"
      using v(3) w'(3) Some by (auto simp: catching_up_def)
    have "?m w' = ?m v - range_set b"
      using at_head_top(1) [OF h(1)] at_head_top(1) [OF h(2)] w'(6) by (auto simp: missing_def)
    moreover have "rend b \<in> ?m v \<inter> range_set b"
      using g by (auto simp: good_batch_def range_set_def range_ok_def)
    ultimately have "?m w' \<subset> ?m v" by blast
    then have "card (?m w') < card (?m v)" by (simp add: psubset_card_mono)
    with v w' show ?thesis by simp
  qed
qed

text \<open>From an empty store and the answer to the first request for the head.\<close>

lemma init_catches_up:
  assumes net: "net_ok net N" "net_recent net N sw pw now0" "net_recent net N sw pw now" and "0 < peers" "1 \<le> N" "0 < bsize"
    and inv: "invar s0" "abs_st s0 = sp_new"
  shows "\<exists>w. syncer_event_step ops rx now peers
      (InitRound \<lparr>ia_connected = Inr (), ia_head = Inr (net N), ia_now = now0\<rparr> took (Inr ()))
      (enter_connecting ops (syncer_new s0 bsize sw pw)) = (Connected, w) \<and>
    invar (bs_inner (sy_store w)) \<and> catching_up net N (abs_st (bs_inner (sy_store w))) w \<and>
    sy_sampling_window w = sw \<and> sy_pruning_window w = pw"
proof -
  let ?w0 = "syncer_new s0 bsize sw pw" and ?r = "Rng N N"
  have N: "N < u64_max" using net(1) by (simp add: net_ok_def)
  have r: "range_ok ?r" "rend ?r \<le> N" using assms(5) N by simp_all
  have nr: "net_range net ?r = [net N]" by (simp add: net_range_def)
  have a0: "holds_net net N (abs_st s0)" "insertable (sp_stored (abs_st s0)) ?r"
    unfolding inv(2) by (simp_all add: holds_net_def) (simp_all add: sp_new_def insertable_def)
  from insert_net [OF net(1,2) r inv(1) a0] obtain s1 where
    s1: "st_insert ops now0 [net N] s0 = (Inr (), s1)" "invar s1" "holds_net net N (abs_st s1)"
    "heights (sp_stored (abs_st s1)) = {N}"
    unfolding nr inv(2) by (auto simp: sp_new_def)
  have w0: "enter_connecting ops ?w0 = (Connecting False, ?w0)"
    by (simp add: enter_connecting_def or_failed_def report_def get_syncing_info_def ranges_law(1) [OF inv(1)]
        syncer_new_def bs_new_def)
  have head: "st_get_head ops s0 = Inl (Err NotFound)"
    unfolding get_head_law [OF inv(1)] inv(2) by (simp add: sp_new_def br_head_def)
  define w1 where "w1 = (publish FetchingHeadHeaderStarted ?w0)\<lparr>sy_store := (sy_store ?w0)\<lparr>bs_inner := s1\<rparr>\<rparr>"
  have init: "try_init ops \<lparr>ia_connected = Inr (), ia_head = Inr (net N), ia_now = now0\<rparr> False ?w0 = (Inr (net N), True, w1)"
    using head s1(1) by (simp add: try_init_def w1_def syncer_new_def bs_new_def)
  have hN: "eh_height (net N) = N" using net_height(1) [OF net(1), of N] assms(5) by simp
  define w2 where "w2 = snd (on_network_head ops rx (net N) took (Inr ()) w1)"
  have w2: "on_network_head ops rx (net N) took (Inr ()) w1 = (Inr (), w2)"
    by (simp add: w2_def on_network_head_def Let_def)
  have fields: "bs_inner (sy_store w2) = s1" "sy_subjective_head_height w2 = Some N" "sy_batch_size w2 = bsize"
    "bs_last_sent_height (sy_store w2) = Some N" "sy_highest_slow_sync_height w2 = None" "sy_task w2 = None"
    "sy_ongoing_range w2 = None" "sy_sampling_window w2 = sw" "sy_pruning_window w2 = pw"
    by (simp_all add: w2_def on_network_head_def Let_def w1_def syncer_new_def bs_new_def hN
        set_subjective_head_height_def init_broadcast_def channel_send_def publish_def)
  have "at_head net N (abs_st s1) w2" using s1(3,4) fields assms(6) by (simp add: at_head_def)
  with fetch_catches_up [of net N w2 pw now peers] net(1,3) assms(4) s1(2) fields obtain w' where
    w': "fetch_next_batch ops now peers w2 = (Inr (), w')" "sy_store w' = sy_store w2"
    "sy_sampling_window w' = sw" "sy_pruning_window w' = pw" "catching_up net N (abs_st s1) w'" by auto
  have "report ops w' = (Inr (), w')"
    using ranges_law(1) [OF s1(2)] w'(2) fields(1) by (simp add: report_def get_syncing_info_def)
  then have "enter_connected ops now peers w2 = (Connected, w')"
    using assms(4) w'(1) by (simp add: enter_connected_def or_failed_def)
  then have "syncer_event_step ops rx now peers
      (InitRound \<lparr>ia_connected = Inr (), ia_head = Inr (net N), ia_now = now0\<rparr> took (Inr ()))
      (enter_connecting ops ?w0) = (Connected, w')"
    by (simp add: w0 syncer_event_step_def connecting_event_def init w2)
  with w' s1(2) fields(1) show ?thesis by simp
qed

text \<open>Together: after as many rounds as the network has headers, all of them are stored.\<close>

lemma node_catches_up:
  assumes net: "net_ok net N" "net_recent net N sw pw now0" "\<And>n. net_recent net N sw pw (now n)"
    and "0 < peers" "1 \<le> N" "0 < bsize" and inv: "invar s0" "abs_st s0 = sp_new" and "N \<le> n"
    and now1: "net_recent net N sw pw now1"
  shows "\<exists>w. sync_rounds ops rx now peers net n (syncer_event_step ops rx now1 peers
      (InitRound \<lparr>ia_connected = Inr (), ia_head = Inr (net N), ia_now = now0\<rparr> took (Inr ()))
      (enter_connecting ops (syncer_new s0 bsize sw pw))) = (Connected, w) \<and> invar (bs_inner (sy_store w)) \<and>
    (\<forall>h \<in> {1..N}. st_get_by_height ops h (bs_inner (sy_store w)) = Inr (net h))"
proof -
  from init_catches_up [OF net(1,2) now1 assms(4-8), of rx took] obtain v where
    v: "syncer_event_step ops rx now1 peers
      (InitRound \<lparr>ia_connected = Inr (), ia_head = Inr (net N), ia_now = now0\<rparr> took (Inr ()))
      (enter_connecting ops (syncer_new s0 bsize sw pw)) = (Connected, v)"
    "invar (bs_inner (sy_store v))" "catching_up net N (abs_st (bs_inner (sy_store v))) v"
    "sy_sampling_window v = sw" "sy_pruning_window v = pw" by blast
  from rounds_catch_up [of net N v now peers rx n] net(1,3) assms(4) v obtain w where
    w: "sync_rounds ops rx now peers net n (Connected, v) = (Connected, w)" "invar (bs_inner (sy_store w))"
    "catching_up net N (abs_st (bs_inner (sy_store w))) w"
    "card (missing N (sp_stored (abs_st (bs_inner (sy_store w))))) \<le>
      card (missing N (sp_stored (abs_st (bs_inner (sy_store v))))) - n" by auto
  let ?a = "abs_st (bs_inner (sy_store w))"
  have h: "at_head net N (abs_st (bs_inner (sy_store v))) v" "at_head net N ?a w"
    using v(3) w(3) by (auto simp: catching_up_def)
  have "missing N (sp_stored (abs_st (bs_inner (sy_store v)))) \<subseteq> {1..N}"
    using at_head_top(1) [OF h(1)] by (auto simp: missing_def)
  from card_mono [OF _ this] assms(9) w(4) have "missing N (sp_stored ?a) = {}" by simp
  then have "{1..N} \<subseteq> heights (sp_stored ?a)" using at_head_top(1) [OF h(2)] by (auto simp: missing_def)
  moreover have hold: "holds_net net N ?a" using h(2) by (simp add: at_head_def)
  then have "heights (sp_stored ?a) = dom (sp_headers ?a)" by (simp add: holds_net_def sp_ok_def)
  ultimately have "sp_headers ?a h = Some (net h)" if "h \<in> {1..N}" for h
    using that holds_net_Some(1) [OF hold, of h] by (cases "sp_headers ?a h") auto
  then show ?thesis using v(1) w(1,2) get_by_height_law [OF w(2)] by auto
qed

end

end
