(* ===== verification/Store_Properties.thy ===== *)
theory Store_Properties
  imports Either_Store "HOL-Library.Countable"
begin



lemma cmds_ok_run_ok: "sp_ok a \<Longrightarrow> cmds_ok tm cs a \<Longrightarrow> sp_ok (snd (sp_run tm cs a))"
proof (induction cs arbitrary: a)
  case (Cons c cs)
  then have "sp_ok (snd (sp_step tm c a))" by (simp add: sp_step_ok)
  with Cons show ?case by (simp add: Let_def case_prod_unfold)
qed simp

section \<open>Concrete inputs\<close>


lemma toy_verified: "verified_headers toy_tm 0 [toy_header 2, toy_header 3] = Inr [toy_header 2, toy_header 3]"
  using eh_verify_adjacent_range_iff [of 0 "toy_header 2" "[toy_header 3]" toy_tm] toy_linked [of 2 0 0]
  by (simp add: verified_headers_def clock_ok_def VERIFY_CLOCK_DRIFT_def time_max_def u64_max_def timely_def)


text \<open>A codec that decodes what it encodes: a value is encoded by its number in a numbering of
  its type.\<close>

instance hash :: countable by countable_datatype

instance commit_sig :: countable by countable_datatype











text \<open>A header whose commit names a hash of a later block, for the collision below.\<close>

definition toy_collider :: extended_header where
  "toy_collider = (toy_header 1)\<lparr>eh_commit := (eh_commit (toy_header 1))\<lparr>cm_block_id := toy_block_id 4\<rparr>\<rparr>"


lemma toy_collider_simps [simp]: "eh_height toy_collider = 1" "eh_hash toy_collider = Sha256 [4]"
  by (simp_all add: toy_collider_def eh_height_def eh_hash_def toy_at_def toy_block_id_def)


section \<open>Properties\<close>










text \<open>C28. Opening a database of schema version 1 or 2 migrates it: the version becomes the
  current one, the stored and sampled ranges are the ones of the old layout, and headers,
  hashes and sampling metadata are untouched.\<close>

theorem redb_migration:
  assumes "db_schema_version db = Some v" "v \<in> {1, 2}" "br_wf (redb_rngs db V2_SAMPLED_RANGES_KEY)"
  shows "\<exists>db'. redb_new tx_ok key db = (Inr (), db') \<and> db_schema_version db' = Some SCHEMA_VERSION \<and>
    redb_rngs db' SAMPLED_RANGES_KEY = redb_rngs db V2_SAMPLED_RANGES_KEY \<and>
    redb_rngs db' HEADER_RANGES_KEY = (if v = 1 then v1_ranges db else redb_rngs db HEADER_RANGES_KEY) \<and>
    db_headers db' = db_headers db \<and> db_heights db' = db_heights db \<and> db_sampling db' = db_sampling db"
  using redb_migrate [OF assms, of key] by blast

theorem redb_migration_witness:
  "\<exists>db'. redb_new tx_ok [7] (redb_empty\<lparr>db_schema_version := Some 1, db_height_ranges_v1 := [(0, 1, 5)]\<rparr>) = (Inr (), db') \<and>
     redb_rngs db' HEADER_RANGES_KEY = [Rng 1 5]"
proof -
  let ?db = "redb_empty\<lparr>db_schema_version := Some 1, db_height_ranges_v1 := [(0, 1, 5)]\<rparr>"
  have "br_wf (redb_rngs ?db V2_SAMPLED_RANGES_KEY)" by (simp add: redb_rngs_def redb_empty_def)
  then have "\<exists>db'. redb_new tx_ok [7] ?db = (Inr (), db') \<and> db_schema_version db' = Some SCHEMA_VERSION \<and>
    redb_rngs db' SAMPLED_RANGES_KEY = redb_rngs ?db V2_SAMPLED_RANGES_KEY \<and>
    redb_rngs db' HEADER_RANGES_KEY = (if 1 = (1::nat) then v1_ranges ?db else redb_rngs ?db HEADER_RANGES_KEY) \<and>
    db_headers db' = db_headers ?db \<and> db_heights db' = db_heights ?db \<and> db_sampling db' = db_sampling ?db"
    by (intro redb_migration) simp_all
  then show ?thesis by (auto simp: v1_ranges_def)
qed

end
