(* ===== verification/Syncer_Properties.thy ===== *)
theory Syncer_Properties
  imports Syncer_Progress Store_Properties
begin

text \<open>
  The properties of the syncer, over the stores of the node: progress, the assertions and the
  monotone head in every reachable state, the contiguous stream of announced headers, the choice
  of batches, and what happens below a pruned edge.
\<close>

section \<open>Concrete inputs\<close>

lemma toy_net_ok: "net_ok toy_header 4"
  by (auto simp: net_ok_def u64_max_def typed_header_def toy_linked)

lemma toy_net_recent: "net_recent toy_header 4 (10 ^ 12) (10 ^ 12) 0"
  by (simp add: net_recent_def clock_ok_def timely_def VERIFY_CLOCK_DRIFT_def time_max_def
      time_saturating_sub_def time_min_def)

text \<open>Height 5 is stored and height 4 was pruned.\<close>

definition mem_edge :: mem_store where
  "mem_edge = mem_new\<lparr>ms_headers := [Sha256 [5] \<mapsto> toy_header 5],
     ms_height_to_hash := [5 \<mapsto> Sha256 [5]], ms_header_ranges := [Rng 5 5], ms_pruned_ranges := [Rng 4 4]\<rparr>"

lemma mem_edge_invar: "mem_invar mem_edge"
proof -
  have table: "mem_table mem_edge = [5 \<mapsto> toy_header 5]"
    by (auto simp: mem_table_def mem_edge_def mem_new_def fun_eq_iff)
  have "mem_tables_ok mem_edge"
    by (auto simp: mem_tables_ok_def mem_edge_def mem_new_def split: if_splits)
  moreover have "sp_ok (mem_abs mem_edge)"
    unfolding sp_ok_def mem_abs_simps table
    by (auto simp: mem_edge_def mem_new_def canonical_def range_ok_def u64_max_def typed_header_def
        chain_ok_def hash_inj_def split: if_splits)
  ultimately show ?thesis by (simp add: mem_invar_def)
qed

lemma mem_edge_abs:
  "heights (sp_stored (mem_abs mem_edge)) = {5}" "heights (sp_pruned (mem_abs mem_edge)) = {4}"
  "sp_headers (mem_abs mem_edge) = [5 \<mapsto> toy_header 5]"
  by (auto simp: mem_abs_simps mem_table_def mem_edge_def mem_new_def fun_eq_iff)

definition edge_syncer :: "mem_store syncer" where
  "edge_syncer = (syncer_new mem_edge 512 1 1)\<lparr>sy_subjective_head_height := Some 5\<rparr>"

lemma mem_lookup: "st_get_by_height (mem_ops tm) = mem_get_by_height"
  by (simp add: mem_ops_def)



lemma edge_next_batch: "next_batch (mem_ops tm) 5 edge_syncer = Inr ([Rng 5 5], Rng 1 3)"
  by (simp add: next_batch_def mem_ops_def edge_syncer_def syncer_new_def bs_new_def mem_edge_def mem_new_def
      br_add_def insert_relaxed_def br_eval vec_drain_def vec_insert_def calculate_range_to_fetch_def
      range_headn_def range_is_empty_def checked_add_def)

lemma edge_syncer_simps:
  "bs_inner (sy_store edge_syncer) = mem_edge" "sy_ongoing_range edge_syncer = None" "sy_task edge_syncer = None"
  "sy_subjective_head_height edge_syncer = Some 5" "sy_highest_slow_sync_height edge_syncer = None"
  "sy_batch_size edge_syncer = 512"
  by (simp_all add: edge_syncer_def syncer_new_def bs_new_def)

lemma edge_requested:
  "fetch_next_batch (mem_ops tm) now 1 edge_syncer = (Inr (), start_fetching (Rng 1 3) edge_syncer)"
  by (rule mem.pruned_edge_requested [OF _ _ _ _ _ edge_next_batch])
    (simp_all only: edge_syncer_simps mem_edge_invar mem_edge_abs, simp_all add: u64_max_def)

section \<open>Properties\<close>

text \<open>C1. The node catches up: on an empty store, once the head \<open>N\<close> of a network of valid recent
  headers has been received, and every request is answered, after at most \<open>N\<close> answers the
  worker is still connected and every header from 1 to \<open>N\<close> can be read from the store.\<close>

theorem syncer_catches_up:
  assumes "net_ok net N" "1 \<le> N" "0 < peers" "0 < bsize" "N \<le> n"
    "net_recent net N sw pw now0" "net_recent net N sw pw now1" "\<forall>k. net_recent net N sw pw (now k)"
  shows "\<exists>w. sync_rounds (mem_ops tm) rx now peers net n (syncer_event_step (mem_ops tm) rx now1 peers
      (InitRound \<lparr>ia_connected = Inr (), ia_head = Inr (net N), ia_now = now0\<rparr> took (Inr ()))
      (enter_connecting (mem_ops tm) (syncer_new mem_new bsize sw pw))) = (Connected, w) \<and>
    (\<forall>h \<in> {1..N}. mem_get_by_height h (bs_inner (sy_store w)) = Inr (net h))"
proof -
  have "mem_invar mem_new" "mem_abs mem_new = sp_new" by simp_all
  moreover have "net_recent net N sw pw (now k)" for k using assms(8) by blast
  ultimately have "\<exists>w. sync_rounds (mem_ops tm) rx now peers net n (syncer_event_step (mem_ops tm) rx now1 peers
      (InitRound \<lparr>ia_connected = Inr (), ia_head = Inr (net N), ia_now = now0\<rparr> took (Inr ()))
      (enter_connecting (mem_ops tm) (syncer_new mem_new bsize sw pw))) = (Connected, w) \<and>
    mem_invar (bs_inner (sy_store w)) \<and>
    (\<forall>h \<in> {1..N}. st_get_by_height (mem_ops tm) h (bs_inner (sy_store w)) = Inr (net h))"
    using assms(1-7) by (intro mem.node_catches_up)
  then
  show ?thesis unfolding mem_lookup by blast
qed

theorem syncer_catches_up_witness:
  "\<exists>w. sync_rounds (mem_ops toy_tm) (\<lambda>_. True) (\<lambda>_. 0) 1 toy_header 4 (syncer_event_step (mem_ops toy_tm) (\<lambda>_. True) 0 1
      (InitRound \<lparr>ia_connected = Inr (), ia_head = Inr (toy_header 4), ia_now = 0\<rparr> 0 (Inr ()))
      (enter_connecting (mem_ops toy_tm) (syncer_new mem_new 2 (10 ^ 12) (10 ^ 12)))) = (Connected, w) \<and>
    mem_get_by_height 2 (bs_inner (sy_store w)) = Inr (toy_header 2)"
proof -
  have "\<forall>k. net_recent toy_header 4 (10 ^ 12) (10 ^ 12) ((\<lambda>_. 0) (k :: nat))" using toy_net_recent by simp
  from syncer_catches_up [OF toy_net_ok _ _ _ _ toy_net_recent toy_net_recent this,
      of 1 2 4 toy_tm "\<lambda>_. True" 0] show ?thesis by fastforce
qed

text \<open>C25. In every state the syncer reaches, whatever the other workers do to the store, its
  assertions hold: a batch is recorded exactly while its request runs, and in the connected
  loop header-sub is subscribed and the stream of announced headers has started.\<close>

theorem syncer_assertions_hold:
  assumes "syncer_reach ops rx (syncer_new store batch_size sw pw) (p, w)"
  shows "(sy_ongoing_range w = None \<longleftrightarrow> sy_task w = None) \<and>
    (p = Connected \<longrightarrow> sy_header_sub_rx w \<and> bs_last_sent_height (sy_store w) \<noteq> None)"
  using syncer_reach_ok [OF assms] by (simp add: sy_state_ok_def ongoing_ok_def linked_up_def bs_started_def)

theorem syncer_assertions_hold_witness:
  "sy_ongoing_range (syncer_new mem_new 512 1 1) = None \<longleftrightarrow> sy_task (syncer_new mem_new 512 1 1) = None"
proof -
  have "enter_connecting (mem_ops toy_tm) (syncer_new mem_new 512 1 1) = (Connecting False, syncer_new mem_new 512 1 1)"
    by (simp add: enter_connecting_def or_failed_def report_def get_syncing_info_def mem_ops_def)
  with syncer_reach.start [of "mem_ops toy_tm" "\<lambda>_. True" "syncer_new mem_new 512 1 1"]
  have "syncer_reach (mem_ops toy_tm) (\<lambda>_. True) (syncer_new mem_new 512 1 1) (Connecting False, syncer_new mem_new 512 1 1)"
    by simp
  from syncer_assertions_hold [OF this] show ?thesis by blast
qed

text \<open>The subjective head never goes down.\<close>

theorem subjective_head_monotone:
  assumes "sy_subjective_head_height (snd st) = Some h"
  shows "\<exists>k \<ge> h. sy_subjective_head_height (snd (syncer_event_step ops rx now peers ev st)) = Some k"
proof -
  have "head_at_least h (snd st)" using assms by (simp add: head_at_least_def)
  from event_step_keeps [OF head_at_least_kept this] show ?thesis by (simp add: head_at_least_def)
qed

theorem subjective_head_monotone_witness:
  "\<exists>k \<ge> 5. sy_subjective_head_height (snd (syncer_event_step (mem_ops toy_tm) (\<lambda>_. True) 0 1
     (HeaderSubRecv (Some (toy_header 3))) (Connected, edge_syncer))) = Some k"
  by (rule subjective_head_monotone) (simp add: edge_syncer_def)



text \<open>C22. The range to fetch is right: it is empty exactly when nothing up to the head is
  missing; otherwise it is a valid range of at most the batch size, of missing heights only,
  that is above all synced ranges or touches one.\<close>

theorem calculate_range_to_fetch_correct:
  assumes "canonical synced" "0 < limit" "subj < u64_max"
  shows "\<exists>r. calculate_range_to_fetch subj synced limit = (Inr r :: (syncer_error, block_range) result) \<and>
    (range_is_empty r \<longleftrightarrow> missing subj synced = {}) \<and>
    (\<not> range_is_empty r \<longrightarrow> range_set r \<subseteq> missing subj synced \<and> card (range_set r) \<le> limit \<and> insertable synced r)"
  using calculate_range_to_fetch_ok [OF assms, where 'e = syncer_error]
  by (auto simp: good_batch_def range_is_empty_def range_ok_def split: if_splits)

theorem calculate_range_to_fetch_correct_witness:
  "\<exists>r. calculate_range_to_fetch 9 [Rng 2 3, Rng 6 9] 10 = (Inr r :: (syncer_error, block_range) result) \<and>
    (range_is_empty r \<longleftrightarrow> missing 9 [Rng 2 3, Rng 6 9] = {})"
  using calculate_range_to_fetch_correct [of "[Rng 2 3, Rng 6 9]" 10 9]
  by (auto simp: canonical_def range_ok_def u64_max_def)

text \<open>C24. A batch that the syncer requests was neither stored nor pruned, is within the batch
  size, and the store's insertion constraints accept it as long as the edges of the synced
  ranges are stored, which is what the pruner keeps within the sampling window.\<close>

theorem requested_batch_missing:
  assumes "mem_invar (bs_inner (sy_store w))" "0 < sy_batch_size w" "sy_task w = None"
    "\<forall>h. sy_subjective_head_height w = Some h \<longrightarrow> h < u64_max"
    "sy_task (snd (fetch_next_batch (mem_ops tm) now peers w)) = Some batch"
  shows "range_ok batch \<and> card (range_set batch) \<le> sy_batch_size w \<and>
    range_set batch \<inter> (heights (sp_stored (mem_abs (bs_inner (sy_store w)))) \<union>
      heights (sp_pruned (mem_abs (bs_inner (sy_store w))))) = {} \<and>
    (edges_stored (mem_abs (bs_inner (sy_store w))) \<longrightarrow>
      insertable (sp_stored (mem_abs (bs_inner (sy_store w)))) batch)"
  using mem.fetch_next_batch_safe [OF assms(1,2,4,5,3)] .

theorem requested_batch_missing_witness:
  "card (range_set (Rng 1 3)) \<le> 512 \<and> range_set (Rng 1 3) \<inter> ({5} \<union> {4}) = {}"
proof -
  have "sy_task (snd (fetch_next_batch (mem_ops toy_tm) 0 1 edge_syncer)) = Some (Rng 1 3)"
    unfolding edge_requested by (simp add: start_fetching_def)
  from requested_batch_missing [OF _ _ _ _ this] show ?thesis
    unfolding edge_syncer_simps mem_edge_abs using mem_edge_invar by (simp add: u64_max_def)
qed

text \<open>C33. Below a pruned edge the syncer does not stop at the sampling window: if the height above
  the next batch was pruned, the batch is requested at any time of the clock, and every
  insertion of its headers is refused, since no neighbour is stored.\<close>

theorem pruned_edge_refetched:
  assumes "mem_invar (bs_inner (sy_store w))" "sy_ongoing_range w = None" "sy_task w = None" "0 < peers"
    "sy_subjective_head_height w = Some subj" "next_batch (mem_ops tm) subj w = Inr (stored, b)" "range_ok b"
    "rend b + 1 \<in> heights (sp_pruned (mem_abs (bs_inner (sy_store w))))" "sy_highest_slow_sync_height w = None"
    "span hs = b" "hs \<noteq> []" "verified_headers tm now' hs = Inr hs"
    "cmd_ok (Insert now' hs) (mem_abs (bs_inner (sy_store w)))"
    "heights (sp_stored (mem_abs (bs_inner (sy_store w)))) \<inter> range_set b = {}"
    "rstart b - 1 \<notin> heights (sp_stored (mem_abs (bs_inner (sy_store w))))"
    "h \<in> heights (sp_stored (mem_abs (bs_inner (sy_store w))))" "rend b < h"
  shows "fetch_next_batch (mem_ops tm) now peers w = (Inr (), start_fetching b w) \<and>
    fst (st_insert (mem_ops tm) now' hs (bs_inner (sy_store w))) =
      Inl (Err (InsertionFailed (ConstraintsNotMet (NoAdjacentNeighbors b))))"
  using mem.pruned_edge_requested [OF assms(1-9)]
    mem.pruned_edge_insert_fails [OF assms(1,7,10-15,8,16,17)] by blast

theorem pruned_edge_refetched_witness:
  "fetch_next_batch (mem_ops toy_tm) 99999 1 edge_syncer = (Inr (), start_fetching (Rng 1 3) edge_syncer) \<and>
   fst (st_insert (mem_ops toy_tm) 0 [toy_header 1, toy_header 2, toy_header 3] mem_edge) =
     Inl (Err (InsertionFailed (ConstraintsNotMet (NoAdjacentNeighbors (Rng 1 3)))))"
proof -
  let ?hs = "[toy_header 1, toy_header 2, toy_header 3]"
  have hs: "?hs = net_range toy_header (Rng 1 3)" by (simp add: net_range_def upt_rec numeral_2_eq_2 numeral_3_eq_3)
  have v: "verified_headers toy_tm 0 ?hs = Inr ?hs"
    unfolding hs by (rule net_verified [OF toy_net_ok toy_net_recent]) (simp_all add: u64_max_def)
  have c: "cmd_ok (Insert 0 ?hs) (mem_abs mem_edge)"
    unfolding cmd_ok_def store_cmd.case fresh_hashes_def mem_edge_abs
    using toy_net_recent by (auto simp: typed_headers_def typed_header_def u64_max_def net_recent_def)
  have sp: "span ?hs = Rng 1 3" by (simp add: span_def)
  have inv: "mem_invar (bs_inner (sy_store edge_syncer))" by (simp only: edge_syncer_simps mem_edge_invar)
  have "fetch_next_batch (mem_ops toy_tm) 99999 1 edge_syncer = (Inr (), start_fetching (Rng 1 3) edge_syncer) \<and>
    fst (st_insert (mem_ops toy_tm) 0 ?hs (bs_inner (sy_store edge_syncer))) =
      Inl (Err (InsertionFailed (ConstraintsNotMet (NoAdjacentNeighbors (Rng 1 3)))))"
  proof (rule pruned_edge_refetched [OF inv _ _ _ _ edge_next_batch _ _ _ sp _ v, where h = 5])
    show "cmd_ok (Insert 0 ?hs) (mem_abs (bs_inner (sy_store edge_syncer)))" using c by (simp only: edge_syncer_simps)
  qed (simp_all only: edge_syncer_simps mem_edge_abs, simp_all add: u64_max_def)
  then show ?thesis by (simp only: edge_syncer_simps)
qed

end
