(* ===== verification/Daser_Properties.thy ===== *)
theory Daser_Properties
  imports Daser_Reach Syncer_Properties
begin

text \<open>
  The properties of the sampler, over the in-memory store. The example follows one block of a
  square of width 2 from the queue to the sampled ranges.
\<close>

section \<open>An example\<close>

text \<open>A generator that enumerates a small square, so it is fair for every larger one.\<close>

definition toy_rng :: "nat \<Rightarrow> nat" where
  "toy_rng n = (if even n then n div 2 mod 4 else n div 8)"

definition toy_env :: "(nat \<times> byte list, nat \<times> nat \<times> byte list) da_env" where
  "toy_env = \<lparr>de_lib = pair_cid_lib, de_conv = (\<lambda>(codec, code, d). Some (codec # code # map unat d)),
     de_now = (\<lambda>_. 5000), de_rng = (\<lambda>_. toy_rng)\<rparr>"

lemma toy_rng_fair: "MAX_SAMPLES_NEEDED < w ^ 2 \<Longrightarrow> rng_fair toy_rng w MAX_SAMPLES_NEEDED"
proof -
  assume "MAX_SAMPLES_NEEDED < w ^ 2"
  then have w: "4 < w" using power_mono [of w 4 2] by (force simp: MAX_SAMPLES_NEEDED_def)
  have "drawn toy_rng w 0 16 = {..<4} \<times> {..<4}"
  proof -
    have "drawn toy_rng w 0 16 = (\<lambda>k. (k mod 4, k div 4)) ` {0..<16}"
      unfolding drawn_def
    proof (rule image_cong [OF refl])
      fix k :: nat
      assume "k \<in> {0..<16}"
      then have "k div 4 < 4" by auto
      then have "k div 4 < w" "k mod 4 < w" using w by (auto intro: less_trans [of _ 4])
      moreover have "toy_rng (2 * k) = k mod 4" "toy_rng (2 * k + 1) = k div 4" by (auto simp: toy_rng_def)
      ultimately show "(toy_rng (2 * k) mod w, toy_rng (2 * k + 1) mod w) = (k mod 4, k div 4)" by simp
    qed
    also have "\<dots> = {..<4} \<times> {..<4}"
    proof (intro equalityI subsetI)
      fix p :: "nat \<times> nat"
      assume "p \<in> {..<4} \<times> {..<4}"
      then have "p = ((snd p * 4 + fst p) mod 4, (snd p * 4 + fst p) div 4)" "snd p * 4 + fst p \<in> {0..<16}" by auto
      then show "p \<in> (\<lambda>k. (k mod 4, k div 4)) ` {0..<16}" by blast
    qed auto
    finally show ?thesis .
  qed
  then have "card (drawn toy_rng w 0 16) = 16" by (simp add: card_cartesian_product)
  then show ?thesis unfolding rng_fair_def by (intro exI [of _ 16]) (simp add: MAX_SAMPLES_NEEDED_def)
qed

lemma toy_env_fair: "env_fair toy_env"
  using toy_rng_fair by (simp add: env_fair_def toy_env_def)

lemma mem_daser_reach:
  assumes "mem_invar s" "c + a \<le> u64_max"
    and "daser_reach L conv (mem_ops tm) mem_invar (DaConnecting, daser_new s sw c a) (p, w)"
  shows "(running p \<longrightarrow> da_ok w) \<and> mem_invar (da_store w)"
proof -
  have "da_store (daser_new s sw c a) = s" by (simp add: daser_new_def)
  with mem.daser_reach_ok [OF assms(3)] daser_new_ok [OF assms(2), of s sw] assms(1) show ?thesis by auto
qed

text \<open>The run of the example: the only stored block is scheduled, polled, and its four shares arrive.\<close>

lemma schedule_all_idle: "da_queue w = [] \<Longrightarrow> schedule_all env ops k w = Some (Inr (), w)"
  by (subst schedule_all.simps, simp add: schedule_next_sample_block_def, subst next_sample_header.simps)
    (simp add: pop_head_def)

definition toy_cid :: "nat \<Rightarrow> nat \<Rightarrow> cid" where
  "toy_cid row col = 0x7810 # 0x7811 # map unat (be_bytes 8 5 @ be_bytes 2 row @ be_bytes 2 col)"

definition toy_shares :: "(nat \<times> nat) list" where
  "toy_shares = [(0, 0), (0, 1), (1, 0), (1, 1)]"

definition toy_fut :: "bool \<Rightarrow> (nat \<times> nat) list \<Rightarrow> sampling_fut" where
  "toy_fut started pending = (new_fut (toy_header 5) 2 toy_shares)
     \<lparr>sf_started := started, sf_timeout := (if started then 10 ^ 12 else 0), sf_pending := pending\<rparr>"

definition toy_sampling :: "bool \<Rightarrow> (nat \<times> nat) list \<Rightarrow> mem_store daser" where
  "toy_sampling started pending = (daser_new mem_edge (10 ^ 12) 3 5)\<lparr>
     da_store := mem_edge\<lparr>ms_sampling_data := [5 \<mapsto> \<lparr>sm_cids = map (\<lambda>(row, col). toy_cid row col) toy_shares\<rparr>]\<rparr>,
     da_sampling_futs := [toy_fut started pending], da_ongoing := [Rng 5 5], da_head_height := Some 5,
     da_events := (if started then SamplingStarted 5 2 toy_shares #
       map (\<lambda>(row, col). ShareSamplingResult 5 2 row col False) (filter (\<lambda>p. p \<notin> set pending) toy_shares) else [])\<rparr>"

lemma toy_sample_cid: "sample_cid pair_cid_lib (de_conv toy_env) row col 5 = Inr (toy_cid row col)"
  by (simp add: sample_cid_def sample_id_new_def row_id_new_def eds_id_new_def sample_id_into_cid_def unwrap_o_def
      pair_cid_lib_def toy_env_def convert_cid_def toy_cid_def sample_id_encode_def row_id_encode_def
      eds_id_encode_def id_sizes SAMPLE_ID_CODEC_def SAMPLE_ID_MULTIHASH_CODE_def del: be_bytes.simps)

lemma toy_pop: "pop_head [Rng 5 5] = Inr (Some 5, [])"
  by (simp add: pop_head_def range_len_def checked_sub_def add_u64_def u64_max_def)

lemma toy_scheduled:
  "da_event_step toy_env (mem_ops toy_tm) (DaPeersChanged 1) (DaConnecting, daser_new mem_edge (10 ^ 12) 3 5) =
   Some (DaConnected, toy_sampling False toy_shares)"
proof -
  define w1 where "w1 = (daser_new mem_edge (10 ^ 12) 3 5)\<lparr>da_head_height := Some 5, da_queue := [Rng 5 5]\<rparr>"
  have u: "update_queue (mem_ops toy_tm) (daser_new mem_edge (10 ^ 12) 3 5) = (Inr (), w1)"
    by (simp add: update_queue_def mem_ops_def mem_edge_def daser_new_def w1_def br_head_def br_sub_def mem_new_def)
  have n: "next_sample_header (mem_ops toy_tm) w1 = Some (Inr (Some (toy_header 5)), w1\<lparr>da_queue := []\<rparr>)"
    by (subst next_sample_header.simps)
      (simp add: w1_def toy_pop sampling_limit_def daser_new_def mem_ops_def mem_edge_def
        mem_get_by_height_def mem_new_def add_u64_def u64_max_def PRUNER_THRESHOLD_def)
  have width: "eh_square_width (toy_header 5) = (Inr 2 :: (daser_error, nat) result)"
    by (simp add: eh_square_width_def dah_square_width_def toy_at_def)
  have idx: "random_indexes (de_rng toy_env 0) 2 16 = Some toy_shares"
    by (simp add: random_indexes_def toy_shares_def numeral_2_eq_2)
  have window: "da_in_sampling_window (de_now toy_env 0) (eh_time (toy_header 5)) (w1\<lparr>da_queue := []\<rparr>)"
    by (simp add: da_in_sampling_window_def toy_env_def w1_def daser_new_def)
  have go: "start_sampling pair_cid_lib (de_conv toy_env) (mem_ops toy_tm) (toy_header 5) 2 toy_shares (w1\<lparr>da_queue := []\<rparr>) =
      (Inr True, toy_sampling False toy_shares)"
    by (simp add: start_sampling_def toy_shares_def toy_sample_cid mem_ops_def mem_update_sampling_metadata_def
        mem_contains_height_def mem_edge_def mem_new_def w1_def daser_new_def toy_sampling_def toy_fut_def new_fut_def
        insert_relaxed_def br_eval)
  have "schedule_next_sample_block toy_env (mem_ops toy_tm) 0 w1 = Some (Inr True, toy_sampling False toy_shares)"
    using n width idx window go
    by (simp add: schedule_next_sample_block_def w1_def daser_new_def MAX_SAMPLES_NEEDED_def) (simp add: toy_env_def)
  then have "schedule_all toy_env (mem_ops toy_tm) 0 w1 = Some (Inr (), toy_sampling False toy_shares)"
    by (subst schedule_all.simps) (simp add: schedule_all_idle toy_sampling_def daser_new_def)
  with u show ?thesis
    by (simp add: da_event_step_def da_connecting_event_def da_enter_def or_da_failed_def da_report_def mem_ops_def)
qed

lemmas toy_eval = da_event_step_def da_connected_event_def toy_sampling_def toy_fut_def new_fut_def daser_new_def
  da_turn_def schedule_all_idle or_da_failed_def da_publish_def toy_shares_def

lemma toy_polled:
  "da_event_step toy_env (mem_ops toy_tm) (FutStart 0 5000 0) (DaConnected, toy_sampling False toy_shares) =
   Some (DaConnected, toy_sampling True toy_shares)"
  by (simp add: toy_eval on_fut_start_def fut_start_def sampling_started_def calc_timeout_def time_saturating_sub_def
      time_min_def GET_SAMPLE_MIN_TIMEOUT_def)

lemma toy_delivered:
  "da_event_step toy_env (mem_ops toy_tm) (Share 0 0 0 (Inr ()) 0) (DaConnected, toy_sampling True toy_shares) =
   Some (DaConnected, toy_sampling True [(0, 1), (1, 0), (1, 1)])"
  "da_event_step toy_env (mem_ops toy_tm) (Share 0 0 1 (Inr ()) 0) (DaConnected, toy_sampling True [(0, 1), (1, 0), (1, 1)]) =
   Some (DaConnected, toy_sampling True [(1, 0), (1, 1)])"
  "da_event_step toy_env (mem_ops toy_tm) (Share 0 1 0 (Inr ()) 0) (DaConnected, toy_sampling True [(1, 0), (1, 1)]) =
   Some (DaConnected, toy_sampling True [(1, 1)])"
  by (simp_all add: toy_eval on_share_def)

lemma toy_remove: "remove_relaxed [Rng 5 5] (Rng 5 5) = Inr []"
  by (simp add: remove_relaxed_def br_eval vec_drain_def vec_first_def)

lemma toy_sampled:
  "\<exists>w. da_event_step toy_env (mem_ops toy_tm) (Share 0 1 1 (Inr ()) 0) (DaConnected, toy_sampling True [(1, 1)]) =
     Some (DaConnected, w) \<and> ms_sampled_ranges (da_store w) = [Rng 5 5]"
  by (simp add: toy_eval on_share_def fut_finish_def on_sampling_done_def remove_fut_def mem_ops_def
      mem_mark_as_sampled_def mem_contains_height_def mem_edge_def mem_new_def insert_relaxed_def toy_remove br_eval)

lemma toy_reach:
  "daser_reach (de_lib toy_env) (de_conv toy_env) (mem_ops toy_tm) mem_invar
     (DaConnecting, daser_new mem_edge (10 ^ 12) 3 5) (DaConnected, toy_sampling True [(1, 1)])"
proof -
  note step = daser_reach.event [where env = toy_env, OF _ refl refl]
  show ?thesis
    by (rule step [OF step [OF step [OF step [OF step [OF daser_reach.start _ toy_scheduled] _ toy_polled]
      _ toy_delivered(1)] _ toy_delivered(2)] _ toy_delivered(3)]) (simp_all add: da_event_u64_def)
qed

section \<open>Properties\<close>

text \<open>C6. Once the sampler has allowed the pruner to remove a block, it neither samples that block
  nor has it in its queue in any later state, whatever the other workers do to the store.\<close>

theorem allowed_never_sampled:
  assumes "mem_invar s" "c + a \<le> u64_max"
    and "daser_reach L conv (mem_ops tm) mem_invar (DaConnecting, daser_new s sw c a) (p, w)" "running p"
    and "da_on_cmd (WantToPrune h) w = (Inr (Some True), w1)" "h \<le> u64_max"
    and "daser_reach L conv (mem_ops tm) mem_invar (p, w1) (p2, w2)" "running p2"
  shows "h \<notin> sf_height ` set (da_sampling_futs w2) \<and> h \<notin> heights (da_queue w2)"
proof -
  note reach = mem_daser_reach [OF assms(1-3)]
  with assms(4) have w: "da_ok w" "mem_invar (da_store w)" by blast+
  have r: "on_want_to_prune h w = (Inr True, w1)"
    using assms(5) by (cases "on_want_to_prune h w"; cases "fst (on_want_to_prune h w)") (auto simp: da_on_cmd_def)
  with on_want_to_prune_cases [OF w(1) assms(6)] have "h \<in> heights (da_will_be_pruned w1)" "da_store w1 = da_store w" by auto
  moreover have "da_ok w1" using on_want_to_prune_ok [OF w(1) assms(6)] r by simp
  ultimately have "da_ok w2" "h \<in> heights (da_will_be_pruned w2)"
    using mem.daser_reach_ok [OF assms(7)] w(2) assms(8) by auto
  with da_okD(5,7,8) [of w2] show ?thesis by blast
qed

theorem allowed_never_sampled_witness:
  "\<exists>w1. da_on_cmd (WantToPrune 5) (daser_new mem_new 0 3 5) = (Inr (Some True), w1) \<and>
     5 \<notin> sf_height ` set (da_sampling_futs w1)"
proof -
  define w1 where "w1 = (daser_new mem_new 0 3 5)\<lparr>da_will_be_pruned := [Rng 5 5]\<rparr>"
  have step: "da_on_cmd (WantToPrune 5) (daser_new mem_new 0 3 5) = (Inr (Some True), w1)"
    by (simp add: da_on_cmd_def on_want_to_prune_def daser_new_def w1_def br_eval remove_relaxed_def insert_relaxed_def)
  have "5 \<notin> sf_height ` set (da_sampling_futs w1) \<and> 5 \<notin> heights (da_queue w1)"
    by (rule allowed_never_sampled [of mem_new 3 5 pair_cid_lib "de_conv toy_env" toy_tm 0 DaConnecting _ 5 w1 DaConnecting,
          OF _ _ daser_reach.start _ step _ daser_reach.start]) (simp_all add: u64_max_def running_def)
  with step show ?thesis by blast
qed

text \<open>C5. A block is recorded as sampled only after its shares were delivered: when an event makes
  the sampler record a height, a sampling of that height was announced with distinct shares
  inside its square, 16 of them or the whole square when it is smaller, and after that each of
  these shares was delivered in time.\<close>

theorem sampled_only_after_delivery:
  assumes "mem_invar s" "c + a \<le> u64_max"
    and "daser_reach L conv (mem_ops tm) mem_invar (DaConnecting, daser_new s sw c a) (p, w)"
    and "da_event_step env (mem_ops tm) ev (p, w) = Some (p', w')" "da_event_u64 ev"
    and "h \<in> heights (ms_sampled_ranges (da_store w')) - heights (ms_sampled_ranges (da_store w))"
  shows "\<exists>pre post width idx. da_events w' = pre @ SamplingStarted h width idx # post \<and>
    distinct idx \<and> set idx \<subseteq> {..<width} \<times> {..<width} \<and> length idx = min 16 (width ^ 2) \<and>
    (\<forall>(row, col) \<in> set idx. ShareSamplingResult h width row col False \<in> set post)"
proof -
  note reach = mem_daser_reach [OF assms(1-3)]
  with mem.da_event_step_ok [OF _ _ assms(5,4)] have "da_next mem_invar mem_abs w w'" by blast
  with assms(6) have "sampled_after (da_events w') h" by (simp add: da_next_def sampled_heights_def mem_abs_def)
  then show ?thesis unfolding sampled_after_def indexes_ok_def MAX_SAMPLES_NEEDED_def by blast
qed

theorem sampled_only_after_delivery_witness:
  "\<exists>w' pre post width idx.
     da_event_step toy_env (mem_ops toy_tm) (Share 0 1 1 (Inr ()) 0) (DaConnected, toy_sampling True [(1, 1)]) =
       Some (DaConnected, w') \<and> ms_sampled_ranges (da_store w') = [Rng 5 5] \<and>
     da_events w' = pre @ SamplingStarted 5 width idx # post \<and>
     (\<forall>(row, col) \<in> set idx. ShareSamplingResult 5 width row col False \<in> set post)"
proof -
  from toy_sampled obtain w' where w': "da_event_step toy_env (mem_ops toy_tm) (Share 0 1 1 (Inr ()) 0)
      (DaConnected, toy_sampling True [(1, 1)]) = Some (DaConnected, w')" "ms_sampled_ranges (da_store w') = [Rng 5 5]" by blast
  have "5 \<in> heights (ms_sampled_ranges (da_store w')) -
      heights (ms_sampled_ranges (da_store (toy_sampling True [(1, 1)])))"
    by (simp add: w'(2) toy_sampling_def mem_edge_def mem_new_def)
  from sampled_only_after_delivery [OF mem_edge_invar _ toy_reach w'(1) _ this] w' show ?thesis
    by (auto simp: u64_max_def da_event_u64_def)
qed

text \<open>C35. The sampler never blocks: with a fair generator every event in a reachable state is
  handled in finitely many rounds, and afterwards at most as many samplings run as the two
  limits allow together, one for each height in \<open>ongoing\<close>.\<close>

theorem daser_turn_ends:
  assumes "mem_invar s" "c + a \<le> u64_max" "env_fair env" "da_event_u64 ev"
    and "daser_reach (de_lib env) (de_conv env) (mem_ops tm) mem_invar (DaConnecting, daser_new s sw c a) (p, w)"
  shows "\<exists>p' w'. da_event_step env (mem_ops tm) ev (p, w) = Some (p', w') \<and>
    (running p' \<longrightarrow> length (da_sampling_futs w') \<le> da_concurrency_limit w' + da_additional_headersub_concurency w' \<and>
       distinct (map sf_height (da_sampling_futs w')) \<and>
       heights (da_ongoing w') = sf_height ` set (da_sampling_futs w'))"
proof -
  have w: "running p \<longrightarrow> da_ok w" "mem_invar (da_store w)"
    using mem_daser_reach [OF assms(1,2,5)] by blast+
  from mem.da_event_step_returns [OF w assms(4,3)] obtain p' w' where
    st: "da_event_step env (mem_ops tm) ev (p, w) = Some (p', w')" by (metis surj_pair)
  with mem.da_event_step_ok [OF w assms(4) st] da_okD(5,6,10) [of w'] show ?thesis unfolding da_keeps_def by blast
qed

theorem daser_turn_ends_witness:
  "\<exists>p' w'. da_event_step toy_env (mem_ops toy_tm) (DaPeersChanged 1) (DaConnecting, daser_new mem_edge (10 ^ 12) 3 5) = Some (p', w')"
proof -
  have "daser_reach (de_lib toy_env) (de_conv toy_env) (mem_ops toy_tm) mem_invar
      (DaConnecting, daser_new mem_edge (10 ^ 12) 3 5) (DaConnecting, daser_new mem_edge (10 ^ 12) 3 5)"
    by (rule daser_reach.start)
  from daser_turn_ends [OF mem_edge_invar _ toy_env_fair _ this, of "DaPeersChanged 1"] show ?thesis
    by (auto simp: u64_max_def da_event_u64_def)
qed

text \<open>The random choice of shares: with a fair generator it returns, and what it returns are
  distinct positions inside the square, as many as are needed or the whole square.\<close>

theorem random_indexes_correct:
  assumes "square_width ^ 2 \<le> n \<or> rng_fair rng square_width n"
  shows "\<exists>xs. random_indexes rng square_width n = Some xs \<and> distinct xs \<and>
    set xs \<subseteq> {..<square_width} \<times> {..<square_width} \<and> length xs = min n (square_width ^ 2)"
  using random_indexes_returns [OF assms] random_indexes_sound [of rng square_width n]
  by (auto simp: indexes_ok_def)

theorem random_indexes_correct_witness:
  "\<exists>xs. random_indexes toy_rng 32 16 = Some xs \<and> length xs = 16"
proof -
  have "rng_fair toy_rng 32 16" using toy_rng_fair [of 32] by (simp add: MAX_SAMPLES_NEEDED_def)
  with random_indexes_correct [of 32 16 toy_rng] show ?thesis by (auto simp: min_def)
qed

text \<open>The timeout of a request: at least ten seconds, and otherwise exactly the time until the
  header leaves the sampling window, so that a request never ends while its block is still to
  be sampled.\<close>

theorem calc_timeout_bounds:
  assumes "time_min \<le> now - sampling_window"
  shows "10 * 10 ^ 9 \<le> calc_timeout header_time now sampling_window \<and>
    header_time + sampling_window \<le> now + calc_timeout header_time now sampling_window \<and>
    (10 * 10 ^ 9 < calc_timeout header_time now sampling_window \<longrightarrow>
       now + calc_timeout header_time now sampling_window = header_time + sampling_window)"
  using calc_timeout_eq [OF assms, of header_time] by (auto simp: GET_SAMPLE_MIN_TIMEOUT_def)

theorem calc_timeout_bounds_witness:
  "10 * 10 ^ 9 \<le> calc_timeout 0 0 (60 * 10 ^ 9) \<and> calc_timeout 0 0 (60 * 10 ^ 9) = 60 * 10 ^ 9"
  using calc_timeout_bounds [of 0 "60 * 10 ^ 9" 0]
  by (simp add: time_min_def calc_timeout_def time_saturating_sub_def GET_SAMPLE_MIN_TIMEOUT_def)

end
