(* ===== verification/Pruner_Properties.thy ===== *)
theory Pruner_Properties
  imports Pruner_Round Daser_Properties
begin

text \<open>
  The properties of the pruner, alone and next to the sampler, over the in-memory store. In the
  example the store holds one block, which is sampled or pruned.
\<close>

section \<open>An example\<close>

definition toy_time :: "nat \<Rightarrow> time" where
  "toy_time h = int h * 1000"

lemma toy_time_mono: "strict_mono toy_time"
  by (simp add: strict_mono_def toy_time_def)

lemma mem_edge_headers: "sp_headers (mem_abs mem_edge) = [5 \<mapsto> toy_header 5]"
  by (rule ext) (simp add: mem_abs_def mem_table_def mem_edge_def mem_new_def)

lemma mem_edge_times: "chain_times toy_time (mem_abs mem_edge)"
  unfolding chain_times_def mem_edge_headers by (simp add: toy_time_def)

text \<open>A blockstore as a list of content identifiers.\<close>

definition list_remove :: "cid \<Rightarrow> cid list \<Rightarrow> (string, unit) result \<times> cid list" where
  "list_remove c b = (Inr (), removeAll c b)"

definition toy_node :: "(mem_store, cid list) node_st" where
  "toy_node = \<lparr>ns_daser = (DaConnecting, daser_new mem_edge (10 ^ 12) 3 5), ns_pruner = pruner_new mem_edge [] 1000 0 (10 ^ 12),
     ns_task = Idle, ns_sampling_cutoff = 0, ns_pruning_cutoff = 0\<rparr>"

section \<open>Properties\<close>

text \<open>C4. The sampler and the pruner do not race. In every state that they reach from the start of
  the node, with any interleaving of the events of the sampler, insertions of headers, the
  requests of the pruner and its removals, each block that is being sampled is in the store and
  not yet marked as sampled, and each block that waits to be removed is in the store, is not
  being sampled, and is removed without an error when its turn comes, if the blockstore does not
  fail.\<close>

theorem sampler_pruner_no_race:
  assumes "mem_invar s" "chain_times T (mem_abs s)" "strict_mono T" "c + a \<le> u64_max" "bs_fine bs_remove"
    and "node_reach (mem_ops tm) mem_abs T L conv bs_remove
      \<lparr>ns_daser = (DaConnecting, daser_new s sw c a), ns_pruner = pruner_new s bs block_time pw sw,
       ns_task = Idle, ns_sampling_cutoff = sc, ns_pruning_cutoff = pc\<rparr> n"
  shows "(running (fst (ns_daser n)) \<longrightarrow> (\<forall>f \<in> set (da_sampling_futs (snd (ns_daser n))).
      (\<exists>x. mem_get_by_height (sf_height f) (ns_store n) = Inr x) \<and>
      sf_height f \<notin> heights (ms_sampled_ranges (ns_store n)))) \<and>
    (\<forall>h hs. ns_task n = Removing (h # hs) \<longrightarrow>
      (\<exists>x. mem_get_by_height h (ns_store n) = Inr x) \<and>
      (running (fst (ns_daser n)) \<longrightarrow> h \<notin> sf_height ` set (da_sampling_futs (snd (ns_daser n)))) \<and>
      (\<exists>w. prune_height (mem_ops tm) bs_remove h (ns_pruner n) = (Inr (), w)))"
proof -
  have "node_ok mem_invar mem_abs T \<lparr>ns_daser = (DaConnecting, daser_new s sw c a),
      ns_pruner = pruner_new s bs block_time pw sw, ns_task = Idle, ns_sampling_cutoff = sc, ns_pruning_cutoff = pc\<rparr>"
    using assms(1,2) daser_new_ok [OF assms(4), of s sw] pruner_new_ok [of T sc pc s bs block_time pw sw]
    by (simp add: node_ok_def ns_store_def task_ok_def da_safe_def daser_new_def pruner_new_def)
  from mem.node_reach_ok [OF assms(6) this assms(3)] have ok: "node_ok mem_invar mem_abs T n" .
  note n = node_okD [OF ok]
  have get: "(\<exists>x. mem_get_by_height h (ns_store n) = Inr x) \<longleftrightarrow> h \<in> dom (sp_headers (mem_abs (ns_store n)))" for h
    using mem.get_by_height_law [OF n(1), of tm h] by (auto simp: mem_ops_def)
  have "(\<exists>x. mem_get_by_height (sf_height f) (ns_store n) = Inr x) \<and> sf_height f \<notin> heights (ms_sampled_ranges (ns_store n))"
    if "running (fst (ns_daser n))" "f \<in> set (da_sampling_futs (snd (ns_daser n)))" for f
  proof -
    from n(5) that(1) have d: "da_ok (snd (ns_daser n))" "da_safe mem_abs (snd (ns_daser n))" by blast+
    from da_okD(5) [OF d(1)] that(2) have "sf_height f \<in> heights (da_ongoing (snd (ns_daser n)))" by simp
    with d(2) get show ?thesis by (auto simp: da_safe_def sampled_heights_def ns_store_def mem_abs_def)
  qed
  moreover have "(\<exists>x. mem_get_by_height h (ns_store n) = Inr x) \<and>
      (running (fst (ns_daser n)) \<longrightarrow> h \<notin> sf_height ` set (da_sampling_futs (snd (ns_daser n)))) \<and>
      (\<exists>w. prune_height (mem_ops tm) bs_remove h (ns_pruner n) = (Inr (), w))"
    if "ns_task n = Removing (h # hs)" for h hs
  proof -
    have h: "h \<in> dom (sp_headers (mem_abs (ns_store n)))"
      "h \<in> heights (sp_sampled (mem_abs (ns_store n))) \<union> da_allowed (ns_daser n)"
      using n(6) unfolding that task_ok_def by simp_all
    have "h \<notin> heights (da_ongoing (snd (ns_daser n)))" if "running (fst (ns_daser n))"
    proof -
      from n(5) that have d: "da_ok (snd (ns_daser n))" "da_safe mem_abs (snd (ns_daser n))" by blast+
      with h(2) da_okD(8) [OF d(1)] show ?thesis
        by (auto simp: da_safe_def sampled_heights_def ns_store_def da_allowed_def)
    qed
    moreover have "running (fst (ns_daser n)) \<Longrightarrow>
        heights (da_ongoing (snd (ns_daser n))) = sf_height ` set (da_sampling_futs (snd (ns_daser n)))"
      using n(5) da_okD(5) by blast
    moreover have "\<exists>w. prune_height (mem_ops tm) bs_remove h (ns_pruner n) = (Inr (), w)"
      using mem.prune_height_fine [where w = "ns_pruner n" and h = h and tm = tm and bs_remove = bs_remove] n(1,2) h(1) assms(5) by auto
    ultimately show ?thesis using h(1) get by blast
  qed
  ultimately show ?thesis by blast
qed

text \<open>In the example a block of the store is being sampled.\<close>

theorem sampler_pruner_no_race_witness:
  "\<exists>x. mem_get_by_height 5 (da_store (toy_sampling False toy_shares)) = Inr x"
proof -
  define n where "n = set_store (da_store (toy_sampling False toy_shares))
    (toy_node\<lparr>ns_daser := (DaConnected, toy_sampling False toy_shares)\<rparr>)"
  have r: "node_reach (mem_ops toy_tm) mem_abs toy_time (de_lib toy_env) (de_conv toy_env) list_remove toy_node n"
    using node_reach.sampler [of "mem_ops toy_tm" mem_abs toy_time "de_lib toy_env" "de_conv toy_env" list_remove toy_node
      toy_node toy_env "DaPeersChanged 1", OF node_reach.start refl refl] toy_scheduled
    by (simp add: n_def toy_node_def da_event_u64_def)
  have "running (fst (ns_daser n))" "toy_fut False toy_shares \<in> set (da_sampling_futs (snd (ns_daser n)))"
    "ns_store n = da_store (toy_sampling False toy_shares)" "sf_height (toy_fut False toy_shares) = 5"
    by (simp_all add: n_def running_def toy_sampling_def toy_fut_def new_fut_def)
  with sampler_pruner_no_race [OF mem_edge_invar mem_edge_times toy_time_mono _ _ r [unfolded toy_node_def]] show ?thesis
    by (auto simp: u64_max_def bs_fine_def list_remove_def)
qed



text \<open>C37. The search for the first height after a window returns the highest stored block that is
  older than the cut-off, and nothing when there is none. This holds for the shortcut with the
  previous height and for the binary search, provided that the previous height was not newer than
  the cut-off, that the times of the chain grow with the height, and that no stored block has
  exactly the time of the cut-off.\<close>

theorem find_height_exact:
  assumes "mem_invar s" "chain_times T (mem_abs s)" "strict_mono T" "cache_ok T ca"
    and "\<forall>p \<in> set_option prev. T p \<le> cutoff" "\<forall>h \<in> heights (ms_header_ranges s). T h \<noteq> cutoff"
  shows "\<exists>r ca'. find_height_after_window (mem_ops tm) s (ms_header_ranges s) cutoff prev ca = Some (Inr r, ca') \<and>
    (case r of
       None \<Rightarrow> \<forall>h \<in> heights (ms_header_ranges s). cutoff < T h
     | Some k \<Rightarrow> k \<in> heights (ms_header_ranges s) \<and> T k < cutoff \<and>
         (\<forall>h \<in> heights (ms_header_ranges s). k < h \<longrightarrow> cutoff < T h))"
proof -
  have S: "sp_stored (mem_abs s) = ms_header_ranges s" by (simp add: mem_abs_def)
  from mem.find_height_ok [OF assms(1-5), where tm = tm] assms(6) obtain r ca' where
    f: "find_height_after_window (mem_ops tm) s (ms_header_ranges s) cutoff prev ca = Some (Inr r, ca')"
    "is_top (\<lambda>h. T h < cutoff) (heights (ms_header_ranges s)) r" unfolding S by blast
  have "cutoff < T h" if "h \<in> heights (ms_header_ranges s)" "\<not> T h < cutoff" for h
    using that assms(6) by force
  with f show ?thesis by (auto simp: is_top_def split: option.splits)
qed

theorem find_height_exact_witness:
  "\<exists>ca'. find_height_after_window (mem_ops toy_tm) mem_edge [Rng 5 5] 6000 None
     (pr_cache (pruner_new mem_edge ([] :: cid list) 1000 0 0)) = Some (Inr (Some 5), ca')"
proof -
  let ?ca = "pr_cache (pruner_new mem_edge ([] :: cid list) 1000 0 0)"
  have r: "ms_header_ranges mem_edge = [Rng 5 5]" "heights [Rng 5 5] = {5}"
    by (simp_all add: mem_edge_def mem_new_def heights_def range_set_def)
  have ca: "cache_ok toy_time ?ca" by (simp add: cache_ok_def pruner_new_def)
  have prev: "\<forall>p \<in> set_option None. toy_time p \<le> 6000" "\<forall>h \<in> heights (ms_header_ranges mem_edge). toy_time h \<noteq> 6000"
    unfolding r by (simp_all add: toy_time_def)
  from find_height_exact [OF mem_edge_invar mem_edge_times toy_time_mono ca prev, of toy_tm] obtain k ca' where
    k: "find_height_after_window (mem_ops toy_tm) mem_edge [Rng 5 5] 6000 None ?ca = Some (Inr k, ca')"
    "case k of None \<Rightarrow> \<forall>h \<in> {5}. 6000 < toy_time h | Some m \<Rightarrow> m \<in> {5} \<and> toy_time m < 6000 \<and> (\<forall>h \<in> {5}. m < h \<longrightarrow> 6000 < toy_time h)"
    unfolding r by blast
  from k(2) have "k = Some 5" by (cases k) (simp_all add: toy_time_def)
  with k(1) show ?thesis by blast
qed

end
