(* ===== verification/State_Types.thy ===== *)
theory State_Types
  imports Shwap_Ids "HOL-Library.Char_ord"
begin

text \<open>
  Types of the application state, \<open>types/src/state\<close>: addresses with their prefixes and text form
  (\<open>address.rs\<close>), coins with the rules on denominations and amounts (\<open>coin.rs\<close>), and the compact
  bit arrays of multi-signatures (\<open>bit_array.rs\<close>). The crate \<open>bech32\<close> is the parameter
  \<open>bech32_lib\<close>; what it documents is \<open>bech32_ok\<close>. An account identifier is an array of 20 bytes,
  here a byte list whose length is the invariant \<open>id_ok\<close>.
\<close>

section \<open>Addresses\<close>

definition SIGNER_SIZE :: nat where
  "SIGNER_SIZE = 20"

definition BECH32_PREFIX_ACC_ADDR :: string where
  "BECH32_PREFIX_ACC_ADDR = ''celestia''"

definition BECH32_PREFIX_VAL_ADDR :: string where
  "BECH32_PREFIX_VAL_ADDR = ''celestia'' @ ''val'' @ ''oper''"

definition BECH32_PREFIX_CONS_ADDR :: string where
  "BECH32_PREFIX_CONS_ADDR = ''celestia'' @ ''val'' @ ''cons''"

lemmas address_prefixes = BECH32_PREFIX_ACC_ADDR_def BECH32_PREFIX_VAL_ADDR_def BECH32_PREFIX_CONS_ADDR_def

datatype address_kind = Account | Validator | Consensus

datatype acc_address = AccAddress (acc_id: "byte list")
datatype val_address = ValAddress (val_id: "byte list")
datatype cons_address = ConsAddress (cons_id: "byte list")

datatype address = AccAddr acc_address | ValAddr val_address | ConsAddr cons_address

record bech32_lib =
  b32_hrp_parse :: "string \<Rightarrow> bool"
  b32_encode :: "string \<Rightarrow> byte list \<Rightarrow> string option"
  b32_decode :: "string \<Rightarrow> (string \<times> byte list) option"

fun kind_prefix :: "address_kind \<Rightarrow> string" where
  "kind_prefix Account = BECH32_PREFIX_ACC_ADDR"
| "kind_prefix Validator = BECH32_PREFIX_VAL_ADDR"
| "kind_prefix Consensus = BECH32_PREFIX_CONS_ADDR"

definition kind_from_str :: "string \<Rightarrow> (types_error, address_kind) result" where
  "kind_from_str s =
     (if s = BECH32_PREFIX_ACC_ADDR then Inr Account
      else if s = BECH32_PREFIX_VAL_ADDR then Inr Validator
      else if s = BECH32_PREFIX_CONS_ADDR then Inr Consensus
      else Inl (Err (InvalidAddressPrefix s)))"

text \<open>The macro instances differ only in the kind; the conversions from byte slices check the size.\<close>

definition id_try_from :: "byte list \<Rightarrow> (types_error, byte list) result" where
  "id_try_from v = (if length v = SIGNER_SIZE then Inr v else Inl (Err (InvalidAddressSize (length v))))"

definition acc_try_from :: "byte list \<Rightarrow> (types_error, acc_address) result" where
  "acc_try_from v = bind_r (id_try_from v) (\<lambda>i. Inr (AccAddress i))"

definition val_try_from :: "byte list \<Rightarrow> (types_error, val_address) result" where
  "val_try_from v = bind_r (id_try_from v) (\<lambda>i. Inr (ValAddress i))"

definition cons_try_from :: "byte list \<Rightarrow> (types_error, cons_address) result" where
  "cons_try_from v = bind_r (id_try_from v) (\<lambda>i. Inr (ConsAddress i))"

fun address_kind_of :: "address \<Rightarrow> address_kind" where
  "address_kind_of (AccAddr _) = Account"
| "address_kind_of (ValAddr _) = Validator"
| "address_kind_of (ConsAddr _) = Consensus"

fun address_bytes :: "address \<Rightarrow> byte list" where
  "address_bytes (AccAddr a) = acc_id a"
| "address_bytes (ValAddr a) = val_id a"
| "address_bytes (ConsAddr a) = cons_id a"

definition address_to_string :: "bech32_lib \<Rightarrow> address \<Rightarrow> ('e, string) result" where
  "address_to_string b a =
     (if \<not> b32_hrp_parse b (kind_prefix (address_kind_of a)) then Inl (Panic ''Invalid prefix'')
      else case b32_encode b (kind_prefix (address_kind_of a)) (address_bytes a) of
        None \<Rightarrow> Inl (Panic ''Invalid address length'')
      | Some s \<Rightarrow> Inr s)"

definition string_to_kind_and_id :: "bech32_lib \<Rightarrow> string \<Rightarrow> (types_error, address_kind \<times> byte list) result" where
  "string_to_kind_and_id b s =
     bind_r (ok_or (InvalidAddress s) (b32_decode b s)) (\<lambda>(hrp, data).
     bind_r (kind_from_str hrp) (\<lambda>kind.
     if length data = SIGNER_SIZE then Inr (kind, data)
     else Inl (Err (InvalidAddressSize (length data)))))"

definition address_from_str :: "bech32_lib \<Rightarrow> string \<Rightarrow> (types_error, address) result" where
  "address_from_str b s = bind_r (string_to_kind_and_id b s) (\<lambda>(kind, i).
     case kind of
       Account \<Rightarrow> Inr (AccAddr (AccAddress i))
     | Validator \<Rightarrow> Inr (ValAddr (ValAddress i))
     | Consensus \<Rightarrow> Inr (ConsAddr (ConsAddress i)))"

definition acc_from_str :: "bech32_lib \<Rightarrow> string \<Rightarrow> (types_error, acc_address) result" where
  "acc_from_str b s = bind_r (string_to_kind_and_id b s) (\<lambda>(kind, i).
     if kind = Account then Inr (AccAddress i) else Inl (Err (InvalidAddressPrefix (kind_prefix kind))))"

definition val_from_str :: "bech32_lib \<Rightarrow> string \<Rightarrow> (types_error, val_address) result" where
  "val_from_str b s = bind_r (string_to_kind_and_id b s) (\<lambda>(kind, i).
     if kind = Validator then Inr (ValAddress i) else Inl (Err (InvalidAddressPrefix (kind_prefix kind))))"

definition cons_from_str :: "bech32_lib \<Rightarrow> string \<Rightarrow> (types_error, cons_address) result" where
  "cons_from_str b s = bind_r (string_to_kind_and_id b s) (\<lambda>(kind, i).
     if kind = Consensus then Inr (ConsAddress i) else Inl (Err (InvalidAddressPrefix (kind_prefix kind))))"

definition id_ok :: "byte list \<Rightarrow> bool" where
  "id_ok i \<longleftrightarrow> length i = 20"

text \<open>What the crate documents: a prefix of at most 83 lower case letters is accepted, 20 bytes
  under a prefix of at most 16 characters fit, and decoding inverts encoding.\<close>

definition bech32_ok :: "bech32_lib \<Rightarrow> bool" where
  "bech32_ok b \<longleftrightarrow>
     (\<forall>hrp. hrp \<noteq> [] \<and> length hrp \<le> 83 \<and> (\<forall>c \<in> set hrp. CHR ''a'' \<le> c \<and> c \<le> CHR ''z'') \<longrightarrow> b32_hrp_parse b hrp) \<and>
     (\<forall>hrp d. b32_hrp_parse b hrp \<and> length hrp \<le> 16 \<and> length d = 20 \<longrightarrow> b32_encode b hrp d \<noteq> None) \<and>
     (\<forall>hrp d s. b32_hrp_parse b hrp \<and> b32_encode b hrp d = Some s \<longrightarrow> b32_decode b s = Some (hrp, d))"

lemma kind_from_str_prefix [simp]: "kind_from_str (kind_prefix k) = Inr k"
  by (cases k) (simp_all add: kind_from_str_def address_prefixes)

lemma kind_from_str_Inr: "kind_from_str s = Inr k \<Longrightarrow> s = kind_prefix k"
  by (auto simp: kind_from_str_def split: if_splits)

lemma bech32_okD:
  assumes "bech32_ok b"
  shows "hrp \<noteq> [] \<Longrightarrow> length hrp \<le> 83 \<Longrightarrow> \<forall>c \<in> set hrp. CHR ''a'' \<le> c \<and> c \<le> CHR ''z'' \<Longrightarrow> b32_hrp_parse b hrp"
    and "b32_hrp_parse b hrp \<Longrightarrow> length hrp \<le> 16 \<Longrightarrow> length d = 20 \<Longrightarrow> \<exists>s. b32_encode b hrp d = Some s"
    and "b32_hrp_parse b hrp \<Longrightarrow> b32_encode b hrp d = Some s \<Longrightarrow> b32_decode b s = Some (hrp, d)"
  using assms by (simp_all add: bech32_ok_def)

lemma bech32_prefix:
  assumes "bech32_ok b" shows "b32_hrp_parse b (kind_prefix k)"
  by (rule bech32_okD(1) [OF assms]; cases k) (simp_all add: address_prefixes less_eq_char_def)

lemma kind_prefix_short: "length (kind_prefix k) \<le> 16"
  by (cases k) (simp_all add: address_prefixes)

lemma address_print:
  assumes "bech32_ok b" "id_ok (address_bytes a)"
  obtains s where "address_to_string b a = (Inr s :: ('e, string) result)"
    "b32_decode b s = Some (kind_prefix (address_kind_of a), address_bytes a)"
proof -
  let ?p = "kind_prefix (address_kind_of a)"
  note p = bech32_prefix [OF assms(1), of "address_kind_of a"]
  from assms(2) bech32_okD(2) [OF assms(1) p kind_prefix_short]
  obtain s where s: "b32_encode b ?p (address_bytes a) = Some s" by (auto simp: id_ok_def)
  from bech32_okD(3) [OF assms(1) p s] have "b32_decode b s = Some (?p, address_bytes a)" .
  moreover from s p have "address_to_string b a = (Inr s :: ('e, string) result)"
    by (simp add: address_to_string_def)
  ultimately show thesis by (rule that [rotated])
qed

lemma string_to_kind_and_id_ok:
  "b32_decode b s = Some (kind_prefix k, i) \<Longrightarrow> id_ok i \<Longrightarrow> string_to_kind_and_id b s = Inr (k, i)"
  by (simp add: string_to_kind_and_id_def id_ok_def SIGNER_SIZE_def)

lemma string_to_kind_and_id_Inr: "string_to_kind_and_id b s = Inr (k, i) \<Longrightarrow> id_ok i"
  unfolding string_to_kind_and_id_def id_ok_def SIGNER_SIZE_def
  by (elim bind_r_InrE) (auto split: prod.splits if_splits)

lemma address_from_decoded:
  assumes "b32_decode b s = Some (kind_prefix (address_kind_of a), address_bytes a)" "id_ok (address_bytes a)"
  shows "address_from_str b s = Inr a"
    "acc_from_str b s = (case a of AccAddr x \<Rightarrow> Inr x | _ \<Rightarrow> Inl (Err (InvalidAddressPrefix (kind_prefix (address_kind_of a)))))"
  using string_to_kind_and_id_ok [OF assms]
  by (cases a, simp_all add: address_from_str_def acc_from_str_def)+

text \<open>Whatever parses as an address has an identifier of 20 bytes.\<close>

lemma address_from_str_ok: "address_from_str b s = Inr a \<Longrightarrow> id_ok (address_bytes a)"
  unfolding address_from_str_def
  by (elim bind_r_InrE) (auto simp: string_to_kind_and_id_Inr split: address_kind.splits)

section \<open>Coins\<close>

record coin =
  co_denom :: string
  co_amount :: nat

record raw_coin =
  rc_denom :: string
  rc_amount :: string

definition is_letter :: "char \<Rightarrow> bool" where
  "is_letter c \<longleftrightarrow> (CHR ''a'' \<le> c \<and> c \<le> CHR ''z'') \<or> (CHR ''A'' \<le> c \<and> c \<le> CHR ''Z'')"

definition is_digit :: "char \<Rightarrow> bool" where
  "is_digit c \<longleftrightarrow> CHR ''0'' \<le> c \<and> c \<le> CHR ''9''"

definition validate_denom :: "string \<Rightarrow> (types_error, unit) result" where
  "validate_denom denom =
     (if length denom < 3 \<or> 128 < length denom then Inl (Err (InvalidCoinDenomination denom))
      else if \<not> (case denom of [] \<Rightarrow> False | c # _ \<Rightarrow> is_letter c) then Inl (Err (InvalidCoinDenomination denom))
      else if \<forall>c \<in> set (tl denom). is_letter c \<or> is_digit c \<or> c \<in> set ''/:._-'' then Inr ()
      else Inl (Err (InvalidCoinDenomination denom)))"

definition coin_new :: "string \<Rightarrow> nat \<Rightarrow> (types_error, coin) result" where
  "coin_new denom amount = bind_r (validate_denom denom) (\<lambda>_. Inr \<lparr>co_denom = denom, co_amount = amount\<rparr>)"

definition coin_utia :: "nat \<Rightarrow> ('e, coin) result" where
  "coin_utia amount = expect_r ''denom is always valid'' (coin_new ''utia'' amount)"

text \<open>The standard library's \<open>to_string\<close> and \<open>parse\<close> of a \<open>u64\<close>: decimal digits, an optional plus
  sign in front, and no value above the maximum.\<close>

definition digit_char :: "nat \<Rightarrow> char" where
  "digit_char d = char_of (48 + d)"

definition digit_value :: "char \<Rightarrow> nat" where
  "digit_value c = of_char c - 48"

fun u64_to_string :: "nat \<Rightarrow> string" where
  "u64_to_string n = (if n < 10 then [digit_char n] else u64_to_string (n div 10) @ [digit_char (n mod 10)])"

declare u64_to_string.simps [simp del]

fun parse_digits :: "string \<Rightarrow> nat \<Rightarrow> nat option" where
  "parse_digits [] acc = Some acc"
| "parse_digits (c # cs) acc =
     (if is_digit c \<and> 10 * acc + digit_value c \<le> u64_max then parse_digits cs (10 * acc + digit_value c) else None)"

definition parse_u64 :: "string \<Rightarrow> nat option" where
  "parse_u64 s =
     (let t = (case s of [] \<Rightarrow> [] | c # r \<Rightarrow> if c = CHR ''+'' then r else s)
      in if t = [] then None else parse_digits t 0)"

definition coin_try_from :: "raw_coin \<Rightarrow> (types_error, coin) result" where
  "coin_try_from v =
     bind_r (validate_denom (rc_denom v)) (\<lambda>_.
     bind_r (ok_or (InvalidCoinAmount (rc_amount v)) (parse_u64 (rc_amount v))) (\<lambda>amount.
     Inr \<lparr>co_denom = rc_denom v, co_amount = amount\<rparr>))"

definition raw_coin_from :: "coin \<Rightarrow> raw_coin" where
  "raw_coin_from c = \<lparr>rc_denom = co_denom c, rc_amount = u64_to_string (co_amount c)\<rparr>"

definition coin_ok :: "coin \<Rightarrow> bool" where
  "coin_ok c \<longleftrightarrow> validate_denom (co_denom c) = Inr () \<and> co_amount c \<le> u64_max"

lemma of_char_digit: "d < 10 \<Longrightarrow> of_char (digit_char d) = 48 + d"
  by (simp add: digit_char_def)

lemma digit_facts [simp]:
  assumes "d < 10" shows "is_digit (digit_char d)" "digit_value (digit_char d) = d" "digit_char d \<noteq> CHR ''+''"
proof -
  note o = of_char_digit [OF assms]
  show "is_digit (digit_char d)" using assms by (simp add: is_digit_def less_eq_char_def o)
  show "digit_value (digit_char d) = d" by (simp add: digit_value_def o)
  have "(of_char (digit_char d) :: nat) \<noteq> of_char (CHR ''+'')" using o by simp
  then show "digit_char d \<noteq> CHR ''+''" by metis
qed

lemma parse_digits_append:
  "parse_digits (a @ b) x = Option.bind (parse_digits a x) (parse_digits b)"
  by (induction a arbitrary: x) auto

lemma parse_printed: "n \<le> u64_max \<Longrightarrow> parse_digits (u64_to_string n) 0 = Some n"
proof (induction n rule: u64_to_string.induct)
  case (1 n)
  then show ?case
    by (subst u64_to_string.simps) (auto simp: parse_digits_append u64_max_def)
qed

lemma printed_first: "\<exists>d s. d < 10 \<and> u64_to_string n = digit_char d # s"
proof (induction n rule: u64_to_string.induct)
  case (1 n)
  then show ?case by (subst u64_to_string.simps) (auto; blast)
qed

lemma parse_u64_printed: "n \<le> u64_max \<Longrightarrow> parse_u64 (u64_to_string n) = Some n"
  using printed_first [of n] parse_printed [of n] by (auto simp: parse_u64_def Let_def)

lemma parse_digits_max: "parse_digits s x = Some y \<Longrightarrow> x \<le> u64_max \<Longrightarrow> y \<le> u64_max"
  by (induction s arbitrary: x) (auto split: if_splits)

lemma coin_constructors_ok:
  "coin_new d a = Inr c \<Longrightarrow> a \<le> u64_max \<Longrightarrow> coin_ok c"
  "coin_try_from v = Inr c \<Longrightarrow> coin_ok c"
  by (auto simp: coin_new_def coin_ok_def coin_try_from_def parse_u64_def Let_def split: if_splits dest!: parse_digits_max)

lemma coin_roundtrip: "coin_ok c \<Longrightarrow> coin_try_from (raw_coin_from c) = Inr c"
  by (simp add: coin_ok_def coin_try_from_def raw_coin_from_def parse_u64_printed)

lemma coin_utia_ok: "coin_utia n = Inr \<lparr>co_denom = ''utia'', co_amount = n\<rparr>"
  by (simp add: coin_utia_def coin_new_def validate_denom_def is_letter_def less_eq_char_def)

section \<open>Compact bit arrays\<close>

record compact_bit_array =
  cba_extra_bits_stored :: nat
  cba_elems :: "byte list"

text \<open>\<open>BitVec<u8, Msb0>\<close>: the bits of a byte, the highest first.\<close>

definition byte_bits :: "byte \<Rightarrow> bool list" where
  "byte_bits b = map (\<lambda>i. bit b (7 - i)) [0..<8]"

definition bits_byte :: "bool list \<Rightarrow> byte" where
  "bits_byte bs = horner_sum of_bool 2 (rev bs)"

text \<open>\<open>set_uninitialized(false)\<close> followed by \<open>into_vec\<close>: the bits in groups of eight, the last one
  filled up with zeros.\<close>

fun bits_into_vec :: "bool list \<Rightarrow> byte list" where
  "bits_into_vec bs = (if bs = [] then []
     else bits_byte (take 8 bs @ replicate (8 - length bs) False) # bits_into_vec (drop 8 bs))"

declare bits_into_vec.simps [simp del]

text \<open>\<open>try_from_vec\<close> fails when the number of bits exceeds what a bit vector can address, a parameter.\<close>

definition bit_vector_try_from :: "nat \<Rightarrow> compact_bit_array \<Rightarrow> (types_error, bool list) result" where
  "bit_vector_try_from max_bits v =
     (let num_bytes = length (cba_elems v)
      in if num_bytes = 0 \<and> cba_extra_bits_stored v \<noteq> 0 then Inl (Err MalformedCompactBitArray)
         else bind_r (if cba_extra_bits_stored v = 0 then Inr 8
                      else if cba_extra_bits_stored v \<le> 7 then Inr (cba_extra_bits_stored v)
                      else Inl (Err MalformedCompactBitArray)) (\<lambda>last_byte_bits.
         let num_bits = saturating_sub num_bytes 1 * 8 + last_byte_bits
         in if max_bits < 8 * num_bytes then Inl (Err BitarrayTooLarge)
            else Inr (take num_bits (concat (map byte_bits (cba_elems v))))))"

definition compact_bit_array_from :: "bool list \<Rightarrow> compact_bit_array" where
  "compact_bit_array_from bs = \<lparr>cba_extra_bits_stored = length bs mod 8, cba_elems = bits_into_vec bs\<rparr>"

lemma length_byte_bits [simp]: "length (byte_bits b) = 8"
  by (simp add: byte_bits_def)

lemma byte_bits_bits_byte: "length bs = 8 \<Longrightarrow> byte_bits (bits_byte bs) = bs"
  by (intro nth_equalityI) (simp_all add: byte_bits_def bits_byte_def bit_horner_sum_bit_word_iff rev_nth less_diff_conv2)

lemma bits_of_into_vec:
  "concat (map byte_bits (bits_into_vec bs)) = bs @ replicate (8 * ((length bs + 7) div 8) - length bs) False"
proof (induction bs rule: bits_into_vec.induct)
  case (1 bs)
  note IH = "1.IH"
  consider "bs = []" | "bs \<noteq> []" "length bs \<le> 8" | "8 < length bs" by force
  then show ?case
  proof cases
    case 1
    then show ?thesis by (simp add: bits_into_vec.simps [of "[]"])
  next
    case 2
    then have "(length bs + 7) div 8 = 1" by (intro div_nat_eqI) (auto simp: Suc_le_eq)
    with 2 show ?thesis
      by (subst bits_into_vec.simps) (simp add: byte_bits_bits_byte bits_into_vec.simps [of "[]"])
  next
    case 3
    then have ne: "bs \<noteq> []" by auto
    define k where "k = length bs - 8"
    from 3 have k: "length bs = 8 + k" by (simp add: k_def)
    have "(8 + (k + 7)) div 8 = Suc ((k + 7) div 8)" by (subst div_add_self1) simp_all
    then have e: "8 * ((length bs + 7) div 8) - length bs = 8 * ((k + 7) div 8) - k" by (simp add: k add.assoc)
    have "concat (map byte_bits (bits_into_vec bs)) = take 8 bs @ concat (map byte_bits (bits_into_vec (drop 8 bs)))"
      using 3 ne by (subst bits_into_vec.simps) (simp add: byte_bits_bits_byte)
    also have "\<dots> = take 8 bs @ drop 8 bs @ replicate (8 * ((k + 7) div 8) - k) False"
      using IH [OF ne] by (simp add: k)
    finally show ?thesis unfolding e by (simp flip: append_assoc)
  qed
qed

lemma length_bits_into_vec: "length (bits_into_vec bs) = (length bs + 7) div 8"
proof -
  have "length (concat (map byte_bits xs)) = 8 * length xs" for xs by (induction xs) auto
  then have "8 * length (bits_into_vec bs) = length (bs @ replicate (8 * ((length bs + 7) div 8) - length bs) False)"
    by (simp only: bits_of_into_vec [symmetric])
  then show ?thesis by simp
qed

lemma bit_vector_try_from_ok:
  assumes "cba_elems v \<noteq> []" "cba_extra_bits_stored v < 8" "8 * length (cba_elems v) \<le> max_bits"
  shows "bit_vector_try_from max_bits v =
    Inr (take ((length (cba_elems v) - 1) * 8 + (if cba_extra_bits_stored v = 0 then 8 else cba_extra_bits_stored v))
      (concat (map byte_bits (cba_elems v))))"
  using assms by (simp add: bit_vector_try_from_def saturating_sub_def Let_def)

text \<open>Encoding and decoding a bit vector gives it back, whatever its length.\<close>

lemma bit_vector_roundtrip:
  assumes "8 * ((length bs + 7) div 8) \<le> max_bits"
  shows "bit_vector_try_from max_bits (compact_bit_array_from bs) = Inr bs"
proof (cases bs)
  case Nil
  then show ?thesis
    by (simp add: bit_vector_try_from_def compact_bit_array_from_def bits_into_vec.simps [of "[]"])
next
  case (Cons b cs)
  define k where "k = length cs"
  have k: "length bs = Suc k" by (simp add: Cons k_def)
  have l: "length (bits_into_vec bs) = Suc (k div 8)" by (simp add: length_bits_into_vec k)
  have q: "8 * (k div 8) + k mod 8 = k" by (rule mult_div_mod_eq)
  have e: "k div 8 * 8 + (if Suc k mod 8 = 0 then 8 else Suc k mod 8) = Suc k"
  proof (cases "k mod 8 = 7")
    case True
    then have z: "Suc k mod 8 = 0" by (simp add: mod_Suc)
    from True q show ?thesis unfolding z by simp
  next
    case False
    then have z: "Suc k mod 8 = Suc (k mod 8)" by (simp add: mod_Suc)
    from q show ?thesis unfolding z by simp
  qed
  have "bits_into_vec bs \<noteq> []" using l by auto
  moreover have "8 * length (bits_into_vec bs) \<le> max_bits" using assms by (simp add: length_bits_into_vec)
  ultimately have "bit_vector_try_from max_bits (compact_bit_array_from bs) =
    Inr (take (k div 8 * 8 + (if Suc k mod 8 = 0 then 8 else Suc k mod 8)) (concat (map byte_bits (bits_into_vec bs))))"
    by (subst bit_vector_try_from_ok) (simp_all add: compact_bit_array_from_def l k)
  then show ?thesis unfolding e by (simp add: bits_of_into_vec flip: k)
qed

end
