(* ===== verification/Shares.thy ===== *)
theory Shares
  imports State_Types
begin

text \<open>
  Shares, the chunks of 512 bytes a data square is made of: \<open>types/src/share.rs\<close> with the info byte
  of \<open>types/src/share/info_byte.rs\<close> and the sizes of \<open>types/src/consts.rs\<close>. A share is a record with
  the bytes of the array and the parity flag; \<open>share_ok\<close> is what the constructors establish and all
  readers rely on.
\<close>

unbundle bit_operations_syntax

section \<open>Sizes\<close>

definition SHARE_INFO_BYTES :: nat where
  "SHARE_INFO_BYTES = 1"

definition SEQUENCE_LEN_BYTES :: nat where
  "SEQUENCE_LEN_BYTES = 4"

definition SHARE_VERSION_ZERO :: byte where
  "SHARE_VERSION_ZERO = 0"

definition SHARE_VERSION_ONE :: byte where
  "SHARE_VERSION_ONE = 1"

definition FIRST_SPARSE_SHARE_CONTENT_SIZE :: nat where
  "FIRST_SPARSE_SHARE_CONTENT_SIZE = SHARE_SIZE - NS_SIZE - SHARE_INFO_BYTES - SEQUENCE_LEN_BYTES"

definition CONTINUATION_SPARSE_SHARE_CONTENT_SIZE :: nat where
  "CONTINUATION_SPARSE_SHARE_CONTENT_SIZE = SHARE_SIZE - NS_SIZE - SHARE_INFO_BYTES"

definition MAX_SHARE_VERSION :: byte where
  "MAX_SHARE_VERSION = 127"

definition SHARE_SEQUENCE_LENGTH_OFFSET :: nat where
  "SHARE_SEQUENCE_LENGTH_OFFSET = NS_SIZE + SHARE_INFO_BYTES"

definition SHARE_SIGNER_OFFSET :: nat where
  "SHARE_SIGNER_OFFSET = SHARE_SEQUENCE_LENGTH_OFFSET + SEQUENCE_LEN_BYTES"

lemmas share_sizes = ns_sizes SHARE_SIZE_def SHARE_INFO_BYTES_def SEQUENCE_LEN_BYTES_def SIGNER_SIZE_def
  FIRST_SPARSE_SHARE_CONTENT_SIZE_def CONTINUATION_SPARSE_SHARE_CONTENT_SIZE_def
  SHARE_SEQUENCE_LENGTH_OFFSET_def SHARE_SIGNER_OFFSET_def

section \<open>The info byte\<close>

datatype info_byte = InfoByte (info_as_u8: byte)

definition info_new :: "byte \<Rightarrow> bool \<Rightarrow> (types_error, info_byte) result" where
  "info_new version is_sequence_start =
     (if MAX_SHARE_VERSION < version then Inl (Err (MaxShareVersionExceeded (unat version)))
      else let prefix = push_bit 1 version;
               sequence_start = (if is_sequence_start then 1 else 0)
           in Inr (InfoByte (prefix + sequence_start)))"

definition info_version :: "info_byte \<Rightarrow> byte" where
  "info_version i = drop_bit 1 (info_as_u8 i)"

definition is_sequence_start :: "info_byte \<Rightarrow> bool" where
  "is_sequence_start i \<longleftrightarrow> info_as_u8 i mod 2 = 1"

definition info_from_raw :: "byte \<Rightarrow> (types_error, info_byte) result" where
  "info_from_raw b =
     (let version = drop_bit 1 b
      in if MAX_SHARE_VERSION < version then Inl (Err (MaxShareVersionExceeded (unat version)))
         else Inr (InfoByte b))"

lemma drop_bit_1_le: "drop_bit (Suc 0) (b :: byte) \<le> 127"
proof -
  have "unat (drop_bit (Suc 0) b) = unat b div 2" by (simp add: drop_bit_Suc unat_div)
  also have "\<dots> \<le> 127" using unat_byte_less [of b] by linarith
  finally show ?thesis by (simp add: word_le_nat_alt)
qed

text \<open>Every byte is a valid info byte: its version has seven bits.\<close>

lemma info_from_raw_total [simp]: "info_from_raw b = Inr (InfoByte b)"
  using drop_bit_1_le [of b] by (simp add: info_from_raw_def MAX_SHARE_VERSION_def Let_def not_less)

lemma info_new_fields:
  assumes "version \<le> 127"
  obtains i where "info_new version s = Inr i" "info_version i = version" "is_sequence_start i = s"
proof -
  define b :: byte where "b = push_bit 1 version + (if s then 1 else 0)"
  have v: "unat version \<le> 127" using assms by (simp add: word_le_nat_alt)
  have "unat (push_bit 1 version) = 2 * unat version"
    using v by (simp add: push_bit_Suc unat_mult_lem [THEN iffD1] unat_word_ariths)
  with v have b: "unat b = 2 * unat version + of_bool s"
    by (simp add: b_def unat_word_ariths)
  have "unat (drop_bit 1 b) = unat version" using b by (simp add: drop_bit_Suc unat_div)
  then have "info_version (InfoByte b) = version" by (simp add: info_version_def word_unat_eq_iff)
  moreover have "unat (b mod 2) = of_bool s" using b by (simp add: unat_mod)
  then have "is_sequence_start (InfoByte b) = s"
    by (cases s) (auto simp: is_sequence_start_def word_unat_eq_iff)
  moreover have "info_new version s = Inr (InfoByte b)"
    using assms by (simp add: info_new_def MAX_SHARE_VERSION_def b_def Let_def not_less)
  ultimately show thesis using that by blast
qed

section \<open>Shares\<close>

record share =
  sh_data :: "byte list"
  sh_is_parity :: bool

definition slice :: "nat \<Rightarrow> nat \<Rightarrow> 'a list \<Rightarrow> 'a list" where
  "slice a b xs = take (b - a) (drop a xs)"

definition share_from_raw :: "byte list \<Rightarrow> (types_error, share) result" where
  "share_from_raw data =
     (if length data \<noteq> SHARE_SIZE then Inl (Err (InvalidShareSize (length data)))
      else bind_r (ns_from_raw (take NS_SIZE data)) (\<lambda>_.
           bind_r (info_from_raw (data ! NS_SIZE)) (\<lambda>_.
           Inr \<lparr>sh_data = data, sh_is_parity = False\<rparr>)))"

definition share_parity :: "byte list \<Rightarrow> (types_error, share) result" where
  "share_parity data =
     (if length data \<noteq> SHARE_SIZE then Inl (Err (InvalidShareSize (length data)))
      else Inr \<lparr>sh_data = data, sh_is_parity = True\<rparr>)"

definition share_namespace :: "share \<Rightarrow> namespace" where
  "share_namespace s = (if \<not> sh_is_parity s then new_unchecked (take NS_SIZE (sh_data s)) else PARITY_SHARE)"

definition share_info_byte :: "share \<Rightarrow> info_byte option" where
  "share_info_byte s = (if \<not> sh_is_parity s then Some (InfoByte (sh_data s ! NS_SIZE)) else None)"

definition share_validate :: "share \<Rightarrow> app_version \<Rightarrow> (types_error, unit) result" where
  "share_validate s app =
     (if (case share_info_byte s of None \<Rightarrow> False
          | Some info \<Rightarrow> info_version info = SHARE_VERSION_ONE \<and> app < V3)
      then Inl (Err (UnsupportedShareVersion (unat SHARE_VERSION_ONE)))
      else Inr ())"

definition sequence_length :: "share \<Rightarrow> nat option" where
  "sequence_length s = Option.bind (share_info_byte s) (\<lambda>info.
     if is_sequence_start info
     then Some (be_value (slice SHARE_SEQUENCE_LENGTH_OFFSET (SHARE_SEQUENCE_LENGTH_OFFSET + SEQUENCE_LEN_BYTES) (sh_data s)))
     else None)"

definition share_signer :: "share \<Rightarrow> ('e, acc_address option) result" where
  "share_signer s = (case share_info_byte s of
      None \<Rightarrow> Inr None
    | Some info \<Rightarrow>
        if is_sequence_start info \<and> info_version info = SHARE_VERSION_ONE
        then bind_r (expect_r ''must have correct size''
               (acc_try_from (slice SHARE_SIGNER_OFFSET (SHARE_SIGNER_OFFSET + SIGNER_SIZE) (sh_data s))))
             (\<lambda>a. Inr (Some a))
        else Inr None)"

definition share_payload :: "share \<Rightarrow> byte list option" where
  "share_payload s = Option.bind (share_info_byte s) (\<lambda>info.
     let start = (if is_sequence_start info
                  then if info_version info = SHARE_VERSION_ONE then SHARE_SIGNER_OFFSET + SIGNER_SIZE
                       else SHARE_SEQUENCE_LENGTH_OFFSET + SEQUENCE_LEN_BYTES
                  else SHARE_SEQUENCE_LENGTH_OFFSET)
     in Some (drop start (sh_data s)))"

definition share_to_vec :: "share \<Rightarrow> byte list" where
  "share_to_vec s = sh_data s"

definition share_ok :: "share \<Rightarrow> bool" where
  "share_ok s \<longleftrightarrow> length (sh_data s) = 512 \<and> (\<not> sh_is_parity s \<longrightarrow> ns_ok (Namespace (take 29 (sh_data s))))"

lemma share_from_raw_iff:
  "share_from_raw data = Inr s \<longleftrightarrow>
     s = \<lparr>sh_data = data, sh_is_parity = False\<rparr> \<and> length data = 512 \<and> ns_ok (Namespace (take 29 data))"
proof -
  have "(\<exists>n. ns_from_raw (take 29 data) = Inr n) \<longleftrightarrow> ns_ok (Namespace (take 29 data))"
    by (metis namespace.exhaust_sel namespace.sel ns_from_raw_iff)
  then show ?thesis
    by (auto simp: share_from_raw_def share_sizes bind_r_Inr_iff)
qed

lemma share_from_raw_ok:
  "length data = 512 \<Longrightarrow> ns_ok (Namespace (take 29 data)) \<Longrightarrow>
   share_from_raw data = Inr \<lparr>sh_data = data, sh_is_parity = False\<rparr>"
  by (simp add: share_from_raw_iff)

lemma share_constructors_ok:
  "share_from_raw data = Inr s \<Longrightarrow> share_ok s \<and> \<not> sh_is_parity s"
  "share_parity data = Inr s \<Longrightarrow> share_ok s \<and> sh_is_parity s"
  by (auto simp: share_from_raw_iff share_parity_def share_ok_def share_sizes split: if_splits)

lemma share_namespace_ok: "share_ok s \<Longrightarrow> ns_ok (share_namespace s)"
  by (auto simp: share_ok_def share_namespace_def new_unchecked_def share_sizes PARITY_SHARE_def)

lemma share_signer_total: "share_ok s \<Longrightarrow> \<exists>a. share_signer s = (Inr a :: ('e, _) result)"
  by (auto simp: share_signer_def share_ok_def slice_def share_sizes acc_try_from_def id_try_from_def split: option.split)

text \<open>Reading back a share that is built from its parts.\<close>

lemma share_parts:
  fixes ns :: namespace and i :: info_byte and rest :: "byte list"
  assumes "length (as_bytes ns) = 29"
  defines "s \<equiv> \<lparr>sh_data = as_bytes ns @ [info_as_u8 i] @ rest, sh_is_parity = False\<rparr>"
  shows "share_namespace s = ns" "share_info_byte s = Some i"
    "sequence_length s = (if is_sequence_start i then Some (be_value (take 4 rest)) else None)"
    "share_payload s = Some (drop (if is_sequence_start i then if info_version i = 1 then 24 else 4 else 0) rest)"
  using assms by (simp_all add: share_namespace_def share_info_byte_def sequence_length_def share_payload_def
      new_unchecked_def share_sizes nth_append slice_def SHARE_VERSION_ONE_def)

lemma share_parts_signer:
  fixes ns :: namespace and i :: info_byte and rest :: "byte list"
  assumes "length (as_bytes ns) = 29" "24 \<le> length rest"
  defines "s \<equiv> \<lparr>sh_data = as_bytes ns @ [info_as_u8 i] @ rest, sh_is_parity = False\<rparr>"
  shows "share_signer s = (Inr (if is_sequence_start i \<and> info_version i = 1
     then Some (AccAddress (take 20 (drop 4 rest))) else None) :: ('e, _) result)"
  using assms by (simp add: share_signer_def share_info_byte_def share_sizes nth_append slice_def
      SHARE_VERSION_ONE_def acc_try_from_def id_try_from_def)

end
