(* ===== verification/Commitments.thy ===== *)
theory Commitments
  imports Shares "HOL-Library.Sublist"
begin

text \<open>
  Share commitments of \<open>types/src/blob/commitment.rs\<close>: the splitting of a blob into shares, and the
  merkle mountain range over them. The namespaced merkle tree of \<open>nmt-rs\<close> and the merkle hash of
  \<open>tendermint\<close> are the parameter \<open>nmt_lib\<close>. A loop that may run forever is a \<open>partial_function\<close>
  into \<open>option\<close>, so that not returning is \<open>None\<close>. The square root that the source takes in
  floating point is the exact one: a blob has less than \<open>2^24\<close> shares, where the two agree.
\<close>

section \<open>Partial computations with results\<close>

type_synonym ('e, 'a) partial = "('e, 'a) result option"

definition bind_p :: "('e, 'a) partial \<Rightarrow> ('a \<Rightarrow> ('e, 'b) partial) \<Rightarrow> ('e, 'b) partial" where
  "bind_p m f = (case m of None \<Rightarrow> None | Some (Inl e) \<Rightarrow> Some (Inl e) | Some (Inr x) \<Rightarrow> f x)"

lemma bind_p_simps [simp]:
  "bind_p None f = None" "bind_p (Some (Inl e)) f = Some (Inl e)" "bind_p (Some (Inr x)) f = f x"
  by (simp_all add: bind_p_def)

lemma bind_p_Inr_iff: "bind_p m f = Some (Inr y) \<longleftrightarrow> (\<exists>x. m = Some (Inr x) \<and> f x = Some (Inr y))"
  by (auto simp: bind_p_def split: option.splits sum.splits)

section \<open>Validation\<close>

datatype commitment = Commitment (cm_hash: "byte list")

definition validate_blob :: "byte \<Rightarrow> bool \<Rightarrow> app_version option \<Rightarrow> (types_error, unit) result" where
  "validate_blob share_version has_signer app_version =
     (if share_version \<notin> {SHARE_VERSION_ZERO, SHARE_VERSION_ONE}
      then Inl (Err (UnsupportedShareVersion (unat share_version)))
      else if share_version = SHARE_VERSION_ZERO \<and> has_signer then Inl (Err SignerNotSupported)
      else if share_version = SHARE_VERSION_ONE \<and> \<not> has_signer then Inl (Err MissingSigner)
      else if (case app_version of None \<Rightarrow> False | Some app \<Rightarrow> share_version = SHARE_VERSION_ONE \<and> app < V3)
      then Inl (Err (UnsupportedShareVersion (unat share_version)))
      else Inr ())"

section \<open>Splitting into shares\<close>

text \<open>A cursor is the data and a position in it; what it hands out is the next share and the new
  position.\<close>

definition build_sparse_share ::
  "namespace \<Rightarrow> byte \<Rightarrow> acc_address option \<Rightarrow> byte list \<Rightarrow> nat \<Rightarrow> (types_error, share \<times> nat) result" where
  "build_sparse_share namespace share_version signer data position =
     (let is_first_share = (position = 0); data_len = length data
      in bind_r (info_new share_version is_first_share) (\<lambda>info.
         bind_r (if is_first_share
                 then bind_r (if data_len < 2 ^ 32 then Inr data_len else Inl (Err (ShareSequenceLenExceeded data_len))) (\<lambda>len.
                      if share_version = SHARE_VERSION_ONE
                      then bind_r (ok_or MissingSigner signer) (\<lambda>s. Inr (be_bytes 4 len @ acc_id s))
                      else Inr (be_bytes 4 len))
                 else Inr []) (\<lambda>meta.
         let bytes = as_bytes namespace @ [info_as_u8 info] @ meta; current_size = length bytes
         in bind_r (sub_u64 SHARE_SIZE current_size) (\<lambda>available_space.
            let read_amount = min available_space (data_len - position)
            in bind_r (share_from_raw (bytes @ take read_amount (drop position data)
                  @ replicate (available_space - read_amount) 0)) (\<lambda>s.
               Inr (s, position + read_amount))))))"

partial_function (option) split_loop ::
  "namespace \<Rightarrow> byte \<Rightarrow> acc_address option \<Rightarrow> byte list \<Rightarrow> nat \<Rightarrow> share list \<Rightarrow> (types_error, share list) partial" where
  "split_loop namespace share_version signer data position shares =
     (if position < length data
      then (case build_sparse_share namespace share_version signer data position of
              Inl e \<Rightarrow> Some (Inl e)
            | Inr (s, p) \<Rightarrow> split_loop namespace share_version signer data p (shares @ [s]))
      else Some (Inr shares))"

definition split_blob_to_shares ::
  "namespace \<Rightarrow> byte \<Rightarrow> byte list \<Rightarrow> acc_address option \<Rightarrow> (types_error, share list) partial" where
  "split_blob_to_shares namespace share_version blob_data signer =
     split_loop namespace share_version signer blob_data 0 []"

section \<open>The merkle mountain range\<close>

definition checked_shl :: "nat \<Rightarrow> nat \<Rightarrow> nat option" where
  "checked_shl x k = (if k < 64 then Some ((x * 2 ^ k) mod 2 ^ 64) else None)"

partial_function (option) round_up_loop :: "nat \<Rightarrow> nat \<Rightarrow> nat option option" where
  "round_up_loop x po2 =
     (if x \<le> po2 then Some (Some po2)
      else case checked_shl po2 1 of Some next_po2 \<Rightarrow> round_up_loop x next_po2 | None \<Rightarrow> Some None)"

definition round_up_to_power_of_2 :: "nat \<Rightarrow> nat option option" where
  "round_up_to_power_of_2 x = round_up_loop x 1"

definition round_down_to_power_of_2 :: "nat \<Rightarrow> nat option option" where
  "round_down_to_power_of_2 x = map_option (\<lambda>r. case r of
      Some po2 \<Rightarrow> if po2 = x then Some x else Some (po2 div 2)
    | None \<Rightarrow> None) (round_up_to_power_of_2 x)"

definition expect_p :: "string \<Rightarrow> 'a option option \<Rightarrow> ('e, 'a) partial" where
  "expect_p msg = map_option (\<lambda>r. case r of None \<Rightarrow> Inl (Panic msg) | Some x \<Rightarrow> Inr x)"

partial_function (option) mmr_loop :: "nat \<Rightarrow> nat \<Rightarrow> nat list \<Rightarrow> ('e, nat list) partial" where
  "mmr_loop total_size max_tree_size tree_sizes =
     (if total_size = 0 then Some (Inr tree_sizes)
      else if max_tree_size \<le> total_size
      then mmr_loop (total_size - max_tree_size) max_tree_size (tree_sizes @ [max_tree_size])
      else Option.bind (round_down_to_power_of_2 total_size) (\<lambda>r. case r of
             None \<Rightarrow> Some (Inl (Panic ''Failed to find next power of 2''))
           | Some tree_size \<Rightarrow>
               if tree_size \<le> total_size
               then mmr_loop (total_size - tree_size) max_tree_size (tree_sizes @ [tree_size])
               else Some (Inl (Panic ''attempt to subtract with overflow''))))"

definition merkle_mountain_range_sizes :: "nat \<Rightarrow> nat \<Rightarrow> ('e, nat list) partial" where
  "merkle_mountain_range_sizes total_size max_tree_size = mmr_loop total_size max_tree_size []"

function ceil_sqrt_from :: "nat \<Rightarrow> nat \<Rightarrow> nat" where
  "ceil_sqrt_from n k = (if n \<le> k * k then k else ceil_sqrt_from n (Suc k))"
  by pat_completeness auto
termination
proof (relation "measure (\<lambda>(n, k). n - k)")
  fix n k :: nat
  assume "\<not> n \<le> k * k"
  then have "k < n" using le_square [of k] by linarith
  then show "((n, Suc k), n, k) \<in> measure (\<lambda>(n, k). n - k)" by simp
qed simp

declare ceil_sqrt_from.simps [simp del]

definition ceil_sqrt :: "nat \<Rightarrow> nat" where
  "ceil_sqrt n = ceil_sqrt_from n 0"

definition blob_min_square_size :: "nat \<Rightarrow> ('e, nat) partial" where
  "blob_min_square_size share_count =
     expect_p ''Failed to find minimum blob square size'' (round_up_to_power_of_2 (ceil_sqrt share_count))"

definition subtree_width :: "nat \<Rightarrow> nat \<Rightarrow> ('e, nat) partial" where
  "subtree_width share_count threshold =
     (if threshold = 0 then Some (Inl (Panic ''attempt to divide by zero''))
      else let s = share_count div threshold;
               s' = (if \<not> threshold dvd share_count then s + 1 else s)
           in bind_p (expect_p ''Failed to find next power of 2'' (round_up_to_power_of_2 s')) (\<lambda>s.
              bind_p (blob_min_square_size share_count) (\<lambda>m. Some (Inr (min s m)))))"

section \<open>Commitments\<close>

record 't nmt_lib =
  nl_with_hasher :: "bool \<Rightarrow> 't"
  nl_push_leaf :: "byte list \<Rightarrow> namespace \<Rightarrow> 't \<Rightarrow> string + 't"
  nl_root :: "'t \<Rightarrow> byte list"
  nl_simple_hash :: "byte list list \<Rightarrow> byte list"

fun split_leaf_sets :: "nat list \<Rightarrow> 'a list \<Rightarrow> ('e, 'a list list) result" where
  "split_leaf_sets [] shares = Inr []"
| "split_leaf_sets (n # sizes) shares =
     (if length shares < n then Inl (Panic ''mid > len'')
      else bind_r (split_leaf_sets sizes (drop n shares)) (\<lambda>sets. Inr (take n shares # sets)))"

definition push_share :: "'t nmt_lib \<Rightarrow> namespace \<Rightarrow> share \<Rightarrow> 't \<Rightarrow> (types_error, 't) result" where
  "push_share lib ns leaf_share tree = (case nl_push_leaf lib (sh_data leaf_share) ns tree of
      Inl e \<Rightarrow> Inl (Err (Nmt e)) | Inr t \<Rightarrow> Inr t)"

fun subtree_roots :: "'t nmt_lib \<Rightarrow> namespace \<Rightarrow> share list list \<Rightarrow> (types_error, byte list list) result" where
  "subtree_roots lib ns [] = Inr []"
| "subtree_roots lib ns (leaf_set # sets) =
     bind_r (fold_r (push_share lib ns) leaf_set (nl_with_hasher lib True)) (\<lambda>tree.
     bind_r (subtree_roots lib ns sets) (\<lambda>roots. Inr (nl_root lib tree # roots)))"

definition commitment_from_shares ::
  "'t nmt_lib \<Rightarrow> namespace \<Rightarrow> share list \<Rightarrow> app_version \<Rightarrow> (types_error, commitment) partial" where
  "commitment_from_shares lib namespace shares app_version =
     bind_p (subtree_width (length shares) (subtree_root_threshold app_version)) (\<lambda>width.
     bind_p (merkle_mountain_range_sizes (length shares) width) (\<lambda>tree_sizes.
     Some (bind_r (split_leaf_sets tree_sizes shares) (\<lambda>leaf_sets.
           bind_r (subtree_roots lib namespace leaf_sets) (\<lambda>roots.
           Inr (Commitment (nl_simple_hash lib roots)))))))"

definition commitment_from_blob ::
  "'t nmt_lib \<Rightarrow> namespace \<Rightarrow> byte list \<Rightarrow> byte \<Rightarrow> acc_address option \<Rightarrow> app_version \<Rightarrow> (types_error, commitment) partial" where
  "commitment_from_blob lib namespace blob_data share_version signer app_version =
     bind_p (Some (validate_blob share_version (signer \<noteq> None) (Some app_version))) (\<lambda>_.
     bind_p (split_blob_to_shares namespace share_version blob_data signer) (\<lambda>shares.
     commitment_from_shares lib namespace shares app_version))"

section \<open>Powers of two\<close>

lemma round_up_loop_ok:
  assumes "2 ^ k < x" "x \<le> 2 ^ 63"
  shows "\<exists>j. round_up_loop x (2 ^ k) = Some (Some (2 ^ j)) \<and> x \<le> 2 ^ j \<and> 2 ^ j < 2 * x"
  using assms
proof (induction "63 - k" arbitrary: k)
  case 0
  then have "63 \<le> k" by simp
  then have "(2 :: nat) ^ 63 \<le> 2 ^ k" by (rule power_increasing) simp
  with 0 show ?case by linarith
next
  case (Suc d)
  then have k: "k < 63" by simp
  then have "(2 :: nat) ^ Suc k < 2 ^ 64" by (intro power_strict_increasing) simp_all
  then have s: "checked_shl (2 ^ k) 1 = Some (2 ^ Suc k)" by (simp add: checked_shl_def mult.commute)
  have l: "round_up_loop x (2 ^ k) = round_up_loop x (2 ^ Suc k)"
    using Suc.prems s by (subst round_up_loop.simps) simp
  show ?case
  proof (cases "x \<le> 2 ^ Suc k")
    case True
    then have "round_up_loop x (2 ^ Suc k) = Some (Some (2 ^ Suc k))" by (subst round_up_loop.simps) simp
    with True l Suc.prems show ?thesis by (intro exI [of _ "Suc k"]) simp
  next
    case False
    with Suc.hyps(1) [of "Suc k"] Suc.hyps(2) Suc.prems l show ?thesis by simp
  qed
qed

lemma round_up_ok:
  assumes "x \<le> 2 ^ 63"
  obtains j where "round_up_to_power_of_2 x = Some (Some (2 ^ j))" "x \<le> 2 ^ j" "0 < x \<Longrightarrow> 2 ^ j < 2 * x" "x = 0 \<Longrightarrow> j = 0"
proof (cases "x \<le> 1")
  case True
  then have "round_up_to_power_of_2 x = Some (Some (2 ^ 0))"
    by (simp add: round_up_to_power_of_2_def round_up_loop.simps)
  with True that [of 0] show thesis by auto
next
  case False
  with round_up_loop_ok [of 0 x] assms that show thesis by (auto simp: round_up_to_power_of_2_def)
qed

lemma round_down_ok:
  assumes "0 < x" "x \<le> 2 ^ 63"
  obtains j where "round_down_to_power_of_2 x = Some (Some (2 ^ j))" "2 ^ j \<le> x" "x < 2 * 2 ^ j"
proof -
  from round_up_ok [OF assms(2)] obtain j where
    j: "round_up_to_power_of_2 x = Some (Some (2 ^ j))" "x \<le> 2 ^ j" "2 ^ j < 2 * x" using assms(1) by metis
  show thesis
  proof (cases "2 ^ j = x")
    case True
    with j assms that [of j] show ?thesis by (simp add: round_down_to_power_of_2_def)
  next
    case False
    with j(2) have "j \<noteq> 0" using assms(1) by (intro notI) simp
    then obtain i where i: "j = Suc i" by (cases j) auto
    with False j that [of i] show ?thesis by (simp add: round_down_to_power_of_2_def)
  qed
qed

text \<open>Above \<open>2^63\<close> the shift drops the only bit that is set, and the loop goes on from zero for ever:
  the overflow that the source tests for is never reported.\<close>

lemmas round_up_loop_induct =
  round_up_loop.raw_induct [where xa = "(x, p)" for x p, unfolded prod.case, rotated, consumes 1, case_names step]

lemma round_up_loop_never:
  "round_up_loop x p = Some r \<Longrightarrow> \<not> (2 ^ 63 < x \<and> (p = 0 \<or> (\<exists>k \<le> 63. p = 2 ^ k)))"
proof (induction rule: round_up_loop_induct)
  case (step rul x p r)
  show ?case
  proof
    assume prems: "2 ^ 63 < x \<and> (p = 0 \<or> (\<exists>k \<le> 63. p = 2 ^ k))"
    then have "p \<le> 2 ^ 63" by (auto dest: power_increasing [of _ 63 "2 :: nat"])
    with prems have lt: "\<not> x \<le> p" by linarith
    define q where "q = (p * 2) mod 2 ^ 64"
    have "q = 0 \<or> (\<exists>k \<le> 63. q = 2 ^ k)"
    proof (cases "p = 0 \<or> p = 2 ^ 63")
      case False
      with prems obtain k where k: "k < 63" "p = 2 ^ k" by (metis le_neq_implies_less)
      then have "(2 :: nat) ^ Suc k < 2 ^ 64" by (intro power_strict_increasing) simp_all
      with k show ?thesis by (intro disjI2 exI [of _ "Suc k"]) (simp add: q_def mult.commute)
    qed (auto simp: q_def)
    moreover have "rul x q = Some r" using step.hyps lt by (simp add: checked_shl_def q_def)
    ultimately show False using step.IH prems by blast
  qed
qed

lemma round_up_diverges: "2 ^ 63 < x \<Longrightarrow> round_up_to_power_of_2 x = None"
  using round_up_loop_never [of x 1] by (force simp: round_up_to_power_of_2_def)

section \<open>Sizes of the mountain range\<close>

definition power_of_2 :: "nat \<Rightarrow> bool" where
  "power_of_2 n \<longleftrightarrow> (\<exists>k. n = 2 ^ k)"

lemma power_of_2_pos: "power_of_2 n \<Longrightarrow> 0 < n"
  by (auto simp: power_of_2_def)

text \<open>The sizes that the loop appends: powers of two that add up to the tot, the largest first.\<close>

definition range_sizes :: "nat \<Rightarrow> nat \<Rightarrow> nat list \<Rightarrow> bool" where
  "range_sizes tot w sizes \<longleftrightarrow> sum_list sizes = tot \<and> sorted (rev sizes) \<and>
     (\<forall>s \<in> set sizes. power_of_2 s \<and> s \<le> w)"

lemma range_sizes_Cons:
  assumes "range_sizes (tot - s) w sizes" "s \<le> tot" "power_of_2 s" "s \<le> w" "\<forall>t \<in> set sizes. t \<le> s"
  shows "range_sizes tot w (s # sizes)"
  using assms by (auto simp: range_sizes_def sorted_append)

lemma mmr_loop_ok:
  assumes "tot \<le> 2 ^ 63" "power_of_2 w"
  shows "\<exists>sizes. mmr_loop tot w acc = Some (Inr (acc @ sizes) :: ('e, _) result) \<and> range_sizes tot w sizes"
  using assms(1)
proof (induction tot arbitrary: acc rule: less_induct)
  case (less tot)
  consider "tot = 0" | "0 < tot" "w \<le> tot" | "0 < tot" "tot < w" by linarith
  then show ?case
  proof cases
    case 1
    then show ?thesis by (subst mmr_loop.simps) (simp add: range_sizes_def)
  next
    case 2
    have "0 < w" by (rule power_of_2_pos [OF assms(2)])
    moreover have "tot - w \<le> 2 ^ 63" using less.prems by linarith
    ultimately obtain sizes where
      sizes: "mmr_loop (tot - w) w (acc @ [w]) = Some (Inr (acc @ w # sizes) :: ('e, _) result)" "range_sizes (tot - w) w sizes"
      using less.IH [of "tot - w" "acc @ [w]"] 2 by auto
    moreover have "range_sizes tot w (w # sizes)"
      using 2 sizes(2) assms(2) by (intro range_sizes_Cons) (auto simp: range_sizes_def)
    ultimately show ?thesis using 2 by (subst mmr_loop.simps) auto
  next
    case 3
    from round_down_ok [OF 3(1) less.prems] obtain j where
      j: "round_down_to_power_of_2 tot = Some (Some (2 ^ j))" "2 ^ j \<le> tot" "tot < 2 * 2 ^ j" .
    moreover have "tot - 2 ^ j \<le> 2 ^ 63" using less.prems by linarith
    ultimately obtain sizes where
      sizes: "mmr_loop (tot - 2 ^ j) w (acc @ [2 ^ j]) = Some (Inr (acc @ 2 ^ j # sizes) :: ('e, _) result)"
        "range_sizes (tot - 2 ^ j) w sizes" using less.IH [of "tot - 2 ^ j" "acc @ [2 ^ j]"] 3 by auto
    have "t \<le> 2 ^ j" if "t \<in> set sizes" for t
      using member_le_sum_list [OF that] sizes(2) j(3) by (simp add: range_sizes_def)
    with sizes(2) j 3 have "range_sizes tot w (2 ^ j # sizes)"
      by (intro range_sizes_Cons) (auto simp: power_of_2_def)
    with sizes(1) j 3 show ?thesis by (subst mmr_loop.simps) auto
  qed
qed

lemma ceil_sqrt_from_ok:
  "k = 0 \<or> (k - 1) * (k - 1) < n \<Longrightarrow>
   n \<le> ceil_sqrt_from n k * ceil_sqrt_from n k \<and>
   (ceil_sqrt_from n k = 0 \<or> (ceil_sqrt_from n k - 1) * (ceil_sqrt_from n k - 1) < n)"
proof (induction n k rule: ceil_sqrt_from.induct)
  case (1 n k)
  show ?case
  proof (cases "n \<le> k * k")
    case True
    with "1.prems" show ?thesis by (simp add: ceil_sqrt_from.simps [of n k])
  next
    case False
    with "1.IH" show ?thesis by (simp add: ceil_sqrt_from.simps [of n k])
  qed
qed

lemma ceil_sqrt_ok:
  "n \<le> ceil_sqrt n * ceil_sqrt n" "ceil_sqrt n = 0 \<or> (ceil_sqrt n - 1) * (ceil_sqrt n - 1) < n"
  using ceil_sqrt_from_ok [of 0 n] by (simp_all add: ceil_sqrt_def)

lemma ceil_sqrt_le: "ceil_sqrt n \<le> n"
proof (cases "ceil_sqrt n \<le> 1")
  case True
  then show ?thesis using ceil_sqrt_ok(2) [of n] by (cases "ceil_sqrt n") auto
next
  case False
  then have "ceil_sqrt n - 1 \<le> (ceil_sqrt n - 1) * (ceil_sqrt n - 1)" by (intro le_square)
  with ceil_sqrt_ok(2) [of n] False show ?thesis by linarith
qed

text \<open>The width is a power of two; it is at most the width of the smallest square that can hold the
  shares, and, unless it is that, the number of full trees is at most the threshold.\<close>

lemma subtree_width_ok:
  assumes "n \<le> 2 ^ 63" "0 < t"
  obtains w m where "subtree_width n t = (Some (Inr w) :: ('e, _) partial)" "power_of_2 w"
    "blob_min_square_size n = (Some (Inr m) :: ('e, _) partial)" "power_of_2 m" "n \<le> m * m" "w \<le> m" "w = m \<or> n \<le> t * w"
proof -
  define s where "s = (if \<not> t dvd n then n div t + 1 else n div t)"
  have s1: "n \<le> t * s"
  proof (cases "t dvd n")
    case False
    have "n = t * (n div t) + n mod t" by simp
    also have "\<dots> \<le> t * (n div t) + t" using mod_less_divisor [OF assms(2), of n] by linarith
    finally show ?thesis using False by (simp add: s_def add.commute)
  qed (simp add: s_def)
  have "s \<le> n"
  proof (cases "t dvd n \<or> n = 0")
    case False
    then have "1 < t" using assms(2) by (cases "t = 1") auto
    then have "n div t < n" using False by simp
    then show ?thesis by (simp add: s_def)
  qed (auto simp: s_def)
  with assms have "s \<le> 2 ^ 63" by linarith
  from round_up_ok [OF this] obtain i where i: "round_up_to_power_of_2 s = Some (Some (2 ^ i))" "s \<le> 2 ^ i" by metis
  have "ceil_sqrt n \<le> 2 ^ 63" using ceil_sqrt_le [of n] assms(1) by linarith
  from round_up_ok [OF this] obtain j where j: "round_up_to_power_of_2 (ceil_sqrt n) = Some (Some (2 ^ j))" "ceil_sqrt n \<le> 2 ^ j" by metis
  have m: "blob_min_square_size n = (Some (Inr (2 ^ j)) :: ('e, _) partial)"
    using j by (simp add: blob_min_square_size_def expect_p_def)
  have w: "subtree_width n t = (Some (Inr (min (2 ^ i) (2 ^ j))) :: ('e, _) partial)"
    using assms(2) i by (simp add: subtree_width_def m expect_p_def s_def Let_def)
  have "n \<le> t * 2 ^ i" using s1 mult_le_mono2 [OF i(2), of t] by linarith
  moreover have "n \<le> 2 ^ j * 2 ^ j" using ceil_sqrt_ok(1) [of n] mult_le_mono [OF j(2) j(2)] by linarith
  ultimately show thesis
    by (intro that [OF w _ m]) (auto simp: power_of_2_def min_def)
qed

lemma split_leaf_sets_ok:
  "sum_list sizes = length shares \<Longrightarrow>
   \<exists>sets. split_leaf_sets sizes shares = (Inr sets :: ('e, _) result) \<and> concat sets = shares \<and> map length sets = sizes"
proof (induction sizes arbitrary: shares)
  case (Cons n sizes)
  then have "sum_list sizes = length (drop n shares)" by simp
  from Cons.IH [OF this] Cons.prems show ?case by auto
qed simp

lemma threshold_pos: "0 < subtree_root_threshold v"
  by (cases v) simp_all

text \<open>What the commitment is computed from: the shares cut, in order and without a remainder, into
  leaf sets whose sizes are those of the mountain range.\<close>

lemma commitment_from_shares_eq:
  assumes "length shares \<le> 2 ^ 63"
  obtains w m sets where
    "power_of_2 w" "power_of_2 m" "length shares \<le> m * m" "w \<le> m"
    "w = m \<or> length shares \<le> subtree_root_threshold app * w"
    "concat sets = shares" "range_sizes (length shares) w (map length sets)"
    "commitment_from_shares lib ns shares app =
       Some (bind_r (subtree_roots lib ns sets) (\<lambda>roots. Inr (Commitment (nl_simple_hash lib roots))))"
proof -
  from subtree_width_ok [OF assms threshold_pos, where 'e = types_error and v1 = app] obtain w m where
    w: "subtree_width (length shares) (subtree_root_threshold app) = (Some (Inr w) :: (types_error, _) partial)" "power_of_2 w"
      "power_of_2 m" "length shares \<le> m * m" "w \<le> m" "w = m \<or> length shares \<le> subtree_root_threshold app * w" .
  from mmr_loop_ok [OF assms w(2), of "[]", where 'e = types_error] obtain sizes where
    sizes: "merkle_mountain_range_sizes (length shares) w = (Some (Inr sizes) :: (types_error, _) partial)"
      "range_sizes (length shares) w sizes" by (auto simp: merkle_mountain_range_sizes_def)
  from split_leaf_sets_ok [of sizes shares, where 'e = types_error] sizes(2) obtain sets where
    sets: "split_leaf_sets sizes shares = (Inr sets :: (types_error, _) result)" "concat sets = shares" "map length sets = sizes"
    by (auto simp: range_sizes_def)
  show thesis
    by (rule that [OF w(2-6) sets(2)]) (simp_all add: sets sizes w commitment_from_shares_def)
qed

section \<open>The shares of a blob\<close>

function chunks :: "nat \<Rightarrow> 'a list \<Rightarrow> 'a list list" where
  "chunks n xs = (if n = 0 \<or> xs = [] then [] else take n xs # chunks n (drop n xs))"
  by pat_completeness auto
termination
  by (relation "measure (\<lambda>(n, xs). length xs)") auto

declare chunks.simps [simp del]

lemma chunks_Nil [simp]: "chunks n [] = []"
  by (simp add: chunks.simps)

lemma chunks_step: "0 < n \<Longrightarrow> xs \<noteq> [] \<Longrightarrow> chunks n xs = take n xs # chunks n (drop n xs)"
  by (subst chunks.simps) simp

text \<open>The content of the first share and of a continuation share.\<close>

definition first_content :: "byte \<Rightarrow> nat" where
  "first_content v = (if v = 1 then 458 else 478)"

definition first_share :: "namespace \<Rightarrow> byte \<Rightarrow> acc_address option \<Rightarrow> byte list \<Rightarrow> share" where
  "first_share ns v signer data = \<lparr>sh_data = as_bytes ns @ [push_bit 1 v + 1] @
     be_bytes 4 (length data) @ (if v = 1 then case signer of None \<Rightarrow> [] | Some a \<Rightarrow> acc_id a else []) @
     take (first_content v) data @ replicate (first_content v - length data) 0, sh_is_parity = False\<rparr>"

definition cont_share :: "namespace \<Rightarrow> byte \<Rightarrow> byte list \<Rightarrow> share" where
  "cont_share ns v c = \<lparr>sh_data = as_bytes ns @ [push_bit 1 v] @ c @ replicate (482 - length c) 0, sh_is_parity = False\<rparr>"

definition blob_shares :: "namespace \<Rightarrow> byte \<Rightarrow> acc_address option \<Rightarrow> byte list \<Rightarrow> share list" where
  "blob_shares ns v signer data = (if data = [] then []
     else first_share ns v signer data # map (cont_share ns v) (chunks 482 (drop (first_content v) data)))"

text \<open>What \<open>validate_blob\<close> and the types guarantee of the arguments.\<close>

definition split_args :: "namespace \<Rightarrow> byte \<Rightarrow> acc_address option \<Rightarrow> bool" where
  "split_args ns v signer \<longleftrightarrow> ns_ok ns \<and> (v = 0 \<and> signer = None \<or> v = 1 \<and> (\<exists>a. signer = Some a \<and> id_ok (acc_id a)))"

lemma version_small: "v = 0 \<or> v = 1 \<Longrightarrow> \<not> MAX_SHARE_VERSION < (v :: byte)"
  by (auto simp: MAX_SHARE_VERSION_def)

lemma build_continuation:
  assumes "split_args ns v signer" "0 < pos" "pos < length data"
  shows "build_sparse_share ns v signer data pos =
    Inr (cont_share ns v (take 482 (drop pos data)), pos + min 482 (length data - pos))"
proof -
  have l: "length (as_bytes ns) = 29" and v: "\<not> MAX_SHARE_VERSION < v" and n: "ns_ok ns"
    using assms(1) ns_ok_length version_small by (auto simp: split_args_def)
  have "482 - min 482 (length data - pos) = 482 - (length data - pos)" by simp
  then show ?thesis using assms(2,3) l n v
    by (simp add: build_sparse_share_def info_new_def Let_def share_sizes share_from_raw_ok cont_share_def
        min_def)
qed

lemma build_first:
  assumes "split_args ns v signer" "data \<noteq> []" "length data < 2 ^ 32"
  shows "build_sparse_share ns v signer data 0 =
    Inr (first_share ns v signer data, min (first_content v) (length data))"
proof -
  have l: "length (as_bytes ns) = 29" and v: "\<not> MAX_SHARE_VERSION < v" and n: "ns_ok ns"
    using assms(1) ns_ok_length version_small by (auto simp: split_args_def)
  show ?thesis using assms l n v
    by (auto simp: build_sparse_share_def info_new_def Let_def share_sizes share_from_raw_ok first_share_def
        min_def split_args_def SHARE_VERSION_ONE_def first_content_def id_ok_def)
qed

lemma split_continuation:
  assumes "split_args ns v signer" "0 < pos" "pos \<le> length data"
  shows "split_loop ns v signer data pos acc =
    Some (Inr (acc @ map (cont_share ns v) (chunks 482 (drop pos data))))"
  using assms(2,3)
proof (induction "length data - pos" arbitrary: pos acc rule: less_induct)
  case less
  show ?case
  proof (cases "pos = length data")
    case True
    then show ?thesis by (subst split_loop.simps) simp
  next
    case False
    with less.prems have lt: "pos < length data" by simp
    define q where "q = pos + min 482 (length data - pos)"
    have q: "length data - q < length data - pos" "0 < q" "q \<le> length data" using lt by (auto simp: q_def)
    have "drop q data = drop 482 (drop pos data)" using lt by (simp add: q_def min_def add.commute)
    then have "chunks 482 (drop pos data) = take 482 (drop pos data) # chunks 482 (drop q data)"
      using lt by (simp add: chunks_step)
    with less.hyps [OF q, of "acc @ [cont_share ns v (take 482 (drop pos data))]"] lt show ?thesis
      by (subst split_loop.simps) (simp add: build_continuation [OF assms(1) less.prems(1) lt] flip: q_def)
  qed
qed

text \<open>Splitting returns, with the shares of the specification.\<close>

lemma split_blob_to_shares_ok:
  assumes "split_args ns v signer" "length data < 2 ^ 32"
  shows "split_blob_to_shares ns v data signer = Some (Inr (blob_shares ns v signer data))"
proof (cases "data = []")
  case True
  then show ?thesis by (simp add: split_blob_to_shares_def blob_shares_def split_loop.simps)
next
  case False
  define q where "q = min (first_content v) (length data)"
  have q: "0 < q" "q \<le> length data" using False by (auto simp: q_def first_content_def)
  have "drop q data = drop (first_content v) data" by (simp add: q_def min_def)
  with split_continuation [OF assms(1) q, of "[first_share ns v signer data]"] False show ?thesis
    unfolding split_blob_to_shares_def
    by (subst split_loop.simps) (simp add: build_first [OF assms(1) False assms(2)] blob_shares_def flip: q_def)
qed

lemma length_chunks: "0 < n \<Longrightarrow> length (chunks n xs) = (length xs + n - 1) div n"
proof (induction n xs rule: chunks.induct)
  case (1 n xs)
  show ?case
  proof (cases "xs = []")
    case False
    define l where "l = length xs"
    have l: "0 < l" using False by (simp add: l_def)
    have IH: "length (chunks n (drop n xs)) = (length (drop n xs) + n - 1) div n" using 1 False by simp
    have "Suc ((l - n + n - 1) div n) = (l + n - 1) div n"
    proof (cases "l \<le> n")
      case True
      have "(l + n - 1) div n = 1"
        using True l "1.prems" by (intro div_nat_eqI) auto
      with True "1.prems" show ?thesis by simp
    next
      case False
      then have e: "l + n - 1 = (l - 1) + n" "l - n + n - 1 = l - 1" by simp_all
      show ?thesis unfolding e using "1.prems" div_add_self2 [of n "l - 1"] by simp
    qed
    with IH False "1.prems" show ?thesis by (simp add: chunks_step l_def)
  qed (use "1.prems" in simp)
qed

end
