(* ===== verification/Blobs.thy ===== *)
theory Blobs
  imports Commitments
begin

text \<open>
  Blobs of \<open>types/src/blob.rs\<close> and the message that pays for them, \<open>blob/msg_pay_for_blobs.rs\<close>:
  creation, validation against the commitment, the encoding into shares and the reconstruction from
  them, the conversions to and from the raw message and the checks of deserialization. The iterator
  that \<open>reconstruct\<close> consumes is a list; the function returns what is left of it.
\<close>

record blob =
  bl_namespace :: namespace
  bl_data :: "byte list"
  bl_share_version :: byte
  bl_commitment :: commitment
  bl_index :: "nat option"
  bl_signer :: "acc_address option"

record raw_blob =
  rb_namespace_id :: "byte list"
  rb_namespace_version :: nat
  rb_data :: "byte list"
  rb_share_version :: nat
  rb_signer :: "byte list"

section \<open>Creation and validation\<close>

definition blob_new ::
  "'t nmt_lib \<Rightarrow> namespace \<Rightarrow> byte list \<Rightarrow> acc_address option \<Rightarrow> app_version \<Rightarrow> (types_error, blob) partial" where
  "blob_new lib namespace data signer app_version =
     (let share_version = (if signer = None then SHARE_VERSION_ZERO else SHARE_VERSION_ONE)
      in bind_p (commitment_from_blob lib namespace data share_version signer app_version) (\<lambda>commitment.
         Some (Inr \<lparr>bl_namespace = namespace, bl_data = data, bl_share_version = share_version,
                    bl_commitment = commitment, bl_index = None, bl_signer = signer\<rparr>)))"

definition blob_from_raw :: "'t nmt_lib \<Rightarrow> raw_blob \<Rightarrow> app_version \<Rightarrow> (types_error, blob) partial" where
  "blob_from_raw lib raw app_version =
     bind_p (Some (ns_new (word_of_nat (rb_namespace_version raw)) (rb_namespace_id raw))) (\<lambda>namespace.
     bind_p (Some (if rb_share_version raw < 256 then Inr (word_of_nat (rb_share_version raw))
                   else Inl (Err (UnsupportedShareVersion 255)))) (\<lambda>share_version.
     let signer = (if length (rb_signer raw) = SIGNER_SIZE then Some (AccAddress (rb_signer raw)) else None)
     in bind_p (commitment_from_blob lib namespace (rb_data raw) share_version signer app_version) (\<lambda>commitment.
        Some (Inr \<lparr>bl_namespace = namespace, bl_data = rb_data raw, bl_share_version = share_version,
                   bl_commitment = commitment, bl_index = None, bl_signer = signer\<rparr>))))"

definition blob_validate :: "'t nmt_lib \<Rightarrow> blob \<Rightarrow> app_version \<Rightarrow> (types_error, unit) partial" where
  "blob_validate lib b app_version =
     bind_p (commitment_from_blob lib (bl_namespace b) (bl_data b) (bl_share_version b) (bl_signer b) app_version) (\<lambda>computed.
     if bl_commitment b \<noteq> computed then Some (bail_validation ''blob commitment != localy computed commitment'')
     else Some (Inr ()))"

definition blob_validate_with_commitment ::
  "'t nmt_lib \<Rightarrow> blob \<Rightarrow> commitment \<Rightarrow> app_version \<Rightarrow> (types_error, unit) partial" where
  "blob_validate_with_commitment lib b commitment app_version =
     bind_p (blob_validate lib b app_version) (\<lambda>_.
     if bl_commitment b \<noteq> commitment then Some (bail_validation ''blob commitment != commitment'')
     else Some (Inr ()))"

definition blob_to_shares :: "blob \<Rightarrow> (types_error, share list) partial" where
  "blob_to_shares b = split_blob_to_shares (bl_namespace b) (bl_share_version b) (bl_data b) (bl_signer b)"

definition raw_blob_from :: "blob \<Rightarrow> raw_blob" where
  "raw_blob_from b = \<lparr>rb_namespace_id = ns_id (bl_namespace b), rb_namespace_version = unat (ns_version (bl_namespace b)),
     rb_data = bl_data b, rb_share_version = unat (bl_share_version b),
     rb_signer = (case bl_signer b of None \<Rightarrow> [] | Some a \<Rightarrow> acc_id a)\<rparr>"

section \<open>Reconstruction\<close>

definition div_ceil :: "nat \<Rightarrow> nat \<Rightarrow> nat" where
  "div_ceil a b = (let d = a div b; r = a mod b in if 0 < r then d + 1 else d)"

definition shares_len :: "blob \<Rightarrow> nat" where
  "shares_len b = (case checked_sub (length (bl_data b)) FIRST_SPARSE_SHARE_CONTENT_SIZE of
      None \<Rightarrow> 1
    | Some without_first_share \<Rightarrow> 1 + div_ceil without_first_share CONTINUATION_SPARSE_SHARE_CONTENT_SIZE)"

definition shares_needed_for_blob :: "nat \<Rightarrow> bool \<Rightarrow> nat" where
  "shares_needed_for_blob blob_len has_signer =
     (let first_share_content =
        (if has_signer then FIRST_SPARSE_SHARE_CONTENT_SIZE - SIGNER_SIZE else FIRST_SPARSE_SHARE_CONTENT_SIZE)
      in case checked_sub blob_len first_share_content of
           None \<Rightarrow> 1
         | Some without_first_share \<Rightarrow> 1 + div_ceil without_first_share CONTINUATION_SPARSE_SHARE_CONTENT_SIZE)"

text \<open>The loop over the continuation shares; the messages of a mismatch are not formatted.\<close>

fun recon_loop ::
  "nat \<Rightarrow> namespace \<Rightarrow> byte \<Rightarrow> share list \<Rightarrow> byte list \<Rightarrow> (types_error, byte list) result \<times> share list" where
  "recon_loop 0 namespace share_version shares data = (Inr data, shares)"
| "recon_loop (Suc n) namespace share_version [] data = (Inl (Err MissingShares), [])"
| "recon_loop (Suc n) namespace share_version (share # shares) data =
     (if share_namespace share \<noteq> namespace
      then (Inl (Err (BlobSharesMetadataMismatch ''expected namespace'')), shares)
      else case share_info_byte share of
        None \<Rightarrow> (Inl (Panic ''non parity''), shares)
      | Some info \<Rightarrow>
          if info_version info \<noteq> share_version
          then (Inl (Err (BlobSharesMetadataMismatch ''expected share version'')), shares)
          else if sequence_length share \<noteq> None then (Inl (Err UnexpectedSequenceStart), shares)
          else case share_payload share of
            None \<Rightarrow> (Inl (Panic ''non parity''), shares)
          | Some payload \<Rightarrow> recon_loop n namespace share_version shares (data @ payload))"

definition blob_of_parts ::
  "'t nmt_lib \<Rightarrow> namespace \<Rightarrow> byte \<Rightarrow> acc_address option \<Rightarrow> byte list \<Rightarrow> app_version \<Rightarrow> (types_error, blob) partial" where
  "blob_of_parts lib namespace share_version signer data app_version =
     (if share_version = SHARE_VERSION_ZERO then blob_new lib namespace data None app_version
      else if share_version = SHARE_VERSION_ONE
      then bind_p (Some (ok_or MissingSigner signer)) (\<lambda>s. blob_new lib namespace data (Some s) app_version)
      else Some (Inl (Err (UnsupportedShareVersion (unat share_version)))))"

definition reconstruct ::
  "'t nmt_lib \<Rightarrow> share list \<Rightarrow> app_version \<Rightarrow> (types_error, blob) partial \<times> share list" where
  "reconstruct lib all_shares app_version = (case all_shares of
      [] \<Rightarrow> (Some (Inl (Err MissingShares)), [])
    | first # shares \<Rightarrow>
        (case sequence_length first of
           None \<Rightarrow> (Some (Inl (Err ExpectedShareWithSequenceStart)), shares)
         | Some blob_len \<Rightarrow>
             if is_reserved (share_namespace first)
             then (Some (Inl (Err UnexpectedReservedNamespace)), shares)
             else case (share_info_byte first, share_payload first, share_signer first) of
               (Some info, Some payload, Inr signer) \<Rightarrow>
                 (let shares_needed = shares_needed_for_blob blob_len (signer \<noteq> None)
                  in case recon_loop (shares_needed - 1) (share_namespace first) (info_version info) shares payload of
                       (Inl e, rest) \<Rightarrow> (Some (Inl e), rest)
                     | (Inr data, rest) \<Rightarrow>
                         (blob_of_parts lib (share_namespace first) (info_version info) signer (take blob_len data) app_version, rest))
             | (_, _, Inl e) \<Rightarrow> (Some (Inl e), shares)
             | _ \<Rightarrow> (Some (Inl (Panic ''non parity'')), shares)))"

lemma recon_loop_rest: "length (snd (recon_loop n ns v shares data)) \<le> length shares"
  by (induction n ns v shares data rule: recon_loop.induct) (auto intro: le_SucI split: option.split)

lemma recon_loop_restD: "recon_loop n ns v shares data = (r, rest) \<Longrightarrow> length rest \<le> length shares"
  using recon_loop_rest [of n ns v shares data] by simp

lemma reconstruct_rest: "reconstruct lib (s # shares) app = (r, rest) \<Longrightarrow> length rest \<le> length shares"
  by (auto simp: reconstruct_def Let_def split: option.splits sum.splits prod.splits if_splits dest: recon_loop_restD)

lemma dropWhile_shorter: "dropWhile P xs = y # ys \<Longrightarrow> length ys < length xs"
  using length_dropWhile_le [of P xs] by simp

function reconstruct_loop ::
  "'t nmt_lib \<Rightarrow> share list \<Rightarrow> app_version \<Rightarrow> blob list \<Rightarrow> (types_error, blob list) partial" where
  "reconstruct_loop lib shares app_version blobs =
     (case dropWhile (\<lambda>s. sequence_length s = None) shares of
        [] \<Rightarrow> Some (Inr blobs)
      | start # rest \<Rightarrow>
          (case reconstruct lib (start # rest) app_version of
             (None, _) \<Rightarrow> None
           | (Some (Inl e), _) \<Rightarrow> Some (Inl e)
           | (Some (Inr b), rest') \<Rightarrow> reconstruct_loop lib rest' app_version (blobs @ [b])))"
  by pat_completeness auto
termination
  by (relation "measure (\<lambda>(lib, shares, app, blobs). length shares)")
     (auto dest!: dropWhile_shorter reconstruct_rest [OF sym])

declare reconstruct_loop.simps [simp del]

definition reconstruct_all :: "'t nmt_lib \<Rightarrow> share list \<Rightarrow> app_version \<Rightarrow> (types_error, blob list) partial" where
  "reconstruct_all lib shares app_version =
     reconstruct_loop lib (filter (\<lambda>s. \<not> is_reserved (share_namespace s)) shares) app_version []"

section \<open>Deserialization\<close>

text \<open>The copy of the struct that serde fills has the same fields; the index travels as an \<open>i64\<close>.\<close>

definition blob_try_from_serde :: "blob \<Rightarrow> (types_error, blob) result" where
  "blob_try_from_serde v =
     bind_r (validate_blob (bl_share_version v) (bl_signer v \<noteq> None) None) (\<lambda>_. Inr v)"

definition index_serialize :: "nat option \<Rightarrow> int option" where
  "index_serialize v = (case v of
      None \<Rightarrow> Some (- 1)
    | Some x \<Rightarrow> if x < 2 ^ 63 then Some (int x) else None)"

definition index_deserialize :: "int \<Rightarrow> nat option" where
  "index_deserialize v = (if 0 \<le> v then Some (nat v) else None)"

definition signer_deserialize :: "byte list \<Rightarrow> acc_address option option" where
  "signer_deserialize b =
     (if b = [] then Some None
      else if length b = SIGNER_SIZE then Some (Some (AccAddress b)) else None)"

section \<open>Paying for blobs\<close>

record msg_pay_for_blobs =
  pfb_signer :: acc_address
  pfb_namespaces :: "namespace list"
  pfb_blob_sizes :: "nat list"
  pfb_share_commitments :: "commitment list"
  pfb_share_versions :: "nat list"

record raw_msg_pay_for_blobs =
  rpfb_signer :: string
  rpfb_namespaces :: "byte list list"
  rpfb_blob_sizes :: "nat list"
  rpfb_share_commitments :: "byte list list"
  rpfb_share_versions :: "nat list"

definition pfb_push :: "blob \<Rightarrow> msg_pay_for_blobs \<Rightarrow> (types_error, msg_pay_for_blobs) result" where
  "pfb_push b m =
     (if length (bl_data b) < 2 ^ 32
      then Inr (m\<lparr>pfb_blob_sizes := pfb_blob_sizes m @ [length (bl_data b)],
                  pfb_namespaces := pfb_namespaces m @ [bl_namespace b],
                  pfb_share_commitments := pfb_share_commitments m @ [bl_commitment b],
                  pfb_share_versions := pfb_share_versions m @ [unat (bl_share_version b)]\<rparr>)
      else Inl (Err BlobTooLarge))"

definition pfb_new :: "blob list \<Rightarrow> acc_address \<Rightarrow> (types_error, msg_pay_for_blobs) result" where
  "pfb_new blobs signer =
     (if blobs = [] then Inl (Err EmptyBlobList)
      else fold_r pfb_push blobs \<lparr>pfb_signer = signer, pfb_namespaces = [], pfb_blob_sizes = [],
             pfb_share_commitments = [], pfb_share_versions = []\<rparr>)"

definition raw_pfb_from :: "bech32_lib \<Rightarrow> msg_pay_for_blobs \<Rightarrow> ('e, raw_msg_pay_for_blobs) result" where
  "raw_pfb_from b32 msg =
     bind_r (address_to_string b32 (AccAddr (pfb_signer msg))) (\<lambda>signer.
     Inr \<lparr>rpfb_signer = signer, rpfb_namespaces = map as_bytes (pfb_namespaces msg),
          rpfb_blob_sizes = pfb_blob_sizes msg,
          rpfb_share_commitments = map cm_hash (pfb_share_commitments msg),
          rpfb_share_versions = pfb_share_versions msg\<rparr>)"

definition HASH_SIZE :: nat where
  "HASH_SIZE = 32"

definition pfb_try_from :: "bech32_lib \<Rightarrow> raw_msg_pay_for_blobs \<Rightarrow> (types_error, msg_pay_for_blobs) result" where
  "pfb_try_from b32 msg =
     bind_r (collect_r ns_from_raw (rpfb_namespaces msg)) (\<lambda>namespaces.
     bind_r (collect_r (\<lambda>c. if length c = HASH_SIZE then Inr (Commitment c) else Inl (Err InvalidComittmentLength))
               (rpfb_share_commitments msg)) (\<lambda>share_commitments.
     bind_r (acc_from_str b32 (rpfb_signer msg)) (\<lambda>signer.
     Inr \<lparr>pfb_signer = signer, pfb_namespaces = namespaces, pfb_blob_sizes = rpfb_blob_sizes msg,
          pfb_share_commitments = share_commitments, pfb_share_versions = rpfb_share_versions msg\<rparr>)))"

lemma pfb_fold:
  assumes "\<forall>b \<in> set blobs. length (bl_data b) < 2 ^ 32"
  shows "fold_r pfb_push blobs m = Inr (m\<lparr>pfb_blob_sizes := pfb_blob_sizes m @ map (length \<circ> bl_data) blobs,
    pfb_namespaces := pfb_namespaces m @ map bl_namespace blobs,
    pfb_share_commitments := pfb_share_commitments m @ map bl_commitment blobs,
    pfb_share_versions := pfb_share_versions m @ map (unat \<circ> bl_share_version) blobs\<rparr>)"
  using assms by (induction blobs arbitrary: m) (simp_all add: pfb_push_def)

lemma pfb_roundtrip:
  assumes "bech32_ok b32" "id_ok (acc_id (pfb_signer m))" "\<forall>n \<in> set (pfb_namespaces m). ns_ok n"
    "\<forall>c \<in> set (pfb_share_commitments m). length (cm_hash c) = 32"
  shows "\<exists>r. raw_pfb_from b32 m = (Inr r :: ('e, _) result) \<and> pfb_try_from b32 r = Inr m"
proof -
  have i: "id_ok (address_bytes (AccAddr (pfb_signer m)))" using assms(2) by simp
  from address_print [OF assms(1) i] obtain s where
    s: "address_to_string b32 (AccAddr (pfb_signer m)) = (Inr s :: ('e, _) result)"
      "b32_decode b32 s = Some (kind_prefix (address_kind_of (AccAddr (pfb_signer m))), address_bytes (AccAddr (pfb_signer m)))" .
  have "acc_from_str b32 s = Inr (pfb_signer m)" using address_from_decoded(2) [OF s(2) i] by simp
  moreover have "collect_r ns_from_raw (map as_bytes (pfb_namespaces m)) = Inr (pfb_namespaces m)"
    using assms(3) by (intro collect_r_map) (simp add: ns_from_raw_iff)
  moreover have "collect_r (\<lambda>c. if length c = HASH_SIZE then Inr (Commitment c) else Inl (Err InvalidComittmentLength))
     (map cm_hash (pfb_share_commitments m)) = (Inr (pfb_share_commitments m) :: (types_error, _) result)"
    using assms(4) by (intro collect_r_map) (simp add: HASH_SIZE_def)
  ultimately show ?thesis using s(1) by (simp add: raw_pfb_from_def pfb_try_from_def)
qed

section \<open>Reconstruction inverts splitting\<close>

lemma info_bytes:
  assumes "v = 0 \<or> v = 1"
  shows "info_version (InfoByte (push_bit 1 v + 1)) = v" "is_sequence_start (InfoByte (push_bit 1 v + 1))"
    "info_version (InfoByte (push_bit 1 v)) = v" "\<not> is_sequence_start (InfoByte (push_bit 1 v))"
  using assms by (auto simp: info_version_def is_sequence_start_def drop_bit_Suc)

lemma split_argsD:
  assumes "split_args ns v signer"
  shows "ns_ok ns" "length (as_bytes ns) = 29" "v = 0 \<or> v = 1" "v = 1 \<longleftrightarrow> signer \<noteq> None"
    "signer = Some a \<Longrightarrow> length (acc_id a) = 20"
  using assms ns_ok_length by (auto simp: split_args_def id_ok_def)

lemma cont_share_reads:
  assumes "split_args ns v signer"
  shows "share_namespace (cont_share ns v c) = ns"
    "share_info_byte (cont_share ns v c) = Some (InfoByte (push_bit 1 v))"
    "sequence_length (cont_share ns v c) = None"
    "share_payload (cont_share ns v c) = Some (c @ replicate (482 - length c) 0)"
  using share_parts [OF split_argsD(2) [OF assms], of "InfoByte (push_bit 1 v)" "c @ replicate (482 - length c) 0"]
    info_bytes [OF split_argsD(3) [OF assms]]
  by (simp_all add: cont_share_def)

definition first_meta :: "byte \<Rightarrow> acc_address option \<Rightarrow> byte list \<Rightarrow> byte list" where
  "first_meta v signer data =
     be_bytes 4 (length data) @ (if v = 1 then case signer of None \<Rightarrow> [] | Some a \<Rightarrow> acc_id a else [])"

definition first_payload :: "byte \<Rightarrow> byte list \<Rightarrow> byte list" where
  "first_payload v data = take (first_content v) data @ replicate (first_content v - length data) 0"

lemma first_share_parts:
  "first_share ns v signer data =
     \<lparr>sh_data = as_bytes ns @ [info_as_u8 (InfoByte (push_bit 1 v + 1))] @ first_meta v signer data @ first_payload v data,
      sh_is_parity = False\<rparr>"
  by (simp add: first_share_def first_meta_def first_payload_def)

lemma length_first_meta: "split_args ns v signer \<Longrightarrow> length (first_meta v signer data) = (if v = 1 then 24 else 4)"
  by (auto simp: split_args_def first_meta_def id_ok_def)

lemma length_first_payload: "length (first_payload v data) = first_content v"
  by (simp add: first_payload_def min_def)

lemma first_share_reads:
  assumes "split_args ns v signer" "length data < 2 ^ 32"
  shows "share_namespace (first_share ns v signer data) = ns"
    "share_info_byte (first_share ns v signer data) = Some (InfoByte (push_bit 1 v + 1))"
    "sequence_length (first_share ns v signer data) = Some (length data)"
    "share_payload (first_share ns v signer data) = Some (first_payload v data)"
proof -
  note p = share_parts [OF split_argsD(2) [OF assms(1)], of "InfoByte (push_bit 1 v + 1)" "first_meta v signer data @ first_payload v data",
      folded first_share_parts]
  note i = info_bytes [OF split_argsD(3) [OF assms(1)]]
  show "share_namespace (first_share ns v signer data) = ns"
    "share_info_byte (first_share ns v signer data) = Some (InfoByte (push_bit 1 v + 1))"
    using p by simp_all
  have "take 4 (first_meta v signer data @ first_payload v data) = be_bytes 4 (length data)"
    by (simp add: first_meta_def)
  moreover have "be_value (be_bytes 4 (length data)) = length data" using assms(2) by (simp add: be_value_be_bytes)
  ultimately show "sequence_length (first_share ns v signer data) = Some (length data)" using p(3) i(2) by simp
  show "share_payload (first_share ns v signer data) = Some (first_payload v data)"
    using p(4) i length_first_meta [OF assms(1), of data] by simp
qed

lemma first_share_signer:
  assumes "split_args ns v signer"
  shows "share_signer (first_share ns v signer data) = (Inr signer :: ('e, _) result)"
proof -
  note i = info_bytes [OF split_argsD(3) [OF assms]]
  have l: "24 \<le> length (first_meta v signer data @ first_payload v data)"
    using length_first_meta [OF assms, of data] by (simp add: length_first_payload first_content_def)
  note p = share_parts_signer [OF split_argsD(2) [OF assms] l, of "InfoByte (push_bit 1 v + 1)", folded first_share_parts, where 'e = 'e]
  show ?thesis
  proof (cases signer)
    case None
    with p i split_argsD(4) [OF assms] show ?thesis by simp
  next
    case (Some a)
    with split_argsD(4,5) [OF assms] have "v = 1" "length (acc_id a) = 20" by auto
    with p i Some show ?thesis by (simp add: first_meta_def)
  qed
qed

lemma recon_loop_continuation:
  assumes "split_args ns v signer"
  shows "recon_loop (length cs) ns v (map (cont_share ns v) cs @ rest) acc =
    (Inr (acc @ concat (map (\<lambda>c. c @ replicate (482 - length c) 0) cs)), rest)"
  by (induction cs arbitrary: acc)
     (use info_bytes [OF split_argsD(3) [OF assms]] in \<open>simp_all add: cont_share_reads [OF assms]\<close>)

lemma padded_chunks:
  "0 < n \<Longrightarrow> \<exists>k. concat (map (\<lambda>c. c @ replicate (n - length c) z) (chunks n xs)) = xs @ replicate k z"
proof (induction n xs rule: chunks.induct)
  case (1 n xs)
  consider "xs = []" | "xs \<noteq> []" "length xs \<le> n" | "n < length xs" by force
  then show ?case
  proof cases
    case 1
    then show ?thesis by simp
  next
    case 2
    with "1.prems" show ?thesis by (auto simp: chunks_step)
  next
    case 3
    then have "xs \<noteq> []" by auto
    with "1.IH" "1.prems" obtain k where
      "concat (map (\<lambda>c. c @ replicate (n - length c) z) (chunks n (drop n xs))) = drop n xs @ replicate k z" by auto
    with 3 \<open>xs \<noteq> []\<close> "1.prems" show ?thesis by (auto simp: chunks_step simp flip: append_assoc)
  qed
qed

lemma div_ceil_eq: "0 < b \<Longrightarrow> div_ceil a b = (a + b - 1) div b"
proof -
  assume b: "0 < b"
  define q r where "q = a div b" and "r = a mod b"
  have a: "a = b * q + r" and r: "r < b" using b by (simp_all add: q_def r_def)
  show ?thesis
  proof (cases "r = 0")
    case True
    then have "(a + b - 1) div b = q" using b a by (intro div_nat_eqI) auto
    with True show ?thesis by (simp add: div_ceil_def q_def r_def Let_def)
  next
    case False
    then have "(a + b - 1) div b = Suc q" using b a r by (intro div_nat_eqI) auto
    with False show ?thesis by (simp add: div_ceil_def q_def r_def Let_def)
  qed
qed

lemma shares_needed_eq:
  assumes "split_args ns v signer"
  shows "shares_needed_for_blob (length data) (signer \<noteq> None) - 1 = length (chunks 482 (drop (first_content v) data))"
proof -
  have c: "(if signer \<noteq> None then FIRST_SPARSE_SHARE_CONTENT_SIZE - SIGNER_SIZE else FIRST_SPARSE_SHARE_CONTENT_SIZE) = first_content v"
    using split_argsD(3,4) [OF assms] by (auto simp: first_content_def share_sizes)
  have "CONTINUATION_SPARSE_SHARE_CONTENT_SIZE = 482" by (simp add: share_sizes)
  then show ?thesis
    unfolding shares_needed_for_blob_def c Let_def
    by (simp add: checked_sub_def length_chunks div_ceil_eq)
qed

lemma truncated_payload:
  "take (length data) (first_payload v data @ concat (map (\<lambda>c. c @ replicate (482 - length c) 0) (chunks 482 (drop (first_content v) data)))) = data"
proof (cases "length data \<le> first_content v")
  case True
  then show ?thesis by (simp add: first_payload_def)
next
  case False
  from padded_chunks [of 482 0 "drop (first_content v) data"] obtain k where
    "concat (map (\<lambda>c. c @ replicate (482 - length c) 0) (chunks 482 (drop (first_content v) data))) = drop (first_content v) data @ replicate k 0" by auto
  moreover have "first_payload v data = take (first_content v) data" using False by (simp add: first_payload_def)
  ultimately show ?thesis by (simp flip: append_assoc)
qed

lemma reconstruct_blob_shares:
  assumes "split_args ns v signer" "length data < 2 ^ 32" "data \<noteq> []" "\<not> is_reserved ns"
  shows "reconstruct lib (blob_shares ns v signer data @ rest) app = (blob_new lib ns data signer app, rest)"
proof -
  have "blob_of_parts lib ns v signer data app = blob_new lib ns data signer app"
    using split_argsD(3,4) [OF assms(1)]
    by (auto simp: blob_of_parts_def SHARE_VERSION_ZERO_def SHARE_VERSION_ONE_def)
  then show ?thesis
    using assms(3,4) recon_loop_continuation [OF assms(1)] shares_needed_eq [OF assms(1), of data] truncated_payload
    by (simp add: reconstruct_def blob_shares_def first_share_reads [OF assms(1,2)] first_share_signer [OF assms(1)]
        info_bytes [OF split_argsD(3) [OF assms(1)]] Let_def del: One_nat_def)
qed

end
