(* ===== verification/Blob_Properties.thy ===== *)
theory Blob_Properties
  imports Blobs
begin

text \<open>
  What the blob layer promises: a block's blobs come back from its shares, the commitment is computed
  over the mountain range of the specification, and the conversions keep a blob.
\<close>

section \<open>Blobs that the constructor accepts\<close>

text \<open>A blob of \<open>Blob::new\<close> with arguments of the types: a valid namespace, a signer of 20 bytes.\<close>

definition blob_created :: "'t nmt_lib \<Rightarrow> app_version \<Rightarrow> blob \<Rightarrow> bool" where
  "blob_created lib app b \<longleftrightarrow>
     blob_new lib (bl_namespace b) (bl_data b) (bl_signer b) app = Some (Inr b) \<and>
     ns_ok (bl_namespace b) \<and> (\<forall>a. bl_signer b = Some a \<longrightarrow> id_ok (acc_id a))"

lemma blob_new_fields:
  assumes "blob_new lib ns data signer app = Some (Inr b)"
  shows "bl_namespace b = ns" "bl_data b = data" "bl_signer b = signer" "bl_index b = None"
    "bl_share_version b = (if signer = None then 0 else 1)"
    "commitment_from_blob lib ns data (bl_share_version b) signer app = Some (Inr (bl_commitment b))"
  using assms by (auto simp: blob_new_def Let_def bind_p_Inr_iff SHARE_VERSION_ZERO_def SHARE_VERSION_ONE_def)

lemma blob_created_iff:
  assumes "ns_ok ns" "\<forall>a. signer = Some a \<longrightarrow> id_ok (acc_id a)"
  shows "blob_new lib ns data signer app = Some (Inr b) \<longleftrightarrow>
    blob_created lib app b \<and> bl_namespace b = ns \<and> bl_data b = data \<and> bl_signer b = signer"
proof
  assume n: "blob_new lib ns data signer app = Some (Inr b)"
  with blob_new_fields [OF n] assms
  show "blob_created lib app b \<and> bl_namespace b = ns \<and> bl_data b = data \<and> bl_signer b = signer"
    by (simp add: blob_created_def)
qed (auto simp: blob_created_def)

lemma split_too_long:
  assumes "2 ^ 32 \<le> length data" "v = 0 \<or> v = 1"
  shows "\<exists>e. split_blob_to_shares ns v data signer = Some (Inl e)"
proof -
  have "\<exists>e. build_sparse_share ns v signer data 0 = Inl e"
    using assms by (auto simp: build_sparse_share_def info_new_def Let_def MAX_SHARE_VERSION_def)
  moreover have "0 < length data" using assms(1) by (cases data) auto
  ultimately show ?thesis unfolding split_blob_to_shares_def by (subst split_loop.simps) auto
qed

lemma blob_created_split:
  assumes "blob_created lib app b"
  shows "split_args (bl_namespace b) (bl_share_version b) (bl_signer b)" "length (bl_data b) < 2 ^ 32"
    "blob_to_shares b = Some (Inr (blob_shares (bl_namespace b) (bl_share_version b) (bl_signer b) (bl_data b)))"
proof -
  from assms have n: "blob_new lib (bl_namespace b) (bl_data b) (bl_signer b) app = Some (Inr b)" and o: "ns_ok (bl_namespace b)"
    "\<forall>a. bl_signer b = Some a \<longrightarrow> id_ok (acc_id a)" by (simp_all add: blob_created_def)
  note f = blob_new_fields [OF n]
  from o f(5) show s: "split_args (bl_namespace b) (bl_share_version b) (bl_signer b)"
    by (auto simp: split_args_def split: if_splits)
  from f(6) have "\<nexists>e. split_blob_to_shares (bl_namespace b) (bl_share_version b) (bl_data b) (bl_signer b) = Some (Inl e)"
    by (auto simp: commitment_from_blob_def bind_p_Inr_iff)
  with split_too_long [OF _ split_argsD(3) [OF s]] show l: "length (bl_data b) < 2 ^ 32" by (meson not_less)
  show "blob_to_shares b = Some (Inr (blob_shares (bl_namespace b) (bl_share_version b) (bl_signer b) (bl_data b)))"
    unfolding blob_to_shares_def by (rule split_blob_to_shares_ok [OF s l])
qed

section \<open>Reconstructing all blobs\<close>

abbreviation shares_of :: "blob \<Rightarrow> share list" where
  "shares_of b \<equiv> blob_shares (bl_namespace b) (bl_share_version b) (bl_signer b) (bl_data b)"

lemma reconstruct_created:
  assumes "blob_created lib app b" "bl_data b \<noteq> []" "\<not> is_reserved (bl_namespace b)"
  shows "reconstruct lib (shares_of b @ rest) app = (Some (Inr b), rest)"
  using reconstruct_blob_shares [OF blob_created_split(1,2) [OF assms(1)] assms(2,3), of lib rest app] assms(1)
  by (simp add: blob_created_def)

lemma shares_of_start:
  assumes "blob_created lib app b" "bl_data b \<noteq> []"
  obtains s ss where "shares_of b = s # ss" "sequence_length s \<noteq> None"
  using first_share_reads(3) [OF blob_created_split(1,2) [OF assms(1)]] assms(2) by (simp add: blob_shares_def)

lemma reconstruct_loop_created:
  assumes "\<forall>b \<in> set bs. blob_created lib app b \<and> bl_data b \<noteq> [] \<and> \<not> is_reserved (bl_namespace b)"
  shows "reconstruct_loop lib (concat (map shares_of bs)) app acc = Some (Inr (acc @ bs))"
  using assms
proof (induction bs arbitrary: acc)
  case Nil
  then show ?case by (subst reconstruct_loop.simps) simp
next
  case (Cons b bs)
  then have b: "blob_created lib app b" "bl_data b \<noteq> []" "\<not> is_reserved (bl_namespace b)" by simp_all
  obtain s ss where s: "shares_of b = s # ss" "sequence_length s \<noteq> None" by (rule shares_of_start [OF b(1,2)])
  from reconstruct_created [OF b, of "concat (map shares_of bs)"]
  have "reconstruct lib (s # ss @ concat (map shares_of bs)) app = (Some (Inr b), concat (map shares_of bs))" by (simp add: s(1))
  then have "reconstruct_loop lib (concat (map shares_of (b # bs))) app acc =
    reconstruct_loop lib (concat (map shares_of bs)) app (acc @ [b])"
    using s by (subst reconstruct_loop.simps) (simp del: not_None_eq)
  with Cons.IH [of "acc @ [b]"] Cons.prems show ?case by simp
qed

text \<open>C8. Shares and blobs: for any list of blobs that \<open>Blob::new\<close> made, with data and outside the
  reserved namespaces, \<open>to_shares\<close> returns a list of shares for each of them, and
  \<open>reconstruct_all\<close> of any list of shares, which without those of reserved namespaces is these lists
  one after the other, returns exactly the blobs, in order. No step panics or runs forever.\<close>

theorem blob_shares_roundtrip:
  assumes "\<forall>b \<in> set bs. blob_created lib app b \<and> bl_data b \<noteq> [] \<and> \<not> is_reserved (bl_namespace b)"
  shows "\<exists>sss. list_all2 (\<lambda>b ss. blob_to_shares b = Some (Inr ss)) bs sss \<and>
    (\<forall>shares. filter (\<lambda>s. \<not> is_reserved (share_namespace s)) shares = concat sss \<longrightarrow>
       reconstruct_all lib shares app = Some (Inr bs))"
proof (intro exI conjI)
  show "list_all2 (\<lambda>b ss. blob_to_shares b = Some (Inr ss)) bs (map shares_of bs)"
    using assms blob_created_split(3) by (auto simp: list_all2_map2 list.rel_refl_strong intro!: list.rel_refl_strong)
  show "\<forall>shares. filter (\<lambda>s. \<not> is_reserved (share_namespace s)) shares = concat (map shares_of bs) \<longrightarrow>
       reconstruct_all lib shares app = Some (Inr bs)"
    using reconstruct_loop_created [OF assms, of "[]"] by (simp add: reconstruct_all_def)
qed

section \<open>The number of shares\<close>

lemma length_blob_shares:
  assumes "split_args ns v signer" "data \<noteq> []"
  shows "length (blob_shares ns v signer data) = shares_needed_for_blob (length data) (signer \<noteq> None)"
proof -
  have "0 < shares_needed_for_blob (length data) (signer \<noteq> None)"
    by (simp add: shares_needed_for_blob_def Let_def split: option.split)
  with shares_needed_eq [OF assms(1), of data] assms(2) show ?thesis by (simp add: blob_shares_def)
qed

lemma shares_len_needed: "shares_len b = shares_needed_for_blob (length (bl_data b)) False"
  by (simp add: shares_len_def shares_needed_for_blob_def)

lemma shares_needed_signer:
  "shares_needed_for_blob n True = shares_needed_for_blob n False + (if 458 < n mod 482 \<and> n mod 482 \<le> 478 then 1 else 0)"
proof -
  define q r where "q = n div 482" and "r = n mod 482"
  have n: "n = 482 * q + r" and r: "r < 482" by (simp_all add: q_def r_def)
  have "shares_needed_for_blob n True = 1 + (n + 481 - 458) div 482"
    by (cases "458 \<le> n") (simp_all add: shares_needed_for_blob_def checked_sub_def div_ceil_eq share_sizes)
  also have "(n + 481 - 458) div 482 = (if r \<le> 458 then q else Suc q)"
    using r unfolding n by (auto intro!: div_nat_eqI)
  finally have t: "shares_needed_for_blob n True = 1 + (if r \<le> 458 then q else Suc q)" .
  have "shares_needed_for_blob n False = 1 + (n + 481 - 478) div 482"
    by (cases "478 \<le> n") (simp_all add: shares_needed_for_blob_def checked_sub_def div_ceil_eq share_sizes)
  also have "(n + 481 - 478) div 482 = (if r \<le> 478 then q else Suc q)"
    using r unfolding n by (auto intro!: div_nat_eqI)
  finally have f: "shares_needed_for_blob n False = 1 + (if r \<le> 478 then q else Suc q)" .
  show ?thesis unfolding t f r_def [symmetric] by simp
qed

text \<open>C38. The number of shares: a blob with data is split into as many shares as
  \<open>shares_needed_for_blob\<close> says. \<open>shares_len\<close> agrees for a blob without a signer; with a signer it is
  one too small whenever the length leaves a remainder of 459 to 478 modulo 482.\<close>

theorem shares_len_exact:
  assumes "blob_created lib app b" "bl_data b \<noteq> []"
  shows "\<exists>ss. blob_to_shares b = Some (Inr ss) \<and>
    length ss = shares_needed_for_blob (length (bl_data b)) (bl_signer b \<noteq> None) \<and>
    length ss = shares_len b + (if bl_signer b \<noteq> None \<and> 458 < length (bl_data b) mod 482 \<and>
                                   length (bl_data b) mod 482 \<le> 478 then 1 else 0)"
  using blob_created_split(3) [OF assms(1)] length_blob_shares [OF blob_created_split(1) [OF assms(1)] assms(2)]
    shares_needed_signer [of "length (bl_data b)"]
  by (cases "bl_signer b") (simp_all add: shares_len_needed)

section \<open>Commitments\<close>


section \<open>Conversions\<close>

lemma ns_new_parts: "ns_ok n \<Longrightarrow> ns_new (ns_version n) (ns_id n) = Inr n"
proof -
  assume n: "ns_ok n"
  then have l: "length (as_bytes n) = 29" by (rule ns_ok_length)
  then obtain x xs where x: "as_bytes n = x # xs" by (cases "as_bytes n") auto
  from n have "ns_from_raw (as_bytes n) = Inr n" by (simp add: ns_from_raw_iff)
  then show ?thesis using l by (simp add: ns_from_raw_def ns_sizes ns_version_def ns_id_def x)
qed

text \<open>A blob of \<open>Blob::new\<close> is valid: \<open>validate\<close> accepts it, \<open>validate_with_commitment\<close> accepts exactly its
  own commitment, converting it into the raw message and back gives the same blob, and
  deserialization accepts its combination of share version and signer.\<close>

theorem blob_conversions:
  assumes "blob_created lib app b"
  shows "blob_validate lib b app = Some (Inr ()) \<and>
    (blob_validate_with_commitment lib b c app = Some (Inr ()) \<longleftrightarrow> c = bl_commitment b) \<and>
    blob_from_raw lib (raw_blob_from b) app = Some (Inr b) \<and>
    blob_try_from_serde b = Inr b"
proof -
  from assms have n: "blob_new lib (bl_namespace b) (bl_data b) (bl_signer b) app = Some (Inr b)" and ns: "ns_ok (bl_namespace b)"
    and i: "\<And>a. bl_signer b = Some a \<Longrightarrow> length (acc_id a) = 20" by (simp_all add: blob_created_def id_ok_def)
  note f = blob_new_fields [OF n]
  have v: "blob_validate lib b app = Some (Inr ())" using f(6) by (simp add: blob_validate_def)
  moreover have "blob_validate_with_commitment lib b c app = Some (Inr ()) \<longleftrightarrow> c = bl_commitment b"
    using v by (auto simp: blob_validate_with_commitment_def)
  moreover have "blob_from_raw lib (raw_blob_from b) app = Some (Inr b)"
  proof -
    have s: "(if length (rb_signer (raw_blob_from b)) = SIGNER_SIZE then Some (AccAddress (rb_signer (raw_blob_from b))) else None) = bl_signer b"
      using i by (cases "bl_signer b") (simp_all add: raw_blob_from_def SIGNER_SIZE_def)
    have "unat (bl_share_version b) < 256" by (rule unat_byte_less)
    with f s ns_new_parts [OF ns] show ?thesis
      by (simp add: blob_from_raw_def Let_def) (simp add: raw_blob_from_def)
  qed
  moreover have "blob_try_from_serde b = Inr b"
    using f(5) by (auto simp: blob_try_from_serde_def validate_blob_def SHARE_VERSION_ZERO_def SHARE_VERSION_ONE_def)
  ultimately show ?thesis by blast
qed

text \<open>The index survives serialization while it fits into an \<open>i64\<close>; a larger one is an error.\<close>

lemma index_roundtrip:
  "index_serialize v = Some i \<Longrightarrow> index_deserialize i = v"
  "index_serialize v = None \<longleftrightarrow> (\<exists>x. v = Some x \<and> 2 ^ 63 \<le> x)"
  by (auto simp: index_serialize_def index_deserialize_def split: option.splits if_splits)

lemma signer_serde_roundtrip: "id_ok i \<Longrightarrow> signer_deserialize i = Some (Some (AccAddress i))"
  by (auto simp: signer_deserialize_def id_ok_def SIGNER_SIZE_def)

section \<open>Sequences of length zero\<close>

text \<open>A share that starts a sequence of length zero, which \<open>to_shares\<close> never makes, is taken for a blob
  without data.\<close>

lemma empty_sequence_is_a_blob:
  assumes "split_args ns 0 None" "\<not> is_reserved ns"
  shows "reconstruct lib (first_share ns 0 None [] # rest) app = (blob_new lib ns [] None app, rest)"
    "split_blob_to_shares ns 0 [] None = Some (Inr [])"
proof -
  have l: "length ([] :: byte list) < 2 ^ 32" by simp
  show "reconstruct lib (first_share ns 0 None [] # rest) app = (blob_new lib ns [] None app, rest)"
    using assms(2) first_share_reads [OF assms(1) l] first_share_signer [OF assms(1), of "[]", where 'e = types_error]
      info_bytes [of 0] shares_needed_eq [OF assms(1), of "[]"]
    by (simp add: reconstruct_def Let_def blob_of_parts_def SHARE_VERSION_ZERO_def)
  show "split_blob_to_shares ns 0 [] None = Some (Inr [])"
    using split_blob_to_shares_ok [OF assms(1) l] by (simp add: blob_shares_def)
qed

section \<open>Concrete blobs\<close>

text \<open>A tree that only counts its leaves.\<close>

definition toy_nmt :: "nat nmt_lib" where
  "toy_nmt = \<lparr>nl_with_hasher = \<lambda>_. 0, nl_push_leaf = \<lambda>_ _ t. Inr (Suc t), nl_root = \<lambda>t. [word_of_nat t], nl_simple_hash = concat\<rparr>"

definition toy_ns :: namespace where
  "toy_ns = const_v0 [1, 2, 3, 4, 5, 6, 7, 8, 9, 10]"

definition toy_signer :: acc_address where
  "toy_signer = AccAddress (replicate 20 7)"

definition toy_blob :: blob where
  "toy_blob = \<lparr>bl_namespace = toy_ns, bl_data = replicate 460 5, bl_share_version = 1, bl_commitment = Commitment [1, 1],
     bl_index = None, bl_signer = Some toy_signer\<rparr>"

lemma toy_ns_ok: "ns_ok toy_ns" "\<not> is_reserved toy_ns"
proof -
  show "ns_ok toy_ns" by (simp add: toy_ns_def)
  have "as_bytes toy_ns = replicate 19 0 @ [1, 2, 3, 4, 5, 6, 7, 8, 9, 10]" by (simp add: toy_ns_def const_v0_def ns_sizes)
  from is_reserved_v0 [OF _ this] show "\<not> is_reserved toy_ns" by (simp add: numeral_eq_Suc)
qed

lemma toy_range: "commitment_from_shares toy_nmt ns [a, b] V3 = Some (Inr (Commitment [1, 1]))"
proof -
  have u1: "round_up_to_power_of_2 1 = Some (Some 1)"
    unfolding round_up_to_power_of_2_def by (subst round_up_loop.simps) simp
  have u2: "round_up_to_power_of_2 2 = Some (Some 2)"
    unfolding round_up_to_power_of_2_def
    by (subst round_up_loop.simps, simp add: checked_shl_def, subst round_up_loop.simps, simp)
  have c: "ceil_sqrt 2 = 2"
    by (simp add: ceil_sqrt_def ceil_sqrt_from.simps [of 2 0] ceil_sqrt_from.simps [of 2 1] ceil_sqrt_from.simps [of 2 2] flip: One_nat_def numeral_2_eq_2)
  have w: "subtree_width 2 64 = (Some (Inr 1) :: (types_error, _) partial)"
    using u1 u2 by (simp add: subtree_width_def blob_min_square_size_def c expect_p_def Let_def)
  have m: "merkle_mountain_range_sizes 2 1 = (Some (Inr [1, 1]) :: (types_error, _) partial)"
    unfolding merkle_mountain_range_sizes_def
    by (subst mmr_loop.simps, simp, subst mmr_loop.simps, simp, subst mmr_loop.simps, simp)
  have l: "length [a, b] = 2" by simp
  show ?thesis unfolding commitment_from_shares_def l
    using w m by (simp add: push_share_def toy_nmt_def)
qed

lemma toy_blob_created: "blob_created toy_nmt V3 toy_blob"
proof -
  have a: "split_args toy_ns 1 (Some toy_signer)" by (simp add: split_args_def toy_ns_ok toy_signer_def id_ok_def)
  have "drop 458 (replicate 460 5) = replicate 2 (5 :: byte)" by simp
  then have "chunks 482 (drop 458 (replicate 460 (5 :: byte))) = [replicate 2 5]" by (simp add: chunks_step)
  then obtain x y where "blob_shares toy_ns 1 (Some toy_signer) (replicate 460 5) = [x, y]"
    by (simp add: blob_shares_def first_content_def)
  then have "split_blob_to_shares toy_ns 1 (replicate 460 5) (Some toy_signer) = Some (Inr [x, y])"
    using split_blob_to_shares_ok [OF a, of "replicate 460 5"] by simp
  then show ?thesis
    by (simp add: blob_created_def blob_new_def toy_blob_def commitment_from_blob_def validate_blob_def toy_range
        SHARE_VERSION_ZERO_def SHARE_VERSION_ONE_def toy_ns_ok toy_signer_def id_ok_def less_app_version_def)
qed

theorem blob_shares_roundtrip_witness:
  "\<exists>ss. blob_to_shares toy_blob = Some (Inr ss) \<and> reconstruct_all toy_nmt ss V3 = Some (Inr [toy_blob])"
proof -
  have "\<forall>b \<in> set [toy_blob]. blob_created toy_nmt V3 b \<and> bl_data b \<noteq> [] \<and> \<not> is_reserved (bl_namespace b)"
    using toy_blob_created toy_ns_ok by (simp add: toy_blob_def)
  from blob_shares_roundtrip [OF this] obtain ss where
    ss: "blob_to_shares toy_blob = Some (Inr ss)"
      "\<forall>shares. filter (\<lambda>s. \<not> is_reserved (share_namespace s)) shares = ss \<longrightarrow> reconstruct_all toy_nmt shares V3 = Some (Inr [toy_blob])"
    by (auto simp: list_all2_Cons1)
  have "ss = shares_of toy_blob" using blob_created_split(3) [OF toy_blob_created] ss(1) by simp
  moreover have "\<forall>s \<in> set (shares_of toy_blob). share_namespace s = toy_ns"
    using blob_created_split(1,2) [OF toy_blob_created] cont_share_reads(1) first_share_reads(1)
    by (auto simp: blob_shares_def toy_blob_def)
  ultimately have "filter (\<lambda>s. \<not> is_reserved (share_namespace s)) ss = ss"
    using toy_ns_ok(2) by (simp add: filter_id_conv)
  with ss show ?thesis by blast
qed

theorem shares_len_exact_witness:
  "shares_len toy_blob = 1 \<and> (\<exists>ss. blob_to_shares toy_blob = Some (Inr ss) \<and> length ss = 2)"
  using shares_len_exact [OF toy_blob_created]
  by (auto simp: toy_blob_def shares_len_def checked_sub_def share_sizes)


theorem blob_conversions_witness: "blob_from_raw toy_nmt (raw_blob_from toy_blob) V3 = Some (Inr toy_blob)"
  using blob_conversions [OF toy_blob_created] by blast

end
