(* ===== verification/Eds.thy ===== *)
theory Eds
  imports Blob_Properties
begin

text \<open>
  The extended data square of \<open>types/src/eds.rs\<close>: construction with its checks, the extension of an
  original square with parity data, the accessors, and the data of a namespace. The shares are kept
  as in the source, one list in row-major order. The Reed-Solomon codec \<open>leopard_codec\<close>, and what is
  used of \<open>nmt-rs\<close> beyond the trees, are the parameter \<open>square_lib\<close>.
\<close>

section \<open>The square\<close>

record eds =
  eds_data_square :: "share list"
  eds_codec :: string
  eds_square_width :: nat

text \<open>The floating point square root, rounded down: exact for the numbers of shares that pass the
  first checks.\<close>

function isqrt_from :: "nat \<Rightarrow> nat \<Rightarrow> nat" where
  "isqrt_from n k = (if n < Suc k * Suc k then k else isqrt_from n (Suc k))"
  by pat_completeness auto
termination
proof (relation "measure (\<lambda>(n, k). n - k)")
  fix n k :: nat
  assume "\<not> n < Suc k * Suc k"
  then have "k < n" using le_square [of "Suc k"] by linarith
  then show "((n, Suc k), n, k) \<in> measure (\<lambda>(n, k). n - k)" by simp
qed simp

declare isqrt_from.simps [simp del]

definition isqrt :: "nat \<Rightarrow> nat" where
  "isqrt n = isqrt_from n 0"

fun count_ones :: "nat \<Rightarrow> nat" where
  "count_ones n = (if n = 0 then 0 else n mod 2 + count_ones (n div 2))"

declare count_ones.simps [simp del]

definition is_ods_square :: "nat \<Rightarrow> nat \<Rightarrow> nat \<Rightarrow> bool" where
  "is_ods_square row column square_width \<longleftrightarrow>
     (let ods_width = square_width div 2 in row < ods_width \<and> column < ods_width)"

definition flatten_index :: "nat \<Rightarrow> nat \<Rightarrow> nat \<Rightarrow> nat" where
  "flatten_index row col square_width = row * square_width + col"

definition check_share ::
  "byte list list \<Rightarrow> nat \<Rightarrow> app_version \<Rightarrow> nat \<Rightarrow> nat \<Rightarrow> namespace option \<Rightarrow> axis_type \<Rightarrow> (types_error, share) result" where
  "check_share shares square_width app_version row col prev_ns axis =
     bind_r (vec_get shares (flatten_index row col square_width)) (\<lambda>raw.
     bind_r (if is_ods_square row col square_width then share_from_raw raw else share_parity raw) (\<lambda>s.
     bind_r (share_validate s app_version) (\<lambda>_.
     if (case prev_ns of None \<Rightarrow> False | Some p \<Rightarrow> share_namespace s < p)
     then bail_validation ''Shares of {axis} {axis_idx} are not sorted by their namespace''
     else Inr s)))"

definition check_column :: "byte list list \<Rightarrow> nat \<Rightarrow> app_version \<Rightarrow> nat \<Rightarrow> (types_error, unit) result" where
  "check_column shares square_width app_version col =
     bind_r (fold_r (\<lambda>row prev_ns.
        bind_r (check_share shares square_width app_version row col prev_ns Col) (\<lambda>s. Inr (Some (share_namespace s))))
        [0..<square_width] None) (\<lambda>_. Inr ())"

definition check_row ::
  "byte list list \<Rightarrow> nat \<Rightarrow> app_version \<Rightarrow> nat \<Rightarrow> share list \<Rightarrow> (types_error, share list) result" where
  "check_row shares square_width app_version row data_square =
     bind_r (fold_r (\<lambda>col (prev_ns, acc).
        bind_r (check_share shares square_width app_version row col prev_ns Row) (\<lambda>s.
        Inr (Some (share_namespace s), acc @ [s])))
        [0..<square_width] (None, data_square)) (\<lambda>(_, acc). Inr acc)"

definition eds_new :: "byte list list \<Rightarrow> string \<Rightarrow> app_version \<Rightarrow> (types_error, eds) result" where
  "eds_new shares codec app_version =
     (let min_shares = MIN_EXTENDED_SQUARE_WIDTH * MIN_EXTENDED_SQUARE_WIDTH;
          max_shares = max_extended_square_width app_version * max_extended_square_width app_version;
          square_width = isqrt (length shares)
      in if length shares < min_shares then bail_validation ''shares len ({}) < MIN_SHARES ({})''
         else if max_shares < length shares then bail_validation ''shares len ({}) > max shares ({})''
         else if square_width * square_width \<noteq> length shares then Inl (Err EdsInvalidDimentions)
         else if 65535 < square_width then Inl (Err EdsInvalidDimentions)
         else if count_ones square_width \<noteq> 1 then Inl (Err EdsInvalidDimentions)
         else bind_r (fold_r (\<lambda>col _. check_column shares square_width app_version col) [0..<square_width] ()) (\<lambda>_.
              bind_r (fold_r (check_row shares square_width app_version) [0..<square_width] []) (\<lambda>data_square.
              Inr \<lparr>eds_data_square = data_square, eds_codec = codec, eds_square_width = square_width\<rparr>)))"

record raw_eds =
  re_data_square :: "byte list list"
  re_codec :: string

definition eds_from_raw :: "raw_eds \<Rightarrow> app_version \<Rightarrow> (types_error, eds) result" where
  "eds_from_raw raw app_version = eds_new (re_data_square raw) (re_codec raw) app_version"

definition raw_eds_from :: "eds \<Rightarrow> raw_eds" where
  "raw_eds_from e = \<lparr>re_data_square = map share_to_vec (eds_data_square e), re_codec = eds_codec e\<rparr>"

section \<open>Accessors\<close>

definition eds_share :: "eds \<Rightarrow> nat \<Rightarrow> nat \<Rightarrow> (types_error, share) result" where
  "eds_share e row column =
     (let index = row * eds_square_width e + column
      in if index < length (eds_data_square e) then Inr (eds_data_square e ! index)
         else Inl (Err (EdsIndexOutOfRange row column)))"

definition axis_cell :: "axis_type \<Rightarrow> nat \<Rightarrow> nat \<Rightarrow> nat \<times> nat" where
  "axis_cell axis index i = (case axis of Row \<Rightarrow> (index, i) | Col \<Rightarrow> (i, index))"

definition eds_axis :: "eds \<Rightarrow> axis_type \<Rightarrow> nat \<Rightarrow> (types_error, share list) result" where
  "eds_axis e axis index = collect_r (\<lambda>i. case axis_cell axis index i of (row, col) \<Rightarrow> eds_share e row col) [0..<eds_square_width e]"

definition eds_row :: "eds \<Rightarrow> nat \<Rightarrow> (types_error, share list) result" where
  "eds_row e index = eds_axis e Row index"

definition eds_column :: "eds \<Rightarrow> nat \<Rightarrow> (types_error, share list) result" where
  "eds_column e index = eds_axis e Col index"

definition push_own :: "'t nmt_lib \<Rightarrow> share \<Rightarrow> 't \<Rightarrow> (types_error, 't) result" where
  "push_own lib s tree = push_share lib (share_namespace s) s tree"

definition eds_axis_nmt :: "'t nmt_lib \<Rightarrow> eds \<Rightarrow> axis_type \<Rightarrow> nat \<Rightarrow> (types_error, 't) result" where
  "eds_axis_nmt lib e axis index =
     fold_r (\<lambda>i tree. case axis_cell axis index i of (row, col) \<Rightarrow>
        bind_r (eds_share e row col) (\<lambda>s. push_own lib s tree)) [0..<eds_square_width e] (nl_with_hasher lib True)"

definition eds_row_nmt :: "'t nmt_lib \<Rightarrow> eds \<Rightarrow> nat \<Rightarrow> (types_error, 't) result" where
  "eds_row_nmt lib e index = eds_axis_nmt lib e Row index"

definition eds_column_nmt :: "'t nmt_lib \<Rightarrow> eds \<Rightarrow> nat \<Rightarrow> (types_error, 't) result" where
  "eds_column_nmt lib e index = eds_axis_nmt lib e Col index"

section \<open>What a constructed square is\<close>

definition cell :: "eds \<Rightarrow> nat \<Rightarrow> nat \<Rightarrow> share" where
  "cell e row col = eds_data_square e ! (row * eds_square_width e + col)"

definition eds_ok :: "app_version \<Rightarrow> eds \<Rightarrow> bool" where
  "eds_ok app e \<longleftrightarrow>
     (let w = eds_square_width e
      in count_ones w = 1 \<and> 2 \<le> w \<and> w \<le> max_extended_square_width app \<and> length (eds_data_square e) = w * w \<and>
         (\<forall>r < w. \<forall>c < w. share_ok (cell e r c) \<and> share_validate (cell e r c) app = Inr () \<and>
            sh_is_parity (cell e r c) = (\<not> is_ods_square r c w)) \<and>
         (\<forall>r < w. sorted (map (\<lambda>c. share_namespace (cell e r c)) [0..<w])) \<and>
         (\<forall>c < w. sorted (map (\<lambda>r. share_namespace (cell e r c)) [0..<w])))"

lemma isqrt_from_bounds: "k * k \<le> n \<Longrightarrow> isqrt_from n k * isqrt_from n k \<le> n \<and> n < Suc (isqrt_from n k) * Suc (isqrt_from n k)"
proof (induction n k rule: isqrt_from.induct)
  case (1 n k)
  show ?case
  proof (cases "n < Suc k * Suc k")
    case True
    with "1.prems" show ?thesis by (simp add: isqrt_from.simps [of n k])
  next
    case False
    with "1.IH" show ?thesis by (simp add: isqrt_from.simps [of n k])
  qed
qed

lemma isqrt_square [simp]: "isqrt (w * w) = w"
proof -
  define r where "r = isqrt (w * w)"
  have "r * r \<le> w * w" "w * w < Suc r * Suc r" using isqrt_from_bounds [of 0 "w * w"] by (simp_all add: isqrt_def r_def)
  then have "r \<le> w" "w < Suc r"
    by (meson mult_strict_mono' not_less zero_le, meson mult_le_mono not_less)
  then show ?thesis by (simp add: r_def)
qed

section \<open>Construction accepts exactly the valid squares\<close>

definition raw_share :: "byte list list \<Rightarrow> nat \<Rightarrow> app_version \<Rightarrow> nat \<Rightarrow> nat \<Rightarrow> (types_error, share) result" where
  "raw_share shares w app row col =
     bind_r (vec_get shares (flatten_index row col w)) (\<lambda>raw.
     bind_r (if is_ods_square row col w then share_from_raw raw else share_parity raw) (\<lambda>s.
     bind_r (share_validate s app) (\<lambda>_. Inr s)))"

definition unsorted :: "namespace option \<Rightarrow> share \<Rightarrow> bool" where
  "unsorted prev s \<longleftrightarrow> (case prev of None \<Rightarrow> False | Some p \<Rightarrow> share_namespace s < p)"

lemma check_share_eq:
  "check_share shares w app row col prev axis = bind_r (raw_share shares w app row col) (\<lambda>s.
     if unsorted prev s then bail_validation ''Shares of {axis} {axis_idx} are not sorted by their namespace'' else Inr s)"
  by (auto simp: check_share_def raw_share_def unsorted_def bind_r_def split: sum.split)

definition sorted_after :: "namespace option \<Rightarrow> share list \<Rightarrow> bool" where
  "sorted_after prev ss \<longleftrightarrow> sorted ((case prev of None \<Rightarrow> [] | Some p \<Rightarrow> [p]) @ map share_namespace ss)"

lemma sorted_after_Nil: "sorted_after prev []"
  by (simp add: sorted_after_def split: option.split)

lemma sorted_after_None: "sorted_after None ss \<longleftrightarrow> sorted (map share_namespace ss)"
  by (simp add: sorted_after_def)

lemma sorted_after_Cons: "sorted_after prev (s # ss) \<longleftrightarrow> \<not> unsorted prev s \<and> sorted_after (Some (share_namespace s)) ss"
  by (auto simp: sorted_after_def unsorted_def not_less split: option.splits)

lemma is_ok_iff: "is_ok m \<longleftrightarrow> (\<exists>x. m = Inr x)"
  by (cases m) auto

lemma check_fold_column:
  "(\<exists>q. fold_r (\<lambda>i prev. bind_r (bind_r (g i) (\<lambda>s. if unsorted prev s then Inl e else Inr s)) (\<lambda>s. Inr (Some (share_namespace s)))) is prev = Inr q)
   \<longleftrightarrow> (\<forall>i \<in> set is. is_ok (g i)) \<and> sorted_after prev (map (\<lambda>i. projr (g i)) is)"
proof (induction "is" arbitrary: prev)
  case Nil
  then show ?case by (simp add: sorted_after_Nil)
next
  case (Cons i "is")
  show ?case
  proof (cases "g i")
    case (Inr s)
    then show ?thesis using Cons.IH [of "Some (share_namespace s)"]
      by (cases "unsorted prev s") (simp_all add: sorted_after_Cons)
  qed simp
qed

lemma check_fold_row:
  "(\<exists>q. fold_r (\<lambda>i (prev, acc). bind_r (bind_r (g i) (\<lambda>s. if unsorted prev s then Inl e else Inr s)) (\<lambda>s. Inr (Some (share_namespace s), acc @ [s]))) is (prev, acc)
      = Inr (q, acc'))
   \<longleftrightarrow> (\<forall>i \<in> set is. is_ok (g i)) \<and> sorted_after prev (map (\<lambda>i. projr (g i)) is) \<and> acc' = acc @ map (\<lambda>i. projr (g i)) is"
proof (induction "is" arbitrary: prev acc)
  case Nil
  then show ?case by (auto simp: sorted_after_Nil)
next
  case (Cons i "is")
  show ?case
  proof (cases "g i")
    case (Inr s)
    then show ?thesis using Cons.IH [of "Some (share_namespace s)" "acc @ [s]"]
      by (cases "unsorted prev s") (simp_all add: sorted_after_Cons)
  qed simp
qed

lemma check_column_ok:
  "check_column shares w app c = Inr () \<longleftrightarrow>
     (\<forall>r < w. is_ok (raw_share shares w app r c)) \<and>
     sorted (map (\<lambda>r. share_namespace (projr (raw_share shares w app r c))) [0..<w])"
proof -
  have "check_column shares w app c = Inr () \<longleftrightarrow> (\<exists>q. fold_r (\<lambda>row prev_ns.
        bind_r (check_share shares w app row c prev_ns Col) (\<lambda>s. Inr (Some (share_namespace s)))) [0..<w] None = Inr q)"
    by (auto simp: check_column_def bind_r_Inr_iff)
  then show ?thesis unfolding check_share_eq check_fold_column by (auto simp: sorted_after_None comp_def)
qed

lemma check_row_ok:
  "check_row shares w app r acc = Inr acc' \<longleftrightarrow>
     (\<forall>c < w. is_ok (raw_share shares w app r c)) \<and>
     sorted (map (\<lambda>c. share_namespace (projr (raw_share shares w app r c))) [0..<w]) \<and>
     acc' = acc @ map (\<lambda>c. projr (raw_share shares w app r c)) [0..<w]"
proof -
  have "check_row shares w app r acc = Inr acc' \<longleftrightarrow> (\<exists>q. fold_r (\<lambda>col (prev_ns, acc).
        bind_r (check_share shares w app r col prev_ns Row) (\<lambda>s. Inr (Some (share_namespace s), acc @ [s]))) [0..<w] (None, acc) = Inr (q, acc'))"
    by (auto simp: check_row_def bind_r_Inr_iff)
  then show ?thesis unfolding check_share_eq check_fold_row by (auto simp: sorted_after_None comp_def)
qed

lemma fold_unit_ok: "fold_r (\<lambda>x _. f x) xs () = Inr () \<longleftrightarrow> (\<forall>x \<in> set xs. f x = Inr ())"
  by (induction xs) (auto simp: bind_r_Inr_iff)

lemma check_rows_ok:
  "fold_r (check_row shares w app) rows acc = Inr d \<longleftrightarrow>
     (\<forall>r \<in> set rows. (\<forall>c < w. is_ok (raw_share shares w app r c)) \<and>
        sorted (map (\<lambda>c. share_namespace (projr (raw_share shares w app r c))) [0..<w])) \<and>
     d = acc @ concat (map (\<lambda>r. map (\<lambda>c. projr (raw_share shares w app r c)) [0..<w]) rows)"
  by (induction rows arbitrary: acc) (auto simp: bind_r_Inr_iff check_row_ok)

lemma eds_new_iff:
  "eds_new shares codec app = Inr e \<longleftrightarrow>
     (let w = isqrt (length shares)
      in 4 \<le> length shares \<and> length shares \<le> max_extended_square_width app * max_extended_square_width app \<and>
         w * w = length shares \<and> w \<le> 65535 \<and> count_ones w = 1 \<and>
         (\<forall>r < w. \<forall>c < w. is_ok (raw_share shares w app r c)) \<and>
         (\<forall>c < w. sorted (map (\<lambda>r. share_namespace (projr (raw_share shares w app r c))) [0..<w])) \<and>
         (\<forall>r < w. sorted (map (\<lambda>c. share_namespace (projr (raw_share shares w app r c))) [0..<w])) \<and>
         e = \<lparr>eds_data_square = concat (map (\<lambda>r. map (\<lambda>c. projr (raw_share shares w app r c)) [0..<w]) [0..<w]),
              eds_codec = codec, eds_square_width = w\<rparr>)"
  by (auto simp: eds_new_def Let_def MIN_EXTENDED_SQUARE_WIDTH_def MIN_SQUARE_SIZE_def bind_r_Inr_iff
      fold_unit_ok check_column_ok check_rows_ok not_less)

text \<open>Row-major matrices.\<close>

definition matrix :: "nat \<Rightarrow> nat \<Rightarrow> (nat \<Rightarrow> nat \<Rightarrow> 'a) \<Rightarrow> 'a list" where
  "matrix n w f = concat (map (\<lambda>r. map (f r) [0..<w]) [0..<n])"

lemma length_matrix [simp]: "length (matrix n w f) = n * w"
  by (induction n) (simp_all add: matrix_def)

lemma matrix_nth: "r < n \<Longrightarrow> c < w \<Longrightarrow> matrix n w f ! (r * w + c) = f r c"
proof (induction n)
  case (Suc n)
  have s: "matrix (Suc n) w f = matrix n w f @ map (f n) [0..<w]" by (simp add: matrix_def)
  show ?case
  proof (cases "r < n")
    case True
    then have "r * w + c < n * w" using Suc.prems(2) mult_le_mono1 [of "Suc r" n w] by simp
    with Suc True show ?thesis by (simp add: s nth_append)
  next
    case False
    with Suc.prems show ?thesis by (simp add: s nth_append less_Suc_eq)
  qed
qed simp

lemma square_index:
  fixes i w :: nat
  assumes "i < w * w"
  obtains r c where "r < w" "c < w" "i = r * w + c"
proof -
  have "0 < w" using assms by (cases w) auto
  with assms that [of "i div w" "i mod w"] show thesis by (simp add: less_mult_imp_div_less)
qed

lemma cell_index:
  fixes r c w :: nat
  assumes "r < w" "c < w" shows "r * w + c < w * w"
proof -
  from assms have "r * w + c < Suc r * w" by simp
  also have "\<dots> \<le> w * w" using \<open>r < w\<close> by (intro mult_le_mono1) simp
  finally show ?thesis .
qed

lemma sorted_upt_cong:
  assumes "\<And>i. i < w \<Longrightarrow> f i = g i"
  shows "sorted (map f [0..<w]) \<longleftrightarrow> sorted (map g [0..<w])"
proof -
  have "map f [0..<w] = map g [0..<w]" using assms by (intro map_cong) auto
  then show ?thesis by (simp only:)
qed

lemma raw_share_Inr:
  "raw_share shares w app r c = Inr s \<longleftrightarrow>
     r * w + c < length shares \<and> sh_data s = shares ! (r * w + c) \<and> share_ok s \<and> share_validate s app = Inr () \<and>
     sh_is_parity s = (\<not> is_ods_square r c w)"
  by (cases s) (auto simp: raw_share_def vec_get_def flatten_index_def bind_r_Inr_iff share_from_raw_iff share_parity_def
      share_ok_def share_sizes split: if_splits)

lemma eds_new_sound:
  assumes "eds_new shares codec app = Inr e"
  shows "eds_ok app e \<and> eds_codec e = codec \<and> shares = re_data_square (raw_eds_from e)"
proof -
  from assms obtain w where w: "4 \<le> length shares" "length shares \<le> max_extended_square_width app * max_extended_square_width app"
      "w * w = length shares" "count_ones w = 1"
    and ok: "\<forall>r < w. \<forall>c < w. is_ok (raw_share shares w app r c)"
    and cols: "\<forall>c < w. sorted (map (\<lambda>r. share_namespace (projr (raw_share shares w app r c))) [0..<w])"
    and rows: "\<forall>r < w. sorted (map (\<lambda>c. share_namespace (projr (raw_share shares w app r c))) [0..<w])"
    and e: "e = \<lparr>eds_data_square = matrix w w (\<lambda>r c. projr (raw_share shares w app r c)), eds_codec = codec, eds_square_width = w\<rparr>"
    unfolding eds_new_iff Let_def matrix_def by blast
  have c: "cell e r c = projr (raw_share shares w app r c)" if "r < w" "c < w" for r c
    using that by (simp add: cell_def e matrix_nth)
  have raw: "raw_share shares w app r c = Inr (cell e r c)" if "r < w" "c < w" for r c
    using ok c that by (metis is_ok_iff sum.sel(2))
  have "2 \<le> w" using w(1,3) by (cases "w \<le> 1") (auto simp: le_Suc_eq)
  moreover have "w \<le> max_extended_square_width app" using w(2,3) by (metis mult_le_mono mult_less_le_imp_less not_less zero_le le_neq_implies_less mult_strict_mono)
  moreover have "sorted (map (\<lambda>c. share_namespace (cell e r c)) [0..<w])" if "r < w" for r
    by (rule sorted_upt_cong [THEN iffD1, OF _ rows [rule_format, OF that]]) (simp add: c that)
  moreover have "sorted (map (\<lambda>r. share_namespace (cell e r c)) [0..<w])" if "c < w" for c
    by (rule sorted_upt_cong [THEN iffD1, OF _ cols [rule_format, OF that]]) (simp add: c that)
  ultimately have "eds_ok app e" using w(4) raw by (auto simp: eds_ok_def e raw_share_Inr)
  moreover have "map sh_data (eds_data_square e) = shares"
  proof (rule nth_equalityI)
    fix i assume "i < length (map sh_data (eds_data_square e))"
    then have "i < w * w" by (simp add: e)
    then obtain r c where "r < w" "c < w" "i = r * w + c" by (rule square_index)
    with raw [of r c] show "map sh_data (eds_data_square e) ! i = shares ! i"
      using \<open>i < w * w\<close> by (simp add: raw_share_Inr cell_def e)
  qed (simp add: e w(3))
  ultimately show ?thesis
    by (simp add: e raw_eds_from_def share_to_vec_def [abs_def])
qed

lemma eds_new_complete:
  assumes a: "eds_ok app e \<and> eds_codec e = codec \<and> shares = re_data_square (raw_eds_from e)"
  shows "eds_new shares codec app = Inr e"
proof -
  define w where "w = eds_square_width e"
  have sh: "shares = map sh_data (eds_data_square e)" using a by (simp add: raw_eds_from_def share_to_vec_def [abs_def])
  from a have len: "length shares = w * w" by (simp add: eds_ok_def Let_def w_def raw_eds_from_def)
  from a have w: "count_ones w = 1" "2 \<le> w" "w \<le> max_extended_square_width app"
    and cells: "\<forall>r < w. \<forall>c < w. share_ok (cell e r c) \<and> share_validate (cell e r c) app = Inr () \<and>
            sh_is_parity (cell e r c) = (\<not> is_ods_square r c w)"
    and rows: "\<forall>r < w. sorted (map (\<lambda>c. share_namespace (cell e r c)) [0..<w])"
    and cols: "\<forall>c < w. sorted (map (\<lambda>r. share_namespace (cell e r c)) [0..<w])"
    by (simp_all add: eds_ok_def Let_def w_def)
  have raw: "raw_share shares w app r c = Inr (cell e r c)" if "r < w" "c < w" for r c
    using cells that cell_index [OF that] len by (simp add: raw_share_Inr sh cell_def w_def)
  have e: "e = \<lparr>eds_data_square = matrix w w (\<lambda>r c. projr (raw_share shares w app r c)), eds_codec = codec, eds_square_width = w\<rparr>"
  proof -
    have "eds_data_square e = matrix w w (\<lambda>r c. projr (raw_share shares w app r c))"
    proof (rule nth_equalityI)
      fix i assume "i < length (eds_data_square e)"
      then have "i < w * w" using len by (simp add: sh)
      then obtain r c where "r < w" "c < w" "i = r * w + c" by (rule square_index)
      with raw [of r c] show "eds_data_square e ! i = matrix w w (\<lambda>r c. projr (raw_share shares w app r c)) ! i"
        by (simp add: matrix_nth cell_def w_def)
    qed (use len in \<open>simp add: sh\<close>)
    then show ?thesis using a by (simp add: w_def)
  qed
  have "4 \<le> w * w" "w * w \<le> max_extended_square_width app * max_extended_square_width app"
    using mult_le_mono [OF w(2) w(2)] mult_le_mono [OF w(3) w(3)] by simp_all
  moreover have "w \<le> 65535" using w(3) max_extended_square_width_u16 [of app] by simp
  moreover have "\<forall>r < w. \<forall>c < w. is_ok (raw_share shares w app r c)" using raw by simp
  moreover have "sorted (map (\<lambda>c. share_namespace (projr (raw_share shares w app r c))) [0..<w])" if "r < w" for r
    by (rule sorted_upt_cong [THEN iffD1, OF _ rows [rule_format, OF that]]) (simp add: raw that)
  moreover have "sorted (map (\<lambda>r. share_namespace (projr (raw_share shares w app r c))) [0..<w])" if "c < w" for c
    by (rule sorted_upt_cong [THEN iffD1, OF _ cols [rule_format, OF that]]) (simp add: raw that)
  ultimately show ?thesis
    unfolding eds_new_iff Let_def len isqrt_square matrix_def [symmetric] using w(1) e by blast
qed

text \<open>C9. Construction of a square: \<open>new\<close> returns a square exactly when its arguments are the raw shares of a
  valid one: a width that is a power of two between 2 and the maximum of the version, shares of 512
  bytes, data shares with a valid namespace exactly in the first quadrant and parity shares elsewhere,
  all valid for the version, and namespaces that do not decrease along any row or column. So
  converting a square into its raw form and back gives the same square.\<close>

theorem eds_new_exact:
  "eds_new shares codec app = Inr e \<longleftrightarrow>
     eds_ok app e \<and> eds_codec e = codec \<and> shares = re_data_square (raw_eds_from e)"
  using eds_new_sound eds_new_complete by blast

end
