(* ===== verification/Merkle_Proofs.thy ===== *)
theory Merkle_Proofs
  imports Shwap_Ids
begin

text \<open>
  Merkle proofs of \<open>types/src/merkle_proof.rs\<close> and the proofs of rows of
  \<open>types/src/data_availability_header.rs\<close>. The three hash functions of the Tendermint crate are the
  parameter \<open>merkle_hasher\<close>. A proof that the code creates is shown to verify; a proof that verifies
  for a position of the tree determines the leaf, when the hash functions have no collisions.
\<close>

section \<open>Hashing leaves\<close>

record merkle_hasher =
  mh_empty_hash :: bytes
  mh_leaf_hash :: "bytes \<Rightarrow> bytes"
  mh_inner_hash :: "bytes \<Rightarrow> bytes \<Rightarrow> bytes"

text \<open>\<open>usize::next_power_of_two\<close>.\<close>

function np2_from :: "nat \<Rightarrow> nat \<Rightarrow> nat" where
  "np2_from n p = (if p = 0 \<or> n \<le> p then p else np2_from n (2 * p))"
  by pat_completeness auto
termination by (relation "measure (\<lambda>(n, p). n - p)") auto

declare np2_from.simps [simp del]

definition next_power_of_two :: "nat \<Rightarrow> nat" where
  "next_power_of_two n = np2_from n 1"

definition subtrees_split :: "nat \<Rightarrow> nat" where
  "subtrees_split tot = next_power_of_two tot div 2"

lemma np2_from_bounds: "0 < p \<Longrightarrow> n \<le> np2_from n p \<and> (p < n \<longrightarrow> np2_from n p < 2 * n \<and> even (np2_from n p))"
proof (induction n p rule: np2_from.induct)
  case (1 n p)
  show ?case
  proof (cases "n \<le> p")
    case True
    then show ?thesis by (simp add: np2_from.simps [of n p])
  next
    case False
    with 1 have IH: "n \<le> np2_from n (2 * p)" "2 * p < n \<Longrightarrow> np2_from n (2 * p) < 2 * n \<and> even (np2_from n (2 * p))" by auto
    have "\<not> 2 * p < n \<Longrightarrow> np2_from n (2 * p) = 2 * p" by (simp add: np2_from.simps [of n "2 * p"])
    with IH False "1.prems" show ?thesis by (cases "2 * p < n") (auto simp: np2_from.simps [of n p])
  qed
qed

lemma subtrees_split_bounds:
  assumes "1 < n" shows "0 < subtrees_split n" "subtrees_split n < n" "n \<le> 2 * subtrees_split n"
proof -
  have "n \<le> next_power_of_two n" "next_power_of_two n < 2 * n" "even (next_power_of_two n)"
    using np2_from_bounds [of 1 n] assms by (auto simp: next_power_of_two_def)
  then show "0 < subtrees_split n" "subtrees_split n < n" "n \<le> 2 * subtrees_split n"
    using assms by (auto simp: subtrees_split_def)
qed

lemma subtrees_shorter:
  "xs \<noteq> [] \<Longrightarrow> length xs \<noteq> Suc 0 \<Longrightarrow> min (length xs) (subtrees_split (length xs)) < length xs"
  "xs \<noteq> [] \<Longrightarrow> length xs \<noteq> Suc 0 \<Longrightarrow> length xs - subtrees_split (length xs) < length xs"
proof -
  show "min (length xs) (subtrees_split (length xs)) < length xs"
    "length xs - subtrees_split (length xs) < length xs" if "xs \<noteq> []" "length xs \<noteq> Suc 0"
  proof -
    have "1 < length xs" using that by (cases xs) auto
    from subtrees_split_bounds [OF this] that
    show "min (length xs) (subtrees_split (length xs)) < length xs"
      "length xs - subtrees_split (length xs) < length xs" by auto
  qed
qed

lemma long_list: "\<not> length xs \<le> Suc 0 \<Longrightarrow> xs \<noteq> [] \<and> length xs \<noteq> Suc 0"
  by auto

function hash_leaves_collecting_aunts ::
  "merkle_hasher \<Rightarrow> nat \<Rightarrow> nat \<Rightarrow> bytes list \<Rightarrow> bytes list \<Rightarrow> bytes \<times> bytes list" where
  "hash_leaves_collecting_aunts H first_leaf_index leaf_to_prove leaves aunts =
     (let tot = length leaves
      in if tot = 0 then (mh_empty_hash H, aunts)
         else if tot = 1 then (mh_leaf_hash H (leaves ! 0), aunts)
         else let split = subtrees_split tot;
                  l = hash_leaves_collecting_aunts H first_leaf_index leaf_to_prove (take split leaves) aunts;
                  r = hash_leaves_collecting_aunts H (first_leaf_index + split) leaf_to_prove (drop split leaves) (snd l)
              in (mh_inner_hash H (fst l) (fst r),
                  if first_leaf_index \<le> leaf_to_prove \<and> leaf_to_prove < first_leaf_index + tot
                  then if leaf_to_prove < first_leaf_index + split then snd r @ [fst r] else snd r @ [fst l]
                  else snd r))"
  by pat_completeness auto
termination
  by (relation "measure (\<lambda>(H, f, p, leaves, aunts). length leaves)") (auto simp: subtrees_shorter)

declare hash_leaves_collecting_aunts.simps [simp del]

section \<open>Proofs\<close>

record merkle_proof =
  mp_index :: nat
  mp_total :: nat
  mp_leaf_hash :: bytes
  mp_aunts :: "bytes list"

definition merkle_proof_new ::
  "merkle_hasher \<Rightarrow> nat \<Rightarrow> bytes list \<Rightarrow> (types_error, merkle_proof \<times> bytes) result" where
  "merkle_proof_new H leaf_to_prove leaves =
     (if length leaves \<le> leaf_to_prove then Inl (Err (IndexOutOfRange leaf_to_prove (length leaves)))
      else let (root, aunts) = hash_leaves_collecting_aunts H 0 leaf_to_prove leaves []
           in Inr (\<lparr>mp_index = leaf_to_prove, mp_total = length leaves,
                    mp_leaf_hash = mh_leaf_hash H (leaves ! leaf_to_prove), mp_aunts = aunts\<rparr>, root))"

function subtree_root_from_aunts ::
  "merkle_hasher \<Rightarrow> nat \<Rightarrow> nat \<Rightarrow> bytes \<Rightarrow> bytes list \<Rightarrow> (types_error, bytes) result" where
  "subtree_root_from_aunts H index tot leaf aunts =
     (if tot = 0 then Inl (Panic ''assertion failed: total != 0'')
      else if tot = 1 then (if aunts \<noteq> [] then bail_verification ''extra aunts in proof'' else Inr leaf)
      else let split = subtrees_split tot
           in if aunts = [] then bail_verification ''aunts missing in proof''
              else if index < split
              then bind_r (subtree_root_from_aunts H index split leaf (butlast aunts)) (\<lambda>left_hash.
                   Inr (mh_inner_hash H left_hash (last aunts)))
              else bind_r (subtree_root_from_aunts H (index - split) (tot - split) leaf (butlast aunts)) (\<lambda>right_hash.
                   Inr (mh_inner_hash H (last aunts) right_hash)))"
  by pat_completeness auto
termination
  by (relation "measure (\<lambda>(H, i, tot, l, a). tot)") (auto simp: subtrees_split_bounds)

declare subtree_root_from_aunts.simps [simp del]

definition merkle_proof_verify :: "merkle_hasher \<Rightarrow> merkle_proof \<Rightarrow> bytes \<Rightarrow> bytes \<Rightarrow> (types_error, unit) result" where
  "merkle_proof_verify H p leaf root =
     (let leaf = mh_leaf_hash H leaf
      in if leaf \<noteq> mp_leaf_hash p then bail_verification ''proof created for a different leaf''
         else bind_r (subtree_root_from_aunts H (mp_index p) (mp_total p) leaf (mp_aunts p)) (\<lambda>computed_root.
              if computed_root \<noteq> root then Inl (Err RootMismatch) else Inr ()))"

record raw_merkle_proof =
  rmp_index :: int
  rmp_total :: int
  rmp_leaf_hash :: bytes
  rmp_aunts :: "bytes list"

definition merkle_proof_try_from :: "raw_merkle_proof \<Rightarrow> (types_error, merkle_proof) result" where
  "merkle_proof_try_from v =
     (if rmp_index v < 0 then bail_validation ''negative index''
      else if rmp_total v \<le> 0 then bail_validation ''total <= 0''
      else if length (rmp_leaf_hash v) \<noteq> 32 then bail_validation ''invalid hash size''
      else if \<exists>a \<in> set (rmp_aunts v). length a \<noteq> 32 then bail_validation ''invalid hash size''
      else Inr \<lparr>mp_index = nat (rmp_index v), mp_total = nat (rmp_total v),
                mp_leaf_hash = rmp_leaf_hash v, mp_aunts = rmp_aunts v\<rparr>)"

definition raw_merkle_proof_from :: "merkle_proof \<Rightarrow> raw_merkle_proof" where
  "raw_merkle_proof_from p = \<lparr>rmp_index = int (mp_index p), rmp_total = int (mp_total p),
     rmp_leaf_hash = mp_leaf_hash p, rmp_aunts = mp_aunts p\<rparr>"

section \<open>Proofs of rows\<close>

record row_proof =
  rp_row_roots :: "bytes list"
  rp_proofs :: "merkle_proof list"
  rp_start_row :: nat
  rp_end_row :: nat

definition row_proof_step ::
  "merkle_hasher \<Rightarrow> data_availability_header \<Rightarrow> nat \<Rightarrow> merkle_proof list \<times> bytes list \<Rightarrow>
   (types_error, merkle_proof list \<times> bytes list) result" where
  "row_proof_step H d idx acc =
     bind_r (merkle_proof_new H idx (dah_row_roots d @ dah_column_roots d)) (\<lambda>(proof, _).
     bind_r (ok_or (IndexOutOfRange idx (length (dah_row_roots d))) (dah_row_root d idx)) (\<lambda>row.
     Inr (fst acc @ [proof], snd acc @ [row])))"

definition dah_row_proof ::
  "merkle_hasher \<Rightarrow> data_availability_header \<Rightarrow> nat \<Rightarrow> nat \<Rightarrow> (types_error, row_proof) result" where
  "dah_row_proof H d start_row end_row =
     bind_r (fold_r (row_proof_step H d) [start_row..<Suc end_row] ([], [])) (\<lambda>(proofs, row_roots).
     Inr \<lparr>rp_row_roots = row_roots, rp_proofs = proofs, rp_start_row = start_row, rp_end_row = end_row\<rparr>)"

definition row_proof_verify :: "merkle_hasher \<Rightarrow> row_proof \<Rightarrow> hash \<Rightarrow> (types_error, unit) result" where
  "row_proof_verify H p root =
     (if length (rp_row_roots p) \<noteq> length (rp_proofs p)
      then bail_verification ''invalid row proof: row_roots.len() != proofs.len()''
      else if rp_end_row p < rp_start_row p then bail_verification ''start_row ({}) > end_row ({})''
      else if 65535 < rp_end_row p - rp_start_row p + 1 then Inl (Panic ''attempt to add with overflow'')
      else if rp_end_row p - rp_start_row p + 1 \<noteq> length (rp_proofs p)
      then bail_verification ''length based on start_row and end_row ({}) != length of proofs ({})''
      else case root of
        Hash_None \<Rightarrow> bail_verification ''empty hash''
      | Sha256 r \<Rightarrow> fold_r (\<lambda>(row_root, proof) _. merkle_proof_verify H proof row_root r)
                     (zip (rp_row_roots p) (rp_proofs p)) ())"

record raw_row_proof =
  rrp_row_roots :: "bytes list"
  rrp_proofs :: "raw_merkle_proof list"
  rrp_start_row :: nat
  rrp_end_row :: nat

definition NAMESPACED_HASH_SIZE :: nat where
  "NAMESPACED_HASH_SIZE = 2 * NS_SIZE + 32"

definition namespaced_hash_from_raw :: "bytes \<Rightarrow> (types_error, bytes) result" where
  "namespaced_hash_from_raw b =
     (if length b = NAMESPACED_HASH_SIZE then Inr b else Inl (Err (InvalidNamespacedHash ''wrong size'')))"

definition row_proof_try_from :: "raw_row_proof \<Rightarrow> (types_error, row_proof) result" where
  "row_proof_try_from v =
     bind_r (collect_r namespaced_hash_from_raw (rrp_row_roots v)) (\<lambda>row_roots.
     bind_r (collect_r merkle_proof_try_from (rrp_proofs v)) (\<lambda>proofs.
     if 65535 < rrp_start_row v then bail_validation ''start_row ({}) exceeds u16''
     else if 65535 < rrp_end_row v then bail_validation ''end_row ({}) exceeds u16''
     else Inr \<lparr>rp_row_roots = row_roots, rp_proofs = proofs, rp_start_row = rrp_start_row v, rp_end_row = rrp_end_row v\<rparr>))"

definition raw_row_proof_from :: "row_proof \<Rightarrow> raw_row_proof" where
  "raw_row_proof_from p = \<lparr>rrp_row_roots = rp_row_roots p, rrp_proofs = map raw_merkle_proof_from (rp_proofs p),
     rrp_start_row = rp_start_row p, rrp_end_row = rp_end_row p\<rparr>"

section \<open>The tree and its audit paths\<close>

function tree_root :: "merkle_hasher \<Rightarrow> bytes list \<Rightarrow> bytes" where
  "tree_root H leaves =
     (if leaves = [] then mh_empty_hash H
      else if length leaves = 1 then mh_leaf_hash H (leaves ! 0)
      else mh_inner_hash H (tree_root H (take (subtrees_split (length leaves)) leaves))
             (tree_root H (drop (subtrees_split (length leaves)) leaves)))"
  by pat_completeness auto
termination
  by (relation "measure (\<lambda>(H, leaves). length leaves)") (auto simp: subtrees_split_bounds Suc_lessI)

declare tree_root.simps [simp del]

function audit_path :: "merkle_hasher \<Rightarrow> nat \<Rightarrow> bytes list \<Rightarrow> bytes list" where
  "audit_path H i leaves =
     (if length leaves \<le> 1 then []
      else let k = subtrees_split (length leaves)
           in if i < k then audit_path H i (take k leaves) @ [tree_root H (drop k leaves)]
              else audit_path H (i - k) (drop k leaves) @ [tree_root H (take k leaves)])"
  by pat_completeness auto
termination
  by (relation "measure (\<lambda>(H, i, leaves). length leaves)") (auto dest!: long_list simp: subtrees_shorter)

declare audit_path.simps [simp del]

lemma tree_root_node:
  "1 < length leaves \<Longrightarrow> tree_root H leaves =
     mh_inner_hash H (tree_root H (take (subtrees_split (length leaves)) leaves))
       (tree_root H (drop (subtrees_split (length leaves)) leaves))"
  by (subst tree_root.simps) auto

lemma tree_root_small: "tree_root H [] = mh_empty_hash H" "tree_root H [x] = mh_leaf_hash H x"
  by (simp_all add: tree_root.simps [of H "[]"] tree_root.simps [of H "[x]"])

lemma audit_path_node:
  "1 < length leaves \<Longrightarrow> audit_path H i leaves =
     (let k = subtrees_split (length leaves)
      in if i < k then audit_path H i (take k leaves) @ [tree_root H (drop k leaves)]
         else audit_path H (i - k) (drop k leaves) @ [tree_root H (take k leaves)])"
  by (subst audit_path.simps) auto

lemma hash_leaves_eq:
  "hash_leaves_collecting_aunts H f p leaves a =
     (tree_root H leaves, a @ (if f \<le> p \<and> p < f + length leaves then audit_path H (p - f) leaves else []))"
proof (induction H f p leaves a rule: hash_leaves_collecting_aunts.induct)
  case (1 H f p leaves a)
  consider "leaves = []" | x where "leaves = [x]" | "1 < length leaves"
    by (cases leaves rule: list.exhaust; cases "tl leaves") auto
  then show ?case
  proof cases
    case 1
    then show ?thesis by (auto simp: hash_leaves_collecting_aunts.simps tree_root_small)
  next
    case 2
    then show ?thesis by (simp add: hash_leaves_collecting_aunts.simps tree_root_small audit_path.simps)
  next
    case 3
    define k where "k = subtrees_split (length leaves)"
    have k: "0 < k" "k < length leaves" using subtrees_split_bounds [OF 3] by (simp_all add: k_def)
    have len: "length leaves \<noteq> 0" "length leaves \<noteq> 1" using 3 by auto
    note IH = "1.IH" [OF refl len refl, folded k_def]
    define b where "b = a @ (if f \<le> p \<and> p < f + k then audit_path H (p - f) (take k leaves) else [])"
    define c where "c = b @ (if f + k \<le> p \<and> p < f + length leaves then audit_path H (p - (f + k)) (drop k leaves) else [])"
    have l: "hash_leaves_collecting_aunts H f p (take k leaves) a = (tree_root H (take k leaves), b)"
      using IH(1) k by (simp add: b_def)
    have r: "hash_leaves_collecting_aunts H (f + k) p (drop k leaves) b = (tree_root H (drop k leaves), c)"
      using IH(2) [OF refl] k by (simp add: l c_def)
    have "hash_leaves_collecting_aunts H f p leaves a =
      (mh_inner_hash H (tree_root H (take k leaves)) (tree_root H (drop k leaves)),
       if f \<le> p \<and> p < f + length leaves
       then if p < f + k then c @ [tree_root H (drop k leaves)] else c @ [tree_root H (take k leaves)] else c)"
      using len by (subst hash_leaves_collecting_aunts.simps) (simp add: Let_def l r flip: k_def)
    moreover have "(if f \<le> p \<and> p < f + length leaves
       then if p < f + k then c @ [tree_root H (drop k leaves)] else c @ [tree_root H (take k leaves)] else c) =
      a @ (if f \<le> p \<and> p < f + length leaves then audit_path H (p - f) leaves else [])"
      unfolding audit_path_node [OF 3] c_def b_def k_def [symmetric] Let_def
      using k by (auto simp: diff_diff_left)
    ultimately show ?thesis by (simp add: tree_root_node [OF 3] flip: k_def)
  qed
qed

lemma audit_path_verifies:
  "i < length leaves \<Longrightarrow>
   subtree_root_from_aunts H i (length leaves) (mh_leaf_hash H (leaves ! i)) (audit_path H i leaves) = Inr (tree_root H leaves)"
proof (induction H i leaves rule: audit_path.induct)
  case (1 H i leaves)
  show ?case
  proof (cases "1 < length leaves")
    case False
    with "1.prems" obtain x where "leaves = [x]" "i = 0" by (cases leaves) auto
    then show ?thesis by (simp add: subtree_root_from_aunts.simps audit_path.simps tree_root_small)
  next
    case True
    define k where "k = subtrees_split (length leaves)"
    have k: "0 < k" "k < length leaves" using subtrees_split_bounds [OF True] by (simp_all add: k_def)
    have n: "\<not> length leaves \<le> 1" "length leaves \<noteq> 0" "length leaves \<noteq> 1" using True by auto
    note nodes = audit_path_node [OF True] tree_root_node [OF True]
    note IH = "1.IH" [OF n(1) refl, folded k_def]
    show ?thesis
    proof (cases "i < k")
      case True
      with IH(1) k have "subtree_root_from_aunts H i k (mh_leaf_hash H (leaves ! i)) (audit_path H i (take k leaves)) = Inr (tree_root H (take k leaves))"
        by simp
      with True n show ?thesis
        by (subst subtree_root_from_aunts.simps) (simp add: Let_def nodes flip: k_def)
    next
      case False
      with IH(2) k "1.prems" have "subtree_root_from_aunts H (i - k) (length leaves - k) (mh_leaf_hash H (leaves ! i)) (audit_path H (i - k) (drop k leaves)) =
        Inr (tree_root H (drop k leaves))" by simp
      with False n show ?thesis
        by (subst subtree_root_from_aunts.simps) (simp add: Let_def nodes flip: k_def)
    qed
  qed
qed

text \<open>No collisions: what a cryptographic hash provides in practice, idealised.\<close>

definition collision_free :: "merkle_hasher \<Rightarrow> bool" where
  "collision_free H \<longleftrightarrow> inj (mh_leaf_hash H) \<and> (\<forall>a b c d. mh_inner_hash H a b = mh_inner_hash H c d \<longrightarrow> a = c \<and> b = d)"

lemma subtree_root_left:
  assumes "1 < n" "i < subtrees_split n" "subtree_root_from_aunts H i n leaf aunts = Inr r"
  shows "\<exists>h. subtree_root_from_aunts H i (subtrees_split n) leaf (butlast aunts) = Inr h \<and> r = mh_inner_hash H h (last aunts)"
  using assms(3) [unfolded subtree_root_from_aunts.simps [of H i n]] assms(1,2) by (auto simp: Let_def split: if_splits)

lemma subtree_root_right:
  assumes "1 < n" "subtrees_split n \<le> i" "subtree_root_from_aunts H i n leaf aunts = Inr r"
  shows "\<exists>h. subtree_root_from_aunts H (i - subtrees_split n) (n - subtrees_split n) leaf (butlast aunts) = Inr h \<and>
    r = mh_inner_hash H (last aunts) h"
  using assms(3) [unfolded subtree_root_from_aunts.simps [of H i n]] assms(1,2) by (auto simp: Let_def split: if_splits)

lemma root_determines_leaf:
  "collision_free H \<Longrightarrow> i < length leaves \<Longrightarrow>
   subtree_root_from_aunts H i (length leaves) leaf aunts = Inr (tree_root H leaves) \<Longrightarrow>
   leaf = mh_leaf_hash H (leaves ! i)"
proof (induction H i leaves arbitrary: aunts rule: audit_path.induct)
  case (1 H i leaves)
  show ?case
  proof (cases "1 < length leaves")
    case False
    with "1.prems"(2) obtain x where x: "leaves = [x]" "i = 0" by (cases leaves) auto
    from "1.prems"(3) have "subtree_root_from_aunts H 0 1 leaf aunts = Inr (mh_leaf_hash H x)" by (simp add: x tree_root_small)
    then show ?thesis by (simp add: subtree_root_from_aunts.simps [of H 0 "Suc 0"] x split: if_splits)
  next
    case long: True
    define k where "k = subtrees_split (length leaves)"
    have k: "0 < k" "k < length leaves" using subtrees_split_bounds [OF long] by (simp_all add: k_def)
    have n: "\<not> length leaves \<le> 1" using long by auto
    note IH = "1.IH" [OF n k_def]
    have inj: "mh_inner_hash H a b = mh_inner_hash H c d \<Longrightarrow> a = c \<and> b = d" for a b c d
      using "1.prems"(1) unfolding collision_free_def by blast
    note root = "1.prems"(3) [unfolded tree_root_node [OF long], folded k_def]
    show ?thesis
    proof (cases "i < k")
      case True
      from subtree_root_left [OF long _ root] True obtain h where
        h: "subtree_root_from_aunts H i k leaf (butlast aunts) = Inr h"
          "mh_inner_hash H (tree_root H (take k leaves)) (tree_root H (drop k leaves)) = mh_inner_hash H h (last aunts)"
        by (auto simp flip: k_def)
      from inj [OF h(2)] h(1) k have "subtree_root_from_aunts H i (length (take k leaves)) leaf (butlast aunts) = Inr (tree_root H (take k leaves))"
        by simp
      from IH(1) [OF True "1.prems"(1) _ this] k True show ?thesis by simp
    next
      case False
      from subtree_root_right [OF long _ root] False obtain h where
        h: "subtree_root_from_aunts H (i - k) (length leaves - k) leaf (butlast aunts) = Inr h"
          "mh_inner_hash H (tree_root H (take k leaves)) (tree_root H (drop k leaves)) = mh_inner_hash H (last aunts) h"
        by (auto simp flip: k_def)
      from inj [OF h(2)] h(1) have "subtree_root_from_aunts H (i - k) (length (drop k leaves)) leaf (butlast aunts) = Inr (tree_root H (drop k leaves))"
        by simp
      from IH(2) [OF False "1.prems"(1) _ this] k False "1.prems"(2) show ?thesis by simp
    qed
  qed
qed

lemma merkle_proof_new_eq:
  assumes "i < length leaves"
  shows "merkle_proof_new H i leaves = Inr (\<lparr>mp_index = i, mp_total = length leaves,
    mp_leaf_hash = mh_leaf_hash H (leaves ! i), mp_aunts = audit_path H i leaves\<rparr>, tree_root H leaves)"
  using assms by (simp add: merkle_proof_new_def hash_leaves_eq)

text \<open>C18. Merkle proofs: for an index in range \<open>new\<close> returns a proof with the root of the tree, and the
  proof verifies for the leaf. Conversely, if the hash functions have no collisions and a proof for
  that many leaves and an index in range verifies against the root, it was for the leaf at that
  index.\<close>

theorem merkle_proof_correct:
  assumes "i < length leaves"
  shows "(\<exists>p. merkle_proof_new H i leaves = Inr (p, tree_root H leaves) \<and>
      merkle_proof_verify H p (leaves ! i) (tree_root H leaves) = Inr ()) \<and>
    (collision_free H \<longrightarrow> (\<forall>p x. mp_total p = length leaves \<and> mp_index p = i \<and>
      merkle_proof_verify H p x (tree_root H leaves) = Inr () \<longrightarrow> x = leaves ! i))"
proof (intro conjI impI allI)
  show "\<exists>p. merkle_proof_new H i leaves = Inr (p, tree_root H leaves) \<and>
      merkle_proof_verify H p (leaves ! i) (tree_root H leaves) = Inr ()"
    using merkle_proof_new_eq [OF assms, of H] audit_path_verifies [OF assms, of H]
    by (simp add: merkle_proof_verify_def)
next
  fix p x
  assume c: "collision_free H" and v: "mp_total p = length leaves \<and> mp_index p = i \<and>
    merkle_proof_verify H p x (tree_root H leaves) = Inr ()"
  then have "subtree_root_from_aunts H i (length leaves) (mh_leaf_hash H x) (mp_aunts p) = Inr (tree_root H leaves)"
    by (auto simp: merkle_proof_verify_def Let_def split: if_splits)
  from root_determines_leaf [OF c assms this] c show "x = leaves ! i"
    unfolding collision_free_def by (blast dest: injD)
qed

section \<open>Rows\<close>

text \<open>The Tendermint crate's hash of a list of byte vectors is the root of the same tree (RFC 6962).\<close>

definition merkle_agrees :: "tendermint \<Rightarrow> merkle_hasher \<Rightarrow> bool" where
  "merkle_agrees tm H \<longleftrightarrow> (\<forall>leaves. tm_merkle_root tm leaves = tree_root H leaves)"

lemma row_proof_fold:
  assumes "\<forall>i \<in> set is. i < length (dah_row_roots d)"
  shows "fold_r (row_proof_step H d) is (ps, rs) =
    Inr (ps @ map (\<lambda>i. fst (projr (merkle_proof_new H i (dah_row_roots d @ dah_column_roots d)))) is,
         rs @ map ((!) (dah_row_roots d)) is)"
  using assms
  by (induction "is" arbitrary: ps rs) (simp_all add: row_proof_step_def merkle_proof_new_eq dah_row_root_def)

lemma verify_all:
  "(\<forall>(r, p) \<in> set xs. merkle_proof_verify H p r root = Inr ()) \<Longrightarrow>
   fold_r (\<lambda>(row_root, proof) _. merkle_proof_verify H proof row_root root) xs () = Inr ()"
  by (induction xs) auto

lemma row_merkle_proof_verifies:
  assumes "i < length (dah_row_roots d)"
  shows "merkle_proof_verify H (fst (projr (merkle_proof_new H i (dah_row_roots d @ dah_column_roots d)))) (dah_row_roots d ! i)
    (tree_root H (dah_row_roots d @ dah_column_roots d)) = Inr ()"
proof -
  have i: "i < length (dah_row_roots d @ dah_column_roots d)" using assms by simp
  from assms have "(dah_row_roots d @ dah_column_roots d) ! i = dah_row_roots d ! i" by (simp add: nth_append)
  with audit_path_verifies [OF i, of H] merkle_proof_new_eq [OF i, of H] show ?thesis
    by (simp add: merkle_proof_verify_def)
qed

text \<open>Row proofs: for a range of rows of a header with at most 65535 of them, \<open>row_proof\<close> returns a
  proof that holds the roots of these rows in order and that \<open>verify\<close> accepts against the hash of the
  header.\<close>

theorem row_proof_complete:
  assumes "merkle_agrees tm H" "a \<le> b" "b < length (dah_row_roots d)" "length (dah_row_roots d) \<le> 65535"
  shows "\<exists>p. dah_row_proof H d a b = Inr p \<and> rp_row_roots p = map ((!) (dah_row_roots d)) [a..<Suc b] \<and>
    row_proof_verify H p (dah_hash tm d) = Inr ()"
proof -
  let ?pf = "\<lambda>i. fst (projr (merkle_proof_new H i (dah_row_roots d @ dah_column_roots d)))"
  have "\<forall>i \<in> set [a..<Suc b]. i < length (dah_row_roots d)" using assms(3) by auto
  from row_proof_fold [OF this, of H "[]" "[]"] have p: "dah_row_proof H d a b =
    Inr \<lparr>rp_row_roots = map ((!) (dah_row_roots d)) [a..<Suc b], rp_proofs = map ?pf [a..<Suc b], rp_start_row = a, rp_end_row = b\<rparr>"
    by (simp add: dah_row_proof_def del: upt_Suc)
  have "fold_r (\<lambda>(row_root, proof) _. merkle_proof_verify H proof row_root (tree_root H (dah_row_roots d @ dah_column_roots d)))
     (zip (map ((!) (dah_row_roots d)) [a..<Suc b]) (map ?pf [a..<Suc b])) () = Inr ()"
    using assms(3)
    by (intro verify_all) (auto simp: zip_map_map zip_same_conv_map simp del: upt_Suc intro!: row_merkle_proof_verifies)
  then show ?thesis using assms p
    by (auto simp: row_proof_verify_def dah_hash_def merkle_agrees_def simp del: upt_Suc)
qed

lemma subtree_root_index_saturates:
  "n \<le> Suc i \<Longrightarrow> n \<le> Suc j \<Longrightarrow> subtree_root_from_aunts H i n leaf aunts = subtree_root_from_aunts H j n leaf aunts"
proof (induction H i n leaf aunts arbitrary: j rule: subtree_root_from_aunts.induct)
  case (1 H i n leaf aunts)
  show ?case
  proof (cases "1 < n \<and> aunts \<noteq> []")
    case False
    then show ?thesis by (auto simp: subtree_root_from_aunts.simps [of H _ n] Let_def)
  next
    case True
    define k where "k = subtrees_split n"
    have k: "0 < k" "k < n" using subtrees_split_bounds [of n] True by (simp_all add: k_def)
    with "1.prems" have "\<not> i < k" "\<not> j < k" by auto
    moreover from this "1.IH"(2) [of k "j - k"] True "1.prems" k
    have "subtree_root_from_aunts H (i - k) (n - k) leaf (butlast aunts) = subtree_root_from_aunts H (j - k) (n - k) leaf (butlast aunts)"
      by (auto simp: k_def)
    ultimately show ?thesis using True
      by (simp add: subtree_root_from_aunts.simps [of H _ n] Let_def flip: k_def)
  qed
qed

text \<open>C39. What the proofs do not establish: a proof for the last leaf also verifies with every larger
  index, although such an index is out of range; and a row proof that verifies also verifies with its
  first and last row shifted by any amount, since the positions of the inner proofs are not compared
  with them. A row proof that claims the rows 0 to 65535 overflows the counter of rows.\<close>

theorem proof_positions_unchecked:
  assumes "merkle_proof_verify H m leaf root = Inr ()" "mp_total m \<le> Suc (mp_index m)"
    and "row_proof_verify H p r = Inr ()"
    and "length (rp_row_roots q) = length (rp_proofs q)" "rp_start_row q = 0" "rp_end_row q = 65535"
  shows "merkle_proof_verify H (m\<lparr>mp_index := mp_index m + k\<rparr>) leaf root = Inr () \<and>
    row_proof_verify H (p\<lparr>rp_start_row := s, rp_end_row := s + (rp_end_row p - rp_start_row p)\<rparr>) r = Inr () \<and>
    panics (row_proof_verify H q r)"
proof (intro conjI)
  show "merkle_proof_verify H (m\<lparr>mp_index := mp_index m + k\<rparr>) leaf root = Inr ()"
    using assms(1) subtree_root_index_saturates [of "mp_total m" "mp_index m" "mp_index m + k" H "mh_leaf_hash H leaf" "mp_aunts m"] assms(2)
    by (simp add: merkle_proof_verify_def Let_def split: if_splits)
  show "row_proof_verify H (p\<lparr>rp_start_row := s, rp_end_row := s + (rp_end_row p - rp_start_row p)\<rparr>) r = Inr ()"
    using assms(3) by (cases r) (simp_all add: row_proof_verify_def split: if_splits)
  show "panics (row_proof_verify H q r)" using assms(4-6) by (simp add: row_proof_verify_def)
qed

section \<open>Concrete proofs\<close>

text \<open>A hasher that keeps its arguments.\<close>

definition toy_hasher :: merkle_hasher where
  "toy_hasher = \<lparr>mh_empty_hash = [], mh_leaf_hash = \<lambda>x. 0 # x, mh_inner_hash = \<lambda>a b. 1 # length a # a @ b\<rparr>"

definition toy_merkle_tm :: tendermint where
  "toy_merkle_tm = \<lparr>tm_header_hash = \<lambda>_. Hash_None, tm_validators_hash = \<lambda>_. Hash_None, tm_merkle_root = tree_root toy_hasher,
     tm_signable_bytes = \<lambda>_ _. [], tm_verify_signature = \<lambda>_ _ _. True, tm_validator_index = Some\<rparr>"

lemma toy_hasher_collision_free: "collision_free toy_hasher"
  by (auto simp: collision_free_def toy_hasher_def inj_def)

theorem merkle_proof_correct_witness:
  "\<exists>p. merkle_proof_new toy_hasher 2 [[5], [6], [7]] = Inr (p, tree_root toy_hasher [[5], [6], [7]]) \<and>
     merkle_proof_verify toy_hasher p [7] (tree_root toy_hasher [[5], [6], [7]]) = Inr () \<and>
     (\<forall>x. merkle_proof_verify toy_hasher p x (tree_root toy_hasher [[5], [6], [7]]) = Inr () \<longrightarrow> x = [7])"
proof -
  define leaves where "leaves = [[5], [6], [7 :: nat]]"
  have i: "2 < length leaves" "leaves ! 2 = [7]" by (simp_all add: leaves_def)
  from merkle_proof_correct [OF i(1), of toy_hasher] toy_hasher_collision_free obtain p where
    p: "merkle_proof_new toy_hasher 2 leaves = Inr (p, tree_root toy_hasher leaves)"
      "merkle_proof_verify toy_hasher p [7] (tree_root toy_hasher leaves) = Inr ()"
      "\<And>q x. mp_total q = length leaves \<Longrightarrow> mp_index q = 2 \<Longrightarrow>
        merkle_proof_verify toy_hasher q x (tree_root toy_hasher leaves) = Inr () \<Longrightarrow> x = [7]"
    unfolding i(2) by blast
  moreover from p(1) have "mp_total p = length leaves" "mp_index p = 2"
    by (auto simp: merkle_proof_new_eq [OF i(1)])
  ultimately show ?thesis unfolding leaves_def by blast
qed

theorem row_proof_complete_witness:
  "\<exists>p. dah_row_proof toy_hasher \<lparr>dah_row_roots = [[5], [6]], dah_column_roots = [[7], [8]]\<rparr> 0 1 = Inr p \<and>
     row_proof_verify toy_hasher p (dah_hash toy_merkle_tm \<lparr>dah_row_roots = [[5], [6]], dah_column_roots = [[7], [8]]\<rparr>) = Inr ()"
  using row_proof_complete [of toy_merkle_tm toy_hasher 0 1 "\<lparr>dah_row_roots = [[5], [6]], dah_column_roots = [[7], [8]]\<rparr>"]
  by (auto simp: merkle_agrees_def toy_merkle_tm_def)

definition toy_leaf_proof :: merkle_proof where
  "toy_leaf_proof = \<lparr>mp_index = 0, mp_total = 1, mp_leaf_hash = [0, 7], mp_aunts = []\<rparr>"

theorem proof_positions_unchecked_witness:
  "merkle_proof_verify toy_hasher (toy_leaf_proof\<lparr>mp_index := 9\<rparr>) [7] [0, 7] = Inr () \<and>
   row_proof_verify toy_hasher \<lparr>rp_row_roots = [[7]], rp_proofs = [toy_leaf_proof], rp_start_row = 3, rp_end_row = 3\<rparr> (Sha256 [0, 7]) = Inr () \<and>
   panics (row_proof_verify toy_hasher \<lparr>rp_row_roots = [], rp_proofs = [], rp_start_row = 0, rp_end_row = 65535\<rparr> (Sha256 [0, 7]))"
proof -
  have v: "merkle_proof_verify toy_hasher toy_leaf_proof [7] [0, 7] = Inr ()"
    by (simp add: merkle_proof_verify_def toy_leaf_proof_def toy_hasher_def subtree_root_from_aunts.simps)
  then have "row_proof_verify toy_hasher \<lparr>rp_row_roots = [[7]], rp_proofs = [toy_leaf_proof], rp_start_row = 0, rp_end_row = 0\<rparr> (Sha256 [0, 7]) = Inr ()"
    by (simp add: row_proof_verify_def)
  from proof_positions_unchecked [OF v _ this, of "\<lparr>rp_row_roots = [], rp_proofs = [], rp_start_row = 0, rp_end_row = 65535\<rparr>" 9 3]
  show ?thesis by (simp add: toy_leaf_proof_def)
qed

end
