(* ===== verification/Nmt_Proofs.thy ===== *)
theory Nmt_Proofs
  imports Merkle_Proofs Shares
begin

text \<open>
  Namespace proofs of \<open>types/src/nmt/namespace_proof.rs\<close>, the order check of
  \<open>nmt/namespaced_hash.rs\<close>, and the share proofs of \<open>types/src/share/proof.rs\<close>. The proof type belongs
  to \<open>nmt-rs\<close>; the sources build and match its two variants, and call the methods that are the fields
  of the parameter \<open>nmt_api\<close>. A namespaced hash is the array of its 90 bytes.
\<close>

section \<open>The interface of the tree library\<close>

record nmt_range =
  nr_siblings :: "bytes list"
  nr_start :: nat
  nr_end :: nat

datatype ns_proof =
    AbsenceProof nmt_range bool "bytes option"
  | PresenceProof nmt_range bool

record nmt_api =
  na_start_idx :: "ns_proof \<Rightarrow> nat"
  na_end_idx :: "ns_proof \<Rightarrow> nat"
  na_siblings :: "ns_proof \<Rightarrow> bytes list"
  na_is_of_absence :: "ns_proof \<Rightarrow> bool"
  na_is_of_presence :: "ns_proof \<Rightarrow> bool"
  na_convert_to_absence_proof :: "bytes \<Rightarrow> ns_proof \<Rightarrow> ns_proof"
  na_verify_range :: "ns_proof \<Rightarrow> bytes \<Rightarrow> byte list list \<Rightarrow> namespace \<Rightarrow> string + unit"
  na_verify_complete_namespace :: "ns_proof \<Rightarrow> bytes \<Rightarrow> byte list list \<Rightarrow> namespace \<Rightarrow> string + unit"

text \<open>What the library documents of the accessors.\<close>

fun proof_range :: "ns_proof \<Rightarrow> nmt_range" where
  "proof_range (AbsenceProof r _ _) = r"
| "proof_range (PresenceProof r _) = r"

definition nmt_api_ok :: "nmt_api \<Rightarrow> bool" where
  "nmt_api_ok api \<longleftrightarrow>
     (\<forall>p. na_start_idx api p = nr_start (proof_range p) \<and> na_end_idx api p = nr_end (proof_range p) \<and>
          na_siblings api p = nr_siblings (proof_range p)) \<and>
     (\<forall>r i l. na_is_of_absence api (AbsenceProof r i l) \<and> \<not> na_is_of_absence api (PresenceProof r i)) \<and>
     (\<forall>p. na_is_of_presence api p \<longleftrightarrow> \<not> na_is_of_absence api p) \<and>
     (\<forall>r i l. na_convert_to_absence_proof api l (PresenceProof r i) = AbsenceProof r i (Some l))"

section \<open>Namespace proofs\<close>

fun proof_leaf :: "ns_proof \<Rightarrow> bytes option" where
  "proof_leaf (AbsenceProof _ _ leaf) = leaf"
| "proof_leaf (PresenceProof _ _) = None"

fun max_ns_ignored :: "ns_proof \<Rightarrow> bool" where
  "max_ns_ignored (AbsenceProof _ i _) = i"
| "max_ns_ignored (PresenceProof _ i) = i"

definition total_leaves :: "nmt_api \<Rightarrow> ns_proof \<Rightarrow> ('e, nat option) result" where
  "total_leaves api p =
     (if saturating_sub (na_end_idx api p) (na_start_idx api p) = 1
      then if length (na_siblings api p) < 64 then Inr (Some (2 ^ length (na_siblings api p)))
           else Inl (Panic ''attempt to shift left with overflow'')
      else Inr None)"

record raw_proof =
  rpf_start :: int
  rpf_end :: int
  rpf_nodes :: "bytes list"
  rpf_leaf_hash :: bytes
  rpf_is_max_namespace_ignored :: bool

text \<open>The cast \<open>as u32\<close> of an \<open>i64\<close> keeps the low 32 bits.\<close>

definition as_u32 :: "int \<Rightarrow> nat" where
  "as_u32 v = nat (v mod 2 ^ 32)"

definition ns_proof_try_from :: "nmt_api \<Rightarrow> raw_proof \<Rightarrow> (types_error, ns_proof) result" where
  "ns_proof_try_from api v =
     bind_r (collect_r namespaced_hash_from_raw (rpf_nodes v)) (\<lambda>siblings.
     let p = PresenceProof \<lparr>nr_siblings = siblings, nr_start = as_u32 (rpf_start v), nr_end = as_u32 (rpf_end v)\<rparr>
               (rpf_is_max_namespace_ignored v)
     in if rpf_leaf_hash v \<noteq> []
        then bind_r (namespaced_hash_from_raw (rpf_leaf_hash v)) (\<lambda>leaf. Inr (na_convert_to_absence_proof api leaf p))
        else Inr p)"

definition raw_proof_from :: "nmt_api \<Rightarrow> ns_proof \<Rightarrow> raw_proof" where
  "raw_proof_from api p = \<lparr>rpf_start = int (na_start_idx api p), rpf_end = int (na_end_idx api p),
     rpf_nodes = na_siblings api p,
     rpf_leaf_hash = (case proof_leaf p of None \<Rightarrow> [] | Some l \<Rightarrow> l),
     rpf_is_max_namespace_ignored = max_ns_ignored p\<rparr>"

record raw_nmt_proof =
  rnp_start :: int
  rnp_end :: int
  rnp_nodes :: "bytes list"
  rnp_leaf_hash :: bytes

definition ns_proof_try_from_nmt :: "nmt_api \<Rightarrow> raw_nmt_proof \<Rightarrow> (types_error, ns_proof) result" where
  "ns_proof_try_from_nmt api v = ns_proof_try_from api
     \<lparr>rpf_start = rnp_start v, rpf_end = rnp_end v, rpf_nodes = rnp_nodes v, rpf_leaf_hash = rnp_leaf_hash v,
      rpf_is_max_namespace_ignored = True\<rparr>"

text \<open>The cast \<open>as i32\<close> of an \<open>i64\<close>.\<close>

definition as_i32 :: "int \<Rightarrow> int" where
  "as_i32 v = (v + 2 ^ 31) mod 2 ^ 32 - 2 ^ 31"

definition raw_nmt_proof_from :: "nmt_api \<Rightarrow> ns_proof \<Rightarrow> raw_nmt_proof" where
  "raw_nmt_proof_from api p =
     (let r = raw_proof_from api p
      in \<lparr>rnp_start = as_i32 (rpf_start r), rnp_end = as_i32 (rpf_end r), rnp_nodes = rpf_nodes r, rnp_leaf_hash = rpf_leaf_hash r\<rparr>)"

definition validate_namespace_order :: "byte list \<Rightarrow> (types_error, unit) result" where
  "validate_namespace_order h =
     (if take NS_SIZE h > take NS_SIZE (drop NS_SIZE h) then Inl (Err InvalidNmtNodeOrder) else Inr ())"

section \<open>Share proofs\<close>

record share_proof =
  sp_data :: "byte list list"
  sp_namespace_id :: namespace
  sp_share_proofs :: "ns_proof list"
  sp_row_proof :: row_proof

definition u32_max :: nat where
  "u32_max = 4294967295"

definition shares_needed_step :: "nmt_api \<Rightarrow> ns_proof \<Rightarrow> nat \<Rightarrow> (types_error, nat) result" where
  "shares_needed_step api p shares_needed =
     (if na_is_of_absence api p then bail_verification ''only presence proofs allowed''
      else if na_end_idx api p \<le> na_start_idx api p then bail_verification ''proof without data''
      else if u32_max < shares_needed + (na_end_idx api p - na_start_idx api p)
      then Inl (Panic ''attempt to add with overflow'')
      else Inr (shares_needed + (na_end_idx api p - na_start_idx api p)))"

definition verify_row_shares ::
  "nmt_api \<Rightarrow> namespace \<Rightarrow> ns_proof \<times> bytes \<Rightarrow> byte list list \<Rightarrow> (types_error, byte list list) result" where
  "verify_row_shares api ns pr data = (case pr of (p, row) \<Rightarrow>
     (let amount = na_end_idx api p - na_start_idx api p
      in if length data < amount then Inl (Panic ''range end index out of range'')
         else case na_verify_range api p row (take amount data) ns of
           Inl e \<Rightarrow> Inl (Err (RangeProofError e))
         | Inr _ \<Rightarrow> Inr (drop amount data)))"

definition share_proof_verify :: "merkle_hasher \<Rightarrow> nmt_api \<Rightarrow> share_proof \<Rightarrow> hash \<Rightarrow> (types_error, unit) result" where
  "share_proof_verify H api p root =
     (let row_roots = rp_row_roots (sp_row_proof p)
      in if length (sp_share_proofs p) \<noteq> length row_roots
         then bail_verification ''share proofs length ({}) != row roots length ({})''
         else bind_r (fold_r (shares_needed_step api) (sp_share_proofs p) 0) (\<lambda>shares_needed.
              if shares_needed \<noteq> length (sp_data p)
              then bail_verification ''shares needed ({}) != proof's data length ({})''
              else bind_r (row_proof_verify H (sp_row_proof p) root) (\<lambda>_.
                   bind_r (fold_r (verify_row_shares api (sp_namespace_id p)) (zip (sp_share_proofs p) row_roots) (sp_data p))
                     (\<lambda>_. Inr ()))))"

record raw_share_proof =
  rsp_data :: "byte list list"
  rsp_namespace_id :: "byte list"
  rsp_namespace_version :: nat
  rsp_share_proofs :: "raw_nmt_proof list"
  rsp_row_proof :: "raw_row_proof option"

definition share_proof_try_from :: "nmt_api \<Rightarrow> raw_share_proof \<Rightarrow> (types_error, share_proof) result" where
  "share_proof_try_from api v =
     (if \<exists>d \<in> set (rsp_data v). length d \<noteq> SHARE_SIZE then bail_validation ''invalid share size''
      else if 255 < rsp_namespace_version v then bail_validation ''namespace version must be single byte''
      else bind_r (ns_new (word_of_nat (rsp_namespace_version v)) (rsp_namespace_id v)) (\<lambda>namespace_id.
           bind_r (collect_r (ns_proof_try_from_nmt api) (rsp_share_proofs v)) (\<lambda>share_proofs.
           case rsp_row_proof v of
             None \<Rightarrow> bail_validation ''row proof missing''
           | Some r \<Rightarrow> bind_r (row_proof_try_from r) (\<lambda>row_proof.
               Inr \<lparr>sp_data = rsp_data v, sp_namespace_id = namespace_id, sp_share_proofs = share_proofs, sp_row_proof = row_proof\<rparr>))))"

definition raw_share_proof_from :: "nmt_api \<Rightarrow> share_proof \<Rightarrow> raw_share_proof" where
  "raw_share_proof_from api p = \<lparr>rsp_data = sp_data p, rsp_namespace_id = ns_id (sp_namespace_id p),
     rsp_namespace_version = unat (ns_version (sp_namespace_id p)),
     rsp_share_proofs = map (raw_nmt_proof_from api) (sp_share_proofs p),
     rsp_row_proof = Some (raw_row_proof_from (sp_row_proof p))\<rparr>"

section \<open>Conversions\<close>

definition ns_proof_ok :: "ns_proof \<Rightarrow> bool" where
  "ns_proof_ok p \<longleftrightarrow> nr_start (proof_range p) < 2 ^ 32 \<and> nr_end (proof_range p) < 2 ^ 32 \<and>
     (\<forall>h \<in> set (nr_siblings (proof_range p)). length h = 90) \<and>
     (case p of AbsenceProof _ _ l \<Rightarrow> (\<exists>h. l = Some h \<and> length h = 90) | PresenceProof _ _ \<Rightarrow> True)"

lemma as_u32_int [simp]: "n < 2 ^ 32 \<Longrightarrow> as_u32 (int n) = n"
  by (simp add: as_u32_def)

text \<open>A proof survives the conversion; so does one whose indices are cast to \<open>i32\<close> and back, since both
  casts keep the low bits.\<close>

lemma as_u32_as_i32 [simp]: "as_u32 (as_i32 v) = as_u32 v"
  by (simp add: as_u32_def as_i32_def mod_simps)

lemma namespaced_hash_collect: "\<forall>h \<in> set hs. length h = 90 \<Longrightarrow> collect_r namespaced_hash_from_raw hs = Inr hs"
  using collect_r_map [of hs namespaced_hash_from_raw "\<lambda>x. x"]
  by (simp add: namespaced_hash_from_raw_def NAMESPACED_HASH_SIZE_def ns_sizes)

lemma ns_proof_roundtrip:
  assumes "nmt_api_ok api" "ns_proof_ok p"
  shows "ns_proof_try_from api (raw_proof_from api p) = Inr p"
    "max_ns_ignored p \<Longrightarrow> ns_proof_try_from_nmt api (raw_nmt_proof_from api p) = Inr p"
proof -
  have api: "\<And>q. na_start_idx api q = nr_start (proof_range q)" "\<And>q. na_end_idx api q = nr_end (proof_range q)"
    "\<And>q. na_siblings api q = nr_siblings (proof_range q)"
    "\<And>r i l. na_convert_to_absence_proof api l (PresenceProof r i) = AbsenceProof r i (Some l)"
    using assms(1) unfolding nmt_api_ok_def by auto
  have s: "collect_r namespaced_hash_from_raw (nr_siblings (proof_range p)) = Inr (nr_siblings (proof_range p))"
    using assms(2) by (intro namespaced_hash_collect) (simp add: ns_proof_ok_def)
  have l: "namespaced_hash_from_raw h = Inr h" if "length h = 90" for h
    using that by (simp add: namespaced_hash_from_raw_def NAMESPACED_HASH_SIZE_def ns_sizes)
  show "ns_proof_try_from api (raw_proof_from api p) = Inr p"
    using assms(2) s l by (cases p) (auto simp: ns_proof_try_from_def raw_proof_from_def api ns_proof_ok_def Let_def)
  show "ns_proof_try_from_nmt api (raw_nmt_proof_from api p) = Inr p" if "max_ns_ignored p"
    using assms(2) s l that
    by (cases p) (auto simp: ns_proof_try_from_nmt_def ns_proof_try_from_def raw_nmt_proof_from_def raw_proof_from_def api ns_proof_ok_def Let_def)
qed

section \<open>What a share proof checks\<close>

definition amount :: "nmt_api \<Rightarrow> ns_proof \<Rightarrow> nat" where
  "amount api p = na_end_idx api p - na_start_idx api p"

lemma shares_needed_fold:
  "fold_r (shares_needed_step api) ps n = Inr m \<longleftrightarrow>
     (\<forall>p \<in> set ps. \<not> na_is_of_absence api p \<and> na_start_idx api p < na_end_idx api p) \<and>
     m = n + sum_list (map (amount api) ps) \<and> (ps \<noteq> [] \<longrightarrow> m \<le> u32_max)"
proof (induction ps arbitrary: n)
  case (Cons p ps)
  have step: "shares_needed_step api p n = Inr k \<longleftrightarrow> \<not> na_is_of_absence api p \<and> na_start_idx api p < na_end_idx api p \<and>
      k = n + amount api p \<and> n + amount api p \<le> u32_max" for k
    by (auto simp: shares_needed_step_def amount_def)
  have "(n + amount api p \<le> u32_max \<and> (ps \<noteq> [] \<longrightarrow> n + amount api p + sum_list (map (amount api) ps) \<le> u32_max)) \<longleftrightarrow>
    n + amount api p + sum_list (map (amount api) ps) \<le> u32_max"
    by (cases "ps = []") auto
  then show ?case by (auto simp: bind_r_Inr_iff step Cons.IH add.assoc)
qed auto

text \<open>The shares of the rows are consecutive slices of the data.\<close>

fun rows_verified :: "nmt_api \<Rightarrow> namespace \<Rightarrow> (ns_proof \<times> bytes) list \<Rightarrow> byte list list \<Rightarrow> bool" where
  "rows_verified api ns [] data \<longleftrightarrow> True"
| "rows_verified api ns ((p, row) # prs) data \<longleftrightarrow>
     na_verify_range api p row (take (amount api p) data) ns = Inr () \<and> rows_verified api ns prs (drop (amount api p) data)"

lemma verify_rows_fold:
  "sum_list (map (\<lambda>x. amount api (fst x)) prs) \<le> length data \<Longrightarrow>
   (\<exists>d. fold_r (verify_row_shares api ns) prs data = Inr d) \<longleftrightarrow> rows_verified api ns prs data"
proof (induction prs arbitrary: data)
  case (Cons pr prs)
  obtain p row where pr: "pr = (p, row)" by fastforce
  from Cons.prems have "sum_list (map (\<lambda>x. amount api (fst x)) prs) \<le> length (drop (amount api p) data)" "amount api p \<le> length data"
    by (simp_all add: pr)
  with Cons.IH [of "drop (amount api p) data"] show ?case
    by (auto simp: pr verify_row_shares_def Let_def bind_r_Inr_iff simp flip: amount_def split: sum.splits)
qed simp

lemma shares_needed_overflow:
  "list_all (\<lambda>q. \<not> na_is_of_absence api q \<and> na_start_idx api q < na_end_idx api q) ps \<Longrightarrow>
   n \<le> u32_max \<Longrightarrow> u32_max < n + sum_list (map (amount api) ps) \<Longrightarrow>
   panics (fold_r (shares_needed_step api) ps n)"
proof (induction ps arbitrary: n)
  case (Cons p ps)
  show ?case
  proof (cases "u32_max < n + amount api p")
    case True
    with Cons.prems show ?thesis by (simp add: shares_needed_step_def amount_def)
  next
    case False
    with Cons.prems have "shares_needed_step api p n = Inr (n + amount api p)"
      by (auto simp: shares_needed_step_def amount_def)
    with Cons.IH [of "n + amount api p"] Cons.prems False show ?thesis by (simp add: add.assoc)
  qed
qed simp

lemma share_proof_accepts:
  "share_proof_verify H api p root = Inr () \<longleftrightarrow>
     length (sp_share_proofs p) = length (rp_row_roots (sp_row_proof p)) \<and>
     list_all (\<lambda>q. \<not> na_is_of_absence api q \<and> na_start_idx api q < na_end_idx api q) (sp_share_proofs p) \<and>
     sum_list (map (amount api) (sp_share_proofs p)) = length (sp_data p) \<and> length (sp_data p) \<le> u32_max \<and>
     row_proof_verify H (sp_row_proof p) root = Inr () \<and>
     rows_verified api (sp_namespace_id p) (zip (sp_share_proofs p) (rp_row_roots (sp_row_proof p))) (sp_data p)"
proof (cases "length (sp_share_proofs p) = length (rp_row_roots (sp_row_proof p))")
  case True
  let ?ps = "sp_share_proofs p" and ?prs = "zip (sp_share_proofs p) (rp_row_roots (sp_row_proof p))"
  have "map (\<lambda>x. amount api (fst x)) ?prs = map (amount api) (map fst ?prs)" by simp
  also have "\<dots> = map (amount api) ?ps" by (simp only: map_fst_zip [OF True])
  finally have z: "map (\<lambda>x. amount api (fst x)) ?prs = map (amount api) ?ps" .
  have sum: "fold_r (shares_needed_step api) ?ps 0 = Inr (length (sp_data p)) \<longleftrightarrow>
      list_all (\<lambda>q. \<not> na_is_of_absence api q \<and> na_start_idx api q < na_end_idx api q) ?ps \<and>
      sum_list (map (amount api) ?ps) = length (sp_data p) \<and> length (sp_data p) \<le> u32_max"
    unfolding shares_needed_fold by (cases "?ps = []") (auto simp: list_all_iff)
  have "share_proof_verify H api p root = Inr () \<longleftrightarrow>
      fold_r (shares_needed_step api) ?ps 0 = Inr (length (sp_data p)) \<and> row_proof_verify H (sp_row_proof p) root = Inr () \<and>
      (\<exists>d. fold_r (verify_row_shares api (sp_namespace_id p)) ?prs (sp_data p) = Inr d)"
    using True by (auto simp: share_proof_verify_def Let_def bind_r_Inr_iff split: if_splits)
  moreover have "sum_list (map (\<lambda>x. amount api (fst x)) ?prs) \<le> length (sp_data p)" if "sum_list (map (amount api) ?ps) = length (sp_data p)"
    unfolding z using that by simp
  ultimately show ?thesis unfolding sum using True verify_rows_fold by blast
qed (simp add: share_proof_verify_def Let_def)

text \<open>C21. Share proofs: \<open>verify\<close> accepts exactly when there is one presence proof with data for each row
  root, the proofs cover the given shares without a gap or a rest, the row proof verifies against the
  root, and each proof verifies its own consecutive slice of the shares against its row root. When the
  numbers of shares that the proofs claim add up to more than \<open>u32::MAX\<close>, the sum overflows and the
  verification panics instead of failing.\<close>

theorem share_proof_exact:
  "(share_proof_verify H api p root = Inr () \<longleftrightarrow>
     length (sp_share_proofs p) = length (rp_row_roots (sp_row_proof p)) \<and>
     list_all (\<lambda>q. \<not> na_is_of_absence api q \<and> na_start_idx api q < na_end_idx api q) (sp_share_proofs p) \<and>
     sum_list (map (amount api) (sp_share_proofs p)) = length (sp_data p) \<and> length (sp_data p) \<le> u32_max \<and>
     row_proof_verify H (sp_row_proof p) root = Inr () \<and>
     rows_verified api (sp_namespace_id p) (zip (sp_share_proofs p) (rp_row_roots (sp_row_proof p))) (sp_data p)) \<and>
   (length (sp_share_proofs p) = length (rp_row_roots (sp_row_proof p)) \<and>
    list_all (\<lambda>q. \<not> na_is_of_absence api q \<and> na_start_idx api q < na_end_idx api q) (sp_share_proofs p) \<and>
    u32_max < sum_list (map (amount api) (sp_share_proofs p)) \<longrightarrow> panics (share_proof_verify H api p root))"
proof (intro conjI impI share_proof_accepts)
  assume "length (sp_share_proofs p) = length (rp_row_roots (sp_row_proof p)) \<and>
    list_all (\<lambda>q. \<not> na_is_of_absence api q \<and> na_start_idx api q < na_end_idx api q) (sp_share_proofs p) \<and>
    u32_max < sum_list (map (amount api) (sp_share_proofs p))"
  with shares_needed_overflow [of api "sp_share_proofs p" 0] show "panics (share_proof_verify H api p root)"
    by (simp add: share_proof_verify_def panics_bind)
qed

definition toy_api :: nmt_api where
  "toy_api = \<lparr>na_start_idx = \<lambda>p. nr_start (proof_range p), na_end_idx = \<lambda>p. nr_end (proof_range p),
     na_siblings = \<lambda>p. nr_siblings (proof_range p),
     na_is_of_absence = \<lambda>p. case p of AbsenceProof _ _ _ \<Rightarrow> True | PresenceProof _ _ \<Rightarrow> False,
     na_is_of_presence = \<lambda>p. case p of AbsenceProof _ _ _ \<Rightarrow> False | PresenceProof _ _ \<Rightarrow> True,
     na_convert_to_absence_proof = \<lambda>l p. AbsenceProof (proof_range p) (max_ns_ignored p) (Some l),
     na_verify_range = \<lambda>_ _ _ _. Inr (), na_verify_complete_namespace = \<lambda>_ _ _ _. Inr ()\<rparr>"

lemma toy_api_ok: "nmt_api_ok toy_api"
  by (simp add: nmt_api_ok_def toy_api_def split: ns_proof.split)

definition toy_claim :: "nat \<Rightarrow> share_proof" where
  "toy_claim n = \<lparr>sp_data = [replicate 512 0], sp_namespace_id = TAIL_PADDING,
     sp_share_proofs = [PresenceProof \<lparr>nr_siblings = [], nr_start = 0, nr_end = n\<rparr> True],
     sp_row_proof = \<lparr>rp_row_roots = [[7]], rp_proofs = [toy_leaf_proof], rp_start_row = 0, rp_end_row = 0\<rparr>\<rparr>"

theorem share_proof_exact_witness:
  "share_proof_verify toy_hasher toy_api (toy_claim 1) (Sha256 [0, 7]) = Inr () \<and>
   panics (share_proof_verify toy_hasher toy_api (toy_claim (2 ^ 32)) (Sha256 [0, 7]))"
proof -
  have "row_proof_verify toy_hasher (sp_row_proof (toy_claim 1)) (Sha256 [0, 7]) = Inr ()"
    by (simp add: toy_claim_def row_proof_verify_def merkle_proof_verify_def toy_leaf_proof_def toy_hasher_def subtree_root_from_aunts.simps)
  with share_proof_exact [of toy_hasher toy_api "toy_claim 1" "Sha256 [0, 7]"] share_proof_exact [of toy_hasher toy_api "toy_claim (2 ^ 32)" "Sha256 [0, 7]"]
  show ?thesis by (simp add: toy_claim_def toy_api_def amount_def u32_max_def)
qed

end
