(* ===== verification/Square_Data.thy ===== *)
theory Square_Data
  imports Eds Nmt_Proofs
begin

text \<open>
  What is cut out of a square and sent to others: rows (\<open>types/src/row.rs\<close>), samples (\<open>sample.rs\<close>), the
  data of a namespace in a row and in a block (\<open>row_namespace_data.rs\<close>, \<open>namespace_data.rs\<close> and
  \<open>get_namespace_data\<close> of \<open>eds.rs\<close>), with their verification against a data availability header, the
  header of a square (\<open>data_availability_header.rs\<close>), the extension of an original square
  (\<open>from_ods\<close>), and the fraud proofs of \<open>byzantine.rs\<close>. Trees, namespace proofs and the Reed-Solomon
  codec are the parameter \<open>square_lib\<close>.
\<close>

record 't square_lib =
  sq_nmt :: "'t nmt_lib"
  sq_api :: nmt_api
  sq_contains :: "bytes \<Rightarrow> namespace \<Rightarrow> bool"
  sq_get_namespace_proof :: "'t \<Rightarrow> namespace \<Rightarrow> ns_proof"
  sq_build_range_proof :: "'t \<Rightarrow> nat \<Rightarrow> nat \<Rightarrow> nmt_range"
  sq_encode :: "byte list list \<Rightarrow> nat \<Rightarrow> string + byte list list"
  sq_reconstruct :: "byte list list \<Rightarrow> nat \<Rightarrow> string + byte list list"

text \<open>The roots of a data availability header are the bytes of the tree's root.\<close>

definition root_bytes :: "'t square_lib \<Rightarrow> 't \<Rightarrow> bytes" where
  "root_bytes L tree = map unat (nl_root (sq_nmt L) tree)"

section \<open>The header of a square\<close>

definition dah_from_eds_step ::
  "'t square_lib \<Rightarrow> eds \<Rightarrow> nat \<Rightarrow> data_availability_header \<Rightarrow> ('e, data_availability_header) result" where
  "dah_from_eds_step L e i dah =
     bind_r (expect_r ''EDS validated on construction'' (eds_row_nmt (sq_nmt L) e i)) (\<lambda>row.
     bind_r (expect_r ''EDS validated on construction'' (eds_column_nmt (sq_nmt L) e i)) (\<lambda>column.
     Inr (dah\<lparr>dah_row_roots := dah_row_roots dah @ [root_bytes L row],
              dah_column_roots := dah_column_roots dah @ [root_bytes L column]\<rparr>)))"

definition dah_from_eds :: "'t square_lib \<Rightarrow> eds \<Rightarrow> ('e, data_availability_header) result" where
  "dah_from_eds L e =
     fold_r (dah_from_eds_step L e) [0..<eds_square_width e] \<lparr>dah_row_roots = [], dah_column_roots = []\<rparr>"

definition dah_row_contains ::
  "'t square_lib \<Rightarrow> data_availability_header \<Rightarrow> nat \<Rightarrow> namespace \<Rightarrow> (types_error, bool) result" where
  "dah_row_contains L dah row ns =
     bind_r (ok_or (IndexOutOfRange row (length (dah_row_roots dah))) (dah_row_root dah row)) (\<lambda>root.
     Inr (sq_contains L root ns))"

definition dah_column_contains ::
  "'t square_lib \<Rightarrow> data_availability_header \<Rightarrow> nat \<Rightarrow> namespace \<Rightarrow> (types_error, bool) result" where
  "dah_column_contains L dah column ns =
     bind_r (ok_or (IndexOutOfRange column (length (dah_column_roots dah))) (dah_column_root dah column)) (\<lambda>root.
     Inr (sq_contains L root ns))"

section \<open>Extending an original square\<close>

definition leopard :: "string + 'a \<Rightarrow> (types_error, 'a) result" where
  "leopard r = (case r of Inl e \<Rightarrow> Inl (Err (LeopardCodec e)) | Inr x \<Rightarrow> Inr x)"

definition zero_share :: "byte list" where
  "zero_share = replicate SHARE_SIZE 0"

fun interleave :: "nat \<Rightarrow> nat \<Rightarrow> byte list list \<Rightarrow> byte list list" where
  "interleave 0 w ods = []"
| "interleave (Suc n) w ods = take w ods @ replicate w zero_share @ interleave n w (drop w ods)"

definition encode_column ::
  "'t square_lib \<Rightarrow> nat \<Rightarrow> nat \<Rightarrow> byte list list list \<Rightarrow> (types_error, byte list list list) result" where
  "encode_column L ods_width col rows =
     bind_r (leopard (sq_encode L (map (\<lambda>r. r ! col) rows) ods_width)) (\<lambda>column.
     Inr (map2 (\<lambda>r x. r[col := x]) rows column))"

text \<open>\<open>chunks_mut(eds_width)\<close> of the flat vector are its rows, and it panics for a width
  of zero; every \<open>eds_width\<close>-th element from \<open>col\<close> on is a column.\<close>

definition eds_from_ods :: "'t square_lib \<Rightarrow> byte list list \<Rightarrow> app_version \<Rightarrow> (types_error, eds) result" where
  "eds_from_ods L ods_shares app_version =
     (let ods_width = isqrt (length ods_shares)
      in if ods_width * ods_width \<noteq> length ods_shares then Inl (Err EdsInvalidDimentions)
         else if ods_width * 2 = 0 then Inl (Panic ''chunk size must be non-zero'')
         else let eds_width = ods_width * 2;
                  upper = interleave ods_width ods_width ods_shares;
                  rows = chunks eds_width (upper @ replicate (eds_width * eds_width - length upper) zero_share)
              in bind_r (collect_r (\<lambda>row. leopard (sq_encode L row ods_width)) (take ods_width rows)) (\<lambda>second.
                 bind_r (fold_r (encode_column L ods_width) [0..<ods_width] (second @ drop ods_width rows)) (\<lambda>third.
                 bind_r (collect_r (\<lambda>row. leopard (sq_encode L row ods_width)) (drop ods_width third)) (\<lambda>fourth.
                 eds_new (concat (take ods_width third @ fourth)) ''Leopard'' app_version))))"

definition eds_empty :: "'t square_lib \<Rightarrow> ('e, eds) result" where
  "eds_empty L =
     bind_r (expect_r ''called Result::unwrap() on an Err value'' (info_new 0 True)) (\<lambda>info.
     expect_r ''invalid EDS''
       (eds_from_ods L [as_bytes TAIL_PADDING @ [info_as_u8 info] @ replicate (SHARE_SIZE - NS_SIZE - 1) 0] V1))"

section \<open>Rows\<close>

definition row_verify :: "'t square_lib \<Rightarrow> share list \<Rightarrow> row_id \<Rightarrow> data_availability_header \<Rightarrow> (types_error, unit) result" where
  "row_verify L shares i dah =
     bind_r (fold_r (push_own (sq_nmt L)) shares (nl_with_hasher (sq_nmt L) True)) (\<lambda>tree.
     case dah_row_root dah (rid_index i) of
       None \<Rightarrow> Inl (Err (EdsIndexOutOfRange (rid_index i) 0))
     | Some root \<Rightarrow>
         if drop (2 * NS_SIZE) (root_bytes L tree) \<noteq> drop (2 * NS_SIZE) root then Inl (Err RootMismatch) else Inr ())"

datatype half_side = LeftSide | RightSide

record raw_row =
  rr_shares_half :: "byte list list"
  rr_half_side :: half_side

definition row_from_raw :: "'t square_lib \<Rightarrow> row_id \<Rightarrow> raw_row \<Rightarrow> (types_error, share list) result" where
  "row_from_raw L i row =
     (let data_shares = length (rr_shares_half row)
      in bind_r (case rr_half_side row of
           LeftSide \<Rightarrow> leopard (sq_encode L (rr_shares_half row @ replicate data_shares zero_share) data_shares)
         | RightSide \<Rightarrow> leopard (sq_reconstruct L (replicate data_shares [] @ rr_shares_half row) data_shares)) (\<lambda>shares.
         collect_r (\<lambda>(col_index, shr).
            if rid_index i < data_shares \<and> col_index < data_shares then share_from_raw shr else share_parity shr)
           (zip [0..<length shares] shares)))"

definition raw_row_from :: "share list \<Rightarrow> raw_row" where
  "raw_row_from shares = \<lparr>rr_shares_half = take (length shares div 2) (map share_to_vec shares), rr_half_side = LeftSide\<rparr>"

section \<open>Samples\<close>

record sample =
  sa_proof_type :: axis_type
  sa_share :: share
  sa_proof :: ns_proof

definition sample_new :: "'t square_lib \<Rightarrow> nat \<Rightarrow> nat \<Rightarrow> axis_type \<Rightarrow> eds \<Rightarrow> (types_error, sample) result" where
  "sample_new L row_index column_index proof_type e =
     bind_r (eds_share e row_index column_index) (\<lambda>s.
     bind_r (case proof_type of
         Row \<Rightarrow> bind_r (eds_row_nmt (sq_nmt L) e row_index) (\<lambda>t. Inr (sq_build_range_proof L t column_index (column_index + 1)))
       | Col \<Rightarrow> bind_r (eds_column_nmt (sq_nmt L) e column_index) (\<lambda>t. Inr (sq_build_range_proof L t row_index (row_index + 1))))
     (\<lambda>range_proof. Inr \<lparr>sa_proof_type = proof_type, sa_share = s, sa_proof = PresenceProof range_proof True\<rparr>))"

definition range_result :: "string + unit \<Rightarrow> (types_error, unit) result" where
  "range_result r = (case r of Inl e \<Rightarrow> Inl (Err (RangeProofError e)) | Inr _ \<Rightarrow> Inr ())"

definition sample_verify :: "'t square_lib \<Rightarrow> sample \<Rightarrow> sample_id \<Rightarrow> data_availability_header \<Rightarrow> (types_error, unit) result" where
  "sample_verify L s i dah =
     bind_r (case sa_proof_type s of
         Row \<Rightarrow> ok_or (EdsIndexOutOfRange (sample_id_row_index i) 0) (dah_row_root dah (sample_id_row_index i))
       | Col \<Rightarrow> ok_or (EdsIndexOutOfRange 0 (sid_column_index i)) (dah_column_root dah (sid_column_index i))) (\<lambda>root.
     range_result (na_verify_range (sq_api L) (sa_proof s) root [sh_data (sa_share s)] (share_namespace (sa_share s))))"

record raw_sample =
  rsa_share :: "byte list option"
  rsa_proof :: "raw_proof option"
  rsa_proof_type :: int

definition axis_try_from :: "int \<Rightarrow> (types_error, axis_type) result" where
  "axis_try_from v = (if v = 0 then Inr Row else if v = 1 then Inr Col else Inl (Err (InvalidAxis v)))"

fun axis_as_i32 :: "axis_type \<Rightarrow> int" where
  "axis_as_i32 Row = 0"
| "axis_as_i32 Col = 1"

definition sample_from_raw :: "'t square_lib \<Rightarrow> sample_id \<Rightarrow> raw_sample \<Rightarrow> (types_error, sample) result" where
  "sample_from_raw L i v =
     bind_r (ok_or MissingProof (rsa_proof v)) (\<lambda>raw.
     bind_r (ns_proof_try_from (sq_api L) raw) (\<lambda>p.
     bind_r (axis_try_from (rsa_proof_type v)) (\<lambda>proof_type.
     if na_is_of_absence (sq_api L) p then Inl (Err WrongProofType)
     else case rsa_share v of
       None \<Rightarrow> bail_validation ''missing share''
     | Some data \<Rightarrow>
         bind_r (total_leaves (sq_api L) p) (\<lambda>leaves. case leaves of
           None \<Rightarrow> bail_validation ''proof must be for single leaf''
         | Some square_size \<Rightarrow>
             bind_r (if sample_id_row_index i < square_size div 2 \<and> sid_column_index i < square_size div 2
                     then share_from_raw data else share_parity data) (\<lambda>s.
             Inr \<lparr>sa_proof_type = proof_type, sa_share = s, sa_proof = p\<rparr>)))))"

definition raw_sample_from :: "'t square_lib \<Rightarrow> sample \<Rightarrow> raw_sample" where
  "raw_sample_from L s = \<lparr>rsa_share = Some (share_to_vec (sa_share s)), rsa_proof = Some (raw_proof_from (sq_api L) (sa_proof s)),
     rsa_proof_type = axis_as_i32 (sa_proof_type s)\<rparr>"

section \<open>Data of a namespace\<close>

record row_namespace_data =
  rnd_proof :: ns_proof
  rnd_shares :: "share list"

definition row_namespace_data_verify ::
  "'t square_lib \<Rightarrow> row_namespace_data \<Rightarrow> row_namespace_data_id \<Rightarrow> data_availability_header \<Rightarrow> (types_error, unit) result" where
  "row_namespace_data_verify L d i dah =
     (if (rnd_shares d = [] \<and> na_is_of_presence (sq_api L) (rnd_proof d)) \<or>
         (rnd_shares d \<noteq> [] \<and> na_is_of_absence (sq_api L) (rnd_proof d))
      then Inl (Err WrongProofType)
      else let row = rid_index (rnid_row_id i)
           in bind_r (ok_or (EdsIndexOutOfRange row 0) (dah_row_root dah row)) (\<lambda>root.
              range_result (na_verify_complete_namespace (sq_api L) (rnd_proof d) root (map sh_data (rnd_shares d)) (rnid_namespace i))))"

record raw_row_namespace_data =
  rrnd_shares :: "byte list list"
  rrnd_proof :: "raw_proof option"

definition row_namespace_data_from_raw ::
  "'t square_lib \<Rightarrow> row_namespace_data_id \<Rightarrow> raw_row_namespace_data \<Rightarrow> (types_error, row_namespace_data) result" where
  "row_namespace_data_from_raw L i v =
     bind_r (ok_or MissingProof (rrnd_proof v)) (\<lambda>raw.
     bind_r (collect_r (\<lambda>shr. if rnid_namespace i \<noteq> PARITY_SHARE then share_from_raw shr else share_parity shr) (rrnd_shares v)) (\<lambda>shares.
     if \<not> list_all (\<lambda>s. share_namespace s = rnid_namespace i) shares
     then bail_validation ''Namespace data must have equal namespaces''
     else bind_r (ns_proof_try_from (sq_api L) raw) (\<lambda>p. Inr \<lparr>rnd_proof = p, rnd_shares = shares\<rparr>)))"

definition raw_row_namespace_data_from :: "'t square_lib \<Rightarrow> row_namespace_data \<Rightarrow> raw_row_namespace_data" where
  "raw_row_namespace_data_from L d = \<lparr>rrnd_shares = map share_to_vec (rnd_shares d),
     rrnd_proof = Some (raw_proof_from (sq_api L) (rnd_proof d))\<rparr>"

definition row_namespace_data_try_from ::
  "'t square_lib \<Rightarrow> raw_row_namespace_data \<Rightarrow> (types_error, row_namespace_data) result" where
  "row_namespace_data_try_from L v =
     bind_r (ok_or MissingProof (rrnd_proof v)) (\<lambda>raw.
     bind_r (ns_proof_try_from (sq_api L) raw) (\<lambda>p.
     bind_r (collect_r share_from_raw (rrnd_shares v)) (\<lambda>shares.
     Inr \<lparr>rnd_proof = p, rnd_shares = shares\<rparr>)))"

text \<open>The search in a row stops at the first larger namespace.\<close>

fun row_shares_of :: "eds \<Rightarrow> namespace \<Rightarrow> nat \<Rightarrow> nat list \<Rightarrow> share list \<Rightarrow> (types_error, share list) result" where
  "row_shares_of e ns row [] shares = Inr shares"
| "row_shares_of e ns row (col # cols) shares =
     bind_r (eds_share e row col) (\<lambda>s.
     if share_namespace s < ns then row_shares_of e ns row cols shares
     else if share_namespace s = ns then row_shares_of e ns row cols (shares @ [s])
     else Inr shares)"

definition namespace_row ::
  "'t square_lib \<Rightarrow> eds \<Rightarrow> namespace \<Rightarrow> data_availability_header \<Rightarrow> nat \<Rightarrow> nat \<Rightarrow>
   (row_namespace_data_id \<times> row_namespace_data) list \<Rightarrow> (types_error, (row_namespace_data_id \<times> row_namespace_data) list) result" where
  "namespace_row L e ns dah height row rows =
     bind_r (dah_row_contains L dah row ns) (\<lambda>c.
     if \<not> c then Inr rows
     else bind_r (row_shares_of e ns row [0..<eds_square_width e] []) (\<lambda>shares.
          bind_r (eds_row_nmt (sq_nmt L) e row) (\<lambda>tree.
          bind_r (row_namespace_data_id_new ns row height) (\<lambda>i.
          Inr (rows @ [(i, \<lparr>rnd_proof = sq_get_namespace_proof L tree ns, rnd_shares = shares\<rparr>)])))))"

definition eds_get_namespace_data ::
  "'t square_lib \<Rightarrow> eds \<Rightarrow> namespace \<Rightarrow> data_availability_header \<Rightarrow> nat \<Rightarrow>
   (types_error, (row_namespace_data_id \<times> row_namespace_data) list) result" where
  "eds_get_namespace_data L e ns dah height =
     fold_r (namespace_row L e ns dah height) [0..<eds_square_width e] []"

record namespace_data_id =
  ndid_eds_id :: eds_id
  ndid_namespace :: namespace

definition NAMESPACE_DATA_ID_SIZE :: nat where
  "NAMESPACE_DATA_ID_SIZE = EDS_ID_SIZE + NS_SIZE"

definition namespace_data_id_new :: "namespace \<Rightarrow> nat \<Rightarrow> (types_error, namespace_data_id) result" where
  "namespace_data_id_new ns block_height =
     bind_r (eds_id_new block_height) (\<lambda>e. Inr \<lparr>ndid_eds_id = e, ndid_namespace = ns\<rparr>)"

definition namespace_data_id_encode :: "namespace_data_id \<Rightarrow> byte list" where
  "namespace_data_id_encode i = eds_id_encode (ndid_eds_id i) @ as_bytes (ndid_namespace i)"

definition namespace_data_id_decode :: "byte list \<Rightarrow> (types_error, namespace_data_id) result" where
  "namespace_data_id_decode buffer =
     (if length buffer \<noteq> NAMESPACE_DATA_ID_SIZE then Inl (Err (InvalidLength (length buffer) NAMESPACE_DATA_ID_SIZE))
      else bind_r (eds_id_decode (take EDS_ID_SIZE buffer)) (\<lambda>e.
           bind_r (ns_from_raw (drop EDS_ID_SIZE buffer)) (\<lambda>n.
           Inr \<lparr>ndid_eds_id = e, ndid_namespace = n\<rparr>)))"

definition row_contains_or_false :: "'t square_lib \<Rightarrow> data_availability_header \<Rightarrow> namespace \<Rightarrow> nat \<Rightarrow> bool" where
  "row_contains_or_false L dah ns row = (case dah_row_contains L dah row ns of Inl _ \<Rightarrow> False | Inr c \<Rightarrow> c)"

definition namespace_data_verify ::
  "'t square_lib \<Rightarrow> row_namespace_data list \<Rightarrow> namespace_data_id \<Rightarrow> data_availability_header \<Rightarrow> (types_error, unit) result" where
  "namespace_data_verify L rows i dah =
     (if 65535 < length rows then Inl (Err NamespaceDataTooLarge)
      else bind_r (dah_square_width dah) (\<lambda>w.
           let row_idxs = filter (row_contains_or_false L dah (ndid_namespace i)) [0..<w]
           in if length row_idxs \<noteq> length rows then bail_verification ''expected {} rows, found {} rows''
              else fold_r (\<lambda>(row, row_index) _.
                     bind_r (row_namespace_data_id_new (ndid_namespace i) row_index (eid_height (ndid_eds_id i))) (\<lambda>ri.
                     row_namespace_data_verify L row ri dah)) (zip rows row_idxs) ()))"

definition namespace_data_from_raw ::
  "'t square_lib \<Rightarrow> namespace_data_id \<Rightarrow> raw_row_namespace_data list \<Rightarrow> (types_error, row_namespace_data list) result" where
  "namespace_data_from_raw L i v =
     (if 65535 < length v then Inl (Err NamespaceDataTooLarge)
      else collect_r (\<lambda>(row_index, raw).
             bind_r (row_namespace_data_id_new (ndid_namespace i) row_index (eid_height (ndid_eds_id i))) (\<lambda>ri.
             row_namespace_data_from_raw L ri raw)) (zip [0..<length v] v))"

end
