(* ===== verification/Square_Properties.thy ===== *)
theory Square_Properties
  imports Square_Data
begin

text \<open>
  Honest data verifies: what is cut out of a valid square passes the checks against the header of that
  square. The documented behaviour of the tree library is \<open>square_lib_ok\<close>.
\<close>

section \<open>The tree library\<close>

definition tree_of :: "'t nmt_lib \<Rightarrow> share list \<Rightarrow> (types_error, 't) result" where
  "tree_of lib ss = fold_r (push_own lib) ss (nl_with_hasher lib True)"

text \<open>A tree accepts leaves whose namespaces do not decrease; the proof it builds for a leaf verifies
  against its root; the proof for a namespace, other than that of the parity shares, shows presence
  exactly when a leaf has it, and verifies for all leaves that have it.\<close>

definition square_lib_ok :: "'t square_lib \<Rightarrow> bool" where
  "square_lib_ok L \<longleftrightarrow> nmt_api_ok (sq_api L) \<and>
     (\<forall>ss. sorted (map share_namespace ss) \<longrightarrow> is_ok (tree_of (sq_nmt L) ss)) \<and>
     (\<forall>ss t i. tree_of (sq_nmt L) ss = Inr t \<and> i < length ss \<longrightarrow>
        na_verify_range (sq_api L) (PresenceProof (sq_build_range_proof L t i (i + 1)) True) (root_bytes L t)
          [sh_data (ss ! i)] (share_namespace (ss ! i)) = Inr ()) \<and>
     (\<forall>ss t n. tree_of (sq_nmt L) ss = Inr t \<and> n \<noteq> PARITY_SHARE \<longrightarrow>
        (na_is_of_presence (sq_api L) (sq_get_namespace_proof L t n) \<longleftrightarrow> n \<in> share_namespace ` set ss) \<and>
        na_verify_complete_namespace (sq_api L) (sq_get_namespace_proof L t n) (root_bytes L t)
          (map sh_data (filter (\<lambda>s. share_namespace s = n) ss)) n = Inr ())"

lemma square_lib_okD:
  assumes "square_lib_ok L"
  shows "nmt_api_ok (sq_api L)"
    "sorted (map share_namespace ss) \<Longrightarrow> \<exists>t. tree_of (sq_nmt L) ss = Inr t"
    "tree_of (sq_nmt L) ss = Inr t \<Longrightarrow> i < length ss \<Longrightarrow>
       na_verify_range (sq_api L) (PresenceProof (sq_build_range_proof L t i (i + 1)) True) (root_bytes L t)
         [sh_data (ss ! i)] (share_namespace (ss ! i)) = Inr ()"
    "tree_of (sq_nmt L) ss = Inr t \<Longrightarrow> n \<noteq> PARITY_SHARE \<Longrightarrow>
       na_is_of_presence (sq_api L) (sq_get_namespace_proof L t n) \<longleftrightarrow> n \<in> share_namespace ` set ss"
    "tree_of (sq_nmt L) ss = Inr t \<Longrightarrow> n \<noteq> PARITY_SHARE \<Longrightarrow>
       na_verify_complete_namespace (sq_api L) (sq_get_namespace_proof L t n) (root_bytes L t)
         (map sh_data (filter (\<lambda>s. share_namespace s = n) ss)) n = Inr ()"
  using assms unfolding square_lib_ok_def is_ok_iff by blast+

section \<open>Cells, rows and columns\<close>

definition axis_shares :: "eds \<Rightarrow> axis_type \<Rightarrow> nat \<Rightarrow> share list" where
  "axis_shares e axis i = map (\<lambda>j. case axis_cell axis i j of (r, c) \<Rightarrow> cell e r c) [0..<eds_square_width e]"

lemma eds_okD:
  assumes "eds_ok app e"
  shows "2 \<le> eds_square_width e" "eds_square_width e \<le> 1024"
    "length (eds_data_square e) = eds_square_width e * eds_square_width e"
    "i < eds_square_width e \<Longrightarrow> sorted (map share_namespace (axis_shares e axis i))"
proof -
  show "2 \<le> eds_square_width e" "length (eds_data_square e) = eds_square_width e * eds_square_width e"
    using assms by (simp_all add: eds_ok_def Let_def)
  show "eds_square_width e \<le> 1024" using assms max_extended_square_width_u16 [of app] by (simp add: eds_ok_def Let_def)
  show "sorted (map share_namespace (axis_shares e axis i))" if "i < eds_square_width e"
    using assms that by (cases axis) (simp_all add: eds_ok_def Let_def axis_shares_def axis_cell_def comp_def)
qed

lemma eds_share_cell:
  assumes "eds_ok app e" "r < eds_square_width e" "c < eds_square_width e"
  shows "eds_share e r c = Inr (cell e r c)"
  using cell_index [OF assms(2,3)] eds_okD(3) [OF assms(1)] by (simp add: eds_share_def cell_def)

lemma fold_r_map_cong:
  "(\<And>x s. x \<in> set xs \<Longrightarrow> f x s = g (h x) s) \<Longrightarrow> fold_r f xs s = fold_r g (map h xs) s"
  by (induction xs arbitrary: s) (simp_all add: bind_r_def split: sum.split)

lemma eds_axis_nmt_tree:
  assumes "eds_ok app e" "i < eds_square_width e"
  shows "eds_axis_nmt lib e axis i = tree_of lib (axis_shares e axis i)"
  unfolding eds_axis_nmt_def tree_of_def axis_shares_def
  using assms by (intro fold_r_map_cong) (cases axis; simp add: axis_cell_def eds_share_cell)

lemma eds_axis_shares:
  assumes "eds_ok app e" "i < eds_square_width e"
  shows "eds_axis e axis i = Inr (axis_shares e axis i)"
  unfolding eds_axis_def collect_r_Inr_iff axis_shares_def list_all2_map2
  using assms by (intro list.rel_refl_strong) (cases axis; simp add: axis_cell_def eds_share_cell)

text \<open>Every row and column of a valid square has a tree.\<close>

lemma axis_tree:
  assumes "square_lib_ok L" "eds_ok app e" "i < eds_square_width e"
  obtains t where "eds_axis_nmt (sq_nmt L) e axis i = Inr t" "tree_of (sq_nmt L) (axis_shares e axis i) = Inr t"
  using square_lib_okD(2) [OF assms(1) eds_okD(4) [OF assms(2,3)]] eds_axis_nmt_tree [OF assms(2,3)] that by metis

definition axis_root :: "'t square_lib \<Rightarrow> eds \<Rightarrow> axis_type \<Rightarrow> nat \<Rightarrow> bytes" where
  "axis_root L e axis i = root_bytes L (projr (tree_of (sq_nmt L) (axis_shares e axis i)))"

lemma dah_from_eds_fold:
  assumes "square_lib_ok L" "eds_ok app e" "\<forall>i \<in> set is. i < eds_square_width e"
  shows "fold_r (dah_from_eds_step L e) is dah = (Inr (dah\<lparr>dah_row_roots := dah_row_roots dah @ map (axis_root L e Row) is,
     dah_column_roots := dah_column_roots dah @ map (axis_root L e Col) is\<rparr>) :: ('e, _) result)"
  using assms(3)
proof (induction "is" arbitrary: dah)
  case (Cons i "is")
  then have i: "i < eds_square_width e" by simp
  obtain t u where "eds_axis_nmt (sq_nmt L) e Row i = Inr t" "tree_of (sq_nmt L) (axis_shares e Row i) = Inr t"
    "eds_axis_nmt (sq_nmt L) e Col i = Inr u" "tree_of (sq_nmt L) (axis_shares e Col i) = Inr u"
    using axis_tree [OF assms(1,2) i] by metis
  then have "dah_from_eds_step L e i dah = (Inr (dah\<lparr>dah_row_roots := dah_row_roots dah @ [axis_root L e Row i],
     dah_column_roots := dah_column_roots dah @ [axis_root L e Col i]\<rparr>) :: ('e, _) result)"
    by (simp add: dah_from_eds_step_def eds_row_nmt_def eds_column_nmt_def axis_root_def)
  with Cons show ?case by simp
qed simp

lemma dah_from_eds_ok:
  assumes "square_lib_ok L" "eds_ok app e"
  shows "dah_from_eds L e = (Inr \<lparr>dah_row_roots = map (axis_root L e Row) [0..<eds_square_width e],
     dah_column_roots = map (axis_root L e Col) [0..<eds_square_width e]\<rparr> :: ('e, _) result)"
  unfolding dah_from_eds_def by (subst dah_from_eds_fold [OF assms]) auto

text \<open>C15. Samples: for every cell of a valid square and either axis, \<open>Sample::new\<close> returns a sample of the
  share in that cell, the header of the square can be computed and is valid for the version, and the
  sample verifies against that header under the identifier of the cell.\<close>

theorem sample_honest:
  assumes "square_lib_ok L" "eds_ok app e" "r < eds_square_width e" "c < eds_square_width e"
    and "sample_id_row_index i = r" "sid_column_index i = c"
  shows "\<exists>s dah. sample_new L r c axis e = Inr s \<and> sa_share s = cell e r c \<and>
    dah_from_eds L e = (Inr dah :: (types_error, _) result) \<and> dah_validate_basic dah app = Inr () \<and>
    sample_verify L s i dah = Inr ()"
proof -
  let ?dah = "\<lparr>dah_row_roots = map (axis_root L e Row) [0..<eds_square_width e],
     dah_column_roots = map (axis_root L e Col) [0..<eds_square_width e]\<rparr>"
  define k where "k = (case axis of Row \<Rightarrow> r | Col \<Rightarrow> c)"
  define j where "j = (case axis of Row \<Rightarrow> c | Col \<Rightarrow> r)"
  have k: "k < eds_square_width e" "j < eds_square_width e" using assms(3,4) by (cases axis; simp add: k_def j_def)+
  obtain t where t: "eds_axis_nmt (sq_nmt L) e axis k = Inr t" "tree_of (sq_nmt L) (axis_shares e axis k) = Inr t"
    by (rule axis_tree [OF assms(1,2) k(1)])
  have j: "axis_shares e axis k ! j = cell e r c" "j < length (axis_shares e axis k)"
    using k by (cases axis; simp add: axis_shares_def k_def j_def axis_cell_def)+
  have new: "sample_new L r c axis e =
      Inr \<lparr>sa_proof_type = axis, sa_share = cell e r c, sa_proof = PresenceProof (sq_build_range_proof L t j (j + 1)) True\<rparr>"
    using t(1) by (cases axis) (simp_all add: sample_new_def eds_share_cell [OF assms(2-4)] eds_row_nmt_def eds_column_nmt_def k_def j_def)
  have "axis_root L e axis k = root_bytes L t" using t(2) by (simp add: axis_root_def)
  with square_lib_okD(3) [OF assms(1) t(2) j(2)] have
    "sample_verify L \<lparr>sa_proof_type = axis, sa_share = cell e r c, sa_proof = PresenceProof (sq_build_range_proof L t j (j + 1)) True\<rparr> i ?dah = Inr ()"
    using assms(3-6) j(1) by (cases axis) (simp_all add: sample_verify_def dah_row_root_def dah_column_root_def range_result_def k_def)
  moreover have "dah_validate_basic ?dah app = Inr ()"
    using assms(2) by (simp add: dah_validate_basic_def eds_ok_def Let_def MIN_EXTENDED_SQUARE_WIDTH_def MIN_SQUARE_SIZE_def)
  ultimately show ?thesis using new dah_from_eds_ok [OF assms(1,2)] by auto
qed

section \<open>Data of a namespace\<close>

lemma row_shares_of_sorted:
  assumes "eds_ok app e" "r < eds_square_width e"
  shows "\<forall>c \<in> set cols. c < eds_square_width e \<Longrightarrow> sorted (map (\<lambda>c. share_namespace (cell e r c)) cols) \<Longrightarrow>
    row_shares_of e ns r cols acc = Inr (acc @ filter (\<lambda>s. share_namespace s = ns) (map (cell e r) cols))"
proof (induction cols arbitrary: acc)
  case (Cons c cols)
  have c: "eds_share e r c = Inr (cell e r c)" using Cons.prems by (intro eds_share_cell [OF assms]) simp
  consider "share_namespace (cell e r c) < ns" | "share_namespace (cell e r c) = ns" | "ns < share_namespace (cell e r c)" by fastforce
  then show ?case
  proof cases
    case 3
    with Cons.prems(2) have "\<forall>d \<in> set (c # cols). share_namespace (cell e r d) \<noteq> ns" by fastforce
    then have "filter (\<lambda>s. share_namespace s = ns) (map (cell e r) (c # cols)) = []" by (auto simp: filter_empty_conv)
    moreover have "share_namespace (cell e r c) \<noteq> ns" "\<not> share_namespace (cell e r c) < ns" using 3 by auto
    ultimately show ?thesis using c by simp
  qed (use Cons c in simp_all)
qed simp

definition ns_entry :: "'t square_lib \<Rightarrow> eds \<Rightarrow> namespace \<Rightarrow> nat \<Rightarrow> nat \<Rightarrow> row_namespace_data_id \<times> row_namespace_data" where
  "ns_entry L e ns height r =
     (\<lparr>rnid_row_id = \<lparr>rid_eds_id = \<lparr>eid_height = height\<rparr>, rid_index = r\<rparr>, rnid_namespace = ns\<rparr>,
      \<lparr>rnd_proof = sq_get_namespace_proof L (projr (tree_of (sq_nmt L) (axis_shares e Row r))) ns,
       rnd_shares = filter (\<lambda>s. share_namespace s = ns) (axis_shares e Row r)\<rparr>)"

definition ns_in_row :: "'t square_lib \<Rightarrow> eds \<Rightarrow> namespace \<Rightarrow> nat \<Rightarrow> bool" where
  "ns_in_row L e ns r = sq_contains L (axis_root L e Row r) ns"

lemma row_id_of_height: "0 < h \<Longrightarrow> row_namespace_data_id_new ns r h =
    Inr \<lparr>rnid_row_id = \<lparr>rid_eds_id = \<lparr>eid_height = h\<rparr>, rid_index = r\<rparr>, rnid_namespace = ns\<rparr>"
  by (simp add: row_namespace_data_id_new_def row_id_new_def eds_id_new_def)

lemma namespace_row_step:
  assumes "square_lib_ok L" "eds_ok app e" "r < eds_square_width e" "0 < height"
    and dah: "dah_from_eds L e = (Inr dah :: (types_error, _) result)"
  shows "namespace_row L e ns dah height r acc = Inr (if ns_in_row L e ns r then acc @ [ns_entry L e ns height r] else acc)"
proof -
  have c: "dah_row_contains L dah r ns = Inr (ns_in_row L e ns r)"
    using dah assms(3) by (auto simp: dah_from_eds_ok [OF assms(1,2)] dah_row_contains_def dah_row_root_def ns_in_row_def)
  obtain t where t: "eds_axis_nmt (sq_nmt L) e Row r = Inr t" "tree_of (sq_nmt L) (axis_shares e Row r) = Inr t"
    by (rule axis_tree [OF assms(1-3)])
  have "map (cell e r) [0..<eds_square_width e] = axis_shares e Row r" by (simp add: axis_shares_def axis_cell_def)
  moreover have "sorted (map (\<lambda>c. share_namespace (cell e r c)) [0..<eds_square_width e])"
    using eds_okD(4) [OF assms(2,3), of Row] by (simp add: axis_shares_def axis_cell_def comp_def)
  ultimately have "row_shares_of e ns r [0..<eds_square_width e] [] = Inr (filter (\<lambda>s. share_namespace s = ns) (axis_shares e Row r))"
    using row_shares_of_sorted [OF assms(2,3), of "[0..<eds_square_width e]" ns "[]"] by simp
  with c t row_id_of_height [OF assms(4)] show ?thesis
    by (simp add: namespace_row_def ns_entry_def eds_row_nmt_def)
qed

lemma get_namespace_data_eq:
  assumes "square_lib_ok L" "eds_ok app e" "0 < height" "dah_from_eds L e = (Inr dah :: (types_error, _) result)"
  shows "eds_get_namespace_data L e ns dah height = Inr (map (ns_entry L e ns height) (filter (ns_in_row L e ns) [0..<eds_square_width e]))"
proof -
  have "\<forall>r \<in> set rs. r < eds_square_width e \<Longrightarrow> fold_r (namespace_row L e ns dah height) rs acc =
    Inr (acc @ map (ns_entry L e ns height) (filter (ns_in_row L e ns) rs))" for rs acc
    by (induction rs arbitrary: acc) (simp_all add: namespace_row_step [OF assms(1,2) _ assms(3,4)])
  from this [of "[0..<eds_square_width e]" "[]"] show ?thesis by (simp add: eds_get_namespace_data_def)
qed

lemma ns_entry_verifies:
  assumes "square_lib_ok L" "eds_ok app e" "r < eds_square_width e" "ns \<noteq> PARITY_SHARE"
    and dah: "dah_from_eds L e = (Inr dah :: (types_error, _) result)"
  shows "row_namespace_data_verify L (snd (ns_entry L e ns height r)) (fst (ns_entry L e ns height r)) dah = Inr ()"
proof -
  obtain t where t: "tree_of (sq_nmt L) (axis_shares e Row r) = Inr t" by (rule axis_tree [OF assms(1-3)])
  have p: "na_is_of_presence (sq_api L) (sq_get_namespace_proof L t ns) \<longleftrightarrow> filter (\<lambda>s. share_namespace s = ns) (axis_shares e Row r) \<noteq> []"
    using square_lib_okD(4) [OF assms(1) t assms(4)] by (auto simp: filter_empty_conv)
  have a: "na_is_of_absence (sq_api L) q \<longleftrightarrow> \<not> na_is_of_presence (sq_api L) q" for q
    using square_lib_okD(1) [OF assms(1)] by (simp add: nmt_api_ok_def)
  have "dah_row_root dah r = Some (root_bytes L t)"
    using dah assms(3) t by (auto simp: dah_from_eds_ok [OF assms(1,2)] dah_row_root_def axis_root_def)
  with square_lib_okD(5) [OF assms(1) t assms(4)] p a t show ?thesis
    by (auto simp: row_namespace_data_verify_def ns_entry_def range_result_def Let_def)
qed

text \<open>C16. Data of a namespace: for a valid square with its header and a namespace other than that of the
  parity shares, \<open>get_namespace_data\<close> returns one entry for each row whose root covers the namespace,
  with exactly the shares of that namespace in the row, in order; and the entries together verify
  against the header as the data of the namespace in the block.\<close>

theorem namespace_data_honest:
  assumes "square_lib_ok L" "eds_ok app e" "0 < height" "ns \<noteq> PARITY_SHARE"
    and "dah_from_eds L e = (Inr dah :: (types_error, _) result)"
  shows "\<exists>rows. eds_get_namespace_data L e ns dah height = Inr rows \<and>
    map (rnd_shares \<circ> snd) rows = map (\<lambda>r. filter (\<lambda>s. share_namespace s = ns) (axis_shares e Row r))
      (filter (ns_in_row L e ns) [0..<eds_square_width e]) \<and>
    namespace_data_verify L (map snd rows) \<lparr>ndid_eds_id = \<lparr>eid_height = height\<rparr>, ndid_namespace = ns\<rparr> dah = Inr ()"
proof -
  define w where "w = eds_square_width e"
  define rs where "rs = filter (ns_in_row L e ns) [0..<w]"
  have w: "w \<le> 1024" "dah_square_width dah = (Inr w :: (types_error, _) result)"
    using eds_okD(2) [OF assms(2)] assms(5) by (auto simp: w_def dah_from_eds_ok [OF assms(1,2)] dah_square_width_def)
  have "row_contains_or_false L dah ns r = ns_in_row L e ns r" if "r < w" for r
    using assms(5) that by (auto simp: row_contains_or_false_def dah_from_eds_ok [OF assms(1,2)] dah_row_contains_def dah_row_root_def ns_in_row_def w_def)
  then have idx: "filter (row_contains_or_false L dah ns) [0..<w] = rs" unfolding rs_def by (intro filter_cong) auto
  have len: "length rs \<le> 1024" using length_filter_le [of "ns_in_row L e ns" "[0..<w]"] w(1) by (simp add: rs_def)
  have "fold_r (\<lambda>(row, row_index) _. bind_r (row_namespace_data_id_new ns row_index height) (\<lambda>ri. row_namespace_data_verify L row ri dah))
      (zip (map (snd \<circ> ns_entry L e ns height) rs) rs) () = Inr ()"
  proof -
    have "\<forall>r \<in> set xs. r < w \<Longrightarrow> fold_r (\<lambda>(row, row_index) _. bind_r (row_namespace_data_id_new ns row_index height) (\<lambda>ri. row_namespace_data_verify L row ri dah))
      (zip (map (snd \<circ> ns_entry L e ns height) xs) xs) () = Inr ()" for xs
      using ns_entry_verifies [OF assms(1,2) _ assms(4,5), of _ height]
      by (induction xs) (simp_all add: row_id_of_height [OF assms(3)] ns_entry_def w_def)
    then show ?thesis by (simp add: rs_def)
  qed
  then have "namespace_data_verify L (map snd (map (ns_entry L e ns height) rs)) \<lparr>ndid_eds_id = \<lparr>eid_height = height\<rparr>, ndid_namespace = ns\<rparr> dah = Inr ()"
    using len by (simp add: namespace_data_verify_def w(2) idx)
  moreover have "eds_get_namespace_data L e ns dah height = Inr (map (ns_entry L e ns height) rs)"
    using get_namespace_data_eq [OF assms(1-3,5)] by (simp add: rs_def w_def)
  ultimately show ?thesis by (simp add: ns_entry_def rs_def w_def comp_def)
qed

section \<open>Witnesses\<close>

text \<open>A tree that keeps the namespaces of its leaves in order, an encoding that leaves the parity shards as they
  are, and the square of one data share.\<close>

definition toy_square :: "namespace list square_lib" where
  "toy_square = \<lparr>
     sq_nmt = \<lparr>nl_with_hasher = \<lambda>_. [], nl_push_leaf = \<lambda>_ n t. if t \<noteq> [] \<and> n < last t then Inl ''order'' else Inr (t @ [n]), nl_root = \<lambda>t. concat (map as_bytes t), nl_simple_hash = concat\<rparr>,
     sq_api = toy_api, sq_contains = \<lambda>_ _. True,
     sq_get_namespace_proof = \<lambda>t n. let r = \<lparr>nr_siblings = [], nr_start = 0, nr_end = length t\<rparr>
       in if n \<in> set t then PresenceProof r True else AbsenceProof r True None,
     sq_build_range_proof = \<lambda>_ a b. \<lparr>nr_siblings = [], nr_start = a, nr_end = b\<rparr>,
     sq_encode = \<lambda>xs _. Inr xs, sq_reconstruct = \<lambda>xs _. Inr xs\<rparr>"

definition toy_share :: share where
  "toy_share = \<lparr>sh_data = as_bytes toy_ns @ [1] @ replicate 482 5, sh_is_parity = False\<rparr>"

definition toy_parity :: share where
  "toy_parity = \<lparr>sh_data = zero_share, sh_is_parity = True\<rparr>"

definition toy_eds :: eds where
  "toy_eds = \<lparr>eds_data_square = [toy_share, toy_parity, toy_parity, toy_parity], eds_codec = ''Leopard'', eds_square_width = 2\<rparr>"

lemma toy_push:
  "sorted t \<Longrightarrow> fold_r (push_own (sq_nmt toy_square)) ss t = Inr u \<longleftrightarrow> sorted (t @ map share_namespace ss) \<and> u = t @ map share_namespace ss"
proof (induction ss arbitrary: t)
  case (Cons s ss)
  show ?case
  proof (cases "t \<noteq> [] \<and> share_namespace s < last t")
    case True
    then have "\<exists>x \<in> set t. \<not> x \<le> share_namespace s" using last_in_set [of t] by (auto simp: not_le)
    then have "\<not> sorted (t @ share_namespace s # map share_namespace ss)" unfolding sorted_append by auto
    with True show ?thesis by (simp add: push_own_def push_share_def toy_square_def)
  next
    case False
    with Cons.prems have "sorted (t @ [share_namespace s])"
      by (cases t rule: rev_cases) (auto simp: sorted_append not_less)
    from Cons.IH [OF this] False show ?thesis by (auto simp: push_own_def push_share_def toy_square_def)
  qed
qed auto

lemma toy_tree: "tree_of (sq_nmt toy_square) ss = Inr t \<longleftrightarrow> sorted (map share_namespace ss) \<and> t = map share_namespace ss"
proof -
  have "nl_with_hasher (sq_nmt toy_square) True = []" by (simp add: toy_square_def)
  then show ?thesis using toy_push [of "[]" ss t] by (simp add: tree_of_def)
qed

lemma toy_square_ok: "square_lib_ok toy_square"
  unfolding square_lib_ok_def is_ok_iff toy_tree using toy_api_ok
  by (simp add: toy_square_def toy_api_def Let_def)

lemma toy_shares:
  "share_ok toy_share" "share_validate toy_share app = Inr ()" "share_namespace toy_share = toy_ns"
  "share_ok toy_parity" "share_validate toy_parity app = Inr ()" "share_namespace toy_parity = PARITY_SHARE"
proof -
  have l: "length (as_bytes toy_ns) = 29" using toy_ns_ok(1) by (rule ns_ok_length)
  then show "share_ok toy_share" using toy_ns_ok(1) by (simp add: share_ok_def toy_share_def)
  show "share_namespace toy_share = toy_ns" "share_validate toy_share app = Inr ()" using l
    by (simp_all add: share_namespace_def share_validate_def share_info_byte_def toy_share_def new_unchecked_def share_sizes
        nth_append info_version_def SHARE_VERSION_ONE_def)
  show "share_ok toy_parity" "share_validate toy_parity app = Inr ()" "share_namespace toy_parity = PARITY_SHARE"
    by (simp_all add: share_ok_def share_validate_def share_info_byte_def share_namespace_def toy_parity_def zero_share_def share_sizes)
qed

lemma toy_eds_ok: "eds_ok V1 toy_eds"
proof -
  have n: "toy_ns \<le> PARITY_SHARE" by (simp add: less_eq_namespace_def toy_ns_def PARITY_SHARE_def const_v0_def const_v255_def ns_sizes numeral_eq_Suc)
  have u: "[0..<2] = [0, 1 :: nat]" by (simp add: numeral_eq_Suc)
  have q: "(\<forall>i < 2. P i) \<longleftrightarrow> P 0 \<and> P (1 :: nat)" for P by (auto simp: less_2_cases_iff)
  show ?thesis using n toy_shares
    by (simp add: eds_ok_def toy_eds_def q u cell_def is_ods_square_def count_ones.simps [of 2] count_ones.simps [of "Suc 0"] count_ones.simps [of 0]
        max_extended_square_width_def toy_share_def [THEN arg_cong, of sh_is_parity] toy_parity_def [THEN arg_cong, of sh_is_parity])
qed

definition toy_sample_id :: sample_id where
  "toy_sample_id = \<lparr>sid_row_id = \<lparr>rid_eds_id = \<lparr>eid_height = 1\<rparr>, rid_index = 1\<rparr>, sid_column_index = 0\<rparr>"

theorem sample_honest_witness:
  "\<exists>s dah. sample_new toy_square 1 0 Col toy_eds = Inr s \<and> sa_share s = toy_parity \<and>
    dah_from_eds toy_square toy_eds = (Inr dah :: (types_error, _) result) \<and> sample_verify toy_square s toy_sample_id dah = Inr ()"
  using sample_honest [OF toy_square_ok toy_eds_ok, of 1 0 toy_sample_id Col]
  by (auto simp: toy_eds_def toy_sample_id_def sample_id_row_index_def cell_def)

theorem namespace_data_honest_witness:
  "\<exists>dah rows. dah_from_eds toy_square toy_eds = (Inr dah :: (types_error, _) result) \<and>
    eds_get_namespace_data toy_square toy_eds toy_ns dah 1 = Inr rows \<and> map (rnd_shares \<circ> snd) rows = [[toy_share], []] \<and>
    namespace_data_verify toy_square (map snd rows) \<lparr>ndid_eds_id = \<lparr>eid_height = 1\<rparr>, ndid_namespace = toy_ns\<rparr> dah = Inr ()"
proof -
  have "hd (as_bytes toy_ns) \<noteq> hd (as_bytes PARITY_SHARE)" by (simp add: toy_ns_def PARITY_SHARE_def const_v0_def const_v255_def ns_sizes hd_conv_nth nth_list_update nth_append)
  then have n: "toy_ns \<noteq> PARITY_SHARE" by auto
  have u: "[0..<2] = [0, 1 :: nat]" by (simp add: numeral_eq_Suc)
  have "filter (ns_in_row toy_square toy_eds toy_ns) [0..<eds_square_width toy_eds] = [0, 1]"
    by (simp add: u toy_eds_def ns_in_row_def toy_square_def)
  moreover have "axis_shares toy_eds Row 0 = [toy_share, toy_parity]" "axis_shares toy_eds Row 1 = [toy_parity, toy_parity]"
    by (simp_all add: axis_shares_def axis_cell_def toy_eds_def u cell_def)
  moreover note namespace_data_honest [OF toy_square_ok toy_eds_ok _ n dah_from_eds_ok [OF toy_square_ok toy_eds_ok], of 1]
  ultimately show ?thesis using n toy_shares(3,6) dah_from_eds_ok [OF toy_square_ok toy_eds_ok]
    by auto
qed

end
