(* ===== verification/Eds_Extension.thy ===== *)
theory Eds_Extension
  imports Square_Properties
begin

text \<open>
  Reading cells of a square, and the extension of an original square: \<open>from_ods\<close> keeps the data it is
  given. Of the codec only the documented shape of an encoding is used.
\<close>

section \<open>Cells\<close>

text \<open>C40. Reading a cell: inside a valid square \<open>share\<close> returns the share in that row and column, and a row
  outside is an error. A column outside is not: as long as the flat index is in range, the share of a
  later row is returned.\<close>

theorem eds_share_exact:
  assumes "eds_ok app e"
  shows "(r < eds_square_width e \<and> c < eds_square_width e \<longrightarrow> eds_share e r c = Inr (cell e r c)) \<and>
    (eds_square_width e \<le> r \<longrightarrow> eds_share e r c = Inl (Err (EdsIndexOutOfRange r c))) \<and>
    (eds_square_width e \<le> c \<and> r + c div eds_square_width e < eds_square_width e \<longrightarrow>
      eds_share e r c = Inr (cell e (r + c div eds_square_width e) (c mod eds_square_width e)))"
proof (intro conjI impI)
  let ?w = "eds_square_width e"
  show "eds_share e r c = Inr (cell e r c)" if "r < ?w \<and> c < ?w" using that eds_share_cell [OF assms] by simp
  show "eds_share e r c = Inl (Err (EdsIndexOutOfRange r c))" if "?w \<le> r"
  proof -
    have "length (eds_data_square e) \<le> r * ?w" using mult_le_mono1 [OF that, of ?w] eds_okD(3) [OF assms] by linarith
    then have "\<not> r * ?w + c < length (eds_data_square e)" by linarith
    then show ?thesis by (simp add: eds_share_def)
  qed
  assume c: "?w \<le> c \<and> r + c div ?w < ?w"
  have "0 < ?w" using eds_okD(1) [OF assms] by simp
  then have m: "c mod ?w < ?w" by simp
  have "r * ?w + c = (r + c div ?w) * ?w + c mod ?w" by (simp add: add_mult_distrib)
  with eds_share_cell [OF assms _ m, of "r + c div ?w"] c show "eds_share e r c = Inr (cell e (r + c div ?w) (c mod ?w))"
    by (simp add: eds_share_def cell_def Let_def split: if_splits)
qed

section \<open>Matrices of rows\<close>

lemma concat_rows_nth:
  "\<forall>row \<in> set rows. length row = w \<Longrightarrow> r < length rows \<Longrightarrow> c < w \<Longrightarrow> concat rows ! (r * w + c) = rows ! r ! c"
proof (induction rows arbitrary: r)
  case (Cons row rows)
  then show ?case by (cases r) (simp_all add: nth_append add.assoc)
qed simp

lemma length_concat_rows: "\<forall>row \<in> set rows. length row = w \<Longrightarrow> length (concat rows) = length rows * w"
  by (induction rows) simp_all

lemma chunks_concat: "0 < w \<Longrightarrow> \<forall>row \<in> set rows. length row = w \<Longrightarrow> chunks w (concat rows) = rows"
proof (induction rows)
  case (Cons row rows)
  then have "concat (row # rows) \<noteq> []" by auto
  from chunks_step [OF Cons.prems(1) this] Cons show ?case by simp
qed simp

lemma concat_replicate_rows: "concat (replicate n (replicate w x)) = replicate (n * w) x"
  by (induction n) (simp_all add: replicate_add)

lemma interleave_rows:
  "interleave n w ods = concat (map (\<lambda>r. take w (drop (r * w) ods) @ replicate w zero_share) [0..<n])"
proof (induction n arbitrary: ods)
  case (Suc n)
  have "map (\<lambda>r. take w (drop (r * w) ods) @ replicate w zero_share) [0..<Suc n] =
    (take w ods @ replicate w zero_share) # map (\<lambda>r. take w (drop (r * w) (drop w ods)) @ replicate w zero_share) [0..<n]"
    by (simp add: upt_conv_Cons add.commute map_Suc_upt [symmetric] comp_def del: upt_Suc map_Suc_upt)
  with Suc show ?case by (simp del: upt_Suc)
qed simp

text \<open>An encoding has as many shards as its input and keeps the data shards.\<close>

definition leopard_ok :: "'t square_lib \<Rightarrow> bool" where
  "leopard_ok L \<longleftrightarrow> (\<forall>xs k ys. sq_encode L xs k = Inr ys \<longrightarrow> length ys = length xs \<and> take k ys = take k xs)"

lemma leopard_Inr [simp]: "leopard m = Inr x \<longleftrightarrow> m = Inr x"
  by (cases m) (simp_all add: leopard_def)

definition square_of :: "nat \<Rightarrow> byte list list \<Rightarrow> byte list list list \<Rightarrow> bool" where
  "square_of k ods rows \<longleftrightarrow> length rows = 2 * k \<and> (\<forall>row \<in> set rows. length row = 2 * k) \<and>
     (\<forall>r < k. \<forall>c < k. rows ! r ! c = ods ! (r * k + c))"

lemma take_eq_nth: "take k ys = take k xs \<Longrightarrow> i < k \<Longrightarrow> ys ! i = xs ! i"
  by (metis nth_take)

lemma encode_column_square:
  assumes "leopard_ok L" "square_of k ods rows" "col < k" "encode_column L k col rows = Inr rows'"
  shows "square_of k ods rows'"
proof -
  from assms(4) obtain ys where ys: "sq_encode L (map (\<lambda>r. r ! col) rows) k = Inr ys" "rows' = map2 (\<lambda>r x. r[col := x]) rows ys"
    by (auto simp: encode_column_def)
  with assms(1) have l: "length ys = length rows" "take k ys = take k (map (\<lambda>r. r ! col) rows)" by (auto simp: leopard_ok_def)
  have "rows' ! r ! c = rows ! r ! c" if "r < k" "c < k" for r c
  proof -
    have r: "r < length rows" "length (rows ! r) = 2 * k" using assms(2) that by (auto simp: square_of_def)
    have "ys ! r = rows ! r ! col" using take_eq_nth [OF l(2) that(1)] r by simp
    then show ?thesis using r l that assms(3) by (simp add: ys(2) nth_list_update)
  qed
  then show ?thesis using assms(2) l(1) by (auto simp: square_of_def ys(2) set_zip)
qed

lemma encode_columns_square:
  "leopard_ok L \<Longrightarrow> square_of k ods rows \<Longrightarrow> \<forall>c \<in> set cols. c < k \<Longrightarrow>
   fold_r (encode_column L k) cols rows = Inr rows' \<Longrightarrow> square_of k ods rows'"
  by (induction cols arbitrary: rows) (auto dest: encode_column_square)

lemma encode_rows:
  assumes "leopard_ok L" "collect_r (\<lambda>row. leopard (sq_encode L row k)) rows = Inr rows'"
  shows "length rows' = length rows" "r < length rows \<Longrightarrow> length (rows' ! r) = length (rows ! r)"
    "r < length rows \<Longrightarrow> take k (rows' ! r) = take k (rows ! r)"
proof -
  from assms(2) have a: "list_all2 (\<lambda>x y. sq_encode L x k = Inr y) rows rows'" by (simp add: collect_r_Inr_iff)
  then show "length rows' = length rows" by (simp add: list_all2_lengthD)
  show "length (rows' ! r) = length (rows ! r)" "take k (rows' ! r) = take k (rows ! r)" if "r < length rows"
    using list_all2_nthD [OF a that] assms(1) by (auto simp: leopard_ok_def)
qed

lemma ods_rows:
  assumes "length ods = k * k" "0 < k"
  defines "rows \<equiv> map (\<lambda>r. take k (drop (r * k) ods) @ replicate k zero_share) [0..<k] @ replicate k (replicate (2 * k) zero_share)"
  shows "chunks (k * 2) (interleave k k ods @ replicate (k * 2 * (k * 2) - length (interleave k k ods)) zero_share) = rows"
    "square_of k ods rows"
proof -
  have row: "length (take k (drop (r * k) ods)) = k" if "r < k" for r
  proof -
    have "k \<le> k * k - r * k" using that mult_le_mono1 [of "Suc r" k k] by simp
    then show ?thesis using assms(1) by simp
  qed
  define upper where "upper = map (\<lambda>r. take k (drop (r * k) ods) @ replicate k zero_share) [0..<k]"
  have u: "length upper = k" "\<forall>row \<in> set upper. length row = 2 * k" "\<And>r. r < k \<Longrightarrow> upper ! r = take k (drop (r * k) ods) @ replicate k zero_share"
    using row by (auto simp: upper_def simp del: length_take length_drop)
  have rows: "rows = upper @ replicate k (replicate (2 * k) zero_share)" by (simp add: rows_def upper_def)
  have l: "\<forall>row \<in> set rows. length row = 2 * k" using u(2) by (auto simp: rows)
  have i: "interleave k k ods = concat upper" by (simp only: interleave_rows upper_def)
  have "length (concat upper) = k * (2 * k)" using length_concat_rows [OF u(2)] u(1) by simp
  then have "k * 2 * (k * 2) - length (concat upper) = k * (2 * k)" by simp
  then have "interleave k k ods @ replicate (k * 2 * (k * 2) - length (interleave k k ods)) zero_share = concat rows"
    by (simp only: i rows concat_append concat_replicate_rows)
  with chunks_concat [OF _ l] assms(2)
  show "chunks (k * 2) (interleave k k ods @ replicate (k * 2 * (k * 2) - length (interleave k k ods)) zero_share) = rows"
    by (simp only: mult.commute [of k 2])
  have "rows ! r ! c = ods ! (r * k + c)" if "r < k" "c < k" for r c
    using that u(1,3) row [OF that(1)] assms(1) mult_le_mono1 [of "Suc r" k k] by (simp add: rows nth_append)
  then show "square_of k ods rows" using l u(1) by (simp add: square_of_def rows)
qed

text \<open>C19. Extension of an original square: a square that \<open>from_ods\<close> returns is valid, has twice the width of the
  original one, and holds in its first quadrant exactly the given shares. An empty original square makes
  \<open>from_ods\<close> panic.\<close>

theorem eds_from_ods_keeps_data:
  assumes "leopard_ok L" "eds_from_ods L ods app = Inr e"
  shows "panics (eds_from_ods L [] app) \<and> (\<exists>k. length ods = k * k \<and> eds_ok app e \<and> eds_square_width e = 2 * k \<and>
    (\<forall>r < k. \<forall>c < k. sh_data (cell e r c) = ods ! (r * k + c)))"
proof -
  define k where "k = isqrt (length ods)"
  define rows where "rows = map (\<lambda>r. take k (drop (r * k) ods) @ replicate k zero_share) [0..<k] @ replicate k (replicate (2 * k) zero_share)"
  have k: "length ods = k * k" using assms(2) by (auto simp: eds_from_ods_def Let_def k_def split: if_splits)
  have "isqrt (length ods) \<noteq> 0" using assms(2) by (cases "isqrt (length ods) = 0") (simp_all add: eds_from_ods_def split: if_splits)
  then have "0 < k" by (simp add: k_def)
  note rows = ods_rows [OF k this, folded rows_def]
  from assms(2) obtain second third fourth where
    a: "collect_r (\<lambda>row. leopard (sq_encode L row k)) (take k rows) = Inr second"
      "fold_r (encode_column L k) [0..<k] (second @ drop k rows) = Inr third"
      "collect_r (\<lambda>row. leopard (sq_encode L row k)) (drop k third) = Inr fourth"
      "eds_new (concat (take k third @ fourth)) ''Leopard'' app = Inr e"
    using k rows(1) \<open>0 < k\<close> by (auto simp: eds_from_ods_def Let_def simp flip: k_def)
  have l: "length rows = 2 * k" "\<And>r. r < 2 * k \<Longrightarrow> length (rows ! r) = 2 * k" using rows(2) by (auto simp: square_of_def)
  have "square_of k ods (second @ drop k rows)"
  proof -
    have "length second = k" using encode_rows(1) [OF assms(1) a(1)] l by simp
    moreover have "second ! r ! c = ods ! (r * k + c)" if "r < k" "c < k" for r c
      using take_eq_nth [OF encode_rows(3) [OF assms(1) a(1), of r] that(2)] that rows(2) l by (simp add: square_of_def)
    moreover have "length row = 2 * k" if "row \<in> set second" for row
      using that encode_rows(1,2) [OF assms(1) a(1)] l by (auto simp: in_set_conv_nth)
    ultimately show ?thesis using rows(2) l by (auto simp: square_of_def nth_append dest: in_set_dropD)
  qed
  from encode_columns_square [OF assms(1) this _ a(2)] have third: "square_of k ods third" by simp
  define final where "final = take k third @ fourth"
  have final: "square_of k ods final"
  proof -
    have t: "length third = 2 * k" "\<forall>row \<in> set third. length row = 2 * k" using third by (simp_all add: square_of_def)
    then have f: "length fourth = k" using encode_rows(1) [OF assms(1) a(3)] by simp
    have "length (fourth ! i) = 2 * k" if "i < k" for i
      using encode_rows(2) [OF assms(1) a(3), of i] t that by simp
    then have "\<forall>row \<in> set fourth. length row = 2 * k" by (simp add: all_set_conv_all_nth f)
    moreover have "\<forall>row \<in> set (take k third). length row = 2 * k" using t(2) by (meson in_set_takeD)
    moreover have "\<forall>r < k. \<forall>c < k. final ! r ! c = ods ! (r * k + c)"
      using third t(1) by (simp add: square_of_def final_def nth_append)
    ultimately show ?thesis using t(1) f by (simp add: square_of_def final_def ball_Un)
  qed
  have e: "eds_ok app e" "concat final = map sh_data (eds_data_square e)"
    using eds_new_sound [OF a(4)] by (simp_all add: raw_eds_from_def share_to_vec_def final_def)
  have n: "length (concat final) = 2 * k * (2 * k)" 
    using final length_concat_rows [of final "2 * k"] by (simp add: square_of_def)
  then have "eds_square_width e * eds_square_width e = 2 * k * (2 * k)" using eds_okD(3) [OF e(1)] e(2) by simp
  from arg_cong [OF this, of isqrt] have w: "eds_square_width e = 2 * k" unfolding isqrt_square .
  have "sh_data (cell e r c) = ods ! (r * k + c)" if "r < k" "c < k" for r c
  proof -
    have i: "r * (2 * k) + c < length (eds_data_square e)"
      using cell_index [of r "2 * k" c] that eds_okD(3) [OF e(1)] w by simp
    have "sh_data (cell e r c) = concat final ! (r * (2 * k) + c)" using i by (simp add: cell_def w e(2))
    also have "\<dots> = final ! r ! c" using final that by (intro concat_rows_nth) (auto simp: square_of_def)
    finally show ?thesis using final that by (simp add: square_of_def)
  qed
  moreover have "isqrt 0 = 0" using isqrt_square [of 0] by simp
  then have "panics (eds_from_ods L [] app)" by (simp add: eds_from_ods_def)
  ultimately show ?thesis using k e(1) w by blast
qed

section \<open>Witnesses\<close>

theorem eds_share_exact_witness:
  "eds_share toy_eds 0 0 = Inr toy_share \<and> eds_share toy_eds 2 0 = Inl (Err (EdsIndexOutOfRange 2 0)) \<and>
   eds_share toy_eds 0 3 = Inr toy_parity"
  using eds_share_exact [OF toy_eds_ok, of 0 0] eds_share_exact [OF toy_eds_ok, of 2 0] eds_share_exact [OF toy_eds_ok, of 0 3]
  by (simp add: toy_eds_def cell_def)

lemma toy_from_ods: "eds_from_ods toy_square [sh_data toy_share] V1 = Inr toy_eds"
proof -
  have s: "isqrt (Suc 0) = 1" using isqrt_square [of 1] by simp
  have "chunks 2 [a, b, c, d] = [[a, b], [c, d]]" for a b c d :: "byte list"
    using chunks_step [of 2 "[a, b, c, d]"] chunks_step [of 2 "[c, d]"] by simp
  moreover have "eds_new [sh_data toy_share, zero_share, zero_share, zero_share] ''Leopard'' V1 = Inr toy_eds"
    by (rule eds_new_complete) (use toy_eds_ok in \<open>simp add: toy_eds_def raw_eds_from_def share_to_vec_def toy_parity_def\<close>)
  ultimately show ?thesis
    by (simp add: eds_from_ods_def s Let_def toy_square_def leopard_def encode_column_def numeral_eq_Suc)
qed

theorem eds_from_ods_keeps_data_witness:
  "\<exists>e. eds_from_ods toy_square [sh_data toy_share] V1 = Inr e \<and> eds_ok V1 e \<and> eds_square_width e = 2 \<and>
     sh_data (cell e 0 0) = sh_data toy_share"
  using eds_from_ods_keeps_data [OF _ toy_from_ods] toy_from_ods
  by (auto simp: leopard_ok_def toy_square_def)

end
