(* ===== verification/Fraud_Proofs.thy ===== *)
theory Fraud_Proofs
  imports Eds_Extension Header_Chain
begin

text \<open>
  The fraud proofs of \<open>types/src/byzantine.rs\<close> and \<open>types/src/fraud_proof.rs\<close>: a proof that a row or a
  column of a square is not an encoding, its validation against a header, and its conversions. The
  conversions of \<open>tendermint\<close> (\<open>Hash::try_from\<close>, \<open>Height::try_from\<close>) and the protobuf codec are
  parameters.
\<close>

section \<open>Leaves and shares with proofs\<close>

record nmt_leaf =
  lf_namespace :: namespace
  lf_share :: "byte list"

record share_with_proof =
  swp_leaf :: nmt_leaf
  swp_proof :: ns_proof
  swp_proof_axis :: axis_type

record bad_encoding_fraud_proof =
  bf_header_hash :: hash
  bf_block_height :: nat
  bf_shares :: "share_with_proof option list"
  bf_index :: nat
  bf_axis :: axis_type

definition nmt_leaf_new :: "byte list \<Rightarrow> (types_error, nmt_leaf) result" where
  "nmt_leaf_new bytes =
     (if length bytes \<noteq> SHARE_SIZE + NS_SIZE then Inl (Err (InvalidNmtLeafSize (length bytes)))
      else bind_r (ns_from_raw (take NS_SIZE bytes)) (\<lambda>n.
           Inr \<lparr>lf_namespace = n, lf_share = drop NS_SIZE bytes\<rparr>))"

definition nmt_leaf_to_vec :: "nmt_leaf \<Rightarrow> byte list" where
  "nmt_leaf_to_vec l = as_bytes (lf_namespace l) @ lf_share l"

record raw_share_with_proof =
  rsw_data :: "byte list"
  rsw_proof :: "raw_proof option"
  rsw_proof_axis :: int

definition share_with_proof_try_from :: "nmt_api \<Rightarrow> raw_share_with_proof \<Rightarrow> (types_error, share_with_proof) result" where
  "share_with_proof_try_from api v =
     bind_r (nmt_leaf_new (rsw_data v)) (\<lambda>leaf.
     bind_r (ok_or MissingProof (rsw_proof v)) (\<lambda>raw.
     bind_r (ns_proof_try_from api raw) (\<lambda>p.
     if na_is_of_absence api p then Inl (Err WrongProofType)
     else bind_r (axis_try_from (rsw_proof_axis v)) (\<lambda>axis.
          Inr \<lparr>swp_leaf = leaf, swp_proof = p, swp_proof_axis = axis\<rparr>))))"

definition raw_share_with_proof_from :: "nmt_api \<Rightarrow> share_with_proof \<Rightarrow> raw_share_with_proof" where
  "raw_share_with_proof_from api s =
     \<lparr>rsw_data = nmt_leaf_to_vec (swp_leaf s), rsw_proof = Some (raw_proof_from api (swp_proof s)),
      rsw_proof_axis = axis_as_i32 (swp_proof_axis s)\<rparr>"

section \<open>Validation\<close>

fun befp_root :: "data_availability_header \<Rightarrow> axis_type \<Rightarrow> axis_type \<Rightarrow> nat \<Rightarrow> nat \<Rightarrow> bytes option" where
  "befp_root dah Row Row index share_idx = dah_row_root dah index"
| "befp_root dah Row Col index share_idx = dah_column_root dah (share_idx mod 2 ^ 16)"
| "befp_root dah Col Row index share_idx = dah_row_root dah (share_idx mod 2 ^ 16)"
| "befp_root dah Col Col index share_idx = dah_column_root dah index"

definition befp_check_share ::
  "'t square_lib \<Rightarrow> data_availability_header \<Rightarrow> axis_type \<Rightarrow> nat \<Rightarrow> nat \<times> share_with_proof option \<Rightarrow> unit \<Rightarrow> (types_error, unit) result" where
  "befp_check_share L dah axis index entry u = (case entry of
      (share_idx, None) \<Rightarrow> Inr ()
    | (share_idx, Some s) \<Rightarrow>
        bind_r (unwrap_o (befp_root dah axis (swp_proof_axis s) index share_idx)) (\<lambda>root.
        range_result (na_verify_range (sq_api L) (swp_proof s) root [lf_share (swp_leaf s)] (lf_namespace (swp_leaf s)))))"

text \<open>The namespace of a rebuilt share; \<open>None\<close> of \<open>befp_tree\<close> is the early return because a leaf is refused.\<close>

definition rebuilt_namespace :: "nat \<Rightarrow> nat \<Rightarrow> byte list \<Rightarrow> ('e, namespace) result" where
  "rebuilt_namespace ods_width n s =
     (if n < ods_width
      then if length s < NS_SIZE then Inl (Panic ''range end index out of range for slice'')
           else expect_r ''called Result::unwrap() on an Err value'' (ns_from_raw (take NS_SIZE s))
      else Inr PARITY_SHARE)"

fun befp_tree :: "'t nmt_lib \<Rightarrow> nat \<Rightarrow> (nat \<times> byte list) list \<Rightarrow> 't \<Rightarrow> ('e, 't option) result" where
  "befp_tree lib ods_width [] tree = Inr (Some tree)"
| "befp_tree lib ods_width ((n, s) # rest) tree =
     bind_r (rebuilt_namespace ods_width n s) (\<lambda>ns.
     case nl_push_leaf lib s ns tree of
       Inl _ \<Rightarrow> Inr None
     | Inr t \<Rightarrow> befp_tree lib ods_width rest t)"

definition befp_rebuild ::
  "'t square_lib \<Rightarrow> data_availability_header \<Rightarrow> axis_type \<Rightarrow> nat \<Rightarrow> nat \<Rightarrow> byte list list \<Rightarrow> (types_error, unit) result" where
  "befp_rebuild L dah axis index ods_width rebuilt =
     (case sq_reconstruct L rebuilt ods_width of
        Inl _ \<Rightarrow> Inr ()
      | Inr reconstructed \<Rightarrow>
         (case sq_encode L reconstructed ods_width of
            Inl _ \<Rightarrow> Inr ()
          | Inr encoded \<Rightarrow>
              bind_r (befp_tree (sq_nmt L) ods_width (zip [0..<length encoded] encoded) (nl_with_hasher (sq_nmt L) True)) (\<lambda>t.
              case t of
                None \<Rightarrow> Inr ()
              | Some nmt \<Rightarrow>
                  bind_r (unwrap_o (dah_root dah axis index)) (\<lambda>expected_root.
                  if root_bytes L nmt = expected_root
                  then bail_validation ''recomputed root hash matches the one in header''
                  else Inr ()))))"

definition rebuilt_share :: "share_with_proof option \<Rightarrow> byte list" where
  "rebuilt_share m = (case m of None \<Rightarrow> [] | Some s \<Rightarrow> lf_share (swp_leaf s))"

definition befp_validate ::
  "'t square_lib \<Rightarrow> bad_encoding_fraud_proof \<Rightarrow> extended_header \<Rightarrow> (types_error, unit) result" where
  "befp_validate L p header =
     (let dah = eh_dah header
      in if eh_height header \<noteq> bf_block_height p then bail_validation ''header height ({}) != fraud proof height ({})''
         else if length (dah_row_roots dah) \<noteq> length (dah_column_roots dah)
         then bail_validation ''dah rows len ({}) != dah columns len ({})''
         else bind_r (dah_square_width dah) (\<lambda>square_width.
              let ods_width = square_width div 2
              in if square_width \<le> bf_index p then bail_validation ''fraud proof index ({}) >= dah square width ({})''
                 else if length (bf_shares p) \<noteq> square_width
                 then bail_validation ''fraud proof shares len ({}) != dah square width ({})''
                 else if length (filter (\<lambda>s. s \<noteq> None) (bf_shares p)) < ods_width
                 then bail_validation ''fraud proof present shares count ({shares_count}) < dah ods width ({ods_width})''
                 else bind_r (fold_r (befp_check_share L dah (bf_axis p) (bf_index p))
                               (zip [0..<length (bf_shares p)] (bf_shares p)) ()) (\<lambda>_.
                      befp_rebuild L dah (bf_axis p) (bf_index p) ods_width (map rebuilt_share (bf_shares p)))))"

section \<open>Conversions\<close>

record raw_bad_encoding =
  rbe_header_hash :: bytes
  rbe_height :: nat
  rbe_shares :: "raw_share_with_proof list"
  rbe_index :: nat
  rbe_axis :: int

record befp_conv =
  bc_hash_try_from :: "bytes \<Rightarrow> hash option"
  bc_hash_into :: "hash \<Rightarrow> bytes"
  bc_height_ok :: "nat \<Rightarrow> bool"

definition befp_try_from :: "nmt_api \<Rightarrow> befp_conv \<Rightarrow> raw_bad_encoding \<Rightarrow> (types_error, bad_encoding_fraud_proof) result" where
  "befp_try_from api cv v =
     bind_r (axis_try_from (rbe_axis v)) (\<lambda>axis.
     if 65535 < rbe_index v then Inl (Err EdsInvalidDimentions)
     else bind_r (collect_r (\<lambda>s. if rsw_proof s \<noteq> None then bind_r (share_with_proof_try_from api s) (\<lambda>x. Inr (Some x)) else Inr None)
                   (rbe_shares v)) (\<lambda>shares.
          if \<not> bc_height_ok cv (rbe_height v) then Inl (Err Tendermint)
          else bind_r (ok_or Tendermint (bc_hash_try_from cv (rbe_header_hash v))) (\<lambda>h.
               Inr \<lparr>bf_header_hash = h, bf_block_height = rbe_height v, bf_shares = shares, bf_index = rbe_index v, bf_axis = axis\<rparr>)))"

definition default_raw_share :: raw_share_with_proof where
  "default_raw_share = \<lparr>rsw_data = [], rsw_proof = None, rsw_proof_axis = 0\<rparr>"

definition raw_befp_from :: "nmt_api \<Rightarrow> befp_conv \<Rightarrow> bad_encoding_fraud_proof \<Rightarrow> raw_bad_encoding" where
  "raw_befp_from api cv p = \<lparr>rbe_header_hash = bc_hash_into cv (bf_header_hash p), rbe_height = bf_block_height p,
     rbe_shares = map (\<lambda>s. case s of None \<Rightarrow> default_raw_share | Some x \<Rightarrow> raw_share_with_proof_from api x) (bf_shares p),
     rbe_index = bf_index p, rbe_axis = axis_as_i32 (bf_axis p)\<rparr>"

definition BEFP_TYPE :: string where
  "BEFP_TYPE = ''badencoding''"

datatype fraud_proof = BadEncoding bad_encoding_fraud_proof

record raw_fraud_proof =
  rfp_proof_type :: string
  rfp_data :: bytes

definition fraud_proof_try_from ::
  "(bytes \<Rightarrow> (types_error, bad_encoding_fraud_proof) result) \<Rightarrow> raw_fraud_proof \<Rightarrow> (types_error, fraud_proof) result" where
  "fraud_proof_try_from decode v =
     (if rfp_proof_type v = BEFP_TYPE then bind_r (decode (rfp_data v)) (\<lambda>p. Inr (BadEncoding p))
      else Inl (Err (UnsupportedFraudProofType (rfp_proof_type v))))"

fun raw_fraud_proof_from :: "(bad_encoding_fraud_proof \<Rightarrow> bytes) \<Rightarrow> fraud_proof \<Rightarrow> raw_fraud_proof" where
  "raw_fraud_proof_from encode (BadEncoding p) = \<lparr>rfp_proof_type = BEFP_TYPE, rfp_data = encode p\<rparr>"

section \<open>Round trip\<close>

lemma nmt_leaf_roundtrip:
  "ns_ok (lf_namespace l) \<Longrightarrow> length (lf_share l) = SHARE_SIZE \<Longrightarrow> nmt_leaf_new (nmt_leaf_to_vec l) = Inr l"
  using ns_ok_length [of "lf_namespace l"] ns_from_raw_iff [of "as_bytes (lf_namespace l)" "lf_namespace l"]
  by (simp add: nmt_leaf_new_def nmt_leaf_to_vec_def share_sizes)

definition befp_ok :: "nmt_api \<Rightarrow> befp_conv \<Rightarrow> bad_encoding_fraud_proof \<Rightarrow> bool" where
  "befp_ok api cv p \<longleftrightarrow> bf_index p \<le> 65535 \<and> bc_height_ok cv (bf_block_height p) \<and>
     bc_hash_try_from cv (bc_hash_into cv (bf_header_hash p)) = Some (bf_header_hash p) \<and>
     (\<forall>s. Some s \<in> set (bf_shares p) \<longrightarrow> ns_ok (lf_namespace (swp_leaf s)) \<and> length (lf_share (swp_leaf s)) = SHARE_SIZE \<and>
        ns_proof_ok (swp_proof s) \<and> \<not> na_is_of_absence api (swp_proof s))"

lemma axis_roundtrip [simp]: "axis_try_from (axis_as_i32 a) = Inr a"
  by (cases a) (simp_all add: axis_try_from_def)

lemma befp_roundtrip:
  assumes "nmt_api_ok api" "befp_ok api cv p"
  shows "befp_try_from api cv (raw_befp_from api cv p) = Inr p"
proof -
  let ?f = "\<lambda>s. if rsw_proof s \<noteq> None then bind_r (share_with_proof_try_from api s) (\<lambda>x. Inr (Some x)) else Inr None"
  let ?g = "\<lambda>s. case s of None \<Rightarrow> default_raw_share | Some x \<Rightarrow> raw_share_with_proof_from api x"
  have "?f (?g s) = Inr s" if "s \<in> set (bf_shares p)" for s
  proof (cases s)
    case (Some x)
    then have "ns_ok (lf_namespace (swp_leaf x))" "length (lf_share (swp_leaf x)) = SHARE_SIZE" "ns_proof_ok (swp_proof x)"
      "\<not> na_is_of_absence api (swp_proof x)" using assms(2) that by (auto simp: befp_ok_def)
    then show ?thesis using Some ns_proof_roundtrip(1) [OF assms(1)]
      by (simp add: raw_share_with_proof_from_def share_with_proof_try_from_def nmt_leaf_roundtrip)
  qed (simp add: default_raw_share_def)
  then have "collect_r ?f (map ?g (bf_shares p)) = Inr (bf_shares p)"
    by (auto simp: collect_r_Inr_iff list_all2_map1 intro!: list.rel_refl_strong)
  then show ?thesis using assms(2) by (simp add: befp_try_from_def raw_befp_from_def befp_ok_def)
qed

section \<open>Proofs made of shares of a square\<close>

text \<open>A fraud proof for an axis of a square that holds at position \<open>j\<close> the leaf \<open>c\<close> of that axis with its
  proof when \<open>f j = Some c\<close>, and nothing when \<open>f j = None\<close>.\<close>

definition leaf_with_proof :: "'t square_lib \<Rightarrow> eds \<Rightarrow> axis_type \<Rightarrow> nat \<Rightarrow> nat \<Rightarrow> share_with_proof" where
  "leaf_with_proof L e axis i c =
     (let s = axis_shares e axis i ! c; t = projr (tree_of (sq_nmt L) (axis_shares e axis i))
      in \<lparr>swp_leaf = \<lparr>lf_namespace = share_namespace s, lf_share = sh_data s\<rparr>,
          swp_proof = PresenceProof (sq_build_range_proof L t c (c + 1)) True, swp_proof_axis = axis\<rparr>)"

definition befp_of :: "'t square_lib \<Rightarrow> eds \<Rightarrow> extended_header \<Rightarrow> axis_type \<Rightarrow> nat \<Rightarrow> (nat \<Rightarrow> nat option) \<Rightarrow> bad_encoding_fraud_proof" where
  "befp_of L e header axis i f = \<lparr>bf_header_hash = eh_hash header, bf_block_height = eh_height header,
     bf_shares = map (\<lambda>j. map_option (leaf_with_proof L e axis i) (f j)) [0..<eds_square_width e], bf_index = i, bf_axis = axis\<rparr>"

definition given_shares :: "eds \<Rightarrow> axis_type \<Rightarrow> nat \<Rightarrow> (nat \<Rightarrow> nat option) \<Rightarrow> byte list list" where
  "given_shares e axis i f =
     map (\<lambda>j. case f j of None \<Rightarrow> [] | Some c \<Rightarrow> sh_data (axis_shares e axis i ! c)) [0..<eds_square_width e]"

definition enough_shares :: "eds \<Rightarrow> (nat \<Rightarrow> nat option) \<Rightarrow> bool" where
  "enough_shares e f \<longleftrightarrow> (\<forall>j < eds_square_width e. \<forall>c. f j = Some c \<longrightarrow> c < eds_square_width e) \<and>
     eds_square_width e div 2 \<le> length (filter (\<lambda>j. f j \<noteq> None) [0..<eds_square_width e])"

lemma fold_r_unit: "(\<And>x. x \<in> set xs \<Longrightarrow> f x () = Inr ()) \<Longrightarrow> fold_r f xs () = Inr ()"
  by (induction xs) simp_all

lemma length_axis_shares [simp]: "length (axis_shares e axis i) = eds_square_width e"
  by (simp add: axis_shares_def)

text \<open>Wherever a leaf is put, its proof verifies, so the verdict is that of the rebuilding.\<close>

lemma befp_validate_of:
  assumes "square_lib_ok L" "eds_ok app e" "dah_from_eds L e = (Inr (eh_dah header) :: (types_error, _) result)"
    and "i < eds_square_width e" "enough_shares e f"
  shows "befp_validate L (befp_of L e header axis i f) header =
    befp_rebuild L (eh_dah header) axis i (eds_square_width e div 2) (given_shares e axis i f)"
    and "dah_root (eh_dah header) axis i = Some (axis_root L e axis i)"
proof -
  let ?w = "eds_square_width e"
  have dah: "eh_dah header = \<lparr>dah_row_roots = map (axis_root L e Row) [0..<?w], dah_column_roots = map (axis_root L e Col) [0..<?w]\<rparr>"
    using assms(3) dah_from_eds_ok [OF assms(1,2), where 'e = types_error] by simp
  show root: "dah_root (eh_dah header) axis i = Some (axis_root L e axis i)"
    using assms(4) by (cases axis) (simp_all add: dah dah_root_def dah_row_root_def dah_column_root_def)
  then have same: "befp_root (eh_dah header) axis axis i j = Some (axis_root L e axis i)" for j
    by (cases axis) (simp_all add: dah_root_def)
  obtain t where t: "tree_of (sq_nmt L) (axis_shares e axis i) = Inr t" by (rule axis_tree [OF assms(1,2,4)])
  have "befp_check_share L (eh_dah header) axis i (j, map_option (leaf_with_proof L e axis i) (f j)) () = Inr ()" if "j < ?w" for j
  proof (cases "f j")
    case (Some c)
    then have "c < length (axis_shares e axis i)" using assms(5) that by (auto simp: enough_shares_def)
    from square_lib_okD(3) [OF assms(1) t this] show ?thesis
      using Some same t by (simp add: befp_check_share_def leaf_with_proof_def Let_def unwrap_o_def axis_root_def range_result_def)
  qed (simp add: befp_check_share_def)
  then have "fold_r (befp_check_share L (eh_dah header) axis i) (zip [0..<?w] (map (\<lambda>j. map_option (leaf_with_proof L e axis i) (f j)) [0..<?w])) () = Inr ()"
    by (intro fold_r_unit) (auto simp: set_zip)
  moreover have "length (filter (\<lambda>s. s \<noteq> None) (map (\<lambda>j. map_option (leaf_with_proof L e axis i) (f j)) [0..<?w])) =
      length (filter (\<lambda>j. f j \<noteq> None) [0..<?w])"
    by (simp add: filter_map comp_def)
  moreover have "map rebuilt_share (map (\<lambda>j. map_option (leaf_with_proof L e axis i) (f j)) [0..<?w]) = given_shares e axis i f"
    by (simp add: given_shares_def rebuilt_share_def leaf_with_proof_def Let_def split: option.split)
  moreover have "dah_square_width (eh_dah header) = (Inr ?w :: (types_error, _) result)"
    using eds_okD(2) [OF assms(2)] by (simp add: dah dah_square_width_def)
  ultimately show "befp_validate L (befp_of L e header axis i f) header =
      befp_rebuild L (eh_dah header) axis i (?w div 2) (given_shares e axis i f)"
    using assms(4,5) by (simp add: befp_validate_def befp_of_def Let_def dah enough_shares_def del: map_map)
qed

text \<open>The rebuilt shares as leaves of a tree.\<close>

definition rebuilt_leaves :: "nat \<Rightarrow> (nat \<times> byte list) list \<Rightarrow> share list" where
  "rebuilt_leaves k = map (\<lambda>(n, x). \<lparr>sh_data = x, sh_is_parity = (k \<le> n)\<rparr>)"

lemma befp_tree_push:
  "(\<And>n x. (n, x) \<in> set ys \<Longrightarrow> n < k \<Longrightarrow> 29 \<le> length x \<and> ns_ok (Namespace (take 29 x))) \<Longrightarrow>
   befp_tree lib k ys t = (Inr (case fold_r (push_own lib) (rebuilt_leaves k ys) t of Inl _ \<Rightarrow> None | Inr u \<Rightarrow> Some u) :: ('e, _) result)"
proof (induction ys arbitrary: t)
  case (Cons y ys)
  obtain n x where y: "y = (n, x)" by (cases y)
  define s where "s = \<lparr>sh_data = x, sh_is_parity = (k \<le> n)\<rparr>"
  have "rebuilt_namespace k n x = (Inr (share_namespace s) :: ('e, _) result)"
  proof (cases "n < k")
    case True
    with Cons.prems [of n x] have "29 \<le> length x" "ns_ok (Namespace (take 29 x))" by (simp_all add: y)
    then have "ns_from_raw (take 29 x) = Inr (Namespace (take 29 x))" by (simp add: ns_from_raw_iff)
    with \<open>29 \<le> length x\<close> True show ?thesis
      by (simp add: rebuilt_namespace_def share_namespace_def s_def new_unchecked_def share_sizes)
  qed (simp add: rebuilt_namespace_def share_namespace_def s_def)
  moreover have "rebuilt_leaves k (y # ys) = s # rebuilt_leaves k ys" by (simp add: rebuilt_leaves_def y s_def)
  moreover have "push_own lib s t = (case nl_push_leaf lib x (share_namespace s) t of Inl er \<Rightarrow> Inl (Err (Nmt er)) | Inr u \<Rightarrow> Inr u)"
    by (simp add: push_own_def push_share_def s_def)
  moreover have "befp_tree lib k ys u = (Inr (case fold_r (push_own lib) (rebuilt_leaves k ys) u of Inl _ \<Rightarrow> None | Inr v \<Rightarrow> Some v) :: ('e, _) result)" for u
    using Cons.prems by (intro Cons.IH) auto
  ultimately show ?case by (cases "nl_push_leaf lib x (share_namespace s) t") (simp_all add: y)
qed (simp add: rebuilt_leaves_def)

text \<open>The shares of an axis with data, read back from their bytes.\<close>

lemma axis_cell_facts:
  assumes "eds_ok app e" "i < eds_square_width e" "j < eds_square_width e"
  shows "share_ok (axis_shares e axis i ! j)"
    "sh_is_parity (axis_shares e axis i ! j) \<longleftrightarrow> \<not> (i < eds_square_width e div 2 \<and> j < eds_square_width e div 2)"
  using assms by (cases axis; auto simp: axis_shares_def axis_cell_def eds_ok_def Let_def is_ods_square_def)+

lemma rebuilt_axis:
  fixes axis :: axis_type
  assumes "eds_ok app e" "i < eds_square_width e div 2"
  defines "row \<equiv> map sh_data (axis_shares e axis i)"
  shows "rebuilt_leaves (eds_square_width e div 2) (zip [0..<length row] row) = axis_shares e axis i"
proof (rule nth_equalityI)
  fix j
  assume "j < length (rebuilt_leaves (eds_square_width e div 2) (zip [0..<length row] row))"
  then have j: "j < eds_square_width e" by (simp add: rebuilt_leaves_def row_def)
  have "i < eds_square_width e" using assms(2) by simp
  from axis_cell_facts(2) [OF assms(1) this j, of axis] show
    "rebuilt_leaves (eds_square_width e div 2) (zip [0..<length row] row) ! j = axis_shares e axis i ! j"
    using j assms(2) by (simp add: rebuilt_leaves_def row_def not_less)
qed (simp add: rebuilt_leaves_def row_def)

lemma data_share_bytes:
  assumes "eds_ok app e" "i < eds_square_width e div 2" "j < eds_square_width e div 2"
  shows "29 \<le> length (sh_data (axis_shares e axis i ! j)) \<and> ns_ok (Namespace (take 29 (sh_data (axis_shares e axis i ! j))))"
proof -
  have "i < eds_square_width e" "j < eds_square_width e" using assms(2,3) by simp_all
  from axis_cell_facts [OF assms(1) this, of axis] show ?thesis using assms(2,3) by (simp add: share_ok_def)
qed

text \<open>C10. Fraud proofs against a correct axis: take any row or column of a valid square that the codec
  restores from the shares put into the proof and encodes to itself, each share at its own place. When it
  has data, validation refuses the proof. When it is a parity axis and the first share does not begin with
  a namespace, validation panics.\<close>

theorem befp_correct_axis:
  assumes "square_lib_ok L" "eds_ok app e" "dah_from_eds L e = (Inr (eh_dah header) :: (types_error, _) result)"
    and "i < eds_square_width e" "enough_shares e f"
    and "sq_reconstruct L (given_shares e axis i f) (eds_square_width e div 2) = Inr (map sh_data (axis_shares e axis i))"
    and "sq_encode L (map sh_data (axis_shares e axis i)) (eds_square_width e div 2) = Inr (map sh_data (axis_shares e axis i))"
  shows "(i < eds_square_width e div 2 \<longrightarrow>
      befp_validate L (befp_of L e header axis i f) header = bail_validation ''recomputed root hash matches the one in header'') \<and>
    (\<not> ns_ok (Namespace (take 29 (sh_data (axis_shares e axis i ! 0)))) \<longrightarrow>
      panics (befp_validate L (befp_of L e header axis i f) header))"
proof (intro conjI impI)
  let ?k = "eds_square_width e div 2"
  define row where "row = map sh_data (axis_shares e axis i)"
  note v = befp_validate_of [OF assms(1-5), of axis]
  have w: "2 \<le> eds_square_width e" by (rule eds_okD(1) [OF assms(2)])
  show "befp_validate L (befp_of L e header axis i f) header = bail_validation ''recomputed root hash matches the one in header''"
    if "i < ?k"
  proof -
    obtain t where t: "tree_of (sq_nmt L) (axis_shares e axis i) = Inr t" by (rule axis_tree [OF assms(1,2,4)])
    have "befp_tree (sq_nmt L) ?k (zip [0..<length row] row) (nl_with_hasher (sq_nmt L) True) = (Inr (Some t) :: (types_error, _) result)"
      using t rebuilt_axis [OF assms(2) that, of axis, folded row_def] data_share_bytes [OF assms(2) that, of _ axis]
      by (subst befp_tree_push) (auto simp: set_zip row_def tree_of_def)
    then show ?thesis using v assms(6,7) t by (simp add: befp_rebuild_def unwrap_o_def axis_root_def flip: row_def)
  qed
  assume bad: "\<not> ns_ok (Namespace (take 29 (sh_data (axis_shares e axis i ! 0))))"
  obtain x xs where row: "row = x # xs" "x = sh_data (axis_shares e axis i ! 0)"
    using w by (cases "axis_shares e axis i") (auto simp: row_def simp flip: length_axis_shares [of e axis i])
  have "29 \<le> length x" using axis_cell_facts(1) [OF assms(2,4), of 0 axis] w row(2) by (simp add: share_ok_def)
  moreover have "\<not> (\<exists>n. ns_from_raw (take 29 x) = Inr n)"
    using bad by (metis namespace.exhaust_sel ns_from_raw_iff row(2))
  then obtain er where "ns_from_raw (take 29 x) = Inl er" by (cases "ns_from_raw (take 29 x)") auto
  ultimately have "panics (rebuilt_namespace ?k 0 x :: (types_error, _) result)"
    using w by (cases er) (simp_all add: rebuilt_namespace_def expect_r_def share_sizes)
  then show "panics (befp_validate L (befp_of L e header axis i f) header)"
    using v(1) assms(6,7) by (simp add: befp_rebuild_def upt_conv_Cons row panics_bind flip: row_def del: upt_Suc)
qed

text \<open>The tree accepts only leaves whose namespaces do not decrease, and reconstruction leaves a complete
  list of shards as it is.\<close>

definition ordered_lib :: "'t square_lib \<Rightarrow> bool" where
  "ordered_lib L \<longleftrightarrow> (\<forall>ss t. tree_of (sq_nmt L) ss = Inr t \<longrightarrow> sorted (map share_namespace ss)) \<and>
     (\<forall>xs k. [] \<notin> set xs \<longrightarrow> sq_reconstruct L xs k = Inr xs)"

definition swap_leaves :: "nat \<Rightarrow> nat \<Rightarrow> nat \<Rightarrow> nat option" where
  "swap_leaves a b j = Some (if j = a then b else if j = b then a else j)"

lemma swap_enough: "a < eds_square_width e \<Longrightarrow> b < eds_square_width e \<Longrightarrow> enough_shares e (swap_leaves a b)"
  by (simp add: enough_shares_def swap_leaves_def)

text \<open>C17. Fraud proofs do not tie a share to its place: in any valid square, correctly encoded or not, take a
  row or column with data and two of its data shares in different namespaces, and exchange the two
  shares with their proofs. Validation accepts the result as a proof of bad encoding of that block.\<close>

theorem befp_misplaced_convicts:
  assumes "square_lib_ok L" "leopard_ok L" "ordered_lib L" "eds_ok app e"
    and "dah_from_eds L e = (Inr (eh_dah header) :: (types_error, _) result)"
    and "i < eds_square_width e div 2" "a < b" "b < eds_square_width e div 2"
    and "share_namespace (axis_shares e axis i ! a) \<noteq> share_namespace (axis_shares e axis i ! b)"
  shows "befp_validate L (befp_of L e header axis i (swap_leaves a b)) header = Inr ()"
proof -
  define k where "k = eds_square_width e div 2"
  define p where "p j = (if j = a then b else if j = b then a else j)" for j
  define xs where "xs = given_shares e axis i (swap_leaves a b)"
  have i: "i < eds_square_width e" "a < eds_square_width e" "b < eds_square_width e" using assms(6-8) by auto
  have xs: "length xs = eds_square_width e" "\<And>j. j < eds_square_width e \<Longrightarrow> xs ! j = sh_data (axis_shares e axis i ! p j)"
    by (simp_all add: xs_def given_shares_def swap_leaves_def p_def)
  have p: "p j < eds_square_width e" if "j < eds_square_width e" for j using that i by (simp add: p_def)
  have pk: "p j < k" if "j < k" for j using that assms(7,8) by (auto simp: p_def k_def)
  have "xs ! j \<noteq> []" if "j < eds_square_width e" for j
    using axis_cell_facts(1) [OF assms(4) i(1) p [OF that], of axis] xs(2) [OF that] by (auto simp: share_ok_def)
  then have "[] \<notin> set xs" by (auto simp: in_set_conv_nth xs(1))
  then have r: "sq_reconstruct L xs k = Inr xs" using assms(3) by (simp add: ordered_lib_def)
  note v = befp_validate_of(1) [OF assms(1,4,5) i(1) swap_enough [OF i(2,3)], of axis, folded xs_def k_def]
  show ?thesis
  proof (cases "sq_encode L xs k")
    case (Inr ys)
    with assms(2) have ys: "length ys = length xs" "take k ys = take k xs" by (auto simp: leopard_ok_def)
    have y: "ys ! j = sh_data (axis_shares e axis i ! p j)" if "j < k" for j
      using take_eq_nth [OF ys(2) that] xs(2) [of j] that by (simp add: k_def)
    define leaves where "leaves = rebuilt_leaves k (zip [0..<length ys] ys)"
    have ns: "share_namespace (leaves ! j) = share_namespace (axis_shares e axis i ! p j)" "j < length leaves" if "j < k" for j
    proof -
      have "p j < eds_square_width e" "j < eds_square_width e" using pk [OF that] that by (auto simp: k_def)
      with axis_cell_facts(2) [OF assms(4) i(1), of "p j" axis] pk [OF that] assms(6)
      have "\<not> sh_is_parity (axis_shares e axis i ! p j)" by (simp add: k_def)
      then show "share_namespace (leaves ! j) = share_namespace (axis_shares e axis i ! p j)"
        using that y ys(1) xs(1) \<open>j < eds_square_width e\<close> by (simp add: leaves_def rebuilt_leaves_def share_namespace_def)
      show "j < length leaves" using ys(1) xs(1) \<open>j < eds_square_width e\<close> by (simp add: leaves_def rebuilt_leaves_def)
    qed
    have "\<not> sorted (map share_namespace leaves)"
    proof
      assume s: "sorted (map share_namespace leaves)"
      have "share_namespace (axis_shares e axis i ! b) \<le> share_namespace (axis_shares e axis i ! a)"
        using sorted_nth_mono [OF s, of a b] ns [of a] ns [of b] assms(7,8) by (simp add: p_def k_def)
      moreover have "share_namespace (axis_shares e axis i ! a) \<le> share_namespace (axis_shares e axis i ! b)"
        using sorted_nth_mono [OF eds_okD(4) [OF assms(4) i(1), of axis], of a b] assms(7) i by simp
      ultimately show False using assms(9) by simp
    qed
    then obtain er where "fold_r (push_own (sq_nmt L)) leaves (nl_with_hasher (sq_nmt L) True) = Inl er"
      using assms(3) by (cases "tree_of (sq_nmt L) leaves") (auto simp: ordered_lib_def tree_of_def)
    moreover have "29 \<le> length x \<and> ns_ok (Namespace (take 29 x))" if "(n, x) \<in> set (zip [0..<length ys] ys)" "n < k" for n x
      using that y data_share_bytes [OF assms(4,6), of "p n" axis] pk by (auto simp: set_zip k_def)
    ultimately have "befp_tree (sq_nmt L) k (zip [0..<length ys] ys) (nl_with_hasher (sq_nmt L) True) = (Inr None :: (types_error, _) result)"
      by (subst befp_tree_push) (auto simp flip: leaves_def)
    with v r Inr show ?thesis by (simp add: befp_rebuild_def)
  qed (use v r in \<open>simp add: befp_rebuild_def\<close>)
qed

section \<open>Witnesses\<close>

definition toy_dah :: "eds \<Rightarrow> data_availability_header" where
  "toy_dah e = \<lparr>dah_row_roots = map (axis_root toy_square e Row) [0..<eds_square_width e],
     dah_column_roots = map (axis_root toy_square e Col) [0..<eds_square_width e]\<rparr>"

definition toy_fraud_header :: "eds \<Rightarrow> extended_header" where
  "toy_fraud_header e = (toy_header 5)\<lparr>eh_dah := toy_dah e\<rparr>"

lemma toy_fraud_dah: "eds_ok app e \<Longrightarrow> dah_from_eds toy_square e = Inr (eh_dah (toy_fraud_header e))"
  using dah_from_eds_ok [OF toy_square_ok] by (simp add: toy_fraud_header_def toy_dah_def)

theorem befp_correct_axis_witness:
  "befp_validate toy_square (befp_of toy_square toy_eds (toy_fraud_header toy_eds) Row 0 Some) (toy_fraud_header toy_eds) =
     bail_validation ''recomputed root hash matches the one in header''"
proof -
  have "enough_shares toy_eds Some" by (simp add: enough_shares_def)
  moreover have "given_shares toy_eds Row 0 Some = map sh_data (axis_shares toy_eds Row 0)"
    by (simp add: given_shares_def axis_shares_def comp_def)
  ultimately show ?thesis
    using befp_correct_axis [OF toy_square_ok toy_eds_ok toy_fraud_dah [OF toy_eds_ok], of 0 Some Row]
    by (simp add: toy_eds_def toy_square_def)
qed

text \<open>A square with two namespaces in each row.\<close>

definition toy_ns2 :: namespace where
  "toy_ns2 = const_v0 [1, 2, 3, 4, 5, 6, 7, 8, 9, 11]"

definition toy_share2 :: share where
  "toy_share2 = \<lparr>sh_data = as_bytes toy_ns2 @ [1] @ replicate 482 6, sh_is_parity = False\<rparr>"

definition toy_eds2 :: eds where
  "toy_eds2 = \<lparr>eds_data_square = [toy_share, toy_share2, toy_parity, toy_parity, toy_share, toy_share2, toy_parity, toy_parity] @
     replicate 8 toy_parity, eds_codec = ''Leopard'', eds_square_width = 4\<rparr>"

lemma toy_share2_facts: "share_ok toy_share2" "share_validate toy_share2 app = Inr ()" "share_namespace toy_share2 = toy_ns2"
proof -
  have "ns_ok toy_ns2" by (simp add: toy_ns2_def)
  moreover from this have "length (as_bytes toy_ns2) = 29" by (rule ns_ok_length)
  ultimately show "share_ok toy_share2" "share_validate toy_share2 app = Inr ()" "share_namespace toy_share2 = toy_ns2"
    by (simp_all add: share_ok_def share_namespace_def share_validate_def share_info_byte_def toy_share2_def new_unchecked_def share_sizes
        nth_append info_version_def SHARE_VERSION_ONE_def)
qed

lemma toy_ns_order: "toy_ns < toy_ns2" "toy_ns2 \<le> PARITY_SHARE" "toy_ns \<le> PARITY_SHARE"
  by (simp_all add: less_namespace_def less_eq_namespace_def toy_ns_def toy_ns2_def PARITY_SHARE_def const_v0_def ns_sizes numeral_eq_Suc take_bit_Suc)

lemma toy_eds2_ok: "eds_ok V1 toy_eds2"
proof -
  have u: "[0..<4] = [0, 1, 2, 3 :: nat]" by (simp add: numeral_eq_Suc)
  have q: "(\<forall>i < 4. P i) \<longleftrightarrow> P 0 \<and> P 1 \<and> P 2 \<and> P (3 :: nat)" for P
    by (auto simp: numeral_eq_Suc less_Suc_eq)
  have r: "replicate 8 toy_parity = [toy_parity, toy_parity, toy_parity, toy_parity, toy_parity, toy_parity, toy_parity, toy_parity]"
    by (simp add: numeral_eq_Suc)
  show ?thesis using toy_ns_order toy_shares toy_share2_facts
    by (simp add: eds_ok_def toy_eds2_def r q u cell_def is_ods_square_def count_ones.simps [of 4] count_ones.simps [of 2] count_ones.simps [of "Suc 0"]
        count_ones.simps [of 0] max_extended_square_width_def toy_share_def [THEN arg_cong, of sh_is_parity]
        toy_share2_def [THEN arg_cong, of sh_is_parity] toy_parity_def [THEN arg_cong, of sh_is_parity])
qed

theorem befp_misplaced_convicts_witness:
  "befp_validate toy_square (befp_of toy_square toy_eds2 (toy_fraud_header toy_eds2) Row 0 (swap_leaves 0 1)) (toy_fraud_header toy_eds2) = Inr ()"
proof -
  have "leopard_ok toy_square" "ordered_lib toy_square" using toy_tree by (simp_all add: leopard_ok_def ordered_lib_def toy_square_def)
  moreover have "share_namespace (axis_shares toy_eds2 Row 0 ! 0) \<noteq> share_namespace (axis_shares toy_eds2 Row 0 ! 1)"
    using toy_shares(3) toy_share2_facts(3) toy_ns_order(1) by (simp add: axis_shares_def axis_cell_def cell_def toy_eds2_def)
  ultimately show ?thesis
    using befp_misplaced_convicts [OF toy_square_ok _ _ toy_eds2_ok toy_fraud_dah [OF toy_eds2_ok], of 0 0 1 Row]
    by (simp add: toy_eds2_def)
qed

end
