(* ===== verification/Spec2Isabelle.thy ===== *)
theory Spec2Isabelle
  imports Pruner_Properties Fraud_Proofs
begin

text \<open>
  A verification library for Lumina, a light node of the Celestia network written in Rust.

  \<^bold>\<open>The program.\<close> The node follows a chain of block headers. Headers are validated and verified
  against each other (crate \<open>types\<close>), kept in a header store, and brought in by the syncer,
  which asks the network for missing ranges and announces new headers to subscribers (crate
  \<open>node\<close>). What is stored, sampled and pruned is recorded as sets of heights, the
  \<open>BlockRanges\<close>.

  \<^bold>\<open>The theories.\<close>
  \<^item> \<open>Prelude\<close>: results of fallible code, with panics as values; 64-bit arithmetic; vectors.
  \<^item> \<open>Block_Ranges\<close> models \<open>node/src/block_ranges.rs\<close>; \<open>Block_Ranges_Sets\<close>, \<open>_Ops\<close>,
    \<open>_Constraints\<close>, \<open>_Search\<close> and \<open>_Partition\<close> show that every operation computes its set
    operation, keeps the invariant and does not panic; \<open>Block_Ranges_Algebra\<close> states the contract
    \<open>height_set\<close> and the properties.
  \<^item> \<open>App_Consts\<close> models \<open>types/src/consts.rs\<close>. \<open>Headers\<close> models \<open>extended_header.rs\<close>,
    \<open>block/header.rs\<close>, \<open>block/commit.rs\<close>, \<open>validator_set.rs\<close>, \<open>trust_level.rs\<close> and
    \<open>data_availability_header.rs\<close>. \<open>Commit_Verification\<close> and \<open>Header_Chain\<close> show what an accepted
    commit and an accepted chain guarantee.
  \<^item> \<open>Store\<close> models the trait of \<open>node/src/store.rs\<close> as the record \<open>store_ops\<close>. \<open>Store_Spec\<close> is the
    specification with one table, and the contract \<open>header_store\<close>. \<open>In_Memory_Store\<close>,
    \<open>Redb_Store\<close> with \<open>Redb_Simulation\<close>, and \<open>Either_Store\<close> model the implementations and show
    that they keep the contract; \<open>Store_Properties\<close> holds the properties.
  \<^item> \<open>Node_Types\<close> models events and errors. \<open>Broadcasting_Store\<close> models the announcing store of
    \<open>node/src/node/subscriptions.rs\<close>. \<open>Syncer\<close> models \<open>node/src/syncer.rs\<close>: its state is the record
    \<open>syncer\<close>, each handler is a definition of the same name, and \<open>syncer_event_step\<close> is the event
    loop. \<open>Syncer_Invariants\<close>, \<open>Syncer_Batches\<close> and \<open>Syncer_Progress\<close> show what every state keeps,
    which ranges are requested, and that the node catches up; \<open>Syncer_Properties\<close> holds the
    properties.

  \<^bold>\<open>How the code is modelled.\<close> A method that changes an object returns the new object with its
  result. Unsigned integers are natural numbers with the bound \<open>u64_max\<close> checked where the code
  can reach it: an overflow is a panic, as in a build with overflow checks, and debug assertions
  are kept. An asynchronous handler runs as one step; between the steps of one worker the
  shared store may change arbitrarily. The clock, the answers of the network and the errors
  of the database engine are arguments. The loop over pending ranges of the announcing store is
  a function with a termination proof; the rounds of the syncer are counted, and as many as the
  network has headers are shown to be enough.

  \<^bold>\<open>Parameters.\<close> The Tendermint crate is the record \<open>tendermint\<close>; the protobuf codec is the record
  \<open>codec\<close>, with the hypothesis \<open>codec_ok\<close> that it decodes what it encodes; the transactions of the
  database engine are the record \<open>tx_env\<close>.

  \<^bold>\<open>Not modelled.\<close> Networking over libp2p, the data sampler and the pruner, the data layer (squares,
  shares, blobs, Merkle trees), the browser store, the RPC and gRPC clients, the bindings to
  other languages, serialisation to JSON and protobuf, logging and the texts of errors.
\<close>

end
